(* ===== verification/Kafka_Error.thy ===== *)
theory Kafka_Error
  imports Main
begin

text \<open>
  \<open>src/include/kafka/Error.h\<close>: the error value of the Kafka client library. It either wraps
  librdkafka's rich error object (\<open>rd_kafka_error_t\<close>, seen through its five accessors) or
  holds a plain response code with an optional text. \<open>rd_kafka_err2str\<close> is a parameter.
  A \<open>KafkaException\<close> stores a copy of the error it is thrown with, so what a copy keeps is
  what a handler can see.
\<close>

record rd_kafka_error =
  rke_code :: int
  rke_string :: string
  rke_is_fatal :: bool
  rke_is_retriable :: bool
  rke_txn_requires_abort :: bool

record Error =
  err_rkError :: "rd_kafka_error option"
  err_respErr :: int
  err_message :: "string option"
  err_isFatal :: bool
  err_txnRequiresAbort :: bool
  err_isRetriable :: "bool option"

text \<open>The three constructors.\<close>

definition Error_rich :: "rd_kafka_error option \<Rightarrow> Error" where
  "Error_rich e = \<lparr>err_rkError = e, err_respErr = 0, err_message = None, err_isFatal = False,
     err_txnRequiresAbort = False, err_isRetriable = None\<rparr>"

definition Error_code :: "int \<Rightarrow> Error" where
  "Error_code respErr = \<lparr>err_rkError = None, err_respErr = respErr, err_message = None,
     err_isFatal = False, err_txnRequiresAbort = False, err_isRetriable = None\<rparr>"

definition Error_text :: "int \<Rightarrow> string \<Rightarrow> bool \<Rightarrow> Error" where
  "Error_text respErr msg fatal = \<lparr>err_rkError = None, err_respErr = respErr,
     err_message = Some msg, err_isFatal = fatal, err_txnRequiresAbort = False,
     err_isRetriable = None\<rparr>"

text \<open>The accessors.\<close>

definition Error_value :: "Error \<Rightarrow> int" where
  "Error_value e = (case err_rkError e of Some r \<Rightarrow> rke_code r | None \<Rightarrow> err_respErr e)"

definition Error_message :: "(int \<Rightarrow> string) \<Rightarrow> Error \<Rightarrow> string" where
  "Error_message err2str e =
     (case err_message e of
        Some m \<Rightarrow> m
      | None \<Rightarrow> (case err_rkError e of Some r \<Rightarrow> rke_string r | None \<Rightarrow> err2str (err_respErr e)))"

definition Error_isFatal :: "Error \<Rightarrow> bool" where
  "Error_isFatal e = (case err_rkError e of Some r \<Rightarrow> rke_is_fatal r | None \<Rightarrow> err_isFatal e)"

definition Error_isRetriable :: "Error \<Rightarrow> bool option" where
  "Error_isRetriable e =
     (case err_rkError e of Some r \<Rightarrow> Some (rke_is_retriable r) | None \<Rightarrow> err_isRetriable e)"

definition Error_transactionRequiresAbort :: "Error \<Rightarrow> bool" where
  "Error_transactionRequiresAbort e =
     (case err_rkError e of Some r \<Rightarrow> rke_txn_requires_abort r | None \<Rightarrow> False)"

text \<open>\<open>explicit operator bool\<close>: whether there is an error.\<close>

definition Error_bool :: "Error \<Rightarrow> bool" where
  "Error_bool e = (Error_value e \<noteq> 0)"

text \<open>The assignment operator, on an object other than its argument; the copy constructor is
  the assignment to a fresh object.\<close>

definition Error_copy :: "Error \<Rightarrow> Error" where
  "Error_copy e = \<lparr>err_rkError = None, err_respErr = Error_value e, err_message = err_message e,
     err_isFatal = Error_isFatal e, err_txnRequiresAbort = Error_transactionRequiresAbort e,
     err_isRetriable = Error_isRetriable e\<rparr>"

lemmas Error_defs = Error_rich_def Error_code_def Error_text_def Error_value_def
  Error_isFatal_def Error_isRetriable_def Error_transactionRequiresAbort_def Error_bool_def

lemma Error_value_simps [simp]:
  "Error_value (Error_code c) = c"
  "Error_value (Error_text c m f) = c"
  "Error_value (Error_rich None) = 0"
  "Error_value (Error_rich (Some r)) = rke_code r"
  by (simp_all add: Error_defs)

text \<open>A copy keeps the code, the fatal and the retriable flag.\<close>

lemma Error_copy_keeps [simp]:
  "Error_value (Error_copy e) = Error_value e"
  "Error_isFatal (Error_copy e) = Error_isFatal e"
  "Error_isRetriable (Error_copy e) = Error_isRetriable e"
  "Error_bool (Error_copy e) = Error_bool e"
  by (simp_all add: Error_copy_def Error_defs)

text \<open>It does not keep the abort flag, which is stored but never read, nor the text of the
  rich error.\<close>

lemma Error_copy_loses:
  "\<not> Error_transactionRequiresAbort (Error_copy e)"
  "err_message e = None \<Longrightarrow> Error_message err2str (Error_copy e) = err2str (Error_value e)"
  by (simp_all add: Error_copy_def Error_defs Error_message_def)

end
