(* ===== verification/Prelude.thy ===== *)
theory Prelude
  imports Main Kafka_Error "HOL-Library.Word"
begin

text \<open>
  Shared vocabulary of the development: the ways a C++ operation can fail to return, the
  result type that carries them, and the pieces of the C++ standard library that the
  collector's sources use (\<open>std::map\<close>, \<open>std::vector\<close>, \<open>std::string\<close>, \<open>std::stoi\<close>).
  Nothing here models a file of the repository, the error value of a \<open>KafkaException\<close> comes from
  Kafka_Error; every component theory imports it.
\<close>

named_theorems res_simps \<open>rewriting of the result type\<close>
named_theorems str_simps \<open>rewriting of the string primitives\<close>

section \<open>Failures as values\<close>

text \<open>
  \<open>Throw\<close> is a C++ exception, \<open>Exit\<close> a call of \<open>std::exit\<close>, \<open>Abort\<close> a call of
  \<open>std::abort\<close>, and \<open>Undefined\<close> an evaluation whose behaviour the C++ standard leaves
  undefined.
\<close>

datatype exn =
    Out_of_range
  | Invalid_argument
  | Json_logic_error
  | Json_runtime_error
  | Zmq_error int
  | Bad_optional_access
  | Spdlog_error
  | Kafka_exception Error
  | Io_failure
  | Length_error
  | Runtime_error

datatype ub =
    Erase_at_end
  | Index_out_of_bounds
  | Signed_overflow
  | Use_after_free
  | Invalid_free
  | Null_dereference

datatype error =
    Throw exn
  | Exit int
  | Abort
  | Undefined ub

type_synonym 'a res = "error + 'a"

definition bindr :: "'a res \<Rightarrow> ('a \<Rightarrow> 'b res) \<Rightarrow> 'b res" where
  "bindr m f = (case m of Inl e \<Rightarrow> Inl e | Inr x \<Rightarrow> f x)"

lemma bindr_Inl [simp, res_simps]: "bindr (Inl e) f = Inl e"
  by (simp add: bindr_def)

lemma bindr_Inr [simp, res_simps]: "bindr (Inr x) f = f x"
  by (simp add: bindr_def)

lemma bindr_right [simp, res_simps]: "bindr m Inr = m"
  by (cases m) auto

lemma bindr_eq_Inr: "bindr m f = Inr y \<longleftrightarrow> (\<exists>x. m = Inr x \<and> f x = Inr y)"
  by (cases m) auto

lemma bindr_eq_Inl: "bindr m f = Inl e \<longleftrightarrow> m = Inl e \<or> (\<exists>x. m = Inr x \<and> f x = Inl e)"
  by (cases m) auto

lemma bindr_assoc: "bindr (bindr m f) g = bindr m (\<lambda>x. bindr (f x) g)"
  by (cases m) auto

lemma bindr_cong [fundef_cong]:
  "m = m' \<Longrightarrow> (\<And>x. m' = Inr x \<Longrightarrow> f x = f' x) \<Longrightarrow> bindr m f = bindr m' f'"
  by (cases m') auto

lemma bindr_split:
  "P (bindr m f) \<longleftrightarrow> (\<forall>e. m = Inl e \<longrightarrow> P (Inl e)) \<and> (\<forall>x. m = Inr x \<longrightarrow> P (f x))"
  by (cases m) auto

text \<open>A \<open>for\<close> loop whose body can fail: it stops at the first failure.\<close>

fun foldM :: "('a \<Rightarrow> 's \<Rightarrow> 's res) \<Rightarrow> 'a list \<Rightarrow> 's \<Rightarrow> 's res" where
  "foldM f [] s = Inr s"
| "foldM f (x # xs) s = bindr (f x s) (foldM f xs)"

lemma foldM_append: "foldM f (xs @ ys) s = bindr (foldM f xs s) (foldM f ys)"
  by (induction xs arbitrary: s) (auto simp: bindr_def split: sum.splits)

lemma foldM_cong [fundef_cong]:
  "xs = ys \<Longrightarrow> s = t \<Longrightarrow> (\<And>x u. x \<in> set ys \<Longrightarrow> f x u = g x u) \<Longrightarrow> foldM f xs s = foldM g ys t"
proof (induction xs arbitrary: ys s t)
  case Nil
  then show ?case by auto
next
  case (Cons x xs)
  have "foldM f xs = foldM g xs" using Cons.IH [OF refl refl] Cons.prems by fastforce
  then show ?case using Cons.prems by auto
qed

text \<open>An invariant of the loop body holds after the loop.\<close>

lemma foldM_invariant:
  assumes "foldM f xs s = Inr t" and "I s"
    and "\<And>x u v. x \<in> set xs \<Longrightarrow> I u \<Longrightarrow> f x u = Inr v \<Longrightarrow> I v"
  shows "I t"
  using assms
proof (induction xs arbitrary: s)
  case Nil
  then show ?case by simp
next
  case (Cons x xs)
  then obtain u where "f x s = Inr u" and u: "foldM f xs u = Inr t"
    by (auto simp: bindr_eq_Inr)
  then have "I u" using Cons.prems(2,3) by (metis list.set_intros(1))
  then show ?case using Cons.IH [OF u] Cons.prems(3) by (metis list.set_intros(2))
qed

text \<open>A body that never fails under the invariant gives a loop that never fails.\<close>

lemma foldM_total:
  assumes "I s"
    and "\<And>x u. x \<in> set xs \<Longrightarrow> I u \<Longrightarrow> \<exists>v. f x u = Inr v \<and> I v"
  shows "\<exists>t. foldM f xs s = Inr t \<and> I t"
  using assms
proof (induction xs arbitrary: s)
  case Nil
  then show ?case by simp
next
  case (Cons x xs)
  then obtain u where u: "f x s = Inr u" "I u" by (metis list.set_intros(1))
  then obtain t where "foldM f xs u = Inr t \<and> I t"
    using Cons.IH [OF u(2)] Cons.prems(2) by (metis list.set_intros(2))
  then show ?case using u by simp
qed

text \<open>A loop that pushes one result per element.\<close>

fun mapM :: "('a \<Rightarrow> 'b res) \<Rightarrow> 'a list \<Rightarrow> 'b list res" where
  "mapM f [] = Inr []"
| "mapM f (x # xs) = bindr (f x) (\<lambda>y. bindr (mapM f xs) (\<lambda>ys. Inr (y # ys)))"

lemma mapM_Inr: "(\<forall>x\<in>set xs. f x = Inr (g x)) \<Longrightarrow> mapM f xs = Inr (map g xs)"
  by (induction xs) auto

lemma mapM_Inl: "x \<in> set xs \<Longrightarrow> (\<And>y. y \<in> set xs \<Longrightarrow> f y = Inl e \<or> (\<exists>v. f y = Inr v)) \<Longrightarrow> f x = Inl e \<Longrightarrow>
    mapM f xs = Inl e"
proof (induction xs)
  case (Cons y ys)
  show ?case
  proof (cases "f y")
    case (Inl e')
    then show ?thesis using Cons.prems(2) [of y] by auto
  next
    case (Inr v)
    then have "x \<in> set ys" using Cons.prems(1,3) by auto
    then show ?thesis using Cons Inr by auto
  qed
qed simp

lemma mapM_length: "mapM f xs = Inr ys \<Longrightarrow> length ys = length xs"
  by (induction xs arbitrary: ys) (auto simp: bindr_eq_Inr)

lemma mapM_nth: "mapM f xs = Inr ys \<Longrightarrow> i < length xs \<Longrightarrow> f (xs ! i) = Inr (ys ! i)"
  by (induction xs arbitrary: ys i) (auto simp: bindr_eq_Inr nth_Cons split: nat.splits)

section \<open>Containers\<close>

text \<open>\<open>std::map::at\<close> and \<open>std::unordered_map::at\<close>: an absent key throws.\<close>

definition map_at :: "('k \<rightharpoonup> 'v) \<Rightarrow> 'k \<Rightarrow> 'v res" where
  "map_at m k = (case m k of None \<Rightarrow> Inl (Throw Out_of_range) | Some v \<Rightarrow> Inr v)"

lemma map_at_Some [simp]: "m k = Some v \<Longrightarrow> map_at m k = Inr v"
  by (simp add: map_at_def)

lemma map_at_None [simp]: "m k = None \<Longrightarrow> map_at m k = Inl (Throw Out_of_range)"
  by (simp add: map_at_def)

lemma map_at_eq_Inr [simp]: "map_at m k = Inr v \<longleftrightarrow> m k = Some v"
  by (auto simp: map_at_def split: option.splits)

lemma map_at_eq_Inl [simp]: "map_at m k = Inl e \<longleftrightarrow> m k = None \<and> e = Throw Out_of_range"
  by (auto simp: map_at_def split: option.splits)

text \<open>\<open>std::map::emplace\<close>: the entry is added only when the key is absent.\<close>

definition emplace :: "('k \<rightharpoonup> 'v) \<Rightarrow> 'k \<Rightarrow> 'v \<Rightarrow> ('k \<rightharpoonup> 'v)" where
  "emplace m k v = (case m k of None \<Rightarrow> m(k \<mapsto> v) | Some _ \<Rightarrow> m)"

lemma emplace_other [simp]: "k' \<noteq> k \<Longrightarrow> emplace m k v k' = m k'"
  by (simp add: emplace_def split: option.splits)

lemma emplace_fresh [simp]: "m k = None \<Longrightarrow> emplace m k v = m(k \<mapsto> v)"
  by (simp add: emplace_def)

lemma emplace_same: "emplace m k v k = (case m k of None \<Rightarrow> Some v | Some w \<Rightarrow> Some w)"
  by (simp add: emplace_def split: option.splits)

lemma dom_emplace [simp]: "dom (emplace m k v) = insert k (dom m)"
  by (auto simp: emplace_def split: option.splits)

lemma emplace_le: "m \<subseteq>\<^sub>m emplace m k v"
  by (auto simp: emplace_def map_le_def split: option.splits)

lemma map_of_rev_distinct: "distinct (map fst kvs) \<Longrightarrow> map_of (rev kvs) = map_of kvs"
proof (induction kvs)
  case Nil
  then show ?case by simp
next
  case (Cons kv kvs)
  obtain k v where kv: "kv = (k, v)" by (cases kv)
  have "map_of kvs k = None" using Cons.prems kv by (auto simp: map_of_eq_None_iff)
  then show ?case using Cons kv by (auto simp: map_add_def split: option.splits)
qed

text \<open>\<open>std::vector::at\<close> throws out of range; \<open>operator[]\<close> is undefined there.\<close>

definition vec_at :: "'a list \<Rightarrow> nat \<Rightarrow> 'a res" where
  "vec_at xs i = (if i < length xs then Inr (xs ! i) else Inl (Throw Out_of_range))"

definition vec_index :: "'a list \<Rightarrow> nat \<Rightarrow> 'a res" where
  "vec_index xs i = (if i < length xs then Inr (xs ! i) else Inl (Undefined Index_out_of_bounds))"

lemma vec_at_less [simp]: "i < length xs \<Longrightarrow> vec_at xs i = Inr (xs ! i)"
  by (simp add: vec_at_def)

lemma vec_index_less [simp]: "i < length xs \<Longrightarrow> vec_index xs i = Inr (xs ! i)"
  by (simp add: vec_index_def)

text \<open>\<open>xs.at(i) = v\<close>, \<open>xs.resize(n)\<close>, \<open>xs.erase(begin + i)\<close> and \<open>xs.insert(begin + i, v)\<close>.
  An iterator past the end makes the last two undefined.\<close>

definition vec_put :: "'a list \<Rightarrow> nat \<Rightarrow> 'a \<Rightarrow> 'a list res" where
  "vec_put xs i v = (if i < length xs then Inr (xs[i := v]) else Inl (Throw Out_of_range))"

definition resize :: "'a \<Rightarrow> nat \<Rightarrow> 'a list \<Rightarrow> 'a list" where
  "resize x n xs = take n xs @ replicate (n - length xs) x"

definition vec_erase :: "'a list \<Rightarrow> nat \<Rightarrow> 'a list res" where
  "vec_erase xs i = (if i < length xs then Inr (take i xs @ drop (Suc i) xs)
     else Inl (Undefined Erase_at_end))"

definition vec_insert :: "'a list \<Rightarrow> nat \<Rightarrow> 'a \<Rightarrow> 'a list res" where
  "vec_insert xs i v = (if i \<le> length xs then Inr (take i xs @ v # drop i xs)
     else Inl (Undefined Index_out_of_bounds))"

lemma length_resize [simp]: "length (resize x n xs) = n"
  by (simp add: resize_def)

lemma nth_resize: "i < n \<Longrightarrow> resize x n xs ! i = (if i < length xs then xs ! i else x)"
  by (simp add: resize_def nth_append)

lemma vec_put_less [simp]: "i < length xs \<Longrightarrow> vec_put xs i v = Inr (xs[i := v])"
  by (simp add: vec_put_def)

end
