(* ===== verification/Cpp_Strings.thy ===== *)
theory Cpp_Strings
  imports Prelude "HOL-Library.Sublist"
begin

text \<open>
  The members of \<open>std::string\<close> and the numeric conversions the collector's sources call.
  A \<open>std::string\<close> is a \<open>char list\<close> of bytes; \<open>std::string::npos\<close> is \<open>None\<close>
  where the sources compare against it, and the largest \<open>size_t\<close> where they compute
  with it (theory \<open>Label_Map\<close>).
\<close>

section \<open>Searching and slicing\<close>

text \<open>\<open>s.find(c)\<close>: the index of the first occurrence.\<close>

fun str_find :: "char \<Rightarrow> string \<Rightarrow> nat option" where
  "str_find c [] = None"
| "str_find c (x # xs) = (if x = c then Some 0 else map_option Suc (str_find c xs))"

text \<open>\<open>s.rfind(c)\<close>, and \<open>s.find_last_of\<close> of a one-character set: the last occurrence.\<close>

fun str_rfind :: "char \<Rightarrow> string \<Rightarrow> nat option" where
  "str_rfind c [] = None"
| "str_rfind c (x # xs) =
     (case str_rfind c xs of Some i \<Rightarrow> Some (Suc i) | None \<Rightarrow> if x = c then Some 0 else None)"

text \<open>\<open>s.substr(pos, n)\<close> and \<open>s.substr(pos)\<close>: a start past the end throws.\<close>

definition substr :: "string \<Rightarrow> nat \<Rightarrow> nat \<Rightarrow> string res" where
  "substr s pos n = (if length s < pos then Inl (Throw Out_of_range) else Inr (take n (drop pos s)))"

definition substr_from :: "string \<Rightarrow> nat \<Rightarrow> string res" where
  "substr_from s pos = (if length s < pos then Inl (Throw Out_of_range) else Inr (drop pos s))"

text \<open>\<open>s[i]\<close>: reading one past the end gives the terminator, further is undefined.\<close>

definition str_index :: "string \<Rightarrow> nat \<Rightarrow> char res" where
  "str_index s i = (if i < length s then Inr (s ! i)
     else if i = length s then Inr (CHR 0x00) else Inl (Undefined Index_out_of_bounds))"

text \<open>\<open>s.find(t) != npos\<close>, and C's \<open>strstr(s, t) != NULL\<close>.\<close>

definition contains :: "string \<Rightarrow> string \<Rightarrow> bool" where
  "contains s t = sublist t s"

text \<open>The C string a \<open>char *\<close> denotes: everything before the first NUL.\<close>

definition c_str :: "string \<Rightarrow> string" where
  "c_str s = takeWhile (\<lambda>c. c \<noteq> CHR 0x00) s"

lemma str_find_None [str_simps]: "str_find c s = None \<longleftrightarrow> c \<notin> set s"
  by (induction s) auto

lemma str_rfind_None [str_simps]: "str_rfind c s = None \<longleftrightarrow> c \<notin> set s"
  by (induction s) (auto split: option.splits)

lemma str_find_append [str_simps]: "c \<notin> set s \<Longrightarrow> str_find c (s @ c # t) = Some (length s)"
  by (induction s) auto

lemma str_rfind_append [str_simps]: "c \<notin> set t \<Longrightarrow> str_rfind c (s @ c # t) = Some (length s)"
  by (induction s) (auto simp: str_rfind_None split: option.splits)

lemma str_find_SomeD:
  "str_find c s = Some i \<Longrightarrow> i < length s \<and> s ! i = c \<and> c \<notin> set (take i s)"
  by (induction s arbitrary: i) (auto split: if_splits)

lemma str_rfind_SomeD:
  "str_rfind c s = Some i \<Longrightarrow> i < length s \<and> s ! i = c \<and> c \<notin> set (drop (Suc i) s)"
  by (induction s arbitrary: i) (auto simp: str_rfind_None split: option.splits if_splits)

lemma str_find_split: "str_find c s = Some i \<Longrightarrow> s = take i s @ c # drop (Suc i) s"
  using str_find_SomeD id_take_nth_drop by metis

lemma str_rfind_split: "str_rfind c s = Some i \<Longrightarrow> s = take i s @ c # drop (Suc i) s"
  using str_rfind_SomeD id_take_nth_drop by metis

lemma substr_le [str_simps]: "pos \<le> length s \<Longrightarrow> substr s pos n = Inr (take n (drop pos s))"
  by (simp add: substr_def)

lemma substr_from_le [str_simps]: "pos \<le> length s \<Longrightarrow> substr_from s pos = Inr (drop pos s)"
  by (simp add: substr_from_def)

lemma c_str_id: "CHR 0x00 \<notin> set s \<Longrightarrow> c_str s = s"
  by (simp add: c_str_def takeWhile_eq_all_conv) metis

lemma c_str_idem [simp]: "c_str (c_str s) = c_str s"
  by (rule c_str_id) (auto simp: c_str_def dest: set_takeWhileD)

section \<open>Numbers\<close>

definition is_space :: "char \<Rightarrow> bool" where
  "is_space c = (let n = of_char c :: nat in n = 32 \<or> (9 \<le> n \<and> n \<le> 13))"

definition is_digit :: "char \<Rightarrow> bool" where
  "is_digit c = (let n = of_char c :: nat in 48 \<le> n \<and> n \<le> 57)"

definition digit_val :: "char \<Rightarrow> nat" where
  "digit_val c = of_char c - 48"

definition digit_char :: "nat \<Rightarrow> char" where
  "digit_char d = char_of (d + 48)"

text \<open>The range of the 32-bit \<open>int\<close> of the supported platforms.\<close>

definition int32_ok :: "int \<Rightarrow> bool" where
  "int32_ok n = (- (2 ^ 31) \<le> n \<and> n < 2 ^ 31)"

definition dec_val :: "string \<Rightarrow> nat" where
  "dec_val ds = foldl (\<lambda>n c. 10 * n + digit_val c) 0 ds"

text \<open>
  \<open>std::stoi(s)\<close>: skip white space, take an optional sign and the longest run of decimal
  digits, ignore whatever follows. No digit throws \<open>std::invalid_argument\<close>, a value
  outside \<open>int\<close> throws \<open>std::out_of_range\<close>.
\<close>

definition stoi :: "string \<Rightarrow> int res" where
  "stoi s =
     (let t = dropWhile is_space s;
          neg = (t \<noteq> [] \<and> hd t = CHR ''-'');
          u = (if t \<noteq> [] \<and> (hd t = CHR ''-'' \<or> hd t = CHR ''+'') then tl t else t);
          ds = takeWhile is_digit u;
          v = (if neg then - int (dec_val ds) else int (dec_val ds))
      in if ds = [] then Inl (Throw Invalid_argument)
         else if int32_ok v then Inr v else Inl (Throw Out_of_range))"

text \<open>\<open>operator<<\<close> of a non-negative \<open>int\<close> on a stream: its decimal digits.\<close>

fun dec_of_nat :: "nat \<Rightarrow> string" where
  "dec_of_nat n = (if n < 10 then [digit_char n] else dec_of_nat (n div 10) @ [digit_char (n mod 10)])"

declare dec_of_nat.simps [simp del]

text \<open>\<open>std::to_string\<close> of a signed integer.\<close>

definition dec_of_int :: "int \<Rightarrow> string" where
  "dec_of_int n = (if n < 0 then CHR ''-'' # dec_of_nat (nat (- n)) else dec_of_nat (nat n))"

lemma stoi_empty [simp]: "stoi [] = Inl (Throw Invalid_argument)"
  by (simp add: stoi_def)

lemma stoi_range: "stoi s = Inr v \<Longrightarrow> int32_ok v"
  by (auto simp: stoi_def Let_def split: if_splits)

lemma of_char_digit_char [simp]: "d < 10 \<Longrightarrow> (of_char (digit_char d) :: nat) = d + 48"
  by (simp add: digit_char_def)

lemma is_digit_digit_char [simp]: "d < 10 \<Longrightarrow> is_digit (digit_char d)"
  by (simp add: is_digit_def)

lemma digit_val_digit_char [simp]: "d < 10 \<Longrightarrow> digit_val (digit_char d) = d"
  by (simp add: digit_val_def)

lemma digit_not_space: "is_digit c \<Longrightarrow> \<not> is_space c"
  by (auto simp: is_digit_def is_space_def Let_def)

lemma digit_not_sign: "is_digit c \<Longrightarrow> c \<noteq> CHR ''-'' \<and> c \<noteq> CHR ''+''"
  by (auto simp: is_digit_def Let_def)

lemma dec_of_nat_digits: "\<forall>c \<in> set (dec_of_nat n). is_digit c"
proof (induction n rule: dec_of_nat.induct)
  case (1 n)
  then show ?case by (subst dec_of_nat.simps) auto
qed

lemma dec_of_nat_nonempty [simp]: "dec_of_nat n \<noteq> []"
  by (subst dec_of_nat.simps) simp

lemma dec_val_snoc: "dec_val (ds @ [c]) = 10 * dec_val ds + digit_val c"
  by (simp add: dec_val_def)

lemma dec_val_dec_of_nat: "dec_val (dec_of_nat n) = n"
proof (induction n rule: dec_of_nat.induct)
  case (1 n)
  show ?case
  proof (cases "n < 10")
    case True
    then show ?thesis by (subst dec_of_nat.simps) (simp add: dec_val_def)
  next
    case False
    with 1 have "dec_val (dec_of_nat (n div 10)) = n div 10" by simp
    with False show ?thesis by (subst dec_of_nat.simps) (simp add: dec_val_snoc)
  qed
qed

text \<open>A run of digits is read back whole, whatever non-digit text follows it.\<close>

lemma stoi_digits:
  assumes "ds \<noteq> []" and "\<forall>c \<in> set ds. is_digit c" and "rest = [] \<or> \<not> is_digit (hd rest)"
    and "dec_val ds < 2 ^ 31"
  shows "stoi (ds @ rest) = Inr (int (dec_val ds))"
proof -
  obtain d ds' where ds: "ds = d # ds'" using assms(1) by (cases ds) auto
  have d: "is_digit d" using assms(2) ds by simp
  have "dropWhile is_space (ds @ rest) = ds @ rest"
    using ds digit_not_space [OF d] by simp
  moreover have "takeWhile is_digit (ds @ rest) = ds"
    using assms(2,3) by (cases rest) (auto simp: takeWhile_append2)
  moreover have "int (dec_val ds) < 2 ^ 31" using assms(4) by simp
  ultimately show ?thesis
    using ds digit_not_sign [OF d] by (simp add: stoi_def int32_ok_def)
qed

lemma stoi_dec_of_nat: "n < 2 ^ 31 \<Longrightarrow> stoi (dec_of_nat n) = Inr (int n)"
  using stoi_digits [of "dec_of_nat n" "[]"] dec_of_nat_digits [of n]
  by (simp add: dec_val_dec_of_nat)

end
