(* ===== verification/Peer_Parser.thy ===== *)
theory Peer_Parser
  imports Cpp_Strings
begin

text \<open>
  \<open>src/utils/peer_parser.{h,cc}\<close>: splitting gRPC's \<open>server_ctx_.peer()\<close> string
  into address and port. The lemmas show what is recovered for each address family, that
  the parser never throws, and that a non-empty result always re-assembles to its input.
\<close>

record PeerEndpoint =
  ip :: string
  port :: string

definition empty_endpoint :: PeerEndpoint where
  "empty_endpoint = \<lparr>ip = [], port = []\<rparr>"

definition ParsePeer :: "string \<Rightarrow> PeerEndpoint res" where
  "ParsePeer peer =
     (case str_find (CHR '':'') peer of
        None \<Rightarrow> Inr empty_endpoint
      | Some family_sep \<Rightarrow>
          bindr (substr_from peer (family_sep + 1)) (\<lambda>addr_port.
            if addr_port = [] then Inr empty_endpoint
            else if hd addr_port = CHR ''['' then
              (case str_find (CHR '']'') addr_port of
                 None \<Rightarrow> Inr empty_endpoint
               | Some rb \<Rightarrow>
                   if rb + 2 > length addr_port then Inr empty_endpoint
                   else bindr (str_index addr_port (rb + 1)) (\<lambda>c.
                     if c \<noteq> CHR '':'' then Inr empty_endpoint
                     else bindr (substr addr_port 1 (rb - 1)) (\<lambda>a.
                          bindr (substr_from addr_port (rb + 2)) (\<lambda>p.
                            Inr \<lparr>ip = a, port = p\<rparr>))))
            else
              (case str_rfind (CHR '':'') addr_port of
                 None \<Rightarrow> Inr empty_endpoint
               | Some port_sep \<Rightarrow>
                   bindr (substr addr_port 0 port_sep) (\<lambda>a.
                   bindr (substr_from addr_port (port_sep + 1)) (\<lambda>p.
                     Inr \<lparr>ip = a, port = p\<rparr>)))))"

section \<open>What is recovered\<close>

lemma ParsePeer_family:
  assumes "CHR '':'' \<notin> set fam"
  shows "str_find (CHR '':'') (fam @ CHR '':'' # rest) = Some (length fam)"
    and "substr_from (fam @ CHR '':'' # rest) (length fam + 1) = Inr rest"
  using assms by (simp_all add: str_find_append substr_from_def)

text \<open>IPv4 peers: from \<open>family:addr:port\<close> exactly \<open>addr\<close> and \<open>port\<close> come back.
  The address may itself hold colons; the port is what follows the last one.\<close>

theorem ParsePeer_ipv4:
  assumes "CHR '':'' \<notin> set fam" and "CHR '':'' \<notin> set p" and "a = [] \<or> hd a \<noteq> CHR ''[''"
  shows "ParsePeer (fam @ '':'' @ a @ '':'' @ p) = Inr \<lparr>ip = a, port = p\<rparr>"
proof -
  let ?r = "a @ CHR '':'' # p"
  have "hd ?r \<noteq> CHR ''[''" using assms(3) by (cases a) auto
  then show ?thesis
    using ParsePeer_family [OF assms(1), of ?r] str_rfind_append [OF assms(2), of a]
    by (simp add: ParsePeer_def substr_def substr_from_def)
qed

theorem ParsePeer_ipv4_witness:
  "ParsePeer (''ipv4'' @ '':'' @ ''1.2.3.4'' @ '':'' @ ''5678'')
     = Inr \<lparr>ip = ''1.2.3.4'', port = ''5678''\<rparr>"
  by (rule ParsePeer_ipv4) simp_all

text \<open>IPv6 peers: from \<open>family:[addr]:port\<close> the bare address comes back, the
  brackets stripped, for every address without a closing bracket and every port.\<close>

theorem ParsePeer_ipv6:
  assumes "CHR '':'' \<notin> set fam" and "CHR '']'' \<notin> set a"
  shows "ParsePeer (fam @ '':['' @ a @ '']:'' @ p) = Inr \<lparr>ip = a, port = p\<rparr>"
proof -
  let ?r = "CHR ''['' # a @ CHR '']'' # CHR '':'' # p"
  have "str_find (CHR '']'') ?r = Some (length a + 1)"
    using str_find_append [of "CHR '']''" "CHR ''['' # a"] assms(2) by simp
  then show ?thesis
    using ParsePeer_family [OF assms(1), of ?r]
    by (simp add: ParsePeer_def substr_def substr_from_def str_index_def nth_append)
qed

theorem ParsePeer_ipv6_witness:
  "ParsePeer (''ipv6'' @ '':['' @ ''2001:db8::1'' @ '']:'' @ ''5678'')
     = Inr \<lparr>ip = ''2001:db8::1'', port = ''5678''\<rparr>"
  by (rule ParsePeer_ipv6) simp_all

text \<open>Every way the parser returns.\<close>

lemma ParsePeer_shapes:
  "\<exists>out. ParsePeer peer = Inr out \<and>
     (out = empty_endpoint \<or>
      (\<exists>fam. peer = fam @ '':'' @ ip out @ '':'' @ port out) \<or>
      (\<exists>fam. peer = fam @ '':['' @ ip out @ '']:'' @ port out))"
proof (cases "str_find (CHR '':'') peer")
  case None
  then show ?thesis by (simp add: ParsePeer_def)
next
  case (Some i)
  define r where "r = drop (Suc i) peer"
  have peer: "peer = take i peer @ CHR '':'' # r"
    using str_find_split [OF Some] by (simp add: r_def)
  have sub: "substr_from peer (i + 1) = Inr r"
    using str_find_SomeD [OF Some] by (simp add: substr_from_def r_def)
  consider (empty) "r = []" | (v6) "r \<noteq> []" "hd r = CHR ''[''" | (v4) "r \<noteq> []" "hd r \<noteq> CHR ''[''"
    by blast
  then show ?thesis
  proof cases
    case empty
    then show ?thesis using Some sub by (simp add: ParsePeer_def)
  next
    case v4
    show ?thesis
    proof (cases "str_rfind (CHR '':'') r")
      case None
      then show ?thesis using Some sub v4 by (simp add: ParsePeer_def)
    next
      case (Some j)
      have "r = take j r @ CHR '':'' # drop (Suc j) r" by (rule str_rfind_split [OF Some])
      then have "peer = take i peer @ '':'' @ take j r @ '':'' @ drop (Suc j) r"
        using peer by simp
      then show ?thesis
        using Some \<open>str_find _ peer = _\<close> sub v4 str_rfind_SomeD [OF Some]
        by (auto simp: ParsePeer_def substr_def substr_from_def)
    qed
  next
    case v6
    show ?thesis
    proof (cases "str_find (CHR '']'') r")
      case None
      then show ?thesis using Some sub v6 by (simp add: ParsePeer_def)
    next
      case rb: (Some j)
      show ?thesis
      proof (cases "length r < j + 2 \<or> r ! (j + 1) \<noteq> CHR '':''")
        case True
        then show ?thesis using Some sub v6 rb str_find_SomeD [OF rb]
          by (auto simp: ParsePeer_def str_index_def)
      next
        case False
        have j: "j < length r" "r ! j = CHR '']''" using str_find_SomeD [OF rb] by auto
        then have "0 < j" using v6 by (cases j) (auto simp: hd_conv_nth)
        then have hd_take: "take j r = CHR ''['' # take (j - 1) (drop 1 r)"
          using v6 by (cases r) (auto simp: take_Cons')
        have tl_drop: "drop (Suc j) r = CHR '':'' # drop (j + 2) r"
          using False Cons_nth_drop_Suc [of "Suc j" r] by simp
        have "r = CHR ''['' # take (j - 1) (drop 1 r) @ CHR '']'' # CHR '':'' # drop (j + 2) r"
          using str_find_split [OF rb] unfolding hd_take tl_drop by simp
        then have "peer = take i peer @ '':['' @ take (j - 1) (drop 1 r) @ '']:'' @ drop (j + 2) r"
          using peer by simp
        moreover have "ParsePeer peer
            = Inr \<lparr>ip = take (j - 1) (drop 1 r), port = drop (j + 2) r\<rparr>"
          using Some sub v6 rb False j
          by (simp add: ParsePeer_def str_index_def substr_def substr_from_def)
        ultimately show ?thesis by auto
      qed
    qed
  qed
qed

lemma ParsePeer_total: "\<exists>out. ParsePeer peer = Inr out"
  using ParsePeer_shapes by blast

text \<open>C40. The parser never throws and never reads out of bounds; its result is the empty
  endpoint, or the input is the family, the address (bare or bracketed) and the port,
  joined by colons.\<close>

theorem ParsePeer_sound:
  "\<exists>out. ParsePeer peer = Inr out \<and>
     (out = empty_endpoint \<or>
      (\<exists>fam. peer = fam @ '':'' @ ip out @ '':'' @ port out) \<or>
      (\<exists>fam. peer = fam @ '':['' @ ip out @ '']:'' @ port out))"
  by (rule ParsePeer_shapes)

end
