(* ===== verification/Json_Api.thy ===== *)
theory Json_Api
  imports Cpp_Strings "HOL-Library.AList"
begin

text \<open>
  The interface of JsonCpp's \<open>Json::Value\<close>, \<open>Json::CharReader\<close> and
  \<open>Json::writeString\<close> as the collector uses it. JsonCpp is not part of the repository,
  so it is a parameter: the record \<open>json_api\<close> lists the operations, the locale
  \<open>json_lib\<close> the documented laws the collector relies on, and every definition that
  touches JSON takes the record as its first argument. \<open>ref_json\<close> at the end is an
  instance with real JSON values, on which the locale is interpreted and which the
  witnesses of the other theories evaluate.
\<close>

section \<open>Interface\<close>

text \<open>\<open>Json::ValueType\<close>.\<close>

datatype json_type =
    nullValue | intValue | uintValue | realValue | stringValue | booleanValue
  | arrayValue | objectValue

text \<open>
  \<open>j_set v k x\<close> is the assignment \<open>v[k] = x\<close>, \<open>j_get v k\<close> the member found under
  \<open>k\<close> (\<open>isMember\<close> is \<open>j_get v k \<noteq> None\<close>), \<open>j_elems\<close> iteration over an array.
  Floating point numbers are their IEEE bit patterns. \<open>j_parse\<close> is one run of the reader
  over a whole string: it may throw (the documented stack limit); otherwise it returns
  its boolean result and the value left in the out-parameter. \<open>j_write\<close> is
  \<open>Json::writeString\<close> with the two settings all callers use.
\<close>

record 'j json_api =
  j_type :: "'j \<Rightarrow> json_type"
  j_null :: 'j
  j_object :: 'j
  j_array :: 'j
  j_string :: "string \<Rightarrow> 'j"
  j_bool :: "bool \<Rightarrow> 'j"
  j_uint :: "32 word \<Rightarrow> 'j"
  j_int :: "32 word \<Rightarrow> 'j"
  j_uint64 :: "64 word \<Rightarrow> 'j"
  j_int64 :: "64 word \<Rightarrow> 'j"
  j_double :: "64 word \<Rightarrow> 'j"
  j_float :: "32 word \<Rightarrow> 'j"
  j_get :: "'j \<Rightarrow> string \<Rightarrow> 'j option"
  j_set :: "'j \<Rightarrow> string \<Rightarrow> 'j \<Rightarrow> 'j res"
  j_elems :: "'j \<Rightarrow> 'j list"
  j_append :: "'j \<Rightarrow> 'j \<Rightarrow> 'j res"
  j_empty :: "'j \<Rightarrow> bool"
  j_clear :: "'j \<Rightarrow> 'j res"
  j_asString :: "'j \<Rightarrow> string res"
  j_write :: "'j \<Rightarrow> string"
  j_parse :: "string \<Rightarrow> (bool \<times> 'j) res"

text \<open>A value on which \<open>operator[]\<close> with a key is allowed.\<close>

definition objlike :: "'j json_api \<Rightarrow> 'j \<Rightarrow> bool" where
  "objlike J v = (j_type J v = nullValue \<or> j_type J v = objectValue)"

definition arrlike :: "'j json_api \<Rightarrow> 'j \<Rightarrow> bool" where
  "arrlike J v = (j_type J v = nullValue \<or> j_type J v = arrayValue)"

text \<open>The run of assignments \<open>v[k1] = x1; v[k2] = x2; ...\<close>.\<close>

definition j_set_all :: "'j json_api \<Rightarrow> 'j \<Rightarrow> (string \<times> 'j) list \<Rightarrow> 'j res" where
  "j_set_all J v kvs = foldM (\<lambda>(k, x) u. j_set J u k x) kvs v"

section \<open>The laws relied on\<close>

locale json_lib =
  fixes J :: "'j json_api"
  assumes type_null [simp]: "j_type J (j_null J) = nullValue"
    and type_object [simp]: "j_type J (j_object J) = objectValue"
    and type_array [simp]: "j_type J (j_array J) = arrayValue"
    and type_string [simp]: "j_type J (j_string J s) = stringValue"
    and type_bool [simp]: "j_type J (j_bool J b) = booleanValue"
    and type_uint [simp]: "j_type J (j_uint J u) = uintValue"
    and type_int [simp]: "j_type J (j_int J u) = intValue"
    and type_uint64 [simp]: "j_type J (j_uint64 J w) = uintValue"
    and type_int64 [simp]: "j_type J (j_int64 J w) = intValue"
    and type_double [simp]: "j_type J (j_double J w) = realValue"
    and type_float [simp]: "j_type J (j_float J u) = realValue"
    and get_null: "j_type J v = nullValue \<Longrightarrow> j_get J v k = None"
    and get_object [simp]: "j_get J (j_object J) k = None"
    and elems_null: "j_type J v = nullValue \<Longrightarrow> j_elems J v = []"
    and elems_array [simp]: "j_elems J (j_array J) = []"
    and set_objlike: "j_type J v = nullValue \<or> j_type J v = objectValue \<Longrightarrow>
      \<exists>v'. j_set J v k x = Inr v' \<and> j_type J v' = objectValue \<and>
           (\<forall>k'. j_get J v' k' = (if k' = k then Some x else j_get J v k'))"
    and set_other: "j_type J v \<noteq> nullValue \<Longrightarrow> j_type J v \<noteq> objectValue \<Longrightarrow>
      j_set J v k x = Inl (Throw Json_logic_error)"
    and append_arrlike: "j_type J v = nullValue \<or> j_type J v = arrayValue \<Longrightarrow>
      \<exists>v'. j_append J v x = Inr v' \<and> j_type J v' = arrayValue \<and>
           j_elems J v' = j_elems J v @ [x]"
    and empty_iff: "j_empty J v \<longleftrightarrow> j_type J v = nullValue \<or>
      (j_type J v = objectValue \<and> (\<forall>k. j_get J v k = None)) \<or>
      (j_type J v = arrayValue \<and> j_elems J v = [])"
    and clear_null: "j_type J v = nullValue \<Longrightarrow> j_clear J v = Inr (j_null J)"
    and clear_object: "j_type J v = objectValue \<Longrightarrow> j_clear J v = Inr (j_object J)"
    and clear_array: "j_type J v = arrayValue \<Longrightarrow> j_clear J v = Inr (j_array J)"
    and clear_other: "j_type J v \<notin> {nullValue, objectValue, arrayValue} \<Longrightarrow>
      j_clear J v = Inl (Throw Json_logic_error)"
    and asString_string [simp]: "j_asString J (j_string J s) = Inr s"
begin

lemma objlike_null [simp]: "objlike J (j_null J)"
  by (simp add: objlike_def)

lemma objlike_object [simp]: "objlike J (j_object J)"
  by (simp add: objlike_def)

lemma arrlike_null [simp]: "arrlike J (j_null J)"
  by (simp add: arrlike_def)

lemma arrlike_array [simp]: "arrlike J (j_array J)"
  by (simp add: arrlike_def)

lemma get_j_null [simp]: "j_get J (j_null J) k = None"
  by (simp add: get_null)

lemma elems_j_null [simp]: "j_elems J (j_null J) = []"
  by (simp add: elems_null)

lemma set_cases:
  assumes "objlike J v"
  obtains v' where "j_set J v k x = Inr v'" and "j_type J v' = objectValue" and "objlike J v'"
    and "\<forall>k'. j_get J v' k' = (if k' = k then Some x else j_get J v k')"
  using set_objlike [of v k x] assms that by (auto simp: objlike_def)

lemma append_cases:
  assumes "arrlike J v"
  obtains v' where "j_append J v x = Inr v'" and "j_type J v' = arrayValue" and "arrlike J v'"
    and "j_elems J v' = j_elems J v @ [x]"
  using append_arrlike [of v x] assms that by (auto simp: arrlike_def)

text \<open>An assignment under a condition.\<close>

lemma set_when:
  assumes "objlike J v"
  shows "\<exists>v'. (if c then j_set J v k x else Inr v) = Inr v' \<and> objlike J v' \<and>
    (c \<longrightarrow> j_type J v' = objectValue) \<and> (\<not> c \<longrightarrow> v' = v) \<and>
    (\<forall>k'. j_get J v' k' = (if k' = k \<and> c then Some x else j_get J v k'))"
proof (cases c)
  case True
  obtain v' where "j_set J v k x = Inr v'" "j_type J v' = objectValue" "objlike J v'"
    "\<forall>k'. j_get J v' k' = (if k' = k then Some x else j_get J v k')"
    by (rule set_cases [OF assms])
  then show ?thesis using True by simp
qed (use assms in simp)

text \<open>A run of assignments to null or an object succeeds; the last one to a key wins.\<close>

lemma set_all_cases:
  assumes "objlike J v"
  shows "\<exists>v'. j_set_all J v kvs = Inr v' \<and> objlike J v' \<and>
    (kvs \<noteq> [] \<longrightarrow> j_type J v' = objectValue) \<and>
    (\<forall>k. j_get J v' k = (case map_of (rev kvs) k of Some x \<Rightarrow> Some x | None \<Rightarrow> j_get J v k))"
  using assms
proof (induction kvs arbitrary: v)
  case Nil
  then show ?case by (simp add: j_set_all_def)
next
  case (Cons kx kvs)
  obtain k x where kx: "kx = (k, x)" by (cases kx)
  obtain u where u: "j_set J v k x = Inr u" "j_type J u = objectValue" "objlike J u"
    "\<forall>k'. j_get J u k' = (if k' = k then Some x else j_get J v k')"
    using set_cases [OF Cons.prems] by metis
  have step: "j_set_all J v (kx # kvs) = j_set_all J u kvs"
    by (simp add: j_set_all_def kx u(1))
  obtain v' where v': "j_set_all J u kvs = Inr v'" "objlike J v'"
    "kvs \<noteq> [] \<longrightarrow> j_type J v' = objectValue"
    "\<forall>k. j_get J v' k = (case map_of (rev kvs) k of Some x \<Rightarrow> Some x | None \<Rightarrow> j_get J u k)"
    using Cons.IH [OF u(3)] by blast
  have "j_type J v' = objectValue"
    using v'(1,3) u(2) by (cases kvs) (auto simp: j_set_all_def)
  moreover have "j_get J v' k' = (case map_of (rev (kx # kvs)) k' of Some y \<Rightarrow> Some y
      | None \<Rightarrow> j_get J v k')" for k'
    using v'(4) [rule_format, of k'] u(4) by (simp add: kx map_add_def split: option.splits)
  ultimately show ?case using v'(1,2) by (auto simp: step)
qed

lemma set_allE:
  assumes "objlike J v" and "kvs \<noteq> []"
  obtains v' where "j_set_all J v kvs = Inr v'" and "j_type J v' = objectValue" and "objlike J v'"
    and "\<forall>k. j_get J v' k = (case map_of (rev kvs) k of Some x \<Rightarrow> Some x | None \<Rightarrow> j_get J v k)"
  using set_all_cases [OF assms(1), of kvs] assms(2) that by blast

lemma set_all_null:
  assumes "kvs \<noteq> []" and "distinct (map fst kvs)"
  obtains v' where "j_set_all J (j_null J) kvs = Inr v'" and "j_type J v' = objectValue"
    and "objlike J v'" and "\<forall>k. j_get J v' k = map_of kvs k"
proof -
  obtain v' where v': "j_set_all J (j_null J) kvs = Inr v'" "j_type J v' = objectValue"
    "objlike J v'"
    "\<forall>k. j_get J v' k = (case map_of (rev kvs) k of Some x \<Rightarrow> Some x
        | None \<Rightarrow> j_get J (j_null J) k)"
    by (rule set_allE [OF objlike_null assms(1)])
  have "map_of (rev kvs) = map_of kvs"
    using assms(2) by (rule map_of_rev_distinct)
  then have "j_get J v' k = map_of kvs k" for k
    using v'(4) by (simp split: option.splits)
  then show thesis using that v'(1-3) by blast
qed

text \<open>A loop that appends one element per item: every element is there, in order.\<close>

lemma append_loop:
  assumes "arrlike J a" and "\<And>x. x \<in> set xs \<Longrightarrow> \<exists>y. g x = Inr y \<and> R x y"
  shows "\<exists>a' ys. foldM (\<lambda>x acc. bindr (g x) (j_append J acc)) xs a = Inr a' \<and> arrlike J a' \<and>
    j_elems J a' = j_elems J a @ ys \<and> list_all2 R xs ys \<and>
    (if xs = [] then a' = a else j_type J a' = arrayValue)"
  using assms
proof (induction xs arbitrary: a)
  case Nil
  then show ?case by simp
next
  case (Cons x xs)
  obtain y where y: "g x = Inr y" "R x y" using Cons.prems(2) by fastforce
  obtain b where b: "j_append J a y = Inr b" "j_type J b = arrayValue" "arrlike J b"
    "j_elems J b = j_elems J a @ [y]"
    by (rule append_cases [OF Cons.prems(1)])
  obtain a' ys where a': "foldM (\<lambda>x acc. bindr (g x) (j_append J acc)) xs b = Inr a'" "arrlike J a'"
    "j_elems J a' = j_elems J b @ ys" "list_all2 R xs ys"
    "if xs = [] then a' = b else j_type J a' = arrayValue"
    using Cons.IH [OF b(3)] Cons.prems(2) by (metis list.set_intros(2))
  then show ?case using y b by (intro exI [of _ a'] exI [of _ "y # ys"]) (auto split: if_splits)
qed

lemma not_empty_object: "j_type J v = objectValue \<Longrightarrow> j_get J v k = Some x \<Longrightarrow> \<not> j_empty J v"
  by (auto simp: empty_iff)

lemma not_empty_scalar:
  "j_type J v \<notin> {nullValue, objectValue, arrayValue} \<Longrightarrow> \<not> j_empty J v"
  by (auto simp: empty_iff)

end

section \<open>Reference values\<close>

datatype jvalue =
    JNull
  | JInt int
  | JUInt nat
  | JReal "64 word"
  | JString string
  | JBool bool
  | JArray "jvalue list"
  | JObject "(string \<times> jvalue) list"

fun jvalue_type :: "jvalue \<Rightarrow> json_type" where
  "jvalue_type JNull = nullValue"
| "jvalue_type (JInt _) = intValue"
| "jvalue_type (JUInt _) = uintValue"
| "jvalue_type (JReal _) = realValue"
| "jvalue_type (JString _) = stringValue"
| "jvalue_type (JBool _) = booleanValue"
| "jvalue_type (JArray _) = arrayValue"
| "jvalue_type (JObject _) = objectValue"

fun ref_get :: "jvalue \<Rightarrow> string \<Rightarrow> jvalue option" where
  "ref_get (JObject kvs) k = map_of kvs k"
| "ref_get _ k = None"

fun ref_set :: "jvalue \<Rightarrow> string \<Rightarrow> jvalue \<Rightarrow> jvalue res" where
  "ref_set JNull k x = Inr (JObject [(k, x)])"
| "ref_set (JObject kvs) k x = Inr (JObject (AList.update k x kvs))"
| "ref_set _ k x = Inl (Throw Json_logic_error)"

fun ref_elems :: "jvalue \<Rightarrow> jvalue list" where
  "ref_elems (JArray xs) = xs"
| "ref_elems _ = []"

fun ref_append :: "jvalue \<Rightarrow> jvalue \<Rightarrow> jvalue res" where
  "ref_append JNull x = Inr (JArray [x])"
| "ref_append (JArray xs) x = Inr (JArray (xs @ [x]))"
| "ref_append _ x = Inl (Throw Json_logic_error)"

fun ref_empty :: "jvalue \<Rightarrow> bool" where
  "ref_empty JNull = True"
| "ref_empty (JArray xs) = (xs = [])"
| "ref_empty (JObject kvs) = (kvs = [])"
| "ref_empty _ = False"

fun ref_clear :: "jvalue \<Rightarrow> jvalue res" where
  "ref_clear JNull = Inr JNull"
| "ref_clear (JArray _) = Inr (JArray [])"
| "ref_clear (JObject _) = Inr (JObject [])"
| "ref_clear _ = Inl (Throw Json_logic_error)"

fun ref_asString :: "jvalue \<Rightarrow> string res" where
  "ref_asString (JString s) = Inr s"
| "ref_asString JNull = Inr []"
| "ref_asString _ = Inl (Throw Json_logic_error)"

text \<open>Compact text; strings are written without escapes, which the witnesses do not need.\<close>

fun sep_by :: "string \<Rightarrow> string list \<Rightarrow> string" where
  "sep_by d [] = []"
| "sep_by d [x] = x"
| "sep_by d (x # xs) = x @ d @ sep_by d xs"

definition quote_str :: "string \<Rightarrow> string" where
  "quote_str s = [CHR 0x22] @ s @ [CHR 0x22]"

fun ref_write :: "jvalue \<Rightarrow> string" where
  "ref_write JNull = ''null''"
| "ref_write (JInt n) = (if n < 0 then ''-'' @ dec_of_nat (nat (- n)) else dec_of_nat (nat n))"
| "ref_write (JUInt n) = dec_of_nat n"
| "ref_write (JReal w) = dec_of_nat (unat w)"
| "ref_write (JString s) = quote_str s"
| "ref_write (JBool b) = (if b then ''true'' else ''false'')"
| "ref_write (JArray xs) = ''['' @ sep_by '','' (map ref_write xs) @ '']''"
| "ref_write (JObject kvs) =
     ''{'' @ sep_by '','' (map (\<lambda>(k, x). quote_str k @ '':'' @ ref_write x) kvs) @ ''}''"

text \<open>The reader of the reference instance knows the five one-token documents below.\<close>

definition ref_parse :: "string \<Rightarrow> (bool \<times> jvalue) res" where
  "ref_parse s = Inr
     (if s = ''{}'' then (True, JObject []) else if s = ''[]'' then (True, JArray [])
      else if s = ''true'' then (True, JBool True) else if s = ''false'' then (True, JBool False)
      else if s = ''null'' then (True, JNull) else (False, JNull))"

definition ref_json :: "jvalue json_api" where
  "ref_json =
     \<lparr>j_type = jvalue_type, j_null = JNull, j_object = JObject [], j_array = JArray [],
      j_string = JString, j_bool = JBool,
      j_uint = (\<lambda>w. JUInt (unat w)), j_int = (\<lambda>w. JInt (sint w)),
      j_uint64 = (\<lambda>w. JUInt (unat w)), j_int64 = (\<lambda>w. JInt (sint w)),
      j_double = JReal, j_float = (\<lambda>w. JReal (ucast w)),
      j_get = ref_get, j_set = ref_set, j_elems = ref_elems, j_append = ref_append,
      j_empty = ref_empty, j_clear = ref_clear, j_asString = ref_asString,
      j_write = ref_write, j_parse = ref_parse\<rparr>"

lemma ref_json_sel [simp]:
  "j_type ref_json = jvalue_type" "j_null ref_json = JNull" "j_object ref_json = JObject []"
  "j_array ref_json = JArray []" "j_string ref_json = JString" "j_bool ref_json = JBool"
  "j_uint ref_json = (\<lambda>w. JUInt (unat w))" "j_int ref_json = (\<lambda>w. JInt (sint w))"
  "j_uint64 ref_json = (\<lambda>w. JUInt (unat w))" "j_int64 ref_json = (\<lambda>w. JInt (sint w))"
  "j_double ref_json = JReal" "j_float ref_json = (\<lambda>w. JReal (ucast w))"
  "j_get ref_json = ref_get" "j_set ref_json = ref_set" "j_elems ref_json = ref_elems"
  "j_append ref_json = ref_append" "j_empty ref_json = ref_empty" "j_clear ref_json = ref_clear"
  "j_asString ref_json = ref_asString" "j_write ref_json = ref_write"
  "j_parse ref_json = ref_parse"
  by (simp_all add: ref_json_def)

lemma ref_set_objlike:
  "jvalue_type v = nullValue \<or> jvalue_type v = objectValue \<Longrightarrow>
   \<exists>v'. ref_set v k x = Inr v' \<and> jvalue_type v' = objectValue \<and>
     (\<forall>k'. ref_get v' k' = (if k' = k then Some x else ref_get v k'))"
  by (cases v) (auto simp: update_conv)

lemma ref_append_arrlike:
  "jvalue_type v = nullValue \<or> jvalue_type v = arrayValue \<Longrightarrow>
   \<exists>v'. ref_append v x = Inr v' \<and> jvalue_type v' = arrayValue \<and> ref_elems v' = ref_elems v @ [x]"
  by (cases v) auto

lemma ref_empty_iff:
  "ref_empty v \<longleftrightarrow> jvalue_type v = nullValue \<or>
     (jvalue_type v = objectValue \<and> (\<forall>k. ref_get v k = None)) \<or>
     (jvalue_type v = arrayValue \<and> ref_elems v = [])"
proof (cases v)
  case (JObject kvs)
  then show ?thesis by (cases kvs) auto
qed auto

lemma ref_kind_eqs:
  "jvalue_type v = nullValue \<Longrightarrow> v = JNull"
  "jvalue_type v = objectValue \<Longrightarrow> \<exists>kvs. v = JObject kvs"
  "jvalue_type v = arrayValue \<Longrightarrow> \<exists>xs. v = JArray xs"
  by (cases v; simp)+

lemma json_lib_ref: "json_lib ref_json"
proof (unfold_locales, goal_cases)
  case (16 v k x)
  then show ?case unfolding ref_json_sel by (rule ref_set_objlike)
next
  case (17 v k x)
  then show ?case by (cases v) auto
next
  case (18 v x)
  then show ?case using ref_append_arrlike by simp
next
  case (19 v)
  then show ?case using ref_empty_iff by simp
next
  case (23 v)
  then show ?case by (cases v) auto
qed (auto dest: ref_kind_eqs)

interpretation ref: json_lib ref_json
  by (rule json_lib_ref)

text \<open>
  Replacing the reader or the writer keeps the laws, which constrain neither: the
  witnesses use this to give the reader the documents they need.
\<close>

lemma json_lib_io:
  assumes "json_lib J"
  shows "json_lib (J\<lparr>j_write := w, j_parse := p\<rparr>)"
proof -
  have "json_lib (J\<lparr>j_write := w, j_parse := p\<rparr>) = json_lib J"
    by (simp add: json_lib_def)
  then show ?thesis using assms by simp
qed

end
