(* ===== verification/Data_Manipulation.thy ===== *)
theory Data_Manipulation
  imports Json_Api
begin

text \<open>
  The vendor-independent half of \<open>src/dataManipulation/data_manipulation.{h,cc}\<close>: the
  sequence counter and the three functions that wrap a telemetry body into the published
  envelope (\<open>BuildEnvelope\<close>, and the older pair \<open>MetaData\<close> and \<open>AppendLabelMap\<close> it
  replaced). \<open>std::time\<close> is the argument \<open>now\<close>. The lemmas give the exact members of
  the envelope, the inputs on which building it throws, and the equivalence of the one-pass
  function with the two-pass pipeline.
\<close>

section \<open>State\<close>

type_synonym label_map = "string \<rightharpoonup> string list"

record DataManipulation =
  dm_sequence_number :: "64 word"

definition new_DataManipulation :: DataManipulation where
  "new_DataManipulation = \<lparr>dm_sequence_number = 0\<rparr>"

definition dm_set_sequence_number :: "DataManipulation \<Rightarrow> DataManipulation" where
  "dm_set_sequence_number dm = dm\<lparr>dm_sequence_number := dm_sequence_number dm + 1\<rparr>"

definition dm_get_sequence_number :: "DataManipulation \<Rightarrow> 64 word" where
  "dm_get_sequence_number dm = dm_sequence_number dm"

section \<open>Operations\<close>

text \<open>\<open>static_cast<uint16_t>(std::stoi(peer_port))\<close>, then converted to \<open>Json::Value\<close>
  (which promotes to \<open>int\<close>).\<close>

definition port_u16 :: "int \<Rightarrow> 16 word" where
  "port_u16 n = word_of_int n"

definition port_json :: "'j json_api \<Rightarrow> int \<Rightarrow> 'j" where
  "port_json J n = j_int J (ucast (port_u16 n))"

text \<open>The label object: the two fields of the entry, or the fallback.\<close>

definition label_json :: "'j json_api \<Rightarrow> label_map \<Rightarrow> string \<Rightarrow> 'j res" where
  "label_json J lm peer_ip =
     (case lm peer_ip of
        Some entry \<Rightarrow>
          bindr (vec_at entry 0) (\<lambda>nkey.
          bindr (vec_at entry 1) (\<lambda>pkey.
            j_set_all J (j_null J) [(''nkey'', j_string J nkey), (''pkey'', j_string J pkey)]))
      | None \<Rightarrow>
          j_set_all J (j_null J)
            [(''node_id'', j_string J ''unknown''), (''platform_id'', j_string J ''unknown'')])"

text \<open>The assignments at the head of \<open>BuildEnvelope\<close>, in their order.\<close>

definition envelope_assigns ::
  "'j json_api \<Rightarrow> 64 word \<Rightarrow> 64 word \<Rightarrow> string \<Rightarrow> string \<Rightarrow> int \<Rightarrow> (string \<times> 'j) list" where
  "envelope_assigns J seq now writer_id peer_ip n =
     [(''event_type'', j_string J ''gRPC''),
      (''serialization'', j_string J ''json_string''),
      (''seq'', j_uint64 J seq),
      (''timestamp'', j_int64 J now),
      (''writer_id'', j_string J writer_id),
      (''telemetry_node'', j_string J peer_ip),
      (''telemetry_port'', port_json J n)]"

text \<open>The assignments of \<open>MetaData\<close>.\<close>

definition metadata_assigns ::
  "'j json_api \<Rightarrow> 64 word \<Rightarrow> 64 word \<Rightarrow> string \<Rightarrow> 'j \<Rightarrow> string \<Rightarrow> int \<Rightarrow> (string \<times> 'j) list" where
  "metadata_assigns J seq now writer_id telemetry_json peer_ip n =
     [(''event_type'', j_string J ''gRPC''),
      (''serialization'', j_string J ''json_string''),
      (''seq'', j_uint64 J seq),
      (''timestamp'', j_int64 J now),
      (''writer_id'', j_string J writer_id),
      (''telemetry_data'', telemetry_json),
      (''telemetry_node'', j_string J peer_ip),
      (''telemetry_port'', port_json J n)]"

definition BuildEnvelope ::
  "'j json_api \<Rightarrow> 64 word \<Rightarrow> string \<Rightarrow> string \<Rightarrow> string \<Rightarrow> label_map option \<Rightarrow> string \<Rightarrow>
   DataManipulation \<Rightarrow> (bool \<times> string \<times> DataManipulation) res" where
  "BuildEnvelope J now telemetry_body peer_ip peer_port label_map writer_id dm0 =
     (let dm = dm_set_sequence_number dm0 in
      bindr (stoi peer_port) (\<lambda>n.
      bindr (j_set_all J (j_null J)
               (envelope_assigns J (dm_get_sequence_number dm) now writer_id peer_ip n)) (\<lambda>root.
      bindr (j_parse J telemetry_body) (\<lambda>(ok, telemetry_json).
      bindr (j_set J root ''telemetry_data''
               (if ok then telemetry_json else j_string J telemetry_body)) (\<lambda>root.
      bindr (case label_map of
               None \<Rightarrow> Inr root
             | Some lm \<Rightarrow> bindr (label_json J lm peer_ip) (\<lambda>l. j_set J root ''label'' l)) (\<lambda>root.
        Inr (True, j_write J root, dm)))))))"

definition MetaData ::
  "'j json_api \<Rightarrow> 64 word \<Rightarrow> (string \<rightharpoonup> string) \<Rightarrow> string \<Rightarrow> string \<Rightarrow> string \<Rightarrow> string \<Rightarrow>
   DataManipulation \<Rightarrow> (bool \<times> string \<times> DataManipulation) res" where
  "MetaData J now main_cfg json_str peer_ip peer_port out0 dm0 =
     bindr (j_parse J json_str) (\<lambda>(ok, root).
       if \<not> ok \<and> json_str \<noteq> [] then Inr (False, out0, dm0)
       else
         let telemetry_json = root; dm = dm_set_sequence_number dm0 in
         bindr (j_clear J root) (\<lambda>root.
         bindr (map_at main_cfg ''writer_id'') (\<lambda>writer_id.
         bindr (stoi peer_port) (\<lambda>n.
         bindr (j_set_all J root (metadata_assigns J (dm_get_sequence_number dm) now writer_id
                  telemetry_json peer_ip n)) (\<lambda>root.
           Inr (True, j_write J root, dm))))))"

definition AppendLabelMap ::
  "'j json_api \<Rightarrow> label_map \<Rightarrow> string \<Rightarrow> string \<Rightarrow> string \<Rightarrow> (bool \<times> string) res" where
  "AppendLabelMap J lm peer_ip json_str out0 =
     bindr (j_parse J json_str) (\<lambda>(ok, root).
       if \<not> ok \<and> json_str \<noteq> [] then Inr (False, out0)
       else
         bindr (label_json J lm peer_ip) (\<lambda>l.
         bindr (j_set J root ''label'' l) (\<lambda>root.
           Inr (True, j_write J root))))"

section \<open>Lemmas\<close>

lemma seq_incremented [simp]:
  "dm_get_sequence_number (dm_set_sequence_number dm) = dm_sequence_number dm + 1"
  "dm_sequence_number (dm_set_sequence_number dm) = dm_sequence_number dm + 1"
  by (simp_all add: dm_get_sequence_number_def dm_set_sequence_number_def)

definition label_entry_ok :: "label_map \<Rightarrow> string \<Rightarrow> bool" where
  "label_entry_ok lm peer_ip = (case lm peer_ip of None \<Rightarrow> True | Some e \<Rightarrow> 2 \<le> length e)"

definition label_of :: "label_map \<Rightarrow> string \<Rightarrow> (string \<times> string) list" where
  "label_of lm peer_ip =
     (case lm peer_ip of
        Some e \<Rightarrow> [(''nkey'', e ! 0), (''pkey'', e ! 1)]
      | None \<Rightarrow> [(''node_id'', ''unknown''), (''platform_id'', ''unknown'')])"

text \<open>The members an envelope without label has, whatever the order of assignment.\<close>

definition envelope_spec ::
  "'j json_api \<Rightarrow> 64 word \<Rightarrow> 'j \<Rightarrow> string \<Rightarrow> int \<Rightarrow> string \<Rightarrow> 64 word \<Rightarrow> (string \<rightharpoonup> 'j)" where
  "envelope_spec J now body peer_ip n writer_id seq =
     [''event_type'' \<mapsto> j_string J ''gRPC'', ''serialization'' \<mapsto> j_string J ''json_string'',
      ''seq'' \<mapsto> j_uint64 J seq, ''timestamp'' \<mapsto> j_int64 J now,
      ''writer_id'' \<mapsto> j_string J writer_id, ''telemetry_node'' \<mapsto> j_string J peer_ip,
      ''telemetry_port'' \<mapsto> port_json J n, ''telemetry_data'' \<mapsto> body]"

lemma envelope_assigns_distinct [simp]:
  "distinct (map fst (envelope_assigns J seq now w a n))" "envelope_assigns J seq now w a n \<noteq> []"
  by (simp_all add: envelope_assigns_def)

lemma metadata_assigns_distinct [simp]:
  "distinct (map fst (metadata_assigns J seq now w t a n))" "metadata_assigns J seq now w t a n \<noteq> []"
  by (simp_all add: metadata_assigns_def)

lemma envelope_assigns_spec:
  "(map_of (envelope_assigns J seq now w a n))(''telemetry_data'' \<mapsto> body)
     = envelope_spec J now body a n w seq"
  by (rule ext) (simp add: envelope_assigns_def envelope_spec_def)

lemma metadata_assigns_spec:
  "map_of (metadata_assigns J seq now w body a n) = envelope_spec J now body a n w seq"
  by (rule ext) (simp add: metadata_assigns_def envelope_spec_def)

lemma envelope_spec_label [simp]: "envelope_spec J now body a n w seq ''label'' = None"
  by (simp add: envelope_spec_def)

definition is_label :: "'j json_api \<Rightarrow> label_map \<Rightarrow> string \<Rightarrow> 'j \<Rightarrow> bool" where
  "is_label J lm peer_ip l =
     (j_type J l = objectValue \<and>
      (\<forall>k. j_get J l k = map_option (j_string J) (map_of (label_of lm peer_ip) k)))"

definition envelope_ok ::
  "'j json_api \<Rightarrow> 64 word \<Rightarrow> 'j \<Rightarrow> string \<Rightarrow> int \<Rightarrow> label_map option \<Rightarrow> string \<Rightarrow> 64 word \<Rightarrow> 'j \<Rightarrow> bool"
where
  "envelope_ok J now body peer_ip n label_map writer_id seq root =
     (j_type J root = objectValue \<and>
      (\<forall>k. k \<noteq> ''label'' \<longrightarrow> j_get J root k = envelope_spec J now body peer_ip n writer_id seq k) \<and>
      (case label_map of
         None \<Rightarrow> j_get J root ''label'' = None
       | Some lm \<Rightarrow> \<exists>l. label_json J lm peer_ip = Inr l \<and> j_get J root ''label'' = Some l \<and>
                     is_label J lm peer_ip l))"

context json_lib
begin

lemma label_json_ok:
  assumes "label_entry_ok lm peer_ip"
  obtains l where "label_json J lm peer_ip = Inr l" and "is_label J lm peer_ip l"
proof -
  define kvs where "kvs = map (\<lambda>(k, s). (k, j_string J s)) (label_of lm peer_ip)"
  have "kvs \<noteq> []" "distinct (map fst kvs)"
    by (auto simp: kvs_def label_of_def split: option.splits)
  then obtain l where l: "j_set_all J (j_null J) kvs = Inr l" "j_type J l = objectValue"
    "\<forall>k. j_get J l k = map_of kvs k"
    by (rule set_all_null)
  have "label_json J lm peer_ip = Inr l"
    using l(1) assms
    by (auto simp: label_json_def kvs_def label_of_def label_entry_ok_def vec_at_def split: option.splits)
  moreover have "is_label J lm peer_ip l"
    using l(2,3) by (simp add: is_label_def kvs_def map_of_map)
  ultimately show thesis by (rule that)
qed

lemma label_json_short:
  assumes "\<not> label_entry_ok lm peer_ip"
  shows "label_json J lm peer_ip = Inl (Throw Out_of_range)"
proof -
  obtain e where e: "lm peer_ip = Some e" "length e < 2"
    using assms by (auto simp: label_entry_ok_def split: option.splits)
  then show ?thesis by (cases e) (auto simp: label_json_def vec_at_def)
qed

lemma attach_label:
  assumes "objlike J root" and "j_type J root = objectValue"
    and "\<And>k. j_get J root k = envelope_spec J now body peer_ip n w seq k"
    and "label_entry_ok lm peer_ip"
  obtains root' where "bindr (label_json J lm peer_ip) (\<lambda>l. j_set J root ''label'' l) = Inr root'"
    and "envelope_ok J now body peer_ip n (Some lm) w seq root'"
proof -
  obtain l where l: "label_json J lm peer_ip = Inr l" "is_label J lm peer_ip l"
    using label_json_ok [OF assms(4)] .
  obtain r where r: "j_set J root ''label'' l = Inr r" "j_type J r = objectValue" "objlike J r"
    "\<forall>k. j_get J r k = (if k = ''label'' then Some l else j_get J root k)"
    by (rule set_cases [OF assms(1), of "''label''" l])
  have "envelope_ok J now body peer_ip n (Some lm) w seq r"
    using r l assms(3) by (simp add: envelope_ok_def)
  then show thesis using that l(1) r(1) by simp
qed

text \<open>One run of \<open>BuildEnvelope\<close> when the port is numeric and the reader returns.\<close>

lemma BuildEnvelope_run:
  assumes "stoi peer_port = Inr n" and "j_parse J body = Inr (ok, v)"
    and "\<And>lm. label_map = Some lm \<Longrightarrow> label_entry_ok lm peer_ip"
  obtains root where
    "BuildEnvelope J now body peer_ip peer_port label_map writer_id dm
       = Inr (True, j_write J root, dm_set_sequence_number dm)"
    and "envelope_ok J now (if ok then v else j_string J body) peer_ip n label_map writer_id
           (dm_sequence_number dm + 1) root"
proof -
  let ?b = "if ok then v else j_string J body"
  let ?seq = "dm_sequence_number dm + 1"
  obtain r1 where r1: "j_set_all J (j_null J) (envelope_assigns J ?seq now writer_id peer_ip n) = Inr r1"
    "j_type J r1 = objectValue" "objlike J r1"
    "\<forall>k. j_get J r1 k = map_of (envelope_assigns J ?seq now writer_id peer_ip n) k"
    by (rule set_all_null [OF envelope_assigns_distinct(2,1)])
  obtain r2 where r2: "j_set J r1 ''telemetry_data'' ?b = Inr r2" "j_type J r2 = objectValue"
    "objlike J r2" "\<forall>k. j_get J r2 k = (if k = ''telemetry_data'' then Some ?b else j_get J r1 k)"
    by (rule set_cases [OF r1(3), of "''telemetry_data''" ?b])
  have get2: "j_get J r2 k = envelope_spec J now ?b peer_ip n writer_id ?seq k" for k
    using r2(4) r1(4) by (simp flip: envelope_assigns_spec)
  show thesis
  proof (cases label_map)
    case None
    then show thesis
      using that [of r2] r1(1) r2(1,2) get2 assms(1,2)
      by (simp add: BuildEnvelope_def envelope_ok_def)
  next
    case (Some lm)
    then obtain r3 where "bindr (label_json J lm peer_ip) (\<lambda>l. j_set J r2 ''label'' l) = Inr r3"
      "envelope_ok J now ?b peer_ip n (Some lm) writer_id ?seq r3"
      using attach_label [OF r2(3,2) get2 assms(3)] by blast
    then show thesis
      using that [of r3] Some r1(1) r2(1) assms(1,2) by (simp add: BuildEnvelope_def)
  qed
qed

text \<open>The first half of the old pipeline, on a body that is a JSON object.\<close>

lemma MetaData_object:
  assumes "j_parse J body = Inr (True, v)" and "j_type J v = objectValue"
    and "main_cfg ''writer_id'' = Some w" and "stoi peer_port = Inr n"
  obtains root where
    "j_set_all J (j_object J) (metadata_assigns J (dm_sequence_number dm + 1) now w v peer_ip n) = Inr root"
    and "MetaData J now main_cfg body peer_ip peer_port out0 dm
           = Inr (True, j_write J root, dm_set_sequence_number dm)"
    and "objlike J root" and "j_type J root = objectValue"
    and "\<forall>k. j_get J root k = envelope_spec J now v peer_ip n w (dm_sequence_number dm + 1) k"
proof -
  let ?kvs = "metadata_assigns J (dm_sequence_number dm + 1) now w v peer_ip n"
  obtain root where r: "j_set_all J (j_object J) ?kvs = Inr root" "j_type J root = objectValue"
    "objlike J root" "\<forall>k. j_get J root k = (case map_of (rev ?kvs) k of Some x \<Rightarrow> Some x
       | None \<Rightarrow> j_get J (j_object J) k)"
    by (rule set_allE [OF objlike_object metadata_assigns_distinct(2)])
  have "\<forall>k. j_get J root k = map_of ?kvs k"
    using r(4) by (simp add: map_of_rev_distinct split: option.splits)
  then have g: "\<forall>k. j_get J root k = envelope_spec J now v peer_ip n w (dm_sequence_number dm + 1) k"
    by (simp add: metadata_assigns_spec)
  have "MetaData J now main_cfg body peer_ip peer_port out0 dm
           = Inr (True, j_write J root, dm_set_sequence_number dm)"
    using assms r(1) by (simp add: MetaData_def clear_object)
  then show thesis using that r(1-3) g by blast
qed

lemma MetaData_not_object:
  assumes "j_parse J body = Inr (True, v)" and "j_type J v \<noteq> nullValue" and "j_type J v \<noteq> objectValue"
    and "main_cfg ''writer_id'' = Some w" and "stoi peer_port = Inr n"
  shows "MetaData J now main_cfg body peer_ip peer_port out0 dm = Inl (Throw Json_logic_error)"
proof (cases "j_type J v = arrayValue")
  case True
  have "j_set J (j_array J) k x = Inl (Throw Json_logic_error)" for k x
    by (simp add: set_other)
  then show ?thesis
    using assms True
    by (simp add: MetaData_def clear_array j_set_all_def metadata_assigns_def)
next
  case False
  then show ?thesis using assms by (simp add: MetaData_def clear_other)
qed

end

section \<open>Properties\<close>

text \<open>C16. Whenever the peer port is numeric, the body can be read and the label entry has two
  fields, \<open>BuildEnvelope\<close> returns true, advances the sequence number once and writes an
  object with exactly the eight envelope members, the body nested when it is JSON and as a
  string otherwise, plus the label object when a label map is passed.\<close>

theorem BuildEnvelope_members:
  assumes "json_lib J" and "stoi peer_port = Inr n" and "j_parse J body = Inr (ok, v)"
    and "\<And>lm. label_map = Some lm \<Longrightarrow> label_entry_ok lm peer_ip"
  shows "\<exists>root. BuildEnvelope J now body peer_ip peer_port label_map writer_id dm
                 = Inr (True, j_write J root, dm_set_sequence_number dm) \<and>
           envelope_ok J now (if ok then v else j_string J body) peer_ip n label_map writer_id
             (dm_sequence_number dm + 1) root"
  using json_lib.BuildEnvelope_run [OF assms] by metis

lemma stoi_5678: "stoi ''5678'' = Inr 5678"
  by code_simp

theorem BuildEnvelope_members_witness:
  "\<exists>root. BuildEnvelope ref_json 7 ''{}'' ''1.1.1.1'' ''5678''
              (Some [''1.1.1.1'' \<mapsto> [''r1'', ''XR'']]) ''w'' new_DataManipulation
             = Inr (True, ref_write root, dm_set_sequence_number new_DataManipulation) \<and>
          envelope_ok ref_json 7 (JObject []) ''1.1.1.1'' 5678
              (Some [''1.1.1.1'' \<mapsto> [''r1'', ''XR'']]) ''w'' 1 root"
  using BuildEnvelope_members [OF json_lib_ref stoi_5678, where body = "''{}''" and ok = True
      and v = "JObject []" and label_map = "Some [''1.1.1.1'' \<mapsto> [''r1'', ''XR'']]"
      and peer_ip = "''1.1.1.1''" and writer_id = "''w''" and now = 7
      and dm = new_DataManipulation]
  by (simp add: ref_parse_def label_entry_ok_def new_DataManipulation_def)

text \<open>When the reader returns, building the envelope fails in exactly two ways: the peer
  port is not a number \<open>stoi\<close> accepts (as for a peer string that did not parse, whose
  port is empty), or the label map holds an entry with fewer than two fields for the peer.\<close>

theorem BuildEnvelope_returns_iff:
  assumes "json_lib J" and "j_parse J body = Inr (ok, v)"
  shows "(\<exists>r. BuildEnvelope J now body peer_ip peer_port label_map writer_id dm = Inr r) \<longleftrightarrow>
    (\<exists>n. stoi peer_port = Inr n) \<and> (\<forall>lm. label_map = Some lm \<longrightarrow> label_entry_ok lm peer_ip)"
proof (intro iffI conjI allI impI)
  assume r: "\<exists>r. BuildEnvelope J now body peer_ip peer_port label_map writer_id dm = Inr r"
  then show "\<exists>n. stoi peer_port = Inr n"
    by (auto simp: BuildEnvelope_def bindr_eq_Inr)
  fix lm assume "label_map = Some lm"
  with r show "label_entry_ok lm peer_ip"
    using json_lib.label_json_short [OF assms(1), of lm peer_ip]
    by (cases "label_entry_ok lm peer_ip")
      (auto simp: BuildEnvelope_def bindr_eq_Inr split: prod.splits)
next
  assume "(\<exists>n. stoi peer_port = Inr n) \<and> (\<forall>lm. label_map = Some lm \<longrightarrow> label_entry_ok lm peer_ip)"
  then obtain n where "stoi peer_port = Inr n"
    "\<And>lm. label_map = Some lm \<Longrightarrow> label_entry_ok lm peer_ip" by auto
  from json_lib.BuildEnvelope_run [OF assms(1) this(1) assms(2) this(2)]
  show "\<exists>r. BuildEnvelope J now body peer_ip peer_port label_map writer_id dm = Inr r" by metis
qed

theorem BuildEnvelope_returns_iff_witness:
  "\<not> (\<exists>r. BuildEnvelope ref_json 7 ''{}'' [] [] None ''w'' new_DataManipulation = Inr r)"
  using BuildEnvelope_returns_iff [OF json_lib_ref, of "''{}''" True "JObject []" 7 "[]" "[]" None
      "''w''" new_DataManipulation]
  by (simp add: ref_parse_def)

text \<open>Reading an envelope back changes its values: JsonCpp reads an unsigned number as a signed one
  when it fits. What it keeps are the names of the members and the text each is written as.\<close>

definition same_members :: "'j json_api \<Rightarrow> 'j \<Rightarrow> 'j \<Rightarrow> bool" where
  "same_members J u v \<longleftrightarrow> (\<forall>k. rel_option (\<lambda>a b. j_write J a = j_write J b) (j_get J u k) (j_get J v k))"

text \<open>C37. The one-pass \<open>BuildEnvelope\<close> publishes what the two-pass \<open>MetaData\<close> then
  \<open>AppendLabelMap\<close> it replaced publishes, for every body that is a JSON object: the two
  objects have the same members, each written as the same text, and the sequence number advances
  once in both. The condition is on the second reader of the old pipeline: given the text of the
  intermediate object it returns an object with the same members, each written as the same
  text. Its values need not be equal; a number may come back with another type.\<close>

theorem BuildEnvelope_folds_pipeline:
  assumes "json_lib J" and "j_parse J body = Inr (True, v)" and "j_type J v = objectValue"
    and "main_cfg ''writer_id'' = Some w" and "stoi peer_port = Inr n"
    and "label_entry_ok lm peer_ip"
    and "j_set_all J (j_object J) (metadata_assigns J (dm_sequence_number dm + 1) now w v peer_ip n)
           = Inr meta"
    and "j_parse J (j_write J meta) = Inr (True, reread)"
    and "j_type J reread = objectValue" and "same_members J reread meta"
  shows "\<exists>old new.
      MetaData J now main_cfg body peer_ip peer_port out0 dm
        = Inr (True, j_write J meta, dm_set_sequence_number dm) \<and>
      AppendLabelMap J lm peer_ip (j_write J meta) out1 = Inr (True, j_write J old) \<and>
      BuildEnvelope J now body peer_ip peer_port (Some lm) w dm
        = Inr (True, j_write J new, dm_set_sequence_number dm) \<and>
      same_members J old new"
proof -
  have meta: "MetaData J now main_cfg body peer_ip peer_port out0 dm
        = Inr (True, j_write J meta, dm_set_sequence_number dm)"
    "\<forall>k. j_get J meta k = envelope_spec J now v peer_ip n w (dm_sequence_number dm + 1) k"
    using json_lib.MetaData_object [where main_cfg = main_cfg, OF assms(1-5),
        where dm = dm and now = now and peer_ip = peer_ip and ?out0.0 = out0] assms(7)
    by (metis sum.inject(2))+
  obtain l where l: "label_json J lm peer_ip = Inr l"
    using json_lib.label_json_ok [OF assms(1,6)] by blast
  obtain old where old: "j_set J reread ''label'' l = Inr old"
    "\<forall>k. j_get J old k = (if k = ''label'' then Some l else j_get J reread k)"
    using json_lib.set_objlike [OF assms(1), of reread "''label''" l] assms(9) by blast
  obtain new where new: "BuildEnvelope J now body peer_ip peer_port (Some lm) w dm
        = Inr (True, j_write J new, dm_set_sequence_number dm)"
    "envelope_ok J now v peer_ip n (Some lm) w (dm_sequence_number dm + 1) new"
    using json_lib.BuildEnvelope_run [OF assms(1,5,2), of "Some lm" peer_ip now w dm] assms(6)
    by (metis option.inject)
  have "AppendLabelMap J lm peer_ip (j_write J meta) out1 = Inr (True, j_write J old)"
    using old(1) assms(8) l by (simp add: AppendLabelMap_def)
  moreover have "same_members J old new"
    using old(2) new(2) assms(10) meta(2) l by (simp add: same_members_def envelope_ok_def)
  ultimately show ?thesis using meta(1) new(1) by blast
qed

text \<open>A reader of the compact text of objects, strings without escapes and unsigned numbers, which
  reads a number as signed when it fits into 64 bits. The text itself is the fuel.\<close>

fun read_value :: "string \<Rightarrow> string \<Rightarrow> (jvalue \<times> string) option"
  and read_members :: "string \<Rightarrow> string \<Rightarrow> ((string \<times> jvalue) list \<times> string) option" where
  "read_value [] s = None"
| "read_value (f # fuel) [] = None"
| "read_value (f # fuel) (c # s) =
     (if c = CHR 0x22 then
        Some (JString (takeWhile (\<lambda>c. c \<noteq> CHR 0x22) s), tl (dropWhile (\<lambda>c. c \<noteq> CHR 0x22) s))
      else if c = CHR ''{'' then map_option (\<lambda>(kvs, s). (JObject kvs, s)) (read_members fuel s)
      else if is_digit c then
        (let n = dec_val (takeWhile is_digit (c # s))
         in Some (if n < 2 ^ 63 then JInt (int n) else JUInt n, dropWhile is_digit s))
      else None)"
| "read_members [] s = None"
| "read_members (f # fuel) [] = None"
| "read_members (f # fuel) (c # s) =
     (if c = CHR ''}'' then Some ([], s)
      else if c = CHR '','' then read_members fuel s
      else Option.bind (read_value [f] (c # s)) (\<lambda>(k, s).
           Option.bind (read_value fuel (tl s)) (\<lambda>(v, s).
           map_option (\<lambda>(kvs, s). ((case k of JString k \<Rightarrow> k | _ \<Rightarrow> [], v) # kvs, s)) (read_members fuel s))))"

definition reader :: "string \<Rightarrow> (bool \<times> jvalue) res" where
  "reader s = Inr (case read_value s s of Some (v, []) \<Rightarrow> (True, v) | _ \<Rightarrow> (False, JNull))"

definition sample_meta :: jvalue where
  "sample_meta = JObject [(''event_type'', JString ''gRPC''), (''serialization'', JString ''json_string''),
     (''seq'', JUInt 1), (''timestamp'', JInt 7), (''writer_id'', JString ''w''),
     (''telemetry_data'', JObject [(''a'', JInt 5)]), (''telemetry_node'', JString ''1.1.1.1''),
     (''telemetry_port'', JInt 5678)]"

definition sample_back :: jvalue where
  "sample_back = JObject [(''event_type'', JString ''gRPC''), (''serialization'', JString ''json_string''),
     (''seq'', JInt 1), (''timestamp'', JInt 7), (''writer_id'', JString ''w''),
     (''telemetry_data'', JObject [(''a'', JInt 5)]), (''telemetry_node'', JString ''1.1.1.1''),
     (''telemetry_port'', JInt 5678)]"

text \<open>The body of the sample is \<open>{"a":5}\<close>.\<close>

definition sample_body :: string where
  "sample_body = ref_write (JObject [(''a'', JInt 5)])"

lemma digit_chars: "digit_char 1 = CHR ''1''" "digit_char 5 = CHR ''5''" "digit_char 6 = CHR ''6''"
  "digit_char 7 = CHR ''7''" "digit_char 8 = CHR ''8''"
  by code_simp+

lemma sample_digits: "dec_of_nat 5678 = ''5678''" "dec_of_nat 1 = ''1''" "dec_of_nat 5 = ''5''" "dec_of_nat 7 = ''7''"
  by (simp_all add: dec_of_nat.simps digit_chars digit_chars(1) [unfolded One_nat_def])

lemma sample_read: "reader sample_body = Inr (True, JObject [(''a'', JInt 5)])"
  "reader (ref_write sample_meta) = Inr (True, sample_back)"
  by (simp_all add: reader_def sample_body_def sample_meta_def sample_back_def quote_str_def is_digit_def
      dec_val_def digit_val_def sample_digits sample_digits(2) [unfolded One_nat_def])

theorem BuildEnvelope_folds_pipeline_witness:
  "\<exists>old new.
     MetaData (ref_json\<lparr>j_parse := reader\<rparr>) 7 [''writer_id'' \<mapsto> ''w''] sample_body ''1.1.1.1'' ''5678'' []
       new_DataManipulation = Inr (True, ref_write sample_meta, dm_set_sequence_number new_DataManipulation) \<and>
     AppendLabelMap (ref_json\<lparr>j_parse := reader\<rparr>) [''1.1.1.1'' \<mapsto> [''r1'', ''XR'']] ''1.1.1.1''
       (ref_write sample_meta) [] = Inr (True, ref_write old) \<and>
     BuildEnvelope (ref_json\<lparr>j_parse := reader\<rparr>) 7 sample_body ''1.1.1.1'' ''5678''
       (Some [''1.1.1.1'' \<mapsto> [''r1'', ''XR'']]) ''w'' new_DataManipulation
       = Inr (True, ref_write new, dm_set_sequence_number new_DataManipulation) \<and>
     same_members (ref_json\<lparr>j_parse := reader\<rparr>) old new"
proof -
  let ?J = "ref_json\<lparr>j_parse := reader\<rparr>"
  have J: "json_lib ?J" using json_lib_io [OF json_lib_ref, where w = ref_write and p = reader] by (simp add: ref_json_def)
  have meta: "j_set_all ?J (j_object ?J) (metadata_assigns ?J (dm_sequence_number new_DataManipulation + 1) 7
      ''w'' (JObject [(''a'', JInt 5)]) ''1.1.1.1'' 5678) = Inr sample_meta"
    by (simp add: metadata_assigns_def j_set_all_def new_DataManipulation_def port_json_def port_u16_def
        sample_meta_def)
  have same: "same_members ?J sample_back sample_meta"
    by (simp add: same_members_def sample_back_def sample_meta_def)
  show ?thesis
    using BuildEnvelope_folds_pipeline [OF J _ _ _ stoi_5678 _ meta _ _ same, of sample_body
        "[''writer_id'' \<mapsto> ''w'']" "[''1.1.1.1'' \<mapsto> [''r1'', ''XR'']]" "[]" "[]"]
    by (simp add: sample_read sample_back_def label_entry_ok_def)
qed

text \<open>A body that is valid JSON but not an object (an array, a number, a string) makes the
  old \<open>MetaData\<close> throw, while \<open>BuildEnvelope\<close> nests it like any other value.\<close>

theorem MetaData_rejects_non_objects:
  assumes "json_lib J" and "j_parse J body = Inr (True, v)"
    and "j_type J v \<noteq> nullValue" and "j_type J v \<noteq> objectValue"
    and "main_cfg ''writer_id'' = Some w" and "stoi peer_port = Inr n"
  shows "MetaData J now main_cfg body peer_ip peer_port out0 dm = Inl (Throw Json_logic_error) \<and>
    (\<exists>root. BuildEnvelope J now body peer_ip peer_port None w dm
        = Inr (True, j_write J root, dm_set_sequence_number dm) \<and>
      j_get J root ''telemetry_data'' = Some v)"
proof -
  obtain root where "BuildEnvelope J now body peer_ip peer_port None w dm
        = Inr (True, j_write J root, dm_set_sequence_number dm)"
    "envelope_ok J now v peer_ip n None w (dm_sequence_number dm + 1) root"
    using json_lib.BuildEnvelope_run [OF assms(1,6,2), of None peer_ip now w dm] by auto
  moreover have "''telemetry_data'' \<noteq> ''label''" by simp
  ultimately have "\<exists>root. BuildEnvelope J now body peer_ip peer_port None w dm
        = Inr (True, j_write J root, dm_set_sequence_number dm) \<and>
      j_get J root ''telemetry_data'' = Some v"
    by (auto simp: envelope_ok_def envelope_spec_def)
  then show ?thesis using json_lib.MetaData_not_object [where main_cfg = main_cfg, OF assms] by blast
qed

theorem MetaData_rejects_non_objects_witness:
  "MetaData ref_json 7 [''writer_id'' \<mapsto> ''w''] ''[]'' ''1.1.1.1'' ''5678'' [] new_DataManipulation
     = Inl (Throw Json_logic_error)"
  using MetaData_rejects_non_objects [of ref_json "''[]''" "JArray []" "[''writer_id'' \<mapsto> ''w'']"
      "''w''" "''5678''" 5678 7 "''1.1.1.1''" "[]" new_DataManipulation]
  by (simp add: json_lib_ref stoi_5678 ref_parse_def)

lemma uint_port_u16: "uint (port_u16 n) = n mod 65536"
  by (simp add: port_u16_def uint_word_of_int)

text \<open>The published port is the peer's port: for every port number below 65536 the
  truncation to 16 bits and the promotion to \<open>int\<close> change nothing; in general the
  value is taken modulo 65536.\<close>

theorem port_field_exact:
  assumes "p < 65536"
  shows "stoi (dec_of_nat p) = Inr (int p) \<and> port_json J (int p) = j_int J (word_of_nat p)"
proof -
  have "port_u16 (int p) = word_of_nat p" by (simp add: port_u16_def)
  moreover have "(ucast (word_of_nat p :: 16 word) :: 32 word) = word_of_nat p"
    using assms by (simp add: unsigned_of_nat take_bit_nat_eq_self)
  ultimately show ?thesis
    using assms stoi_dec_of_nat [of p] by (simp add: port_json_def)
qed

theorem port_field_exact_witness: "stoi (dec_of_nat 57400) = Inr 57400 \<and>
    port_json ref_json 57400 = j_int ref_json (word_of_nat 57400)"
  using port_field_exact [of 57400 ref_json] by simp

end
