(* ===== verification/Cisco_Decode.thy ===== *)
theory Cisco_Decode
  imports Data_Manipulation
begin

text \<open>
  Cisco's GPB-KV normalisation: the messages of \<open>proto/Cisco/cisco_telemetry.proto\<close> and
  the two functions of \<open>src/dataManipulation/data_manipulation.cc\<close> that turn them into
  JSON. A proto3 \<open>oneof\<close> is an \<open>option\<close> of a datatype, so \<open>has_x()\<close> is a test on the
  constructor. The lemmas relate the recursive translation to a specification of the whole
  tree: it never throws, drops no field and keeps the order.
\<close>

section \<open>Messages\<close>

datatype value_by_type =
    bytes_value string
  | string_value string
  | bool_value bool
  | uint32_value "32 word"
  | uint64_value "64 word"
  | sint32_value "32 word"
  | sint64_value "64 word"
  | double_value "64 word"
  | float_value "32 word"

datatype TelemetryField = TelemetryField
  (tf_timestamp: "64 word") (tf_name: string) (tf_value_by_type: "value_by_type option")
  (tf_fields: "TelemetryField list") (tf_delete: bool)

record cisco_TelemetryRowGPB =
  c_row_timestamp :: "64 word"
  c_row_keys :: string
  c_row_content :: string

record cisco_Telemetry =
  c_node_id_str :: "string option"
  c_subscription_id_str :: "string option"
  c_encoding_path :: string
  c_model_version :: string
  c_collection_id :: "64 word"
  c_collection_start_time :: "64 word"
  c_msg_timestamp :: "64 word"
  c_data_gpbkv :: "TelemetryField list"
  c_data_gpb :: "cisco_TelemetryRowGPB list option"
  c_collection_end_time :: "64 word"

section \<open>Translation\<close>

text \<open>The \<open>if (field.has_bytes_value()) ... else if ...\<close> chain; no value leaves null.\<close>

definition field_value :: "'j json_api \<Rightarrow> value_by_type option \<Rightarrow> 'j" where
  "field_value J v =
     (case v of
        None \<Rightarrow> j_null J
      | Some (bytes_value s) \<Rightarrow> j_string J s
      | Some (string_value s) \<Rightarrow> j_string J s
      | Some (bool_value b) \<Rightarrow> j_bool J b
      | Some (uint32_value w) \<Rightarrow> j_uint J w
      | Some (uint64_value w) \<Rightarrow> j_uint64 J w
      | Some (sint32_value w) \<Rightarrow> j_int J w
      | Some (sint64_value w) \<Rightarrow> j_int64 J w
      | Some (double_value w) \<Rightarrow> j_double J w
      | Some (float_value w) \<Rightarrow> j_float J w)"

text \<open>A named child becomes a one-member object, an unnamed one stays bare.\<close>

definition named_json :: "'j json_api \<Rightarrow> string \<Rightarrow> 'j \<Rightarrow> 'j res" where
  "named_json J name v = (if name = [] then Inr v else j_set J (j_null J) name v)"

fun CiscoGpbkvField2Json :: "'j json_api \<Rightarrow> TelemetryField \<Rightarrow> 'j res" where
  "CiscoGpbkvField2Json J (TelemetryField timestamp name val fs del) =
     bindr (foldM (\<lambda>sub_field sub_fields.
              bindr (bindr (CiscoGpbkvField2Json J sub_field) (named_json J (tf_name sub_field)))
                    (j_append J sub_fields))
            fs (j_null J)) (\<lambda>sub_fields.
     let value = field_value J val in
     bindr (if timestamp \<noteq> 0 then j_set J (j_null J) ''timestamp'' (j_uint64 J timestamp)
            else Inr (j_null J)) (\<lambda>root.
     bindr (if \<not> j_empty J sub_fields then j_set J root ''fields'' sub_fields
            else Inr root) (\<lambda>root.
     if \<not> j_empty J root then
       (if \<not> j_empty J value then j_set J root ''value'' value else Inr root)
     else Inr value)))"

text \<open>The members of the root object that come from the message header.\<close>

definition cisco_assigns :: "'j json_api \<Rightarrow> cisco_Telemetry \<Rightarrow> (string \<times> 'j) list" where
  "cisco_assigns J tlm =
     (case c_node_id_str tlm of Some s \<Rightarrow> [(''node_id'', j_string J s)] | None \<Rightarrow> []) @
     (case c_subscription_id_str tlm of
        Some s \<Rightarrow> [(''subscription_id'', j_string J s)] | None \<Rightarrow> []) @
     [(''encoding_path'', j_string J (c_encoding_path tlm)),
      (''collection_id'', j_uint64 J (c_collection_id tlm)),
      (''collection_start_time'', j_uint64 J (c_collection_start_time tlm)),
      (''msg_timestamp'', j_uint64 J (c_msg_timestamp tlm)),
      (''collection_end_time'', j_uint64 J (c_collection_end_time tlm))]"

definition CiscoGpbkv2Json_root :: "'j json_api \<Rightarrow> cisco_Telemetry \<Rightarrow> 'j res" where
  "CiscoGpbkv2Json_root J tlm =
     bindr (j_set_all J (j_null J) (cisco_assigns J tlm)) (\<lambda>root.
     bindr (foldM (\<lambda>field gpbkv.
              bindr (bindr (CiscoGpbkvField2Json J field) (named_json J (tf_name field)))
                    (j_append J gpbkv))
            (c_data_gpbkv tlm) (j_null J)) (\<lambda>gpbkv.
     j_set J root ''data_gpbkv'' gpbkv))"

definition CiscoGpbkv2Json :: "'j json_api \<Rightarrow> cisco_Telemetry \<Rightarrow> (bool \<times> string) res" where
  "CiscoGpbkv2Json J tlm = bindr (CiscoGpbkv2Json_root J tlm) (\<lambda>root. Inr (True, j_write J root))"

section \<open>Specification\<close>

definition named_ok :: "'j json_api \<Rightarrow> ('f \<Rightarrow> 'j \<Rightarrow> bool) \<Rightarrow> ('f \<Rightarrow> string) \<Rightarrow> 'f \<Rightarrow> 'j \<Rightarrow> bool" where
  "named_ok J R nm f e =
     (if nm f = [] then R f e
      else j_type J e = objectValue \<and>
           (\<exists>v. R f v \<and> (\<forall>k. j_get J e k = (if k = nm f then Some v else None))))"

lemma named_ok_mono [mono]: "(\<And>f e. R f e \<longrightarrow> S f e) \<Longrightarrow> named_ok J R nm f e \<longrightarrow> named_ok J S nm f e"
  by (auto simp: named_ok_def)

text \<open>
  What the translation of a field must look like: a leaf without timestamp is its bare
  value; anything else is an object with the timestamp when it is non-zero, the value when
  there is one, and the array of the translated children, in order, when there are any.
\<close>

inductive gpbkv_ok :: "'j json_api \<Rightarrow> TelemetryField \<Rightarrow> 'j \<Rightarrow> bool" for J where
  leaf: "gpbkv_ok J (TelemetryField 0 name val [] del) (field_value J val)"
| node: "ts \<noteq> 0 \<or> fs \<noteq> [] \<Longrightarrow> j_type J v = objectValue \<Longrightarrow>
    j_get J v ''timestamp'' = (if ts = 0 then None else Some (j_uint64 J ts)) \<Longrightarrow>
    j_get J v ''value'' = (if val = None then None else Some (field_value J val)) \<Longrightarrow>
    (if fs = [] then j_get J v ''fields'' = None
     else \<exists>a. j_get J v ''fields'' = Some a \<and> j_type J a = arrayValue \<and>
              list_all2 (named_ok J (gpbkv_ok J) tf_name) fs (j_elems J a)) \<Longrightarrow>
    (\<forall>k. k \<notin> {''timestamp'', ''fields'', ''value''} \<longrightarrow> j_get J v k = None) \<Longrightarrow>
    gpbkv_ok J (TelemetryField ts name val fs del) v"

inductive_cases gpbkv_leafE: "gpbkv_ok J (TelemetryField 0 name val [] del) v"

context json_lib
begin

lemma named_json_ok:
  assumes "R f v"
  shows "\<exists>e. named_json J (nm f) v = Inr e \<and> named_ok J R nm f e"
proof (cases "nm f = []")
  case True
  then show ?thesis using assms by (simp add: named_json_def named_ok_def)
next
  case False
  obtain e where "j_set J (j_null J) (nm f) v = Inr e" "j_type J e = objectValue" "objlike J e"
    "\<forall>k. j_get J e k = (if k = nm f then Some v else j_get J (j_null J) k)"
    by (rule set_cases [OF objlike_null])
  then show ?thesis using False assms by (auto simp: named_json_def named_ok_def)
qed

lemma field_value_empty: "j_empty J (field_value J val) \<longleftrightarrow> val = None"
proof (cases val)
  case None
  then show ?thesis by (simp add: field_value_def empty_iff)
next
  case (Some v)
  have "\<not> j_empty J (field_value J (Some v))"
    by (rule not_empty_scalar) (cases v; simp add: field_value_def)
  then show ?thesis using Some by simp
qed

text \<open>The three conditional members after the children have been translated.\<close>

lemma field_members:
  assumes "arrlike J a" and "if fs = [] then a = j_null J else j_type J a = arrayValue \<and> j_elems J a \<noteq> []"
    and "list_all2 (named_ok J (gpbkv_ok J) tf_name) fs (j_elems J a)"
  shows "\<exists>v. bindr (if ts \<noteq> 0 then j_set J (j_null J) ''timestamp'' (j_uint64 J ts)
            else Inr (j_null J)) (\<lambda>root.
     bindr (if \<not> j_empty J a then j_set J root ''fields'' a else Inr root) (\<lambda>root.
     if \<not> j_empty J root then
       (if \<not> j_empty J (field_value J val) then j_set J root ''value'' (field_value J val) else Inr root)
     else Inr (field_value J val))) = Inr v \<and>
     gpbkv_ok J (TelemetryField ts name val fs del) v"
proof -
  have ea: "j_empty J a \<longleftrightarrow> fs = []"
    using assms(2) by (auto simp: empty_iff split: if_splits)
  obtain r1 where r1: "(if ts \<noteq> 0 then j_set J (j_null J) ''timestamp'' (j_uint64 J ts)
      else Inr (j_null J)) = Inr r1" "objlike J r1" "ts = 0 \<longrightarrow> r1 = j_null J"
    "\<forall>k. j_get J r1 k = (if k = ''timestamp'' \<and> ts \<noteq> 0 then Some (j_uint64 J ts) else None)"
    using set_when [OF objlike_null, of "ts \<noteq> 0" "''timestamp''" "j_uint64 J ts"] by auto
  obtain r2 where r2: "(if \<not> j_empty J a then j_set J r1 ''fields'' a else Inr r1) = Inr r2"
    "objlike J r2" "ts = 0 \<and> fs = [] \<longrightarrow> r2 = j_null J"
    "\<forall>k. j_get J r2 k = (if k = ''fields'' \<and> fs \<noteq> [] then Some a else j_get J r1 k)"
    using set_when [OF r1(2), of "\<not> j_empty J a" "''fields''" a] r1(3) ea by auto
  show ?thesis
  proof (cases "ts = 0 \<and> fs = []")
    case True
    then show ?thesis using r1(1) r2(1,3) by (auto simp: empty_iff intro: gpbkv_ok.leaf)
  next
    case False
    obtain k x where kx: "j_get J r2 k = Some x"
      using False r2(4) r1(4) by (cases "fs = []") (metis (full_types))+
    have r2t: "j_type J r2 = objectValue"
      using r2(2) kx get_null [of r2 k] by (auto simp: objlike_def)
    have r2e: "\<not> j_empty J r2" by (rule not_empty_object [OF r2t kx])
    obtain v where v: "(if \<not> j_empty J (field_value J val)
        then j_set J r2 ''value'' (field_value J val) else Inr r2) = Inr v"
      "j_type J v = objectValue"
      "\<forall>k. j_get J v k = (if k = ''value'' \<and> val \<noteq> None then Some (field_value J val) else j_get J r2 k)"
      using set_when [OF r2(2), of "\<not> j_empty J (field_value J val)" "''value''" "field_value J val"]
        r2t field_value_empty [of val] by (cases "val = None") auto
    have "gpbkv_ok J (TelemetryField ts name val fs del) v"
      using False v(2,3) r2(4) r1(4) assms(2,3) by (intro gpbkv_ok.node) simp_all
    then show ?thesis using r1(1) r2(1) r2e v(1) by auto
  qed
qed

lemma gpbkv_field_ok: "\<exists>v. CiscoGpbkvField2Json J f = Inr v \<and> gpbkv_ok J f v"
proof (induction f)
  case (TelemetryField ts name val fs del)
  have "\<exists>e. bindr (CiscoGpbkvField2Json J x) (named_json J (tf_name x)) = Inr e \<and>
      named_ok J (gpbkv_ok J) tf_name x e" if "x \<in> set fs" for x
    using TelemetryField [OF that] named_json_ok [where R = "gpbkv_ok J" and nm = tf_name] by auto
  note child = this
  obtain a where
    a: "foldM (\<lambda>x acc. bindr (bindr (CiscoGpbkvField2Json J x) (named_json J (tf_name x)))
          (j_append J acc)) fs (j_null J) = Inr a" "arrlike J a"
      "list_all2 (named_ok J (gpbkv_ok J) tf_name) fs (j_elems J a)"
      "if fs = [] then a = j_null J else j_type J a = arrayValue"
    using append_loop [where xs = fs and R = "named_ok J (gpbkv_ok J) tf_name"
        and g = "\<lambda>x. bindr (CiscoGpbkvField2Json J x) (named_json J (tf_name x))",
        OF arrlike_null child] by auto
  have "if fs = [] then a = j_null J else j_type J a = arrayValue \<and> j_elems J a \<noteq> []"
    using a(3,4) by (cases fs) auto
  from field_members [OF a(2) this a(3)] show ?case by (simp add: a(1) Let_def)
qed

lemma gpbkv_list_ok:
  "\<exists>a. foldM (\<lambda>x acc. bindr (bindr (CiscoGpbkvField2Json J x) (named_json J (tf_name x)))
          (j_append J acc)) fs (j_null J) = Inr a \<and>
     list_all2 (named_ok J (gpbkv_ok J) tf_name) fs (j_elems J a) \<and>
     (if fs = [] then a = j_null J else j_type J a = arrayValue)"
proof -
  have child: "\<exists>e. bindr (CiscoGpbkvField2Json J x) (named_json J (tf_name x)) = Inr e \<and>
      named_ok J (gpbkv_ok J) tf_name x e" if "x \<in> set fs" for x
    using gpbkv_field_ok [of x] named_json_ok [where R = "gpbkv_ok J" and nm = tf_name] by auto
  show ?thesis
    using append_loop [where xs = fs and R = "named_ok J (gpbkv_ok J) tf_name"
        and g = "\<lambda>x. bindr (CiscoGpbkvField2Json J x) (named_json J (tf_name x))",
        OF arrlike_null child] by auto
qed

lemma gpbkv_message_ok:
  "\<exists>root a. CiscoGpbkv2Json_root J tlm = Inr root \<and> j_type J root = objectValue \<and>
     j_get J root ''data_gpbkv'' = Some a \<and>
     list_all2 (named_ok J (gpbkv_ok J) tf_name) (c_data_gpbkv tlm) (j_elems J a) \<and>
     (\<forall>k. k \<noteq> ''data_gpbkv'' \<longrightarrow> j_get J root k = map_of (cisco_assigns J tlm) k)"
proof -
  have d: "cisco_assigns J tlm \<noteq> []" "distinct (map fst (cisco_assigns J tlm))"
    by (auto simp: cisco_assigns_def split: option.splits)
  obtain r where r: "j_set_all J (j_null J) (cisco_assigns J tlm) = Inr r" "objlike J r"
    "\<forall>k. j_get J r k = map_of (cisco_assigns J tlm) k"
    by (rule set_all_null [OF d])
  obtain a where a: "foldM (\<lambda>x acc. bindr (bindr (CiscoGpbkvField2Json J x)
      (named_json J (tf_name x))) (j_append J acc)) (c_data_gpbkv tlm) (j_null J) = Inr a"
    "list_all2 (named_ok J (gpbkv_ok J) tf_name) (c_data_gpbkv tlm) (j_elems J a)"
    using gpbkv_list_ok by blast
  obtain root where "j_set J r ''data_gpbkv'' a = Inr root" "j_type J root = objectValue"
    "\<forall>k. j_get J root k = (if k = ''data_gpbkv'' then Some a else j_get J r k)"
    by (rule set_cases [OF r(2), of "''data_gpbkv''" a])
  then show ?thesis using r a by (auto simp: CiscoGpbkv2Json_root_def)
qed

end

section \<open>Properties\<close>

text \<open>C18. Translating a GPB-KV field always returns, and the result has the whole subtree: a bare
  leaf stays its value, anything else is an object with exactly the timestamp, the value
  and the array of all translated children in order, each under its name.\<close>

theorem CiscoGpbkvField2Json_tree:
  assumes "json_lib J"
  shows "\<exists>v. CiscoGpbkvField2Json J f = Inr v \<and> gpbkv_ok J f v"
  using assms by (rule json_lib.gpbkv_field_ok)

theorem CiscoGpbkvField2Json_tree_witness:
  "gpbkv_ok ref_json
     (TelemetryField 5 ''a'' None [TelemetryField 0 ''b'' (Some (uint32_value 7)) [] False] False)
     (JObject [(''timestamp'', JUInt 5), (''fields'', JArray [JObject [(''b'', JUInt 7)]])])"
  using CiscoGpbkvField2Json_tree [OF json_lib_ref, of "TelemetryField 5 ''a'' None
      [TelemetryField 0 ''b'' (Some (uint32_value 7)) [] False] False"]
  by (simp add: field_value_def named_json_def)

text \<open>A GPB-KV message is always translated: the root has every header member the message
  carries and nothing else, and under \<open>data_gpbkv\<close> one element per field, in order.\<close>

theorem CiscoGpbkv2Json_message:
  assumes "json_lib J"
  shows "\<exists>root a. CiscoGpbkv2Json J tlm = Inr (True, j_write J root) \<and>
     j_type J root = objectValue \<and> j_get J root ''data_gpbkv'' = Some a \<and>
     list_all2 (named_ok J (gpbkv_ok J) tf_name) (c_data_gpbkv tlm) (j_elems J a) \<and>
     (\<forall>k. k \<noteq> ''data_gpbkv'' \<longrightarrow> j_get J root k = map_of (cisco_assigns J tlm) k)"
  using json_lib.gpbkv_message_ok [OF assms, of tlm] by (auto simp: CiscoGpbkv2Json_def)

definition cisco_sample :: cisco_Telemetry where
  "cisco_sample =
     \<lparr>c_node_id_str = Some ''n'', c_subscription_id_str = None, c_encoding_path = ''p'',
      c_model_version = [], c_collection_id = 1, c_collection_start_time = 2,
      c_msg_timestamp = 3,
      c_data_gpbkv = [TelemetryField 9 ''k'' (Some (string_value ''v'')) [] False],
      c_data_gpb = None, c_collection_end_time = 4\<rparr>"

theorem CiscoGpbkv2Json_message_witness:
  "\<exists>root a. CiscoGpbkv2Json ref_json cisco_sample = Inr (True, ref_write root) \<and>
     ref_get root ''data_gpbkv'' = Some a \<and> length (ref_elems a) = 1 \<and>
     ref_get root ''node_id'' = Some (JString ''n'') \<and> ref_get root ''subscription_id'' = None"
  using CiscoGpbkv2Json_message [OF json_lib_ref, of cisco_sample]
  by (auto dest!: list_all2_lengthD simp: cisco_sample_def cisco_assigns_def)

end
