(* ===== verification/Gnmi_Decode.thy ===== *)
theory Gnmi_Decode
  imports Data_Manipulation "HOL-Library.Sublist"
begin

text \<open>
  The gNMI half of \<open>src/dataManipulation/data_manipulation.cc\<close>: \<open>JuniperExtension\<close>,
  \<open>JuniperUpdate\<close> and \<open>NokiaUpdate\<close>, with the messages of \<open>proto/Juniper/juniper_gnmi.proto\<close>
  and \<open>proto/Nokia/nokia_gnmi.proto\<close>. A protobuf \<open>map\<close> is the association list of its
  iteration order; \<open>ParseFromString\<close> and \<open>MessageToJsonString\<close> are arguments. The lemmas
  treat the tree of metrics as a store indexed by paths: what an insertion changes, what
  it leaves alone, and when no value of a notification is lost.
\<close>

section \<open>Messages\<close>

datatype TypedValue =
    string_val string
  | int_val "64 word"
  | uint_val "64 word"
  | bool_val bool
  | bytes_val string
  | float_val "32 word"
  | double_val "64 word"
  | decimal_val "64 word" "32 word"
  | leaflist_val "TypedValue list"
  | any_val string string
  | json_val string
  | json_ietf_val string
  | ascii_val string
  | proto_bytes string

record PathElem =
  pe_name :: string
  pe_key :: "(string \<times> string) list"

record GnmiPath =
  path_origin :: string
  path_elem :: "PathElem list"
  path_target :: string

record GnmiUpdate =
  upd_path :: GnmiPath
  upd_val :: "TypedValue option"
  upd_duplicates :: "32 word"

record GnmiNotification =
  ntf_timestamp :: "64 word"
  ntf_prefix :: GnmiPath
  ntf_alias :: string
  ntf_update :: "GnmiUpdate list"
  ntf_delete :: "GnmiPath list"
  ntf_atomic :: bool

datatype gnmi_response =
    update_response GnmiNotification
  | sync_response bool
  | error_response string

datatype GnmiExtension =
    registered_ext int string
  | master_arbitration string

record SubscribeResponse =
  sr_response :: "gnmi_response option"
  sr_extension :: "GnmiExtension option list"

record GnmiJuniperTelemetryHeaderExtension =
  jx_system_id :: string
  jx_component_id :: "32 word"
  jx_sub_component_id :: "32 word"
  jx_sensor_name :: string
  jx_subscribed_path :: string
  jx_streamed_path :: string
  jx_component :: string
  jx_sequence_number :: "64 word"
  jx_payload_get_timestamp :: "64 word"
  jx_stream_creation_timestamp :: "64 word"
  jx_event_timestamp :: "64 word"
  jx_export_timestamp :: "64 word"
  jx_sub_sequence_number :: "64 word"
  jx_eom :: bool
  jx_event_publish_timestamp :: "64 word"
  jx_stream_id :: int

definition EID_JUNIPER_TELEMETRY_HEADER :: int where
  "EID_JUNIPER_TELEMETRY_HEADER = 1"

section \<open>Juniper: header extension\<close>

text \<open>One registered extension with the header id; \<open>None\<close> is the early \<open>return false\<close>.
  The JSON text of the header is parsed back, or kept as a string.\<close>

definition juniper_header ::
  "'j json_api \<Rightarrow> (string \<Rightarrow> GnmiJuniperTelemetryHeaderExtension option) \<Rightarrow>
   (GnmiJuniperTelemetryHeaderExtension \<Rightarrow> string option) \<Rightarrow> string \<Rightarrow> 'j \<Rightarrow> (bool \<times> 'j) res" where
  "juniper_header J parse_ext ext_json msg root =
     (case parse_ext msg of
        None \<Rightarrow> Inr (False, root)
      | Some hdr \<Rightarrow>
          bindr (if jx_system_id hdr \<noteq> []
                 then j_set J root ''system_id'' (j_string J (jx_system_id hdr))
                 else Inr root) (\<lambda>root.
          case ext_json hdr of
            None \<Rightarrow> Inr (False, root)
          | Some stream_data_in \<Rightarrow>
              bindr (j_parse J stream_data_in) (\<lambda>(ok, ext_root).
              bindr (j_set J root ''extension''
                       (if ok then ext_root else j_string J stream_data_in)) (\<lambda>root.
                Inr (True, root)))))"

fun JuniperExtension_loop ::
  "'j json_api \<Rightarrow> (string \<Rightarrow> GnmiJuniperTelemetryHeaderExtension option) \<Rightarrow>
   (GnmiJuniperTelemetryHeaderExtension \<Rightarrow> string option) \<Rightarrow> GnmiExtension option list \<Rightarrow> 'j \<Rightarrow>
   (bool \<times> 'j) res" where
  "JuniperExtension_loop J parse_ext ext_json [] root = Inr (True, root)"
| "JuniperExtension_loop J parse_ext ext_json (ext # exts) root =
     (case ext of
        Some (registered_ext eid msg) \<Rightarrow>
          if eid = EID_JUNIPER_TELEMETRY_HEADER then
            bindr (juniper_header J parse_ext ext_json msg root) (\<lambda>(ok, root).
              if ok then JuniperExtension_loop J parse_ext ext_json exts root
              else Inr (False, root))
          else JuniperExtension_loop J parse_ext ext_json exts root
      | _ \<Rightarrow> JuniperExtension_loop J parse_ext ext_json exts root)"

definition JuniperExtension ::
  "'j json_api \<Rightarrow> (string \<Rightarrow> GnmiJuniperTelemetryHeaderExtension option) \<Rightarrow>
   (GnmiJuniperTelemetryHeaderExtension \<Rightarrow> string option) \<Rightarrow> SubscribeResponse \<Rightarrow> 'j \<Rightarrow>
   (bool \<times> 'j) res" where
  "JuniperExtension J parse_ext ext_json juniper_stream root =
     JuniperExtension_loop J parse_ext ext_json (sr_extension juniper_stream) root"

section \<open>Sensor paths\<close>

text \<open>\<open>{"name": ..., "filters": {...}}\<close>, the filters only when the element has keys.\<close>

definition path_element_json :: "'j json_api \<Rightarrow> PathElem \<Rightarrow> 'j res" where
  "path_element_json J e =
     bindr (j_set J (j_null J) ''name'' (j_string J (pe_name e))) (\<lambda>path_element.
     if pe_key e \<noteq> [] then
       bindr (j_set_all J (j_null J) (map (\<lambda>(k, v). (k, j_string J v)) (pe_key e))) (\<lambda>filters.
         j_set J path_element ''filters'' filters)
     else Inr path_element)"

definition elem_tags :: "'j json_api \<Rightarrow> PathElem \<Rightarrow> (string \<times> 'j) list" where
  "elem_tags J e = map (\<lambda>(k, v). (pe_name e @ ''_'' @ k, j_string J v)) (pe_key e)"

section \<open>Juniper: update\<close>

definition TypedValue2Json :: "'j json_api \<Rightarrow> TypedValue option \<Rightarrow> 'j res" where
  "TypedValue2Json J val =
     (let parse = (\<lambda>raw_json. bindr (j_parse J raw_json) (\<lambda>(ok, value).
                     Inr (if ok then value else j_string J raw_json)))
      in case val of
        Some (int_val w) \<Rightarrow> Inr (j_int64 J w)
      | Some (uint_val w) \<Rightarrow> Inr (j_uint64 J w)
      | Some (string_val s) \<Rightarrow> Inr (j_string J s)
      | Some (bool_val b) \<Rightarrow> Inr (j_bool J b)
      | Some (float_val w) \<Rightarrow> Inr (j_float J w)
      | Some (json_val s) \<Rightarrow> parse s
      | Some (json_ietf_val s) \<Rightarrow> parse s
      | Some (bytes_val s) \<Rightarrow> Inr (j_string J s)
      | Some (ascii_val s) \<Rightarrow> Inr (j_string J s)
      | _ \<Rightarrow> Inr (j_string J ''unsupported_type''))"

definition node_name :: "PathElem \<Rightarrow> string" where
  "node_name e = pe_name e @ concat (map (\<lambda>(k, v). ''['' @ k @ ''='' @ v @ '']'') (pe_key e))"

text \<open>The walk of \<open>current_node\<close> down the tree. Assigning through the pointer is rebuilding
  the parents on the way back.\<close>

fun insert_path :: "'j json_api \<Rightarrow> 'j \<Rightarrow> string list \<Rightarrow> 'j \<Rightarrow> 'j res" where
  "insert_path J node [] value = Inr node"
| "insert_path J node [n] value = j_set J node n value"
| "insert_path J node (n # m # ns) value =
     (let child = (case j_get J node n of
                     Some c \<Rightarrow> if j_type J c = objectValue then c else j_object J
                   | None \<Rightarrow> j_object J)
      in bindr (insert_path J child (m # ns) value) (j_set J node n))"

definition update_names :: "GnmiUpdate \<Rightarrow> string list" where
  "update_names u = map node_name (path_elem (upd_path u))"

definition JuniperUpdate_metrics :: "'j json_api \<Rightarrow> GnmiUpdate list \<Rightarrow> 'j \<Rightarrow> 'j res" where
  "JuniperUpdate_metrics J us metrics =
     foldM (\<lambda>u metrics. bindr (TypedValue2Json J (upd_val u)) (\<lambda>value.
              insert_path J metrics (update_names u) value)) us metrics"

text \<open>The members the notification adds to the root; the text is written in every case.\<close>

definition JuniperUpdate_root :: "'j json_api \<Rightarrow> SubscribeResponse \<Rightarrow> 'j \<Rightarrow> 'j res" where
  "JuniperUpdate_root J juniper_stream root =
     (case sr_response juniper_stream of
        Some (update_response jup) \<Rightarrow>
          bindr (foldM (\<lambda>e (tags, sensor_path).
                   bindr (path_element_json J e) (\<lambda>path_element.
                   bindr (j_set_all J tags (elem_tags J e)) (\<lambda>tags.
                   bindr (j_append J sensor_path path_element) (\<lambda>sensor_path.
                     Inr (tags, sensor_path)))))
                 (path_elem (ntf_prefix jup)) (j_object J, j_array J)) (\<lambda>(tags, sensor_path).
          bindr (j_set J root ''sensor_path'' sensor_path) (\<lambda>root.
          bindr (j_set J root ''notification_timestamp'' (j_uint64 J (ntf_timestamp jup))) (\<lambda>root.
          bindr (JuniperUpdate_metrics J (ntf_update jup) (j_object J)) (\<lambda>metrics.
          bindr (if \<not> j_empty J tags then j_set J root ''tags'' tags else Inr root) (\<lambda>root.
          if \<not> j_empty J metrics then j_set J root ''metrics'' metrics else Inr root)))))
      | _ \<Rightarrow> Inr root)"

definition JuniperUpdate :: "'j json_api \<Rightarrow> SubscribeResponse \<Rightarrow> 'j \<Rightarrow> (bool \<times> string \<times> 'j) res" where
  "JuniperUpdate J juniper_stream root =
     bindr (JuniperUpdate_root J juniper_stream root) (\<lambda>root. Inr (True, j_write J root, root))"

section \<open>Nokia: update\<close>

text \<open>\<open>path.append("/"); path.append(name)\<close> for each element: the list keys are not used.\<close>

definition nokia_path :: "PathElem list \<Rightarrow> string" where
  "nokia_path es = concat (map (\<lambda>e. ''/'' @ pe_name e) es)"

text \<open>The protobuf accessor \<open>json_ietf_val()\<close>: empty when another value is set.\<close>

definition get_json_ietf_val :: "TypedValue option \<Rightarrow> string" where
  "get_json_ietf_val v = (case v of Some (json_ietf_val s) \<Rightarrow> s | _ \<Rightarrow> [])"

definition collect_path :: "'j json_api \<Rightarrow> 'j list \<Rightarrow> string res" where
  "collect_path J elements =
     foldM (\<lambda>element acc.
              case j_get J element ''name'' of
                Some nm \<Rightarrow> bindr (j_asString J nm) (\<lambda>s. Inr (acc @ ''/'' @ s))
              | None \<Rightarrow> Inr acc) elements []"

definition nokia_assigns :: "'j json_api \<Rightarrow> GnmiUpdate list \<Rightarrow> (string \<times> 'j) list" where
  "nokia_assigns J us =
     map (\<lambda>u. (nokia_path (path_elem (upd_path u)), j_string J (get_json_ietf_val (upd_val u)))) us"

definition NokiaUpdate_root :: "'j json_api \<Rightarrow> SubscribeResponse \<Rightarrow> 'j \<Rightarrow> 'j res" where
  "NokiaUpdate_root J nokia_stream root =
     (case sr_response nokia_stream of
        Some (update_response nup) \<Rightarrow>
          bindr (foldM (\<lambda>e sensor_path. bindr (path_element_json J e) (j_append J sensor_path))
                 (path_elem (ntf_prefix nup)) (j_array J)) (\<lambda>sensor_path.
          bindr (collect_path J (j_elems J sensor_path)) (\<lambda>collected_path.
          bindr (j_set_all J root [(''collected_path'', j_string J collected_path),
                   (''sensor_path'', sensor_path),
                   (''notification_timestamp'', j_uint64 J (ntf_timestamp nup))]) (\<lambda>root.
          j_set_all J root (nokia_assigns J (ntf_update nup)))))
      | _ \<Rightarrow> Inr root)"

definition NokiaUpdate :: "'j json_api \<Rightarrow> SubscribeResponse \<Rightarrow> 'j \<Rightarrow> (bool \<times> string \<times> 'j) res" where
  "NokiaUpdate J nokia_stream root =
     bindr (NokiaUpdate_root J nokia_stream root) (\<lambda>root. Inr (True, j_write J root, root))"

section \<open>Specification\<close>

text \<open>The value stored under a path of member names.\<close>

fun lookup_path :: "'j json_api \<Rightarrow> 'j \<Rightarrow> string list \<Rightarrow> 'j option" where
  "lookup_path J node [] = Some node"
| "lookup_path J node (n # ns) =
     (if j_type J node = objectValue
      then case j_get J node n of Some c \<Rightarrow> lookup_path J c ns | None \<Rightarrow> None
      else None)"

definition path_element_ok :: "'j json_api \<Rightarrow> PathElem \<Rightarrow> 'j \<Rightarrow> bool" where
  "path_element_ok J e v =
     (j_type J v = objectValue \<and> j_get J v ''name'' = Some (j_string J (pe_name e)) \<and>
      (if pe_key e = [] then j_get J v ''filters'' = None
       else \<exists>f. j_get J v ''filters'' = Some f \<and>
              (\<forall>k. j_get J f k = map_option (j_string J) (map_of (rev (pe_key e)) k))) \<and>
      (\<forall>k. k \<notin> {''name'', ''filters''} \<longrightarrow> j_get J v k = None))"

lemma parallel_Cons: "parallel (n # ns) (m # ms) \<longleftrightarrow> n \<noteq> m \<or> parallel ns ms"
  by (auto simp: parallel_def)

lemma nokia_path_key: "nokia_path es = [] \<or> (\<exists>t. nokia_path es = CHR ''/'' # t)"
  by (cases es) (auto simp: nokia_path_def)

lemma nokia_path_not_reserved:
  "nokia_path es \<notin> {''collected_path'', ''sensor_path'', ''notification_timestamp''}"
  using nokia_path_key [of es] by auto

context json_lib
begin

lemma insert_path_step:
  assumes "j_type J node = objectValue" and "j_type J child = objectValue"
    and "\<forall>ms. parallel ns ms \<longrightarrow> lookup_path J c' ms = lookup_path J child ms"
    and "lookup_path J c' ns = Some value"
    and "child = j_object J \<or> j_get J node n = Some child"
    and "child = j_object J \<longrightarrow> (\<forall>c. j_get J node n = Some c \<longrightarrow> j_type J c \<noteq> objectValue \<or> c = child)"
  shows "\<exists>node'. j_set J node n c' = Inr node' \<and> j_type J node' = objectValue \<and>
    lookup_path J node' (n # ns) = Some value \<and>
    (\<forall>ms. parallel (n # ns) ms \<longrightarrow> lookup_path J node' ms = lookup_path J node ms)"
proof -
  obtain node' where n': "j_set J node n c' = Inr node'" "j_type J node' = objectValue"
    "\<forall>k'. j_get J node' k' = (if k' = n then Some c' else j_get J node k')"
    by (rule set_cases [of node n c']) (use assms(1) in \<open>simp add: objlike_def\<close>)
  have "lookup_path J node' ms = lookup_path J node ms" if p: "parallel (n # ns) ms" for ms
  proof -
    obtain m ms' where m: "ms = m # ms'" using p by (cases ms) auto
    show ?thesis
    proof (cases "m = n")
      case False
      then show ?thesis using n' assms(1) by (simp add: m)
    next
      case True
      then have par: "parallel ns ms'" using p by (simp add: m parallel_Cons)
      then obtain k ks where ks: "ms' = k # ks" by (cases ms') auto
      have "lookup_path J c' ms' = lookup_path J child ms'" using assms(3) par by blast
      also have "\<dots> = (case j_get J node n of Some c \<Rightarrow> lookup_path J c ms' | None \<Rightarrow> None)"
        using assms(2,5,6) by (cases "j_get J node n") (auto simp: ks)
      finally show ?thesis using n' assms(1) True by (simp add: m)
    qed
  qed
  then show ?thesis using n' assms(4) by auto
qed

lemma insert_path_cases:
  assumes "j_type J node = objectValue" and "ns \<noteq> []"
  shows "\<exists>node'. insert_path J node ns value = Inr node' \<and> j_type J node' = objectValue \<and>
    lookup_path J node' ns = Some value \<and>
    (\<forall>ms. parallel ns ms \<longrightarrow> lookup_path J node' ms = lookup_path J node ms)"
  using assms
proof (induction ns arbitrary: node)
  case Nil
  then show ?case by simp
next
  case (Cons n ns)
  define child where "child = (case j_get J node n of
      Some c \<Rightarrow> if j_type J c = objectValue then c else j_object J | None \<Rightarrow> j_object J)"
  have child: "j_type J child = objectValue" "child = j_object J \<or> j_get J node n = Some child"
    "child = j_object J \<longrightarrow> (\<forall>c. j_get J node n = Some c \<longrightarrow> j_type J c \<noteq> objectValue \<or> c = child)"
    by (auto simp: child_def split: option.splits)
  show ?case
  proof (cases ns)
    case Nil
    have "\<forall>ms. parallel [] ms \<longrightarrow> lookup_path J value ms = lookup_path J child ms" by simp
    from insert_path_step [OF Cons.prems(1) child(1) this _ child(2,3)] show ?thesis
      by (simp add: Nil)
  next
    case (Cons m ns')
    obtain c' where c': "insert_path J child ns value = Inr c'" "lookup_path J c' ns = Some value"
      "\<forall>ms. parallel ns ms \<longrightarrow> lookup_path J c' ms = lookup_path J child ms"
      using Cons.IH [OF child(1)] Cons by blast
    have "insert_path J node (n # ns) value = j_set J node n c'"
      using c'(1) by (simp add: Cons child_def)
    then show ?thesis
      using insert_path_step [OF Cons.prems(1) child(1) c'(3,2) child(2,3)] by simp
  qed
qed

text \<open>An update with an empty path changes nothing; the others insert at their path.\<close>

lemma metrics_frame:
  assumes "\<forall>u\<in>set us. \<exists>v. TypedValue2Json J (upd_val u) = Inr v"
    and "j_type J node = objectValue"
  shows "\<exists>t. JuniperUpdate_metrics J us node = Inr t \<and> j_type J t = objectValue \<and>
    (\<forall>ms. (\<forall>u\<in>set us. update_names u = [] \<or> parallel (update_names u) ms) \<longrightarrow>
       lookup_path J t ms = lookup_path J node ms)"
  using assms
proof (induction us arbitrary: node)
  case Nil
  then show ?case by (simp add: JuniperUpdate_metrics_def)
next
  case (Cons u us)
  obtain v where v: "TypedValue2Json J (upd_val u) = Inr v" using Cons.prems(1) by auto
  obtain node' where n: "insert_path J node (update_names u) v = Inr node'"
    "j_type J node' = objectValue"
    "\<forall>ms. update_names u = [] \<or> parallel (update_names u) ms \<longrightarrow>
       lookup_path J node' ms = lookup_path J node ms"
    using insert_path_cases [OF Cons.prems(2), of "update_names u" v] Cons.prems(2)
    by (cases "update_names u = []") auto
  obtain t where t: "JuniperUpdate_metrics J us node' = Inr t" "j_type J t = objectValue"
    "\<forall>ms. (\<forall>u\<in>set us. update_names u = [] \<or> parallel (update_names u) ms) \<longrightarrow>
       lookup_path J t ms = lookup_path J node' ms"
    using Cons.IH [OF _ n(2)] Cons.prems(1) by auto
  have "JuniperUpdate_metrics J (u # us) node = JuniperUpdate_metrics J us node'"
    using v n(1) by (simp add: JuniperUpdate_metrics_def)
  then show ?case using t n(3) by auto
qed

lemma metrics_complete:
  assumes "\<forall>u\<in>set (us @ [x] @ ws). \<exists>v. TypedValue2Json J (upd_val u) = Inr v"
    and "j_type J node = objectValue" and "update_names x \<noteq> []"
    and "\<forall>u\<in>set ws. update_names u = [] \<or> parallel (update_names u) (update_names x)"
    and "TypedValue2Json J (upd_val x) = Inr v"
  shows "\<exists>t. JuniperUpdate_metrics J (us @ [x] @ ws) node = Inr t \<and>
    lookup_path J t (update_names x) = Some v"
proof -
  have pre: "\<forall>u\<in>set us. \<exists>v. TypedValue2Json J (upd_val u) = Inr v"
    and post: "\<forall>u\<in>set ws. \<exists>v. TypedValue2Json J (upd_val u) = Inr v"
    using assms(1) by auto
  obtain a where a: "JuniperUpdate_metrics J us node = Inr a" "j_type J a = objectValue"
    using metrics_frame [OF pre assms(2)] by blast
  obtain b where b: "insert_path J a (update_names x) v = Inr b" "j_type J b = objectValue"
    "lookup_path J b (update_names x) = Some v"
    using insert_path_cases [OF a(2) assms(3)] by blast
  obtain t where t: "JuniperUpdate_metrics J ws b = Inr t"
    "lookup_path J t (update_names x) = lookup_path J b (update_names x)"
    using metrics_frame [OF post b(2)] assms(4) by blast
  have "JuniperUpdate_metrics J (us @ [x] @ ws) node = Inr t"
    using a(1) b(1) t(1) assms(5) by (simp add: JuniperUpdate_metrics_def foldM_append)
  then show ?thesis using t(2) b(3) by auto
qed

lemma path_element_cases:
  "\<exists>v. path_element_json J e = Inr v \<and> path_element_ok J e v"
proof -
  obtain v where v: "j_set J (j_null J) ''name'' (j_string J (pe_name e)) = Inr v"
    "j_type J v = objectValue" "objlike J v"
    "\<forall>k. j_get J v k = (if k = ''name'' then Some (j_string J (pe_name e)) else j_get J (j_null J) k)"
    by (rule set_cases [OF objlike_null])
  show ?thesis
  proof (cases "pe_key e = []")
    case True
    then show ?thesis using v by (simp add: path_element_json_def path_element_ok_def)
  next
    case False
    let ?kvs = "map (\<lambda>(k, v). (k, j_string J v)) (pe_key e)"
    have ne: "?kvs \<noteq> []" using False by simp
    obtain f where f: "j_set_all J (j_null J) ?kvs = Inr f"
      "\<forall>k. j_get J f k = (case map_of (rev ?kvs) k of Some x \<Rightarrow> Some x | None \<Rightarrow> j_get J (j_null J) k)"
      by (rule set_allE [OF objlike_null ne])
    have g: "j_get J f k = map_option (j_string J) (map_of (rev (pe_key e)) k)" for k
      using f(2) by (simp add: rev_map map_of_map split: option.split)
    obtain w where "j_set J v ''filters'' f = Inr w" "j_type J w = objectValue"
      "\<forall>k. j_get J w k = (if k = ''filters'' then Some f else j_get J v k)"
      by (rule set_cases [OF v(3), of "''filters''" f])
    then show ?thesis
      using v(1,4) f(1) g False by (auto simp: path_element_json_def path_element_ok_def)
  qed
qed

text \<open>The loop over the prefix: one element each, and every key as a tag.\<close>

lemma prefix_loop:
  assumes "objlike J tags" and "arrlike J sp" and "j_type J tags = objectValue"
  shows "\<exists>tags' sp' vs. foldM (\<lambda>e (tags, sensor_path).
             bindr (path_element_json J e) (\<lambda>path_element.
             bindr (j_set_all J tags (elem_tags J e)) (\<lambda>tags.
             bindr (j_append J sensor_path path_element) (\<lambda>sensor_path.
               Inr (tags, sensor_path))))) es (tags, sp) = Inr (tags', sp') \<and>
    j_type J tags' = objectValue \<and>
    (\<forall>k. j_get J tags' k = (case map_of (rev (concat (map (elem_tags J) es))) k of
        Some x \<Rightarrow> Some x | None \<Rightarrow> j_get J tags k)) \<and>
    j_elems J sp' = j_elems J sp @ vs \<and> list_all2 (path_element_ok J) es vs"
  using assms
proof (induction es arbitrary: tags sp)
  case Nil
  then show ?case by simp
next
  case (Cons e es)
  obtain v where v: "path_element_json J e = Inr v" "path_element_ok J e v"
    using path_element_cases by blast
  obtain t1 where t1: "j_set_all J tags (elem_tags J e) = Inr t1" "objlike J t1"
    "elem_tags J e \<noteq> [] \<longrightarrow> j_type J t1 = objectValue"
    "\<forall>k. j_get J t1 k = (case map_of (rev (elem_tags J e)) k of
        Some x \<Rightarrow> Some x | None \<Rightarrow> j_get J tags k)"
    using set_all_cases [OF Cons.prems(1), of "elem_tags J e"] by blast
  have t1o: "j_type J t1 = objectValue"
    using t1(1,3) Cons.prems(3) by (cases "elem_tags J e = []") (auto simp: j_set_all_def)
  obtain s1 where s1: "j_append J sp v = Inr s1" "arrlike J s1" "j_elems J s1 = j_elems J sp @ [v]"
    by (rule append_cases [OF Cons.prems(2)])
  obtain tags' sp' vs where IH: "foldM (\<lambda>e (tags, sensor_path).
             bindr (path_element_json J e) (\<lambda>path_element.
             bindr (j_set_all J tags (elem_tags J e)) (\<lambda>tags.
             bindr (j_append J sensor_path path_element) (\<lambda>sensor_path.
               Inr (tags, sensor_path))))) es (t1, s1) = Inr (tags', sp')"
    "j_type J tags' = objectValue"
    "\<forall>k. j_get J tags' k = (case map_of (rev (concat (map (elem_tags J) es))) k of
        Some x \<Rightarrow> Some x | None \<Rightarrow> j_get J t1 k)"
    "j_elems J sp' = j_elems J s1 @ vs" "list_all2 (path_element_ok J) es vs"
    using Cons.IH [OF t1(2) s1(2) t1o] by blast
  show ?case
    by (rule exI [of _ tags'], rule exI [of _ sp'], rule exI [of _ "v # vs"])
      (use v t1(1,4) s1(1,3) IH in \<open>simp add: map_add_def split: option.splits\<close>)
qed

text \<open>The tail of the Juniper notification: the two conditional members.\<close>

lemma JuniperUpdate_run:
  assumes "sr_response stream = Some (update_response jup)" and "objlike J root"
    and "\<forall>u\<in>set (ntf_update jup). \<exists>v. TypedValue2Json J (upd_val u) = Inr v"
  shows "\<exists>root' metrics sp. JuniperUpdate J stream root = Inr (True, j_write J root', root') \<and>
    j_type J root' = objectValue \<and>
    j_get J root' ''notification_timestamp'' = Some (j_uint64 J (ntf_timestamp jup)) \<and>
    j_get J root' ''sensor_path'' = Some sp \<and>
    list_all2 (path_element_ok J) (path_elem (ntf_prefix jup)) (j_elems J sp) \<and>
    JuniperUpdate_metrics J (ntf_update jup) (j_object J) = Inr metrics \<and>
    (j_empty J metrics \<or> j_get J root' ''metrics'' = Some metrics) \<and>
    (\<forall>k. k \<notin> {''notification_timestamp'', ''sensor_path'', ''tags'', ''metrics''} \<longrightarrow>
       j_get J root' k = j_get J root k)"
proof -
  obtain tags sp vs where L: "foldM (\<lambda>e (tags, sensor_path).
             bindr (path_element_json J e) (\<lambda>path_element.
             bindr (j_set_all J tags (elem_tags J e)) (\<lambda>tags.
             bindr (j_append J sensor_path path_element) (\<lambda>sensor_path.
               Inr (tags, sensor_path))))) (path_elem (ntf_prefix jup)) (j_object J, j_array J)
      = Inr (tags, sp)" "j_elems J sp = j_elems J (j_array J) @ vs"
    "list_all2 (path_element_ok J) (path_elem (ntf_prefix jup)) vs"
    using prefix_loop [OF objlike_object arrlike_array type_object, of "path_elem (ntf_prefix jup)"]
    by (elim exE conjE) (rule that)
  obtain r1 where r1: "j_set J root ''sensor_path'' sp = Inr r1" "objlike J r1"
    "\<forall>k. j_get J r1 k = (if k = ''sensor_path'' then Some sp else j_get J root k)"
    by (rule set_cases [OF assms(2), of "''sensor_path''" sp])
  obtain r2 where r2: "j_set J r1 ''notification_timestamp'' (j_uint64 J (ntf_timestamp jup)) = Inr r2"
    "objlike J r2" "j_type J r2 = objectValue"
    "\<forall>k. j_get J r2 k = (if k = ''notification_timestamp'' then Some (j_uint64 J (ntf_timestamp jup))
       else j_get J r1 k)"
    by (rule set_cases [OF r1(2), of "''notification_timestamp''" "j_uint64 J (ntf_timestamp jup)"])
  obtain metrics where m: "JuniperUpdate_metrics J (ntf_update jup) (j_object J) = Inr metrics"
    using metrics_frame [OF assms(3) type_object] by blast
  obtain r3 where r3: "(if \<not> j_empty J tags then j_set J r2 ''tags'' tags else Inr r2) = Inr r3"
    "objlike J r3" "j_type J r3 = objectValue"
    "\<forall>k. j_get J r3 k = (if k = ''tags'' \<and> \<not> j_empty J tags then Some tags else j_get J r2 k)"
    using set_when [OF r2(2), of "\<not> j_empty J tags" "''tags''" tags] r2(3) by auto
  obtain r4 where r4: "(if \<not> j_empty J metrics then j_set J r3 ''metrics'' metrics else Inr r3) = Inr r4"
    "j_type J r4 = objectValue"
    "\<forall>k. j_get J r4 k = (if k = ''metrics'' \<and> \<not> j_empty J metrics then Some metrics else j_get J r3 k)"
    using set_when [OF r3(2), of "\<not> j_empty J metrics" "''metrics''" metrics] r3(3) by auto
  have "JuniperUpdate_root J stream root = Inr r4"
    using assms(1) L(1) r1(1) r2(1) r3(1) m r4(1)
    by (simp add: JuniperUpdate_root_def)
  then show ?thesis
    using r4(2,3) r3(4) r2(4) r1(3) L(2,3) m
    by (intro exI [of _ r4] exI [of _ metrics] exI [of _ sp]) (simp add: JuniperUpdate_def)
qed

lemma collect_path_ok:
  assumes "list_all2 (path_element_ok J) es vs"
  shows "foldM (\<lambda>element acc. case j_get J element ''name'' of
            Some nm \<Rightarrow> bindr (j_asString J nm) (\<lambda>s. Inr (acc @ ''/'' @ s))
          | None \<Rightarrow> Inr acc) vs acc = Inr (acc @ nokia_path es)"
  using assms
proof (induction es vs arbitrary: acc rule: list_all2_induct)
  case Nil
  then show ?case by (simp add: nokia_path_def)
next
  case (Cons e es v vs)
  then show ?case by (simp add: nokia_path_def path_element_ok_def)
qed

lemma NokiaUpdate_run:
  assumes "sr_response stream = Some (update_response nup)" and "objlike J root"
  shows "\<exists>root' sp. NokiaUpdate J stream root = Inr (True, j_write J root', root') \<and>
    j_type J root' = objectValue \<and>
    j_get J root' ''collected_path'' = Some (j_string J (nokia_path (path_elem (ntf_prefix nup)))) \<and>
    j_get J root' ''notification_timestamp'' = Some (j_uint64 J (ntf_timestamp nup)) \<and>
    j_get J root' ''sensor_path'' = Some sp \<and>
    list_all2 (path_element_ok J) (path_elem (ntf_prefix nup)) (j_elems J sp) \<and>
    (\<forall>k. k \<notin> {''collected_path'', ''sensor_path'', ''notification_timestamp''} \<longrightarrow>
       j_get J root' k = (case map_of (rev (nokia_assigns J (ntf_update nup))) k of
          Some x \<Rightarrow> Some x | None \<Rightarrow> j_get J root k))"
proof -
  obtain sp vs where sp: "foldM (\<lambda>e sensor_path. bindr (path_element_json J e) (j_append J sensor_path))
      (path_elem (ntf_prefix nup)) (j_array J) = Inr sp"
    "j_elems J sp = j_elems J (j_array J) @ vs"
    "list_all2 (path_element_ok J) (path_elem (ntf_prefix nup)) vs"
    using append_loop [where xs = "path_elem (ntf_prefix nup)" and R = "path_element_ok J"
        and g = "path_element_json J", OF arrlike_array path_element_cases] by (elim exE conjE) (rule that)
  then have spe: "list_all2 (path_element_ok J) (path_elem (ntf_prefix nup)) (j_elems J sp)" by simp
  have cp: "collect_path J (j_elems J sp) = Inr (nokia_path (path_elem (ntf_prefix nup)))"
    using collect_path_ok [OF spe, of "[]"] by (simp add: collect_path_def)
  let ?kvs = "[(''collected_path'', j_string J (nokia_path (path_elem (ntf_prefix nup)))),
     (''sensor_path'', sp), (''notification_timestamp'', j_uint64 J (ntf_timestamp nup))]"
  obtain r1 where r1: "j_set_all J root ?kvs = Inr r1" "j_type J r1 = objectValue" "objlike J r1"
    "\<forall>k. j_get J r1 k = (case map_of (rev ?kvs) k of Some x \<Rightarrow> Some x | None \<Rightarrow> j_get J root k)"
    by (rule set_allE [OF assms(2), of ?kvs]) simp
  let ?as = "nokia_assigns J (ntf_update nup)"
  obtain r2 where r2: "j_set_all J r1 ?as = Inr r2" "objlike J r2"
    "?as \<noteq> [] \<longrightarrow> j_type J r2 = objectValue"
    "\<forall>k. j_get J r2 k = (case map_of (rev ?as) k of Some x \<Rightarrow> Some x | None \<Rightarrow> j_get J r1 k)"
    using set_all_cases [OF r1(3), of ?as] by blast
  have ty: "j_type J r2 = objectValue"
    using r2(1,3) r1(2) by (cases "?as = []") (auto simp: j_set_all_def)
  have res: "map_of (rev ?as) k = None"
    if "k \<in> {''collected_path'', ''sensor_path'', ''notification_timestamp''}" for k
    using that nokia_path_not_reserved by (auto simp: map_of_eq_None_iff nokia_assigns_def)
  have "NokiaUpdate_root J stream root = Inr r2"
    using assms(1) sp(1) cp r1(1) r2(1) by (simp add: NokiaUpdate_root_def)
  then have "NokiaUpdate J stream root = Inr (True, j_write J r2, r2)"
    by (simp add: NokiaUpdate_def)
  then show ?thesis
    using r2(4) r1(4) ty res spe by (intro exI conjI) (assumption | simp split: option.split)+
qed

end

text \<open>The payloads of the extensions that carry Juniper's header id.\<close>

definition header_msgs :: "GnmiExtension option list \<Rightarrow> string list" where
  "header_msgs exts =
     concat (map (\<lambda>x. case x of Some (registered_ext eid msg) \<Rightarrow>
        (if eid = EID_JUNIPER_TELEMETRY_HEADER then [msg] else []) | _ \<Rightarrow> []) exts)"

text \<open>A good header parses, renders as JSON text, and the reader returns on that text.\<close>

definition header_good ::
  "'j json_api \<Rightarrow> (string \<Rightarrow> GnmiJuniperTelemetryHeaderExtension option) \<Rightarrow>
   (GnmiJuniperTelemetryHeaderExtension \<Rightarrow> string option) \<Rightarrow> string \<Rightarrow> bool" where
  "header_good J parse_ext ext_json msg \<longleftrightarrow>
     (\<exists>h t r. parse_ext msg = Some h \<and> ext_json h = Some t \<and> j_parse J t = Inr r)"

text \<open>What a bad header makes of the call: an exception of the reader passes through, anything
  else is the early \<open>return false\<close>.\<close>

definition header_end ::
  "'j json_api \<Rightarrow> (string \<Rightarrow> GnmiJuniperTelemetryHeaderExtension option) \<Rightarrow>
   (GnmiJuniperTelemetryHeaderExtension \<Rightarrow> string option) \<Rightarrow> string \<Rightarrow> 'j \<Rightarrow> (bool \<times> 'j) res" where
  "header_end J parse_ext ext_json msg root =
     (case Option.bind (parse_ext msg) ext_json of
        None \<Rightarrow> Inr (False, root)
      | Some t \<Rightarrow> (case j_parse J t of Inl e \<Rightarrow> Inl e | Inr _ \<Rightarrow> Inr (False, root)))"

text \<open>The value read from the text of a header, or the text; and the system ids that are not empty.\<close>

definition header_value ::
  "'j json_api \<Rightarrow> (string \<Rightarrow> GnmiJuniperTelemetryHeaderExtension option) \<Rightarrow>
   (GnmiJuniperTelemetryHeaderExtension \<Rightarrow> string option) \<Rightarrow> string \<Rightarrow> 'j" where
  "header_value J parse_ext ext_json msg =
     (let t = the (Option.bind (parse_ext msg) ext_json)
      in case j_parse J t of Inr (True, v) \<Rightarrow> v | _ \<Rightarrow> j_string J t)"

definition system_ids ::
  "(string \<Rightarrow> GnmiJuniperTelemetryHeaderExtension option) \<Rightarrow> string list \<Rightarrow> string list" where
  "system_ids parse_ext msgs =
     filter (\<lambda>s. s \<noteq> []) (concat (map (\<lambda>msg. case parse_ext msg of None \<Rightarrow> [] | Some h \<Rightarrow> [jx_system_id h]) msgs))"

text \<open>The member \<open>k\<close> after the good headers \<open>good\<close>, when the ids of \<open>seen\<close> were assigned.\<close>

definition header_member ::
  "'j json_api \<Rightarrow> (string \<Rightarrow> GnmiJuniperTelemetryHeaderExtension option) \<Rightarrow>
   (GnmiJuniperTelemetryHeaderExtension \<Rightarrow> string option) \<Rightarrow> string list \<Rightarrow> string list \<Rightarrow>
   'j \<Rightarrow> string \<Rightarrow> 'j option" where
  "header_member J parse_ext ext_json good seen root k =
     (if k = ''extension'' \<and> good \<noteq> [] then Some (header_value J parse_ext ext_json (last good))
      else if k = ''system_id'' \<and> system_ids parse_ext seen \<noteq> []
      then Some (j_string J (last (system_ids parse_ext seen)))
      else j_get J root k)"

lemma system_ids_Cons: "system_ids p (m # ms) = system_ids p [m] @ system_ids p ms"
  by (simp add: system_ids_def)

lemma system_ids_Nil: "system_ids p [] = []"
  by (simp add: system_ids_def)

lemma header_member_Nil: "header_member J p x [] [] root k = j_get J root k"
  by (simp add: header_member_def system_ids_Nil)

lemma header_member_Cons:
  assumes "\<forall>k. j_get J r1 k = header_member J p x [m] [m] root k"
  shows "header_member J p x good seen r1 k = header_member J p x (m # good) (m # seen) root k"
  using assms by (simp add: header_member_def system_ids_Cons [of p m seen])

context json_lib
begin

lemma juniper_header_run:
  assumes "objlike J root"
  shows "\<exists>root'. juniper_header J parse_ext ext_json msg root =
       (if header_good J parse_ext ext_json msg then Inr (True, root')
        else header_end J parse_ext ext_json msg root') \<and> objlike J root' \<and>
    (\<forall>k. j_get J root' k = header_member J parse_ext ext_json
       (if header_good J parse_ext ext_json msg then [msg] else []) [msg] root k)"
proof (cases "parse_ext msg")
  case None
  then show ?thesis using assms(1)
    by (simp add: juniper_header_def header_good_def header_end_def header_member_def system_ids_def)
next
  case (Some h)
  obtain r1 where r1: "(if jx_system_id h \<noteq> [] then j_set J root ''system_id'' (j_string J (jx_system_id h))
      else Inr root) = Inr r1" "objlike J r1"
    "\<forall>k. j_get J r1 k = (if k = ''system_id'' \<and> jx_system_id h \<noteq> []
       then Some (j_string J (jx_system_id h)) else j_get J root k)"
    using set_when [OF assms(1), of "jx_system_id h \<noteq> []" "''system_id''"] by blast
  have ids: "system_ids parse_ext [msg] = (if jx_system_id h \<noteq> [] then [jx_system_id h] else [])"
    by (simp add: system_ids_def Some)
  show ?thesis
  proof (cases "\<exists>t ok v. ext_json h = Some t \<and> j_parse J t = Inr (ok, v)")
    case False
    then have "\<not> header_good J parse_ext ext_json msg" by (auto simp: header_good_def Some)
    moreover have "juniper_header J parse_ext ext_json msg root = header_end J parse_ext ext_json msg r1"
      using False r1(1) Some
      by (auto simp: juniper_header_def header_end_def split: option.split sum.split)
    ultimately show ?thesis using r1(2,3) by (intro exI [of _ r1]) (simp add: header_member_def ids)
  next
    case True
    then obtain t ok v where t: "ext_json h = Some t" "j_parse J t = Inr (ok, v)" by blast
    obtain r2 where r2: "j_set J r1 ''extension'' (if ok then v else j_string J t) = Inr r2"
      "objlike J r2" "\<forall>k. j_get J r2 k = (if k = ''extension''
         then Some (if ok then v else j_string J t) else j_get J r1 k)"
      by (rule set_cases [OF r1(2), of "''extension''" "if ok then v else j_string J t"])
    have "header_value J parse_ext ext_json msg = (if ok then v else j_string J t)"
      by (simp add: header_value_def Some t)
    moreover have "header_good J parse_ext ext_json msg" using Some t by (simp add: header_good_def)
    moreover have "juniper_header J parse_ext ext_json msg root = Inr (True, r2)"
      using Some t r1(1) r2(1) by (simp add: juniper_header_def)
    ultimately show ?thesis using r1(3) r2(2,3) by (intro exI [of _ r2]) (simp add: header_member_def ids)
  qed
qed

lemma JuniperExtension_loop_run:
  assumes "objlike J root"
  shows "\<exists>root'. JuniperExtension_loop J parse_ext ext_json exts root =
      (case dropWhile (header_good J parse_ext ext_json) (header_msgs exts) of [] \<Rightarrow> Inr (True, root')
       | msg # _ \<Rightarrow> header_end J parse_ext ext_json msg root') \<and>
    (\<forall>k. j_get J root' k = header_member J parse_ext ext_json
       (takeWhile (header_good J parse_ext ext_json) (header_msgs exts))
       (takeWhile (header_good J parse_ext ext_json) (header_msgs exts) @
        take 1 (dropWhile (header_good J parse_ext ext_json) (header_msgs exts))) root k) \<and>
    (header_msgs exts = [] \<longrightarrow> root' = root)"
  using assms
proof (induction exts arbitrary: root)
  case Nil
  then show ?case by (simp add: header_msgs_def header_member_Nil)
next
  case (Cons ext exts)
  show ?case
  proof (cases "\<exists>msg. ext = Some (registered_ext EID_JUNIPER_TELEMETRY_HEADER msg)")
    case False
    then have "header_msgs (ext # exts) = header_msgs exts"
      and "JuniperExtension_loop J parse_ext ext_json (ext # exts) root =
        JuniperExtension_loop J parse_ext ext_json exts root"
      by (auto simp: header_msgs_def split: option.splits GnmiExtension.splits)
    then show ?thesis using Cons.IH [OF Cons.prems] by (simp only:)
  next
    case True
    then obtain msg where msg: "ext = Some (registered_ext EID_JUNIPER_TELEMETRY_HEADER msg)" by blast
    have hm: "header_msgs (ext # exts) = msg # header_msgs exts" by (simp add: msg header_msgs_def)
    let ?g = "header_good J parse_ext ext_json msg"
    obtain r1 where r1: "juniper_header J parse_ext ext_json msg root =
        (if ?g then Inr (True, r1) else header_end J parse_ext ext_json msg r1)" "objlike J r1"
      "\<forall>k. j_get J r1 k = header_member J parse_ext ext_json (if ?g then [msg] else []) [msg] root k"
      using juniper_header_run [OF Cons.prems, of parse_ext ext_json msg] by blast
    have loop: "JuniperExtension_loop J parse_ext ext_json (ext # exts) root =
        bindr (juniper_header J parse_ext ext_json msg root) (\<lambda>(ok, root).
          if ok then JuniperExtension_loop J parse_ext ext_json exts root else Inr (False, root))"
      by (simp add: msg)
    show ?thesis
    proof (cases ?g)
      case False
      have "JuniperExtension_loop J parse_ext ext_json (ext # exts) root = header_end J parse_ext ext_json msg r1"
        unfolding loop using r1(1) False by (simp add: header_end_def split: option.split sum.split)
      then show ?thesis using r1(3) False
        by (intro exI [of _ r1]) (simp add: hm)
    next
      case g: True
      have "JuniperExtension_loop J parse_ext ext_json (ext # exts) root =
          JuniperExtension_loop J parse_ext ext_json exts r1" unfolding loop using r1(1) g by simp
      moreover have "\<forall>k. j_get J r1 k = header_member J parse_ext ext_json [msg] [msg] root k"
        using r1(3) g by simp
      note header_member_Cons [OF this]
      ultimately show ?thesis using Cons.IH [OF r1(2)] g by (auto simp: hm)
    qed
  qed
qed

end

section \<open>Properties\<close>

text \<open>C17. No value of a Juniper notification is lost: an update with a non-empty path whose
  later updates write elsewhere is found in the published metrics under its own path, with
  the value its type decodes to.\<close>

theorem JuniperUpdate_keeps_values:
  assumes "json_lib J" and "sr_response stream = Some (update_response jup)" and "objlike J root"
    and "ntf_update jup = us @ [x] @ ws"
    and "\<forall>u\<in>set (ntf_update jup). \<exists>v. TypedValue2Json J (upd_val u) = Inr v"
    and "update_names x \<noteq> []"
    and "\<forall>u\<in>set ws. update_names u = [] \<or> parallel (update_names u) (update_names x)"
  shows "\<exists>root' metrics v. JuniperUpdate J stream root = Inr (True, j_write J root', root') \<and>
    j_get J root' ''metrics'' = Some metrics \<and> TypedValue2Json J (upd_val x) = Inr v \<and>
    lookup_path J metrics (update_names x) = Some v"
proof -
  obtain v where v: "TypedValue2Json J (upd_val x) = Inr v" using assms(4,5) by auto
  obtain t where t: "JuniperUpdate_metrics J (ntf_update jup) (j_object J) = Inr t"
    "lookup_path J t (update_names x) = Some v"
    using json_lib.metrics_complete [OF assms(1) assms(5)[unfolded assms(4)]
        json_lib.type_object [OF assms(1)] assms(6,7) v] assms(4) by auto
  have "\<not> j_empty J t"
    using t(2) assms(6) json_lib.empty_iff [OF assms(1), of t]
    by (cases "update_names x") (auto split: if_splits option.splits)
  then show ?thesis
    using json_lib.JuniperUpdate_run [OF assms(1-3,5)] t v by auto
qed

text \<open>Samples on which the properties of this theory are applied.\<close>

definition gp :: "(string \<times> (string \<times> string) list) list \<Rightarrow> GnmiPath" where
  "gp es = \<lparr>path_origin = [], path_elem = map (\<lambda>(n, k). \<lparr>pe_name = n, pe_key = k\<rparr>) es,
     path_target = []\<rparr>"

definition gu :: "(string \<times> (string \<times> string) list) list \<Rightarrow> TypedValue \<Rightarrow> GnmiUpdate" where
  "gu es v = \<lparr>upd_path = gp es, upd_val = Some v, upd_duplicates = 0\<rparr>"

definition gn :: "GnmiPath \<Rightarrow> GnmiUpdate list \<Rightarrow> GnmiNotification" where
  "gn p us = \<lparr>ntf_timestamp = 3, ntf_prefix = p, ntf_alias = [], ntf_update = us,
     ntf_delete = [], ntf_atomic = False\<rparr>"

definition gs :: "GnmiNotification \<Rightarrow> GnmiExtension option list \<Rightarrow> SubscribeResponse" where
  "gs n x = \<lparr>sr_response = Some (update_response n), sr_extension = x\<rparr>"

lemmas sample_defs = gp_def gu_def gn_def gs_def update_names_def node_name_def

theorem JuniperUpdate_keeps_values_witness:
  "\<exists>root' metrics. JuniperUpdate ref_json
      (gs (gn (gp []) [gu [(''a'', [(''k'', ''1'')]), (''b'', [])] (int_val 7),
                       gu [(''a'', [(''k'', ''2'')]), (''b'', [])] (int_val 8)]) []) JNull
      = Inr (True, ref_write root', root') \<and>
    ref_get root' ''metrics'' = Some metrics \<and>
    lookup_path ref_json metrics [''a[k=1]'', ''b''] = Some (JInt 7)"
  using JuniperUpdate_keeps_values [OF json_lib_ref, of
      "gs (gn (gp []) [gu [(''a'', [(''k'', ''1'')]), (''b'', [])] (int_val 7),
                       gu [(''a'', [(''k'', ''2'')]), (''b'', [])] (int_val 8)]) []"
      "gn (gp []) [gu [(''a'', [(''k'', ''1'')]), (''b'', [])] (int_val 7),
                       gu [(''a'', [(''k'', ''2'')]), (''b'', [])] (int_val 8)]" JNull "[]"
      "gu [(''a'', [(''k'', ''1'')]), (''b'', [])] (int_val 7)"
      "[gu [(''a'', [(''k'', ''2'')]), (''b'', [])] (int_val 8)]"]
  by (simp add: sample_defs objlike_def TypedValue2Json_def parallel_def)

text \<open>C38. A Nokia notification always yields the three header members and, for every other key,
  the value of the last update whose path spells that key; no update can overwrite the
  header members.\<close>

theorem NokiaUpdate_members:
  assumes "json_lib J" and "sr_response stream = Some (update_response nup)" and "objlike J root"
  shows "\<exists>root' sp. NokiaUpdate J stream root = Inr (True, j_write J root', root') \<and>
    j_type J root' = objectValue \<and>
    j_get J root' ''collected_path'' = Some (j_string J (nokia_path (path_elem (ntf_prefix nup)))) \<and>
    j_get J root' ''notification_timestamp'' = Some (j_uint64 J (ntf_timestamp nup)) \<and>
    j_get J root' ''sensor_path'' = Some sp \<and>
    list_all2 (path_element_ok J) (path_elem (ntf_prefix nup)) (j_elems J sp) \<and>
    (\<forall>k. k \<notin> {''collected_path'', ''sensor_path'', ''notification_timestamp''} \<longrightarrow>
       j_get J root' k = (case map_of (rev (nokia_assigns J (ntf_update nup))) k of
          Some x \<Rightarrow> Some x | None \<Rightarrow> j_get J root k))"
  using assms by (rule json_lib.NokiaUpdate_run)

theorem NokiaUpdate_members_witness:
  "\<exists>root'. NokiaUpdate ref_json
      (gs (gn (gp [(''s'', [(''k'', ''1'')])]) [gu [(''a'', [])] (json_ietf_val ''5'')]) []) JNull
      = Inr (True, ref_write root', root') \<and>
    ref_get root' ''collected_path'' = Some (JString ''/s'') \<and>
    ref_get root' ''/a'' = Some (JString ''5'')"
proof -
  let ?n = "gn (gp [(''s'', [(''k'', ''1'')])]) [gu [(''a'', [])] (json_ietf_val ''5'')]"
  have "sr_response (gs ?n []) = Some (update_response ?n)" "objlike ref_json JNull"
    by (simp_all add: gs_def objlike_def)
  from NokiaUpdate_members [OF json_lib_ref this] obtain root' where
    r: "NokiaUpdate ref_json (gs ?n []) JNull = Inr (True, j_write ref_json root', root')"
    "j_get ref_json root' ''collected_path''
       = Some (j_string ref_json (nokia_path (path_elem (ntf_prefix ?n))))"
    "\<forall>k. k \<notin> {''collected_path'', ''sensor_path'', ''notification_timestamp''} \<longrightarrow>
       j_get ref_json root' k = (case map_of (rev (nokia_assigns ref_json (ntf_update ?n))) k of
          Some x \<Rightarrow> Some x | None \<Rightarrow> j_get ref_json JNull k)"
    by (elim exE conjE) (rule that)
  have "ref_get root' ''/a'' = Some (JString ''5'')"
    using r(3) [rule_format, of "''/a''"]
    by (simp add: sample_defs nokia_assigns_def nokia_path_def get_json_ietf_val_def)
  moreover have "ref_get root' ''collected_path'' = Some (JString ''/s'')"
    using r(2) by (simp add: sample_defs nokia_path_def)
  ultimately show ?thesis using r(1) by simp
qed

text \<open>Nokia updates are keyed by the element names alone: two updates that differ only in
  the list keys of their paths share one member, and the earlier value is not published
  under any key of its own.\<close>

theorem NokiaUpdate_list_instances_collide:
  assumes "json_lib J" and "sr_response stream = Some (update_response nup)" and "objlike J root"
    and "ntf_update nup = us @ [x, y]"
    and "map pe_name (path_elem (upd_path x)) = map pe_name (path_elem (upd_path y))"
  shows "\<exists>root'. NokiaUpdate J stream root = Inr (True, j_write J root', root') \<and>
    j_get J root' (nokia_path (path_elem (upd_path x)))
      = Some (j_string J (get_json_ietf_val (upd_val y)))"
proof -
  have "nokia_path (path_elem (upd_path x)) = nokia_path (path_elem (upd_path y))"
    using arg_cong [OF assms(5), of "\<lambda>ns. concat (map (\<lambda>n. ''/'' @ n) ns)"]
    by (simp add: nokia_path_def comp_def)
  moreover have "map_of (rev (nokia_assigns J (ntf_update nup))) (nokia_path (path_elem (upd_path y)))
      = Some (j_string J (get_json_ietf_val (upd_val y)))"
    by (simp add: nokia_assigns_def assms(4))
  ultimately show ?thesis
    using json_lib.NokiaUpdate_run [OF assms(1-3)] nokia_path_not_reserved [of "path_elem (upd_path y)"]
    by (auto split: option.splits)
qed

theorem NokiaUpdate_list_instances_collide_witness:
  "\<exists>root'. NokiaUpdate ref_json
      (gs (gn (gp []) [gu [(''i'', [(''k'', ''1'')])] (json_ietf_val ''5''),
                       gu [(''i'', [(''k'', ''2'')])] (json_ietf_val ''6'')]) []) JNull
      = Inr (True, ref_write root', root') \<and> ref_get root' ''/i'' = Some (JString ''6'')"
  using NokiaUpdate_list_instances_collide [OF json_lib_ref, of
      "gs (gn (gp []) [gu [(''i'', [(''k'', ''1'')])] (json_ietf_val ''5''),
                       gu [(''i'', [(''k'', ''2'')])] (json_ietf_val ''6'')]) []"
      "gn (gp []) [gu [(''i'', [(''k'', ''1'')])] (json_ietf_val ''5''),
                       gu [(''i'', [(''k'', ''2'')])] (json_ietf_val ''6'')]" JNull "[]"
      "gu [(''i'', [(''k'', ''1'')])] (json_ietf_val ''5'')"
      "gu [(''i'', [(''k'', ''2'')])] (json_ietf_val ''6'')"]
  by (simp add: sample_defs objlike_def nokia_path_def get_json_ietf_val_def)

text \<open>C39. The whole outcome of \<open>JuniperExtension\<close>, for any protobuf and JSON library. The
  extensions with Juniper's header id are handled in order until the first bad one, which does
  not parse or cannot be rendered (then the call returns false) or makes the reader throw (then
  the exception passes through); without one the call returns true. In the root, \<open>extension\<close>
  is the text of the last good header, read as JSON when it can be; \<open>system_id\<close> is the last
  non-empty system id of a header that parsed, a bad one included; every other member, and each
  of these two when no header gives it, is as before.\<close>

theorem JuniperExtension_result:
  assumes "json_lib J" and "objlike J root"
    and "takeWhile (header_good J parse_ext ext_json) (header_msgs (sr_extension stream)) = good"
    and "dropWhile (header_good J parse_ext ext_json) (header_msgs (sr_extension stream)) = bad"
  shows "\<exists>root'. JuniperExtension J parse_ext ext_json stream root =
      (case bad of [] \<Rightarrow> Inr (True, root') | msg # _ \<Rightarrow> header_end J parse_ext ext_json msg root') \<and>
    (\<forall>k. j_get J root' k =
       (if k = ''extension'' \<and> good \<noteq> [] then Some (header_value J parse_ext ext_json (last good))
        else if k = ''system_id'' \<and> system_ids parse_ext (good @ take 1 bad) \<noteq> []
        then Some (j_string J (last (system_ids parse_ext (good @ take 1 bad))))
        else j_get J root k)) \<and>
    (header_msgs (sr_extension stream) = [] \<longrightarrow> root' = root)"
  unfolding JuniperExtension_def
  using json_lib.JuniperExtension_loop_run [OF assms(1,2), of parse_ext ext_json "sr_extension stream"]
  by (simp only: assms(3,4) header_member_def)

definition sample_header :: GnmiJuniperTelemetryHeaderExtension where
  "sample_header =
     \<lparr>jx_system_id = ''r1'', jx_component_id = 0, jx_sub_component_id = 0, jx_sensor_name = ''s'',
      jx_subscribed_path = ''/a'', jx_streamed_path = ''/a'', jx_component = ''c'', jx_sequence_number = 1,
      jx_payload_get_timestamp = 0, jx_stream_creation_timestamp = 0, jx_event_timestamp = 0,
      jx_export_timestamp = 0, jx_sub_sequence_number = 0, jx_eom = True,
      jx_event_publish_timestamp = 0, jx_stream_id = 1\<rparr>"

theorem JuniperExtension_result_witness:
  "\<exists>root'. JuniperExtension ref_json (\<lambda>msg. if msg = ''x'' then Some sample_header else None)
       (\<lambda>_. Some ''{}'')
       (gs (gn (gp []) []) [Some (registered_ext 1 ''x''), Some (registered_ext 7 ''y'')]) JNull
     = Inr (True, root') \<and>
     ref_get root' ''extension'' = Some (JObject []) \<and> ref_get root' ''system_id'' = Some (JString ''r1'') \<and>
     ref_get root' ''other'' = None"
  using JuniperExtension_result [OF json_lib_ref _ refl refl, of JNull
      "\<lambda>msg. if msg = ''x'' then Some sample_header else None" "\<lambda>_. Some ''{}''"
      "gs (gn (gp []) []) [Some (registered_ext 1 ''x''), Some (registered_ext 7 ''y'')]"]
  by (auto simp: objlike_def ref_parse_def gs_def header_msgs_def header_good_def header_value_def
      system_ids_def sample_header_def EID_JUNIPER_TELEMETRY_HEADER_def)

end
