(* ===== verification/Huawei_Decode.thy ===== *)
theory Huawei_Decode
  imports Data_Manipulation
begin

text \<open>
  \<open>HuaweiGpbOpenconfigInterface\<close> of \<open>src/dataManipulation/data_manipulation.cc\<close> on the
  message of \<open>proto/Huawei/huawei_telemetry.proto\<close>. The OpenConfig message type is opaque:
  \<open>parse_oc\<close> is its \<open>ParseFromString\<close> and \<open>oc_json\<close> the text \<open>MessageToJsonString\<close> leaves in
  \<open>content_s\<close> (the code does not look at its status). The lemmas say which rows are
  published and what the output holds when a row cannot be parsed.
\<close>

section \<open>Message\<close>

record huawei_TelemetryRowGPB =
  h_row_timestamp :: "64 word"
  h_row_content :: string

record huawei_Telemetry =
  h_node_id_str :: string
  h_subscription_id_str :: string
  h_sensor_path :: string
  h_proto_path :: string
  h_collection_id :: "64 word"
  h_collection_start_time :: "64 word"
  h_msg_timestamp :: "64 word"
  h_data_gpb :: "huawei_TelemetryRowGPB list option"
  h_collection_end_time :: "64 word"
  h_current_period :: "32 word"
  h_except_desc :: string
  h_product_name :: string
  h_encoding :: "32 word"
  h_data_str :: string
  h_ne_id :: string
  h_software_version :: string

text \<open>The accessor \<open>data_gpb().row()\<close>: an absent table has no rows.\<close>

definition h_rows :: "huawei_Telemetry \<Rightarrow> huawei_TelemetryRowGPB list" where
  "h_rows tlm = (case h_data_gpb tlm of None \<Rightarrow> [] | Some rows \<Rightarrow> rows)"

section \<open>Operation\<close>

definition huawei_assigns :: "'j json_api \<Rightarrow> huawei_Telemetry \<Rightarrow> (string \<times> 'j) list" where
  "huawei_assigns J tlm =
     [(''collection_id'', j_uint64 J (h_collection_id tlm)),
      (''collection_start_time'', j_uint64 J (h_collection_start_time tlm)),
      (''collection_end_time'', j_uint64 J (h_collection_end_time tlm)),
      (''current_period'', j_uint J (h_current_period tlm)),
      (''encoding'', j_int J (h_encoding tlm)),
      (''except_desc'', j_string J (h_except_desc tlm)),
      (''msg_timestamp'', j_uint64 J (h_msg_timestamp tlm)),
      (''node_id_str'', j_string J (h_node_id_str tlm)),
      (''product_name'', j_string J (h_product_name tlm)),
      (''proto_path'', j_string J (h_proto_path tlm)),
      (''sensor_path'', j_string J (h_sensor_path tlm)),
      (''software_version'', j_string J (h_software_version tlm)),
      (''subscription_id_str'', j_string J (h_subscription_id_str tlm))]"

text \<open>\<open>root["decoded"].append(content_s)\<close>: the member is created as null when absent.\<close>

definition append_decoded :: "'j json_api \<Rightarrow> 'j \<Rightarrow> string \<Rightarrow> 'j res" where
  "append_decoded J root s =
     bindr (j_append J (case j_get J root ''decoded'' of Some d \<Rightarrow> d | None \<Rightarrow> j_null J) (j_string J s))
       (j_set J root ''decoded'')"

fun huawei_rows ::
  "'j json_api \<Rightarrow> (string \<Rightarrow> 'oc option) \<Rightarrow> ('oc \<Rightarrow> string) \<Rightarrow> huawei_TelemetryRowGPB list \<Rightarrow>
   'j \<Rightarrow> string \<Rightarrow> (bool \<times> string) res" where
  "huawei_rows J parse_oc oc_json [] root out = Inr (True, out)"
| "huawei_rows J parse_oc oc_json (row # rows) root out =
     (case parse_oc (h_row_content row) of
        Some oc_if \<Rightarrow>
          bindr (append_decoded J root (oc_json oc_if)) (\<lambda>root.
            huawei_rows J parse_oc oc_json rows root (j_write J root))
      | None \<Rightarrow> Inr (False, out))"

definition HuaweiGpbOpenconfigInterface ::
  "'j json_api \<Rightarrow> (string \<Rightarrow> 'oc option) \<Rightarrow> ('oc \<Rightarrow> string) \<Rightarrow> huawei_Telemetry \<Rightarrow> string \<Rightarrow>
   (bool \<times> string) res" where
  "HuaweiGpbOpenconfigInterface J parse_oc oc_json huawei_tlm out0 =
     bindr (j_set_all J (j_null J) (huawei_assigns J huawei_tlm)) (\<lambda>root.
       huawei_rows J parse_oc oc_json (h_rows huawei_tlm) root out0)"

section \<open>Lemmas\<close>

definition row_ok :: "(string \<Rightarrow> 'oc option) \<Rightarrow> huawei_TelemetryRowGPB \<Rightarrow> bool" where
  "row_ok parse_oc row = (parse_oc (h_row_content row) \<noteq> None)"

definition row_json :: "(string \<Rightarrow> 'oc option) \<Rightarrow> ('oc \<Rightarrow> string) \<Rightarrow> huawei_TelemetryRowGPB \<Rightarrow> string" where
  "row_json parse_oc oc_json row = oc_json (the (parse_oc (h_row_content row)))"

text \<open>The root after some rows: the header members and the decoded rows so far.\<close>

definition huawei_root_ok :: "'j json_api \<Rightarrow> huawei_Telemetry \<Rightarrow> string list \<Rightarrow> 'j \<Rightarrow> bool" where
  "huawei_root_ok J tlm decoded root =
     (j_type J root = objectValue \<and>
      (\<forall>k. k \<noteq> ''decoded'' \<longrightarrow> j_get J root k = map_of (huawei_assigns J tlm) k) \<and>
      (if decoded = [] then j_get J root ''decoded'' = None
       else \<exists>d. j_get J root ''decoded'' = Some d \<and> j_type J d = arrayValue \<and>
              j_elems J d = map (j_string J) decoded))"

lemma huawei_assigns_distinct [simp]:
  "distinct (map fst (huawei_assigns J tlm))" "huawei_assigns J tlm \<noteq> []"
  "map_of (huawei_assigns J tlm) ''decoded'' = None"
  by (simp_all add: huawei_assigns_def)

context json_lib
begin

lemma append_decoded_cases:
  assumes "huawei_root_ok J tlm ds root"
  obtains root' where "append_decoded J root s = Inr root'" and "huawei_root_ok J tlm (ds @ [s]) root'"
proof -
  define d where "d = (case j_get J root ''decoded'' of Some d \<Rightarrow> d | None \<Rightarrow> j_null J)"
  have "arrlike J d" and de: "j_elems J d = map (j_string J) ds"
    using assms by (auto simp: huawei_root_ok_def d_def arrlike_def split: if_splits)
  then obtain d' where d': "j_append J d (j_string J s) = Inr d'" "j_type J d' = arrayValue"
    "j_elems J d' = j_elems J d @ [j_string J s]"
    using append_cases by metis
  have "objlike J root" using assms by (simp add: huawei_root_ok_def objlike_def)
  then obtain r where r: "j_set J root ''decoded'' d' = Inr r" "j_type J r = objectValue"
    "\<forall>k. j_get J r k = (if k = ''decoded'' then Some d' else j_get J root k)"
    using set_cases [of root "''decoded''" d'] by metis
  have "append_decoded J root s = Inr r"
    using d'(1) r(1) by (simp add: append_decoded_def d_def)
  moreover have "huawei_root_ok J tlm (ds @ [s]) r"
    using assms r(2,3) d'(2,3) de by (simp add: huawei_root_ok_def)
  ultimately show thesis by (rule that)
qed

lemma huawei_rows_run:
  assumes "huawei_root_ok J tlm ds root" and "out = (if ds = [] then out0 else j_write J root)"
  shows "\<exists>root' ds'. ds' = ds @ map (row_json parse_oc oc_json) (takeWhile (row_ok parse_oc) rows) \<and>
    huawei_root_ok J tlm ds' root' \<and>
    huawei_rows J parse_oc oc_json rows root out
      = Inr (\<forall>r\<in>set rows. row_ok parse_oc r, if ds' = [] then out0 else j_write J root')"
  using assms
proof (induction rows arbitrary: ds root out)
  case Nil
  then show ?case by auto
next
  case (Cons row rows)
  show ?case
  proof (cases "parse_oc (h_row_content row)")
    case None
    then show ?thesis using Cons.prems by (auto simp: row_ok_def)
  next
    case (Some oc)
    obtain r where r: "append_decoded J root (oc_json oc) = Inr r"
      "huawei_root_ok J tlm (ds @ [oc_json oc]) r"
      by (rule append_decoded_cases [OF Cons.prems(1)])
    from Cons.IH [OF r(2), of "j_write J r"] show ?thesis
      using Some r(1) by (simp add: row_ok_def row_json_def)
  qed
qed

end

section \<open>Properties\<close>

text \<open>Decoding a Huawei message never throws. It returns true exactly when every row parses;
  the output is then the header members with all rows decoded in order (or the caller's
  string untouched when there is no row), and on a row that does not parse it still holds
  the text built from the rows before it.\<close>

theorem HuaweiGpbOpenconfigInterface_rows:
  assumes "json_lib J"
  shows "\<exists>root ds. ds = map (row_json parse_oc oc_json) (takeWhile (row_ok parse_oc) (h_rows tlm)) \<and>
    huawei_root_ok J tlm ds root \<and>
    HuaweiGpbOpenconfigInterface J parse_oc oc_json tlm out0
      = Inr (\<forall>r\<in>set (h_rows tlm). row_ok parse_oc r, if ds = [] then out0 else j_write J root)"
proof -
  obtain r where r: "j_set_all J (j_null J) (huawei_assigns J tlm) = Inr r"
    "j_type J r = objectValue" "\<forall>k. j_get J r k = map_of (huawei_assigns J tlm) k"
    by (rule json_lib.set_all_null [OF assms huawei_assigns_distinct(2,1)])
  have "huawei_root_ok J tlm [] r" using r(2,3) by (simp add: huawei_root_ok_def)
  from json_lib.huawei_rows_run [OF assms this, of out0 out0 parse_oc oc_json "h_rows tlm"] show ?thesis
    using r(1) by (simp add: HuaweiGpbOpenconfigInterface_def)
qed

definition huawei_sample :: "string list \<Rightarrow> huawei_Telemetry" where
  "huawei_sample rows =
     \<lparr>h_node_id_str = ''n'', h_subscription_id_str = ''s'', h_sensor_path = ''p'',
      h_proto_path = ''q'', h_collection_id = 1, h_collection_start_time = 2, h_msg_timestamp = 3,
      h_data_gpb = Some (map (\<lambda>c. \<lparr>h_row_timestamp = 0, h_row_content = c\<rparr>) rows),
      h_collection_end_time = 4, h_current_period = 5, h_except_desc = [], h_product_name = [],
      h_encoding = 0, h_data_str = [], h_ne_id = [], h_software_version = []\<rparr>"

theorem HuaweiGpbOpenconfigInterface_rows_witness:
  "\<exists>root. huawei_root_ok ref_json (huawei_sample [''a'', [], ''b'']) [''a''] root \<and>
     HuaweiGpbOpenconfigInterface ref_json (\<lambda>s. if s = [] then None else Some s) (\<lambda>s. s)
       (huawei_sample [''a'', [], ''b'']) [] = Inr (False, ref_write root)"
  using HuaweiGpbOpenconfigInterface_rows [OF json_lib_ref, of
      "\<lambda>s. if s = [] then None else Some s" "\<lambda>s. s" "huawei_sample [''a'', [], ''b'']" "[]"]
  by (auto simp: huawei_sample_def h_rows_def row_ok_def row_json_def)

end
