(* ===== verification/Data_Wrapper.thy ===== *)
theory Data_Wrapper
  imports Cpp_Strings
begin

text \<open>
  \<open>src/dataWrapper/data_wrapper.{h,cc}\<close>: the record handed to the ZeroMQ back end, its
  setters and \<open>BuildDataWrapper\<close>. Each \<open>DataWrapper\<close> counts the messages it has carried.
\<close>

record DataWrapper =
  dw_sequence_number :: "64 word"
  dw_event_type :: string
  dw_serialization :: string
  dw_timestamp :: "64 word"
  dw_writer_id :: string
  dw_telemetry_node :: string
  dw_telemetry_port :: string
  dw_telemetry_data :: string

definition new_DataWrapper :: DataWrapper where
  "new_DataWrapper =
     \<lparr>dw_sequence_number = 0, dw_event_type = ''gRPC'', dw_serialization = ''json_string'',
      dw_timestamp = 0, dw_writer_id = ''mdt-dialout-collector'', dw_telemetry_node = ''none'',
      dw_telemetry_port = ''none'', dw_telemetry_data = ''none''\<rparr>"

definition dw_set_sequence_number :: "DataWrapper \<Rightarrow> DataWrapper" where
  "dw_set_sequence_number w = w\<lparr>dw_sequence_number := dw_sequence_number w + 1\<rparr>"

text \<open>The setters of the string members are record updates; \<open>now\<close> is \<open>std::time\<close>.\<close>

definition BuildDataWrapper ::
  "64 word \<Rightarrow> string \<Rightarrow> string \<Rightarrow> string \<Rightarrow> string \<Rightarrow> string \<Rightarrow> string \<Rightarrow> DataWrapper \<Rightarrow>
   bool \<times> DataWrapper" where
  "BuildDataWrapper now event_type serialization writer_id telemetry_node telemetry_port
     telemetry_data w =
     (True, (dw_set_sequence_number w)
        \<lparr>dw_event_type := event_type, dw_serialization := serialization, dw_timestamp := now,
         dw_writer_id := writer_id, dw_telemetry_node := telemetry_node,
         dw_telemetry_port := telemetry_port, dw_telemetry_data := telemetry_data\<rparr>)"

text \<open>The lines \<open>DisplayDataWrapper\<close> prints. The port is converted on the way.\<close>

definition DisplayDataWrapper :: "DataWrapper \<Rightarrow> string list res" where
  "DisplayDataWrapper w =
     bindr (stoi (dw_telemetry_port w)) (\<lambda>n. Inr
       [dec_of_nat (unat (dw_sequence_number w)), dw_event_type w, dw_serialization w,
        (let t = sint (dw_timestamp w) in
           if t < 0 then ''-'' @ dec_of_nat (nat (- t)) else dec_of_nat (nat t)),
        dw_writer_id w, dw_telemetry_node w,
        dec_of_nat (unat (word_of_int n :: 16 word)), dw_telemetry_data w])"

text \<open>Wrapping \<open>n\<close> messages one after the other leaves the wrapper with the last message's
  members and a sequence number advanced by \<open>n\<close> (modulo \<open>2^64\<close>), whatever it held.\<close>

definition wrap_all ::
  "64 word \<Rightarrow> string \<Rightarrow> (string \<times> string \<times> string) list \<Rightarrow> DataWrapper \<Rightarrow> DataWrapper" where
  "wrap_all now writer_id msgs w =
     foldl (\<lambda>w (node, port, data).
       snd (BuildDataWrapper now ''gRPC'' ''json_string'' writer_id node port data w)) w msgs"

lemma wrap_all_seq: "dw_sequence_number (wrap_all now wid msgs w) =
    dw_sequence_number w + of_nat (length msgs)"
  by (induction msgs arbitrary: w)
    (auto simp: wrap_all_def BuildDataWrapper_def dw_set_sequence_number_def)

text \<open>A freshly constructed wrapper cannot be displayed: its default port "none" makes
  \<open>std::stoi\<close> throw. Once built with a numeric port it prints its eight members.\<close>

lemma DisplayDataWrapper_default_throws:
  "DisplayDataWrapper new_DataWrapper = Inl (Throw Invalid_argument) \<and>
   (\<forall>w now wid node p data. p < 65536 \<longrightarrow> (\<exists>ls. DisplayDataWrapper
      (snd (BuildDataWrapper now ''gRPC'' ''json_string'' wid node (dec_of_nat p) data w)) = Inr ls \<and>
      length ls = 8 \<and> ls ! 6 = dec_of_nat p \<and> ls ! 7 = data))"
proof (intro conjI allI impI)
  have "stoi ''none'' = Inl (Throw Invalid_argument)" by code_simp
  then show "DisplayDataWrapper new_DataWrapper = Inl (Throw Invalid_argument)"
    by (simp add: DisplayDataWrapper_def new_DataWrapper_def)
next
  fix w now wid node data and p :: nat
  assume p: "p < 65536"
  then have "stoi (dec_of_nat p) = Inr (int p)" using stoi_dec_of_nat [of p] by simp
  moreover have "unat (word_of_int (int p) :: 16 word) = p"
    using p by (simp add: unat_of_nat)
  ultimately show "\<exists>ls. DisplayDataWrapper
      (snd (BuildDataWrapper now ''gRPC'' ''json_string'' wid node (dec_of_nat p) data w)) = Inr ls \<and>
      length ls = 8 \<and> ls ! 6 = dec_of_nat p \<and> ls ! 7 = data"
    by (simp add: DisplayDataWrapper_def BuildDataWrapper_def)
qed

end
