(* ===== verification/Kafka_Types.thy ===== *)
theory Kafka_Types
  imports Cpp_Strings
begin

text \<open>
  The value classes of the Kafka client library under \<open>src/include/kafka\<close>: \<open>ConstBuffer\<close>
  (Types.h), \<open>Header\<close>, \<open>ProducerRecord\<close>, \<open>Timestamp\<close> and \<open>RecordMetadata\<close>
  (ProducerCommon.h). A buffer is a pointer and a size over an explicit store of byte
  blocks, so that reading one after its block is gone is a failure. Metadata either points
  to librdkafka's message or holds a cached copy; the lemmas show that a copy reads the
  same and no longer points anywhere.
\<close>

section \<open>Buffers\<close>

type_synonym mem = "nat \<rightharpoonup> string"

record ConstBuffer =
  cb_data :: "nat option"
  cb_size :: nat

text \<open>The bytes of a buffer, read from its block.\<close>

definition read_buffer :: "mem \<Rightarrow> ConstBuffer \<Rightarrow> string res" where
  "read_buffer M b =
     (if cb_size b = 0 then Inr []
      else case cb_data b of
        None \<Rightarrow> Inl (Undefined Null_dereference)
      | Some a \<Rightarrow>
          (case M a of
             None \<Rightarrow> Inl (Undefined Use_after_free)
           | Some bytes \<Rightarrow> if cb_size b \<le> length bytes then Inr (take (cb_size b) bytes)
                          else Inl (Undefined Index_out_of_bounds)))"

text \<open>\<open>printChar\<close>: printable characters as they are, others as two hexadecimal digits.\<close>

definition is_print :: "char \<Rightarrow> bool" where
  "is_print c = (let n = of_char c :: nat in 32 \<le> n \<and> n < 127)"

definition hex_digit :: "nat \<Rightarrow> char" where
  "hex_digit d = (if d < 10 then char_of (48 + d) else char_of (87 + d))"

definition printChar :: "char \<Rightarrow> string" where
  "printChar c =
     (if is_print c then [c]
      else ''[0x'' @ [hex_digit (of_char c div 16), hex_digit (of_char c mod 16)] @ '']'')"

definition ConstBuffer_toString :: "mem \<Rightarrow> ConstBuffer \<Rightarrow> string res" where
  "ConstBuffer_toString M b =
     (if cb_size b = 0 then Inr (if cb_data b \<noteq> None then ''[empty]'' else ''[null]'')
      else bindr (read_buffer M b) (\<lambda>bytes. Inr (concat (map printChar bytes))))"

lemma read_buffer_ok:
  "M a = Some bytes \<Longrightarrow> read_buffer M \<lparr>cb_data = Some a, cb_size = length bytes\<rparr> = Inr bytes"
  by (simp add: read_buffer_def)

lemma printChar_printable:
  assumes "x \<in> set (printChar c)"
  shows "is_print x"
proof (cases "is_print c")
  case True
  then show ?thesis using assms by (simp add: printChar_def)
next
  case False
  have c: "of_char c < (256 :: nat)" by simp
  have h: "is_print (hex_digit d)" if "d < 16" for d
    using that by (simp add: hex_digit_def is_print_def)
  have "is_print CHR ''[''" "is_print CHR ''0''" "is_print CHR ''x''" "is_print CHR '']''"
    by (simp_all add: is_print_def)
  moreover have "of_char c div 16 < (16 :: nat)" "of_char c mod 16 < (16 :: nat)" using c by (simp_all add: less_mult_imp_div_less)
  ultimately show ?thesis using assms False h by (auto simp: printChar_def)
qed

text \<open>Whatever bytes a buffer holds, its text is printable.\<close>

lemma ConstBuffer_toString_printable:
  assumes "ConstBuffer_toString M b = Inr s" and "x \<in> set s"
  shows "is_print x"
proof (cases "cb_size b = 0")
  case True
  then show ?thesis using assms by (auto simp: ConstBuffer_toString_def is_print_def split: if_splits)
next
  case False
  then show ?thesis using assms printChar_printable
    by (auto simp: ConstBuffer_toString_def bindr_eq_Inr)
qed

section \<open>Printed errors\<close>

definition Error_toString :: "(int \<Rightarrow> string) \<Rightarrow> Error \<Rightarrow> string" where
  "Error_toString err2str e =
     err2str (Error_value e) @ '' ['' @ dec_of_int (Error_value e) @ '']'' @
     (if Error_isFatal e then '' fatal'' else []) @
     (if Error_transactionRequiresAbort e then '' | transaction-requires-abort'' else []) @
     (case Error_isRetriable e of
        Some r \<Rightarrow> '' | '' @ (if r then ''retriable'' else ''non-retriable'') | None \<Rightarrow> []) @
     (case err_message e of Some m \<Rightarrow> '' | '' @ m | None \<Rightarrow> [])"

section \<open>Headers and records\<close>

text \<open>The type of the key, the value and the header values is left open: it is \<open>ConstBuffer\<close>
  in the class, and \<open>string\<close> where the bytes behind the buffers are meant.\<close>

record 'b Header =
  hd_key :: string
  hd_value :: 'b

record 'b ProducerRecord =
  pr_topic :: string
  pr_partition :: int
  pr_key :: 'b
  pr_value :: 'b
  pr_headers :: "'b Header list"
  pr_id :: "64 word option"

definition RD_KAFKA_PARTITION_UA :: int where
  "RD_KAFKA_PARTITION_UA = - 1"

definition new_ProducerRecord :: "string \<Rightarrow> int \<Rightarrow> 'b \<Rightarrow> 'b \<Rightarrow> 'b ProducerRecord" where
  "new_ProducerRecord topic part key val =
     \<lparr>pr_topic = topic, pr_partition = part, pr_key = key, pr_value = val,
      pr_headers = [], pr_id = None\<rparr>"

definition new_ProducerRecord_id :: "string \<Rightarrow> int \<Rightarrow> 'b \<Rightarrow> 'b \<Rightarrow> 64 word \<Rightarrow> 'b ProducerRecord" where
  "new_ProducerRecord_id topic part key val i =
     (new_ProducerRecord topic part key val)\<lparr>pr_id := Some i\<rparr>"

definition new_ProducerRecord_UA :: "string \<Rightarrow> 'b \<Rightarrow> 'b \<Rightarrow> 'b ProducerRecord" where
  "new_ProducerRecord_UA topic key val =
     new_ProducerRecord topic RD_KAFKA_PARTITION_UA key val"

definition new_ProducerRecord_UA_id :: "string \<Rightarrow> 'b \<Rightarrow> 'b \<Rightarrow> 64 word \<Rightarrow> 'b ProducerRecord" where
  "new_ProducerRecord_UA_id topic key val i =
     (new_ProducerRecord_UA topic key val)\<lparr>pr_id := Some i\<rparr>"

definition Header_toString :: "mem \<Rightarrow> ConstBuffer Header \<Rightarrow> string res" where
  "Header_toString M h = bindr (ConstBuffer_toString M (hd_value h)) (\<lambda>v.
     Inr ((if hd_key h = [] then ''[null]'' else hd_key h) @ '':'' @ v))"

text \<open>The separator is decided by whether anything was appended before.\<close>

definition Headers_toString :: "mem \<Rightarrow> ConstBuffer Header list \<Rightarrow> string res" where
  "Headers_toString M hs =
     foldM (\<lambda>h ret. bindr (Header_toString M h) (\<lambda>s.
       Inr (ret @ (if ret = [] then [] else '','') @ s))) hs []"

definition ProducerRecord_toString :: "mem \<Rightarrow> ConstBuffer ProducerRecord \<Rightarrow> string res" where
  "ProducerRecord_toString M r =
     bindr (if pr_headers r = [] then Inr []
            else bindr (Headers_toString M (pr_headers r)) (\<lambda>h. Inr (''headers['' @ h @ ''], ''))) (\<lambda>hs.
     bindr (ConstBuffer_toString M (pr_key r)) (\<lambda>k.
     bindr (ConstBuffer_toString M (pr_value r)) (\<lambda>v.
       Inr (pr_topic r @ ''-'' @
            (if pr_partition r = RD_KAFKA_PARTITION_UA then ''NA'' else dec_of_int (pr_partition r)) @
            '':'' @ (case pr_id r of Some i \<Rightarrow> dec_of_nat (unat i) @ '', '' | None \<Rightarrow> '' '') @
            hs @ k @ ''/'' @ v))))"

section \<open>Time stamps\<close>

datatype timestamp_type = NotAvailable | CreateTime | LogAppendTime

record Timestamp =
  ts_msSinceEpoch :: int
  ts_type :: timestamp_type

text \<open>librdkafka's constants are 0 for not available, 1 for create, 2 for log append.\<close>

definition convertType :: "int \<Rightarrow> timestamp_type" where
  "convertType t = (if t = 1 then CreateTime else if t = 2 then LogAppendTime else NotAvailable)"

fun timestamp_type_toString :: "timestamp_type \<Rightarrow> string" where
  "timestamp_type_toString CreateTime = ''CreateTime''"
| "timestamp_type_toString LogAppendTime = ''LogAppendTime''"
| "timestamp_type_toString NotAvailable = []"

text \<open>\<open>time_text\<close> is the local time of day, which the C library prints.\<close>

definition Timestamp_toString :: "(int \<Rightarrow> string) \<Rightarrow> Timestamp \<Rightarrow> string" where
  "Timestamp_toString time_text t =
     (let ty = timestamp_type_toString (ts_type t); tm = time_text (ts_msSinceEpoch t)
      in if ty = [] then tm else ty @ ''['' @ tm @ '']'')"

section \<open>Record metadata\<close>

text \<open>What the library reads of an \<open>rd_kafka_message_t\<close>: its fields, and its topic handle, time
  stamp and status through accessors of librdkafka. \<open>rm_private\<close> is the opaque pointer.\<close>

record rd_kafka_message =
  rm_err :: int
  rm_topic :: "string option"
  rm_partition :: int
  rm_offset :: int
  rm_key_len :: nat
  rm_len :: nat
  rm_timestamp :: "int \<times> int"
  rm_status :: int
  rm_private :: "nat option"

datatype PersistedStatus = Ps_Not | Ps_Possibly | Ps_Done

record CachedInfo =
  ci_topic :: string
  ci_partition :: int
  ci_offset :: int
  ci_keySize :: nat
  ci_valueSize :: nat
  ci_timestamp :: Timestamp
  ci_persistedStatus :: PersistedStatus

record RecordMetadata =
  md_cachedInfo :: "CachedInfo option"
  md_rkmsg :: "rd_kafka_message option"
  md_recordId :: "64 word option"

definition RD_KAFKA_OFFSET_INVALID :: int where
  "RD_KAFKA_OFFSET_INVALID = - 1001"

definition empty_RecordMetadata :: RecordMetadata where
  "empty_RecordMetadata = \<lparr>md_cachedInfo = None, md_rkmsg = None, md_recordId = None\<rparr>"

definition new_RecordMetadata :: "rd_kafka_message \<Rightarrow> 64 word option \<Rightarrow> RecordMetadata" where
  "new_RecordMetadata m i = \<lparr>md_cachedInfo = None, md_rkmsg = Some m, md_recordId = i\<rparr>"

definition getMsgTimestamp :: "rd_kafka_message \<Rightarrow> Timestamp" where
  "getMsgTimestamp m = \<lparr>ts_msSinceEpoch = fst (rm_timestamp m), ts_type = convertType (snd (rm_timestamp m))\<rparr>"

definition getMsgPersistedStatus :: "rd_kafka_message \<Rightarrow> PersistedStatus" where
  "getMsgPersistedStatus m =
     (if rm_status m = 0 then Ps_Not else if rm_status m = 2 then Ps_Done else Ps_Possibly)"

fun getPersistedStatusString :: "PersistedStatus \<Rightarrow> string" where
  "getPersistedStatusString Ps_Not = ''NotPersisted''"
| "getPersistedStatusString Ps_Done = ''Persisted''"
| "getPersistedStatusString Ps_Possibly = ''PossiblyPersisted''"

text \<open>Every accessor reads the message when there is one and the cache otherwise; a default
  constructed object has neither.\<close>

definition md_read :: "(rd_kafka_message \<Rightarrow> 'a) \<Rightarrow> (CachedInfo \<Rightarrow> 'a) \<Rightarrow> RecordMetadata \<Rightarrow> 'a res" where
  "md_read f g md =
     (case md_rkmsg md of
        Some m \<Rightarrow> Inr (f m)
      | None \<Rightarrow> (case md_cachedInfo md of
                  Some c \<Rightarrow> Inr (g c) | None \<Rightarrow> Inl (Undefined Null_dereference)))"

definition md_topic :: "RecordMetadata \<Rightarrow> string res" where
  "md_topic = md_read (\<lambda>m. case rm_topic m of Some t \<Rightarrow> t | None \<Rightarrow> []) ci_topic"

definition md_partition :: "RecordMetadata \<Rightarrow> int res" where
  "md_partition = md_read rm_partition ci_partition"

definition md_offset :: "RecordMetadata \<Rightarrow> int option res" where
  "md_offset md = bindr (md_read rm_offset ci_offset md) (\<lambda>offset.
     Inr (if offset \<noteq> RD_KAFKA_OFFSET_INVALID then Some offset else None))"

definition md_keySize :: "RecordMetadata \<Rightarrow> nat res" where
  "md_keySize = md_read rm_key_len ci_keySize"

definition md_valueSize :: "RecordMetadata \<Rightarrow> nat res" where
  "md_valueSize = md_read rm_len ci_valueSize"

definition md_timestamp :: "RecordMetadata \<Rightarrow> Timestamp res" where
  "md_timestamp = md_read getMsgTimestamp ci_timestamp"

definition md_persistedStatus :: "RecordMetadata \<Rightarrow> PersistedStatus res" where
  "md_persistedStatus = md_read getMsgPersistedStatus ci_persistedStatus"

definition md_persistedStatusString :: "RecordMetadata \<Rightarrow> string res" where
  "md_persistedStatusString md =
     bindr (md_persistedStatus md) (\<lambda>s. Inr (getPersistedStatusString s))"

text \<open>The assignment from another object, and the copy constructor, which is that assignment to
  an empty object.\<close>

definition RecordMetadata_copy :: "RecordMetadata \<Rightarrow> RecordMetadata res" where
  "RecordMetadata_copy another =
     bindr (md_offset another) (\<lambda>offsetOption.
     bindr (md_topic another) (\<lambda>t.
     bindr (md_partition another) (\<lambda>p.
     bindr (md_keySize another) (\<lambda>ks.
     bindr (md_valueSize another) (\<lambda>vs.
     bindr (md_timestamp another) (\<lambda>ts.
     bindr (md_persistedStatus another) (\<lambda>st.
       Inr \<lparr>md_cachedInfo = Some \<lparr>ci_topic = t, ci_partition = p,
              ci_offset = (case offsetOption of Some o' \<Rightarrow> o' | None \<Rightarrow> RD_KAFKA_OFFSET_INVALID),
              ci_keySize = ks, ci_valueSize = vs, ci_timestamp = ts, ci_persistedStatus = st\<rparr>,
            md_rkmsg = None, md_recordId = md_recordId another\<rparr>)))))))"

definition RecordMetadata_toString :: "(int \<Rightarrow> string) \<Rightarrow> RecordMetadata \<Rightarrow> string res" where
  "RecordMetadata_toString time_text md =
     bindr (md_offset md) (\<lambda>offsetOption.
     bindr (md_topic md) (\<lambda>t.
     bindr (md_partition md) (\<lambda>p.
     bindr (md_timestamp md) (\<lambda>ts.
     bindr (md_persistedStatusString md) (\<lambda>st.
       Inr (t @ ''-'' @ dec_of_int p @ ''@'' @
            (case offsetOption of Some o' \<Rightarrow> dec_of_int o' | None \<Rightarrow> ''NA'') @
            (case md_recordId md of Some i \<Rightarrow> '':id['' @ dec_of_nat (unat i) @ ''],'' | None \<Rightarrow> '','') @
            Timestamp_toString time_text ts @ '','' @ st))))))"

lemmas md_defs = md_read_def md_topic_def md_partition_def md_offset_def md_keySize_def
  md_valueSize_def md_timestamp_def md_persistedStatus_def md_persistedStatusString_def

definition md_valid :: "RecordMetadata \<Rightarrow> bool" where
  "md_valid md = (md_rkmsg md \<noteq> None \<or> md_cachedInfo md \<noteq> None)"

lemma RecordMetadata_copy_empty:
  "RecordMetadata_copy empty_RecordMetadata = Inl (Undefined Null_dereference)"
  by (simp add: RecordMetadata_copy_def empty_RecordMetadata_def md_defs)

section \<open>Properties\<close>

text \<open>A copy of record metadata can be read after librdkafka has destroyed the message: copying a
  usable object succeeds, the copy points to no message, every accessor returns on it what it
  returned on the original, and it prints the same.\<close>

theorem RecordMetadata_copy_same:
  assumes "md_valid md"
  shows "\<exists>c. RecordMetadata_copy md = Inr c \<and> md_rkmsg c = None \<and> md_valid c \<and>
    md_topic c = md_topic md \<and> md_partition c = md_partition md \<and> md_offset c = md_offset md \<and>
    md_recordId c = md_recordId md \<and> md_keySize c = md_keySize md \<and>
    md_valueSize c = md_valueSize md \<and> md_timestamp c = md_timestamp md \<and>
    md_persistedStatus c = md_persistedStatus md \<and>
    RecordMetadata_toString time_text c = RecordMetadata_toString time_text md"
  using assms
  by (cases "md_rkmsg md"; cases "md_cachedInfo md")
    (auto simp: md_valid_def RecordMetadata_copy_def RecordMetadata_toString_def md_defs)

theorem RecordMetadata_copy_same_witness:
  "\<exists>c. RecordMetadata_copy (new_RecordMetadata \<lparr>rm_err = 0, rm_topic = Some ''t'', rm_partition = 3,
       rm_offset = - 1001, rm_key_len = 4, rm_len = 2, rm_timestamp = (5, 1), rm_status = 2,
       rm_private = None\<rparr> (Some 9)) = Inr c \<and> md_rkmsg c = None \<and> md_topic c = Inr ''t'' \<and>
     md_offset c = Inr None"
proof -
  let ?m = "new_RecordMetadata \<lparr>rm_err = 0, rm_topic = Some ''t'', rm_partition = 3, rm_offset = - 1001,
      rm_key_len = 4, rm_len = 2, rm_timestamp = (5, 1), rm_status = 2, rm_private = None\<rparr> (Some 9)"
  have v: "md_valid ?m" by (simp add: md_valid_def new_RecordMetadata_def)
  have "md_topic ?m = Inr ''t''" "md_offset ?m = Inr None"
    by (simp_all add: md_defs new_RecordMetadata_def RD_KAFKA_OFFSET_INVALID_def)
  then show ?thesis using RecordMetadata_copy_same [OF v] by metis
qed

end
