(* ===== verification/Kafka_Properties.thy ===== *)
theory Kafka_Properties
  imports Cpp_Strings "HOL-Library.List_Lexorder" "HOL-Library.Char_ord"
begin

text \<open>
  \<open>src/include/kafka/Properties.h\<close> and the log buffer of \<open>Log.h\<close>. A \<open>Properties\<close> object
  is its map; where the code walks through the map it does so in the order of the keys. The
  lemmas show that its printed form does not depend on any password, user name or secret, and
  that the log buffer keeps a prefix that fits.
\<close>

section \<open>The map\<close>

type_synonym Properties = "string \<rightharpoonup> string"

definition put :: "string \<Rightarrow> string \<Rightarrow> Properties \<Rightarrow> Properties" where
  "put key val props = props(key \<mapsto> val)"

definition props_remove :: "string \<Rightarrow> Properties \<Rightarrow> Properties" where
  "props_remove key props = props(key := None)"

definition getProperty :: "Properties \<Rightarrow> string \<Rightarrow> string option" where
  "getProperty props key = props key"

definition eraseProperty :: "string \<Rightarrow> Properties \<Rightarrow> Properties" where
  "eraseProperty key props = props(key := None)"

text \<open>The entries in the order of a \<open>std::map\<close>.\<close>

definition entries :: "Properties \<Rightarrow> (string \<times> string) list" where
  "entries props = map (\<lambda>k. (k, the (props k))) (sorted_list_of_set (dom props))"

text \<open>The regular expression \<open>.+\.password|.+\.username|.+secret\<close>, matched against the whole
  key; the dot matches everything but line ends.\<close>

definition line_char :: "char \<Rightarrow> bool" where
  "line_char c = (c \<noteq> CHR 0x0A \<and> c \<noteq> CHR 0x0D)"

definition matches_tail :: "string \<Rightarrow> string \<Rightarrow> bool" where
  "matches_tail t k =
     (length t < length k \<and> drop (length k - length t) k = t \<and>
      list_all line_char (take (length k - length t) k))"

definition is_sensitive :: "string \<Rightarrow> bool" where
  "is_sensitive k = list_ex (\<lambda>t. matches_tail t k) [''.password'', ''.username'', ''secret'']"

definition append_property :: "string \<times> string \<Rightarrow> string \<Rightarrow> string" where
  "append_property kv ret =
     ret @ (if ret = [] then [] else ''|'') @ fst kv @ ''='' @
     (if is_sensitive (fst kv) then ''*'' else snd kv)"

definition Properties_toString :: "Properties \<Rightarrow> string" where
  "Properties_toString props = fold append_property (entries props) []"

text \<open>Reading after writing.\<close>

lemma getProperty_put [simp]:
  "getProperty (put k v props) k' = (if k' = k then Some v else getProperty props k')"
  by (simp add: getProperty_def put_def)

lemma getProperty_erase [simp]:
  "getProperty (eraseProperty k props) k' = (if k' = k then None else getProperty props k')"
  "getProperty (props_remove k props) k' = (if k' = k then None else getProperty props k')"
  by (simp_all add: getProperty_def eraseProperty_def props_remove_def)

lemma dom_put [simp]: "dom (put k v props) = insert k (dom props)"
  by (simp add: put_def)

lemma set_entries: "finite (dom props) \<Longrightarrow> set (entries props) = {(k, v). props k = Some v}"
  by (force simp: entries_def dom_def image_iff)

lemma distinct_entries: "distinct (map fst (entries props))"
  by (simp add: entries_def comp_def)

lemma map_of_entries: "finite (dom props) \<Longrightarrow> map_of (entries props) = props"
proof
  fix k
  assume f: "finite (dom props)"
  show "map_of (entries props) k = props k"
  proof (cases "props k")
    case None
    then show ?thesis using set_entries [OF f] by (auto simp: map_of_eq_None_iff)
  next
    case (Some v)
    then show ?thesis using set_entries [OF f] distinct_entries [of props]
      by (simp add: map_of_eq_Some_iff)
  qed
qed

text \<open>The collector's SSL key password is sensitive; the other settings it passes are not.\<close>

lemma is_sensitive_simps [simp]:
  "is_sensitive ''ssl.key.password''" "\<not> is_sensitive ''ssl.key.location''"
  "\<not> is_sensitive ''bootstrap.servers''"
  by (code_simp)+

section \<open>Log buffers\<close>

text \<open>\<open>Log::Level\<close>, in the order of its values, and \<open>levelString\<close>, whose last name stands for
  everything beyond.\<close>

definition Emerg :: int where "Emerg = 0"
definition Err :: int where "Err = 3"
definition Notice :: int where "Notice = 5"
definition Debug :: int where "Debug = 7"

definition levelString :: "nat \<Rightarrow> string" where
  "levelString level =
     (let levelNames = [''EMERG'', ''ALERT'', ''CRIT'', ''ERR'', ''WARNING'', ''NOTICE'', ''INFO'',
                        ''DEBUG'', ''INVALID'']
      in levelNames ! min level (length levelNames - 1))"

text \<open>A \<open>LogBuffer\<close> of capacity \<open>cap\<close> is the text up to its write pointer. \<open>snprintf\<close> writes at
  most the remaining capacity less one; the pointer stops on the last byte.\<close>

definition LogBuffer_capacity :: "nat \<Rightarrow> string \<Rightarrow> nat" where
  "LogBuffer_capacity cap buf = cap - length buf"

definition LogBuffer_print :: "nat \<Rightarrow> string \<Rightarrow> string \<Rightarrow> string" where
  "LogBuffer_print cap txt buf = buf @ take (LogBuffer_capacity cap buf - 1) txt"

lemma LogBuffer_print_bounded:
  "length buf < cap \<Longrightarrow> length (LogBuffer_print cap txt buf) < cap"
  by (simp add: LogBuffer_print_def LogBuffer_capacity_def)

lemma LogBuffer_print_twice:
  assumes "0 < cap"
  shows "LogBuffer_print cap t (LogBuffer_print cap s []) = take (cap - 1) (s @ t)"
  using assms by (auto simp: LogBuffer_print_def LogBuffer_capacity_def min_def)

section \<open>Properties\<close>

text \<open>The keys whose values are secrets, written down without the code's pattern: those that end in
  \<open>.password\<close>, \<open>.username\<close> or \<open>secret\<close> after at least one character, on one line.\<close>

definition secret_key :: "string \<Rightarrow> bool" where
  "secret_key k = (\<exists>x. x \<noteq> [] \<and> CHR 0x0A \<notin> set x \<and> CHR 0x0D \<notin> set x \<and>
     (k = x @ ''.password'' \<or> k = x @ ''.username'' \<or> k = x @ ''secret''))"

lemma matches_tail_iff:
  "matches_tail t k \<longleftrightarrow> (\<exists>x. x \<noteq> [] \<and> CHR 0x0A \<notin> set x \<and> CHR 0x0D \<notin> set x \<and> k = x @ t)"
  (is "?l \<longleftrightarrow> ?r")
proof
  assume l: ?l
  let ?x = "take (length k - length t) k"
  have "k = ?x @ t" using l by (metis append_take_drop_id matches_tail_def)
  moreover have "?x \<noteq> []" using l by (auto simp: matches_tail_def)
  moreover have "CHR 0x0A \<notin> set ?x" "CHR 0x0D \<notin> set ?x"
    using l by (auto simp: matches_tail_def line_char_def list_all_iff)
  ultimately show ?r by blast
next
  assume ?r
  then show ?l by (auto simp: matches_tail_def line_char_def list_all_iff)
qed

lemma is_sensitive_iff: "is_sensitive k \<longleftrightarrow> secret_key k"
  by (auto simp: is_sensitive_def secret_key_def matches_tail_iff)

definition shown_entry :: "Properties \<Rightarrow> string \<Rightarrow> string" where
  "shown_entry p k = k @ ''='' @ (if secret_key k then ''*'' else the (p k))"

lemma fold_append_property:
  "ret \<noteq> [] \<Longrightarrow> fold append_property (map (\<lambda>k. (k, the (p k))) ks) ret =
     ret @ concat (map (\<lambda>k. ''|'' @ shown_entry p k) ks)"
  by (induction ks arbitrary: ret) (simp_all add: append_property_def shown_entry_def is_sensitive_iff)

text \<open>C33. What a client logs of its properties: in the order of the keys every key with its value,
  separated by bars, but a star in place of the value for the keys that end in .password,
  .username or secret (such as ssl.key.password, sasl.username, sasl.oauthbearer.client.secret).
  So nothing is revealed about these values: two sets of properties with the same keys that agree
  on all other keys are printed alike.\<close>

theorem Properties_toString_hides:
  "Properties_toString p = tl (concat (map (\<lambda>k. ''|'' @ shown_entry p k) (sorted_list_of_set (dom p)))) \<and>
   (dom p = dom q \<and> (\<forall>k. \<not> secret_key k \<longrightarrow> p k = q k) \<longrightarrow> Properties_toString p = Properties_toString q)"
proof -
  have shown: "Properties_toString p = tl (concat (map (\<lambda>k. ''|'' @ shown_entry p k) (sorted_list_of_set (dom p))))" for p
  proof (cases "sorted_list_of_set (dom p)")
    case Nil
    then show ?thesis by (simp only: Properties_toString_def entries_def list.map fold_simps concat.simps list.sel)
  next
    case (Cons k ks)
    have first: "append_property (k, the (p k)) [] = shown_entry p k"
      by (simp add: append_property_def shown_entry_def is_sensitive_iff)
    have "shown_entry p k \<noteq> []" by (simp add: shown_entry_def)
    from fold_append_property [OF this, of p ks] first show ?thesis
      by (simp only: Properties_toString_def entries_def Cons list.map fold_simps concat.simps append_Cons
          append_Nil list.sel)
  qed
  have "Properties_toString p = Properties_toString q"
    if "dom p = dom q" "\<forall>k. \<not> secret_key k \<longrightarrow> p k = q k"
  proof -
    have "shown_entry p = shown_entry q" using that(2) by (auto simp: shown_entry_def fun_eq_iff)
    then show ?thesis using shown [of p] shown [of q] that(1) by simp
  qed
  then show ?thesis using shown by blast
qed

theorem Properties_toString_hides_witness:
  "Properties_toString [''ssl.key.password'' \<mapsto> ''abc''] = ''ssl.key.password=*'' \<and>
   Properties_toString [''sasl.username'' \<mapsto> ''abc''] = ''sasl.username=*'' \<and>
   Properties_toString [''ssl.key.password'' \<mapsto> ''abc'', ''topic'' \<mapsto> ''t''] =
     Properties_toString [''ssl.key.password'' \<mapsto> ''xyz'', ''topic'' \<mapsto> ''t'']"
proof -
  have k: "secret_key ''ssl.key.password''" "secret_key ''sasl.username''"
    unfolding secret_key_def
    by (rule exI [of _ "''ssl.key''"], simp, rule exI [of _ "''sasl''"], simp)
  have "\<forall>k. \<not> secret_key k \<longrightarrow> [''ssl.key.password'' \<mapsto> ''abc'', ''topic'' \<mapsto> ''t''] k =
      [''ssl.key.password'' \<mapsto> ''xyz'', ''topic'' \<mapsto> ''t''] k"
    using k(1) by auto
  then have "Properties_toString [''ssl.key.password'' \<mapsto> ''abc'', ''topic'' \<mapsto> ''t''] =
      Properties_toString [''ssl.key.password'' \<mapsto> ''xyz'', ''topic'' \<mapsto> ''t'']"
    by (intro mp [OF conjunct2 [OF Properties_toString_hides]] conjI) simp_all
  then show ?thesis
    using Properties_toString_hides [of "[''ssl.key.password'' \<mapsto> ''abc'']" Map.empty]
      Properties_toString_hides [of "[''sasl.username'' \<mapsto> ''abc'']" Map.empty] k
    by (simp add: shown_entry_def)
qed

end
