(* ===== verification/Kafka_Delivery.thy ===== *)
theory Kafka_Delivery
  imports Kafka_Types Kafka_Properties
begin

text \<open>
  \<open>src/dataDelivery/kafka_delivery.{h,cc}\<close>: the settings a \<open>KafkaDelivery\<close> copies out of the
  configuration, the librdkafka properties it derives from them, and one asynchronous send.
  The producer is a parameter here: \<open>send\<close> takes its state and the record, with the bytes behind
  its buffers, and says whether it returns or throws, and the new state. Kafka_Wiring puts the
  producer of Kafka_Producer in its place.
\<close>

record KafkaDelivery =
  kd_properties :: Properties
  kd_topic :: string
  kd_bootstrap_servers :: string
  kd_enable_idempotence :: string
  kd_client_id :: string
  kd_security_protocol :: string
  kd_ssl_key_location :: string
  kd_ssl_key_password :: string
  kd_ssl_certificate_location :: string
  kd_ssl_ca_location :: string
  kd_enable_ssl_certificate_verification :: string
  kd_log_level :: string

definition set_kafka_properties :: "KafkaDelivery \<Rightarrow> Properties \<Rightarrow> Properties" where
  "set_kafka_properties kd properties = properties
     (''bootstrap.servers'' \<mapsto> kd_bootstrap_servers kd,
      ''enable.idempotence'' \<mapsto> kd_enable_idempotence kd,
      ''client.id'' \<mapsto> kd_client_id kd,
      ''security.protocol'' \<mapsto> kd_security_protocol kd,
      ''ssl.key.location'' \<mapsto> kd_ssl_key_location kd,
      ''ssl.key.password'' \<mapsto> kd_ssl_key_password kd,
      ''ssl.certificate.location'' \<mapsto> kd_ssl_certificate_location kd,
      ''ssl.ca.location'' \<mapsto> kd_ssl_ca_location kd,
      ''enable.ssl.certificate.verification'' \<mapsto> kd_enable_ssl_certificate_verification kd,
      ''log_level'' \<mapsto> kd_log_level kd)"

definition kafka_cfg_keys :: "string list" where
  "kafka_cfg_keys =
     [''topic'', ''bootstrap_servers'', ''enable_idempotence'', ''client_id'',
      ''security_protocol'', ''ssl_key_location'', ''ssl_key_password'',
      ''ssl_certificate_location'', ''ssl_ca_location'',
      ''enable_ssl_certificate_verification'', ''log_level'']"

definition new_KafkaDelivery :: "(string \<rightharpoonup> string) \<Rightarrow> KafkaDelivery res" where
  "new_KafkaDelivery cfg =
     bindr (map_at cfg ''topic'') (\<lambda>topic.
     bindr (map_at cfg ''bootstrap_servers'') (\<lambda>servers.
     bindr (map_at cfg ''enable_idempotence'') (\<lambda>idempotence.
     bindr (map_at cfg ''client_id'') (\<lambda>client.
     bindr (map_at cfg ''security_protocol'') (\<lambda>protocol.
     bindr (map_at cfg ''ssl_key_location'') (\<lambda>key_location.
     bindr (map_at cfg ''ssl_key_password'') (\<lambda>key_password.
     bindr (map_at cfg ''ssl_certificate_location'') (\<lambda>certificate_location.
     bindr (map_at cfg ''ssl_ca_location'') (\<lambda>ca_location.
     bindr (map_at cfg ''enable_ssl_certificate_verification'') (\<lambda>verification.
     bindr (map_at cfg ''log_level'') (\<lambda>log_level.
     let kd = \<lparr>kd_properties = Map.empty, kd_topic = topic, kd_bootstrap_servers = servers,
               kd_enable_idempotence = idempotence, kd_client_id = client,
               kd_security_protocol = protocol, kd_ssl_key_location = key_location,
               kd_ssl_key_password = key_password,
               kd_ssl_certificate_location = certificate_location,
               kd_ssl_ca_location = ca_location,
               kd_enable_ssl_certificate_verification = verification, kd_log_level = log_level\<rparr>
     in Inr (kd\<lparr>kd_properties := set_kafka_properties kd Map.empty\<rparr>))))))))))))"

text \<open>The handler catches \<open>KafkaException\<close> and nothing else.\<close>

definition catch_kafka :: "unit res \<Rightarrow> bool res" where
  "catch_kafka result =
     (case result of
        Inr _ \<Rightarrow> Inr True
      | Inl (Throw (Kafka_exception _)) \<Rightarrow> Inr False
      | Inl e \<Rightarrow> Inl e)"

definition AsyncKafkaProducer ::
  "('p \<Rightarrow> string ProducerRecord \<Rightarrow> (unit res \<times> 'p) res) \<Rightarrow> KafkaDelivery \<Rightarrow> string \<Rightarrow> string \<Rightarrow> 'p \<Rightarrow>
   (bool \<times> 'p) res" where
  "AsyncKafkaProducer send kd peer json_str producer =
     (if json_str = [] then Inr (False, producer)
      else bindr (send producer (new_ProducerRecord_UA (kd_topic kd) peer json_str)) (\<lambda>(result, producer).
           bindr (catch_kafka result) (\<lambda>sent. Inr (sent, producer))))"

section \<open>Lemmas\<close>

text \<open>Whatever it returns, a call with a non-empty body has made one call of \<open>send\<close>.\<close>

lemma AsyncKafkaProducer_sends:
  assumes "AsyncKafkaProducer send kd peer json_str producer = Inr (ok, producer')" and "json_str \<noteq> []"
  shows "\<exists>result. send producer (new_ProducerRecord_UA (kd_topic kd) peer json_str) = Inr (result, producer')"
  using assms by (auto simp: AsyncKafkaProducer_def bindr_eq_Inr)

lemma new_KafkaDelivery_total:
  assumes "set kafka_cfg_keys \<subseteq> dom cfg"
  obtains kd where "new_KafkaDelivery cfg = Inr kd" and "cfg ''topic'' = Some (kd_topic kd)"
proof -
  have "\<exists>v. cfg k = Some v" if "k \<in> set kafka_cfg_keys" for k
    using assms that by blast
  then obtain f where f: "\<forall>k\<in>set kafka_cfg_keys. cfg k = Some (f k)" by metis
  then have "\<exists>kd. new_KafkaDelivery cfg = Inr kd \<and> cfg ''topic'' = Some (kd_topic kd)"
    by (simp add: new_KafkaDelivery_def kafka_cfg_keys_def Let_def)
  then show thesis using that by blast
qed

lemma new_KafkaDelivery_missing:
  assumes "\<not> set kafka_cfg_keys \<subseteq> dom cfg"
  shows "new_KafkaDelivery cfg = Inl (Throw Out_of_range)"
proof (rule ccontr)
  assume "new_KafkaDelivery cfg \<noteq> Inl (Throw Out_of_range)"
  then have "\<forall>k\<in>set kafka_cfg_keys. cfg k \<noteq> None"
    by (auto simp: new_KafkaDelivery_def kafka_cfg_keys_def Let_def bindr_def map_at_def
        split: option.splits)
  then show False using assms by auto
qed

text \<open>The client's name of a setting and the configuration key it comes from.\<close>

definition kafka_names :: "(string \<times> string) list" where
  "kafka_names =
     [(''bootstrap.servers'', ''bootstrap_servers''),
      (''enable.idempotence'', ''enable_idempotence''),
      (''client.id'', ''client_id''),
      (''security.protocol'', ''security_protocol''),
      (''ssl.key.location'', ''ssl_key_location''),
      (''ssl.key.password'', ''ssl_key_password''),
      (''ssl.certificate.location'', ''ssl_certificate_location''),
      (''ssl.ca.location'', ''ssl_ca_location''),
      (''enable.ssl.certificate.verification'', ''enable_ssl_certificate_verification''),
      (''log_level'', ''log_level'')]"

lemma kd_properties_set:
  assumes "new_KafkaDelivery cfg = Inr kd"
  shows "kd_properties kd = set_kafka_properties kd Map.empty"
  using assms by (auto simp: new_KafkaDelivery_def Let_def bindr_eq_Inr set_kafka_properties_def
        simp del: fun_upd_apply)

lemma properties_as_configured:
  assumes "new_KafkaDelivery cfg = Inr kd"
  shows "kd_properties kd p = Option.bind (map_of kafka_names p) cfg"
proof -
  have "kd_properties kd = set_kafka_properties kd Map.empty" by (rule kd_properties_set [OF assms])
  moreover have "cfg ''bootstrap_servers'' = Some (kd_bootstrap_servers kd)"
    "cfg ''enable_idempotence'' = Some (kd_enable_idempotence kd)"
    "cfg ''client_id'' = Some (kd_client_id kd)"
    "cfg ''security_protocol'' = Some (kd_security_protocol kd)"
    "cfg ''ssl_key_location'' = Some (kd_ssl_key_location kd)"
    "cfg ''ssl_key_password'' = Some (kd_ssl_key_password kd)"
    "cfg ''ssl_certificate_location'' = Some (kd_ssl_certificate_location kd)"
    "cfg ''ssl_ca_location'' = Some (kd_ssl_ca_location kd)"
    "cfg ''enable_ssl_certificate_verification'' = Some (kd_enable_ssl_certificate_verification kd)"
    "cfg ''log_level'' = Some (kd_log_level kd)"
    using assms by (auto simp: new_KafkaDelivery_def Let_def bindr_eq_Inr)
  ultimately show ?thesis
    by (simp add: set_kafka_properties_def kafka_names_def)
qed

text \<open>Constructing the Kafka back end succeeds exactly when all eleven configuration keys are
  present, otherwise \<open>at\<close> throws; the client is then created with the configured topic and
  exactly the ten configured settings, each under librdkafka's name for it.\<close>

theorem new_KafkaDelivery_settings:
  "((\<exists>kd. new_KafkaDelivery cfg = Inr kd \<and> cfg ''topic'' = Some (kd_topic kd) \<and>
       kd_properties kd = (\<lambda>p. Option.bind (map_of kafka_names p) cfg))
      = (set kafka_cfg_keys \<subseteq> dom cfg)) \<and>
   ((new_KafkaDelivery cfg = Inl (Throw Out_of_range)) = (\<not> set kafka_cfg_keys \<subseteq> dom cfg))"
proof (cases "set kafka_cfg_keys \<subseteq> dom cfg")
  case True
  then obtain kd where kd: "new_KafkaDelivery cfg = Inr kd" "cfg ''topic'' = Some (kd_topic kd)"
    by (rule new_KafkaDelivery_total)
  then show ?thesis using True properties_as_configured [OF kd(1)] by (auto simp: fun_eq_iff)
next
  case False
  then show ?thesis using new_KafkaDelivery_missing [OF False] by simp
qed

end
