(* ===== verification/Zmq_Delivery.thy ===== *)
theory Zmq_Delivery
  imports Data_Wrapper
begin

text \<open>
  \<open>src/dataDelivery/zmq_delivery.{h,cc}\<close> and the payload functions of
  \<open>src/bridge/grpc_collector_bridge.cc\<close>. Only a pointer travels through the socket, so the
  heap is explicit: a store of C strings and of \<open>grpc_payload\<close> blocks, address 0 being
  \<open>NULL\<close>, and \<open>avail n\<close> says whether the allocation that would get address \<open>n\<close> succeeds.
  The socket is a parameter. The lemmas show who owns a block at every point: no leak, no
  double free, no read of freed memory, and messages come out in the order they went in.
\<close>

section \<open>Heap\<close>

type_synonym addr = nat

record grpc_payload =
  pl_event_type :: addr
  pl_serialization :: addr
  pl_writer_id :: addr
  pl_telemetry_node :: addr
  pl_telemetry_port :: addr
  pl_telemetry_data :: addr

record heap =
  h_next :: addr
  h_str :: "addr \<rightharpoonup> string"
  h_pl :: "addr \<rightharpoonup> grpc_payload"

definition empty_heap :: heap where
  "empty_heap = \<lparr>h_next = 1, h_str = Map.empty, h_pl = Map.empty\<rparr>"

text \<open>The block \<open>malloc\<close> returns is uninitialised; its six members are written before any
  is read, so it starts as all \<open>NULL\<close> here.\<close>

definition null_payload :: grpc_payload where
  "null_payload = \<lparr>pl_event_type = 0, pl_serialization = 0, pl_writer_id = 0, pl_telemetry_node = 0,
     pl_telemetry_port = 0, pl_telemetry_data = 0\<rparr>"

definition malloc_payload :: "(addr \<Rightarrow> bool) \<Rightarrow> heap \<Rightarrow> addr \<times> heap" where
  "malloc_payload avail h =
     (let h' = h\<lparr>h_next := Suc (h_next h)\<rparr>
      in if avail (h_next h) then (h_next h, h'\<lparr>h_pl := (h_pl h)(h_next h \<mapsto> null_payload)\<rparr>)
         else (0, h'))"

text \<open>\<open>strndup(s, strlen(s))\<close> of a C string.\<close>

definition strndup :: "(addr \<Rightarrow> bool) \<Rightarrow> string \<Rightarrow> heap \<Rightarrow> addr \<times> heap" where
  "strndup avail s h =
     (let h' = h\<lparr>h_next := Suc (h_next h)\<rparr>
      in if avail (h_next h) then (h_next h, h'\<lparr>h_str := (h_str h)(h_next h \<mapsto> s)\<rparr>)
         else (0, h'))"

definition free_str :: "addr \<Rightarrow> heap \<Rightarrow> heap res" where
  "free_str p h =
     (if p = 0 then Inr h
      else case h_str h p of
        None \<Rightarrow> Inl (Undefined Invalid_free)
      | Some _ \<Rightarrow> Inr (h\<lparr>h_str := (h_str h)(p := None)\<rparr>))"

definition load :: "addr \<Rightarrow> heap \<Rightarrow> grpc_payload res" where
  "load p h = (case h_pl h p of None \<Rightarrow> Inl (Undefined Use_after_free) | Some pl \<Rightarrow> Inr pl)"

definition read_str :: "addr \<Rightarrow> heap \<Rightarrow> string res" where
  "read_str p h = (case h_str h p of None \<Rightarrow> Inl (Undefined Use_after_free) | Some s \<Rightarrow> Inr s)"

section \<open>Payload functions of the bridge\<close>

text \<open>\<open>free(pload->m); pload->m = NULL;\<close>\<close>

definition free_member ::
  "(grpc_payload \<Rightarrow> addr) \<Rightarrow> (grpc_payload \<Rightarrow> grpc_payload) \<Rightarrow> addr \<Rightarrow> heap \<Rightarrow> heap res" where
  "free_member get nul p h =
     bindr (load p h) (\<lambda>pl. bindr (free_str (get pl) h) (\<lambda>h.
       Inr (h\<lparr>h_pl := (h_pl h)(p \<mapsto> nul pl)\<rparr>)))"

definition free_grpc_payload :: "addr \<Rightarrow> heap \<Rightarrow> heap res" where
  "free_grpc_payload p h =
     (if p = 0 then Inr h
      else
        bindr (free_member pl_event_type (pl_event_type_update (\<lambda>_. 0)) p h) (\<lambda>h.
        bindr (free_member pl_serialization (pl_serialization_update (\<lambda>_. 0)) p h) (\<lambda>h.
        bindr (free_member pl_writer_id (pl_writer_id_update (\<lambda>_. 0)) p h) (\<lambda>h.
        bindr (free_member pl_telemetry_node (pl_telemetry_node_update (\<lambda>_. 0)) p h) (\<lambda>h.
        bindr (free_member pl_telemetry_port (pl_telemetry_port_update (\<lambda>_. 0)) p h) (\<lambda>h.
        bindr (free_member pl_telemetry_data (pl_telemetry_data_update (\<lambda>_. 0)) p h) (\<lambda>h.
          Inr (h\<lparr>h_pl := (h_pl h)(p := None)\<rparr>))))))))"

text \<open>The six arguments arrive as \<open>const char *\<close>, so each is cut at its first NUL.\<close>

definition InitGrpcPayload ::
  "(addr \<Rightarrow> bool) \<Rightarrow> string \<Rightarrow> string \<Rightarrow> string \<Rightarrow> string \<Rightarrow> string \<Rightarrow> string \<Rightarrow> heap \<Rightarrow>
   (addr \<times> heap) res" where
  "InitGrpcPayload avail ev ser wid node port data h =
     (let (p, h) = malloc_payload avail h in
      if p = 0 then Inl (Exit 1)
      else
        let (a1, h) = strndup avail (c_str ev) h;
            (a2, h) = strndup avail (c_str ser) h;
            (a3, h) = strndup avail (c_str wid) h;
            (a4, h) = strndup avail (c_str node) h;
            (a5, h) = strndup avail (c_str port) h;
            (a6, h) = strndup avail (c_str data) h;
            h = h\<lparr>h_pl := (h_pl h)(p \<mapsto> \<lparr>pl_event_type = a1, pl_serialization = a2, pl_writer_id = a3,
                   pl_telemetry_node = a4, pl_telemetry_port = a5, pl_telemetry_data = a6\<rparr>)\<rparr>
        in if a1 = 0 \<or> a2 = 0 \<or> a3 = 0 \<or> a4 = 0 \<or> a5 = 0 \<or> a6 = 0
           then bindr (free_grpc_payload p h) (\<lambda>_. Inl (Exit 1))
           else Inr (p, h))"

section \<open>Push and pull\<close>

datatype 'q send_result = Sent 'q | Send_again | Send_error int

datatype 'q recv_result = Received addr 'q | Received_empty 'q | Recv_again | Recv_error int

text \<open>\<open>ZmqPusher\<close>: the payload belongs to the consumer once the socket took the pointer and
  is freed here otherwise.\<close>

definition ZmqPusher ::
  "(addr \<Rightarrow> bool) \<Rightarrow> ('q \<Rightarrow> addr \<Rightarrow> 'q send_result) \<Rightarrow> DataWrapper \<Rightarrow> heap \<Rightarrow> 'q \<Rightarrow>
   (bool \<times> heap \<times> 'q) res" where
  "ZmqPusher avail send w h q =
     bindr (InitGrpcPayload avail (dw_event_type w) (dw_serialization w) (dw_writer_id w)
              (dw_telemetry_node w) (dw_telemetry_port w) (dw_telemetry_data w) h) (\<lambda>(pload, h).
     case send q pload of
       Sent q' \<Rightarrow> Inr (True, h, q')
     | Send_again \<Rightarrow> bindr (free_grpc_payload pload h) (\<lambda>h. Inr (False, h, q))
     | Send_error _ \<Rightarrow> bindr (free_grpc_payload pload h) (\<lambda>h. Inr (False, h, q)))"

text \<open>What \<open>ZmqPoller\<close> writes to standard output for a payload.\<close>

definition pull_line :: "string \<Rightarrow> string list \<Rightarrow> string" where
  "pull_line uri fs = ''PULL-ing from '' @ uri @ '': '' @ fs ! 0 @ '' '' @ fs ! 1 @ '' '' @ fs ! 2 @
     '' '' @ fs ! 3 @ '' '' @ fs ! 4 @ '' '' @ fs ! 5 @ [CHR 0x0A]"

definition read_payload :: "addr \<Rightarrow> heap \<Rightarrow> string list res" where
  "read_payload p h =
     bindr (load p h) (\<lambda>pl.
     bindr (read_str (pl_event_type pl) h) (\<lambda>s1.
     bindr (read_str (pl_serialization pl) h) (\<lambda>s2.
     bindr (read_str (pl_writer_id pl) h) (\<lambda>s3.
     bindr (read_str (pl_telemetry_node pl) h) (\<lambda>s4.
     bindr (read_str (pl_telemetry_port pl) h) (\<lambda>s5.
     bindr (read_str (pl_telemetry_data pl) h) (\<lambda>s6. Inr [s1, s2, s3, s4, s5, s6])))))))"

text \<open>\<open>ZmqPoller\<close> with the lines printed. \<open>res.value()\<close> throws when \<open>recv\<close> gave nothing;
  a socket error is re-thrown only when the context was shut down (\<open>eterm\<close>).\<close>

definition ZmqPoller ::
  "int \<Rightarrow> ('q \<Rightarrow> 'q recv_result) \<Rightarrow> string \<Rightarrow> heap \<Rightarrow> 'q \<Rightarrow> (string list \<times> heap \<times> 'q) res" where
  "ZmqPoller eterm recv uri h q =
     (case recv q of
        Received p q' \<Rightarrow>
          bindr (read_payload p h) (\<lambda>fs.
          bindr (free_grpc_payload p h) (\<lambda>h. Inr ([pull_line uri fs], h, q')))
      | Received_empty q' \<Rightarrow> Inr ([], h, q')
      | Recv_again \<Rightarrow> Inl (Throw Bad_optional_access)
      | Recv_error n \<Rightarrow> if n = eterm then Inl (Throw (Zmq_error n)) else Inr ([], h, q))"

text \<open>Any interleaving of pushes and polls, with the wrappers that were accepted.\<close>

datatype zmq_op = Push DataWrapper | Poll

fun zmq_run ::
  "(addr \<Rightarrow> bool) \<Rightarrow> int \<Rightarrow> ('q \<Rightarrow> addr \<Rightarrow> 'q send_result) \<Rightarrow> ('q \<Rightarrow> 'q recv_result) \<Rightarrow> string \<Rightarrow>
   zmq_op list \<Rightarrow> heap \<times> 'q \<Rightarrow> (DataWrapper list \<times> string list \<times> heap \<times> 'q) res" where
  "zmq_run avail eterm send recv uri [] (h, q) = Inr ([], [], h, q)"
| "zmq_run avail eterm send recv uri (Push w # ops) (h, q) =
     bindr (ZmqPusher avail send w h q) (\<lambda>(sent, h, q).
     bindr (zmq_run avail eterm send recv uri ops (h, q)) (\<lambda>(ws, out, s).
       Inr (if sent then w # ws else ws, out, s)))"
| "zmq_run avail eterm send recv uri (Poll # ops) (h, q) =
     bindr (ZmqPoller eterm recv uri h q) (\<lambda>(ls, h, q).
     bindr (zmq_run avail eterm send recv uri ops (h, q)) (\<lambda>(ws, out, s).
       Inr (ws, ls @ out, s)))"

section \<open>Ownership\<close>

definition members :: "grpc_payload \<Rightarrow> addr list" where
  "members pl = [pl_event_type pl, pl_serialization pl, pl_writer_id pl, pl_telemetry_node pl,
     pl_telemetry_port pl, pl_telemetry_data pl]"

text \<open>The heap holds exactly the payloads \<open>ps\<close>, each with six strings of its own, and
  nothing else: no block is leaked, none is shared, none dangles.\<close>

definition own :: "heap \<Rightarrow> addr list \<Rightarrow> bool" where
  "own h ps =
     (distinct ps \<and> set ps = dom (h_pl h) \<and> 0 \<notin> set ps \<and> 0 \<notin> dom (h_str h) \<and>
      (\<forall>pl\<in>ran (h_pl h). distinct (members pl)) \<and>
      (\<forall>p p' pl pl'. h_pl h p = Some pl \<and> h_pl h p' = Some pl' \<and> p \<noteq> p' \<longrightarrow>
         set (members pl) \<inter> set (members pl') = {}) \<and>
      dom (h_str h) = (\<Union>pl\<in>ran (h_pl h). set (members pl)) \<and>
      (\<forall>a\<in>dom (h_str h) \<union> dom (h_pl h). a < h_next h) \<and> 0 < h_next h)"

lemma own_empty [simp]: "own empty_heap []"
  by (simp add: own_def empty_heap_def)

lemma own_perm: "own h ps \<Longrightarrow> distinct qs \<Longrightarrow> set qs = set ps \<Longrightarrow> own h qs"
  unfolding own_def by metis

lemma own_payload: "own h ps \<Longrightarrow> p \<in> set ps \<Longrightarrow> \<exists>pl. h_pl h p = Some pl"
  unfolding own_def by (metis domD)

lemma own_nonzero: "own h ps \<Longrightarrow> p \<in> set ps \<Longrightarrow> p \<noteq> 0" "own h ps \<Longrightarrow> h_str h 0 = None"
  unfolding own_def by (metis, metis domIff)

lemma own_members:
  assumes "own h ps" and "h_pl h p = Some pl"
  shows "distinct (members pl)" and "set (members pl) \<subseteq> dom (h_str h)"
    and "h_pl h q = Some ql \<Longrightarrow> q \<noteq> p \<Longrightarrow> set (members ql) \<inter> set (members pl) = {}"
proof -
  have r: "pl \<in> ran (h_pl h)" using assms(2) by (rule ranI)
  have "\<forall>pl\<in>ran (h_pl h). distinct (members pl)" using assms(1) by (simp add: own_def)
  then show "distinct (members pl)" using r by blast
  have "dom (h_str h) = (\<Union>pl\<in>ran (h_pl h). set (members pl))"
    using assms(1) by (simp add: own_def)
  then show "set (members pl) \<subseteq> dom (h_str h)" using r by (metis UN_upper)
  have "\<forall>p p' pl pl'. h_pl h p = Some pl \<and> h_pl h p' = Some pl' \<and> p \<noteq> p' \<longrightarrow>
         set (members pl) \<inter> set (members pl') = {}" using assms(1) by (simp add: own_def)
  then show "h_pl h q = Some ql \<Longrightarrow> q \<noteq> p \<Longrightarrow> set (members ql) \<inter> set (members pl) = {}"
    using assms(2) by metis
qed

lemma read_payload_cong:
  assumes "h_pl h' q = h_pl h q"
    and "\<forall>pl. h_pl h q = Some pl \<longrightarrow> (\<forall>a\<in>set (members pl). h_str h' a = h_str h a)"
  shows "read_payload q h' = read_payload q h"
proof (cases "h_pl h q")
  case None
  then show ?thesis using assms(1) by (simp add: read_payload_def load_def)
next
  case (Some pl)
  then show ?thesis using assms by (simp add: read_payload_def load_def read_str_def members_def)
qed

lemma free_str_ok:
  "h_str h 0 = None \<Longrightarrow> a = 0 \<or> h_str h a \<noteq> None \<Longrightarrow>
     free_str a h = Inr (h\<lparr>h_str := (h_str h)(a := None)\<rparr>)"
  by (auto simp: free_str_def fun_upd_idem)

lemma free_strs_ok:
  "h_str h 0 = None \<Longrightarrow> \<forall>a\<in>set as. a = 0 \<or> h_str h a \<noteq> None \<Longrightarrow>
     distinct (filter (\<lambda>a. a \<noteq> 0) as) \<Longrightarrow>
     foldM free_str as h = Inr (h\<lparr>h_str := h_str h |` (- set as)\<rparr>)"
proof (induction as arbitrary: h)
  case Nil
  then show ?case by simp
next
  case (Cons a as)
  let ?h = "h\<lparr>h_str := (h_str h)(a := None)\<rparr>"
  have "free_str a h = Inr ?h" by (rule free_str_ok) (use Cons.prems in auto)
  moreover have "foldM free_str as ?h = Inr (?h\<lparr>h_str := h_str ?h |` (- set as)\<rparr>)"
    by (rule Cons.IH) (use Cons.prems in \<open>auto split: if_splits\<close>)
  moreover have "(h_str h)(a := None) |` (- set as) = h_str h |` (- set (a # as))"
    by (auto simp: restrict_map_def)
  ultimately show ?case by simp
qed

lemma free_member_eq:
  "free_member get nul p (h\<lparr>h_pl := n(p \<mapsto> pl)\<rparr>) =
     bindr (free_str (get pl) h) (\<lambda>h. Inr (h\<lparr>h_pl := n(p \<mapsto> nul pl)\<rparr>))"
  by (auto simp: free_member_def load_def free_str_def split: option.splits)

lemma free_grpc_payload_eq:
  assumes "p \<noteq> 0"
  shows "free_grpc_payload p (h\<lparr>h_pl := n(p \<mapsto> pl)\<rparr>) =
     bindr (foldM free_str (members pl) h) (\<lambda>h. Inr (h\<lparr>h_pl := n(p := None)\<rparr>))"
  by (cases pl) (simp add: assms free_grpc_payload_def free_member_eq members_def bindr_assoc)

text \<open>Freeing a payload whose members are live or \<open>NULL\<close>.\<close>

lemma free_grpc_payload_ok:
  assumes "h_str h 0 = None" and "p \<noteq> 0" and "h_pl h p = Some pl"
    and "\<forall>a\<in>set (members pl). a = 0 \<or> h_str h a \<noteq> None"
    and "distinct (filter (\<lambda>a. a \<noteq> 0) (members pl))"
  shows "free_grpc_payload p h = Inr (h\<lparr>h_str := h_str h |` (- set (members pl)),
    h_pl := (h_pl h)(p := None)\<rparr>)"
proof -
  have "h\<lparr>h_pl := (h_pl h)(p \<mapsto> pl)\<rparr> = h" using assms(3) by (simp add: fun_upd_idem)
  then show ?thesis
    using free_grpc_payload_eq [OF assms(2), where h = h and n = "h_pl h" and pl = pl] free_strs_ok [OF assms(1,4,5)] by simp
qed

text \<open>Freeing an owned payload: the rest stays owned and unchanged.\<close>

lemma own_free:
  assumes "own h ps" and "p \<in> set ps"
  obtains h' where "free_grpc_payload p h = Inr h'" and "own h' (remove1 p ps)"
    and "h_next h' = h_next h" and "\<forall>q\<in>set ps - {p}. read_payload q h' = read_payload q h"
proof -
  obtain pl where pl: "h_pl h p = Some pl" using own_payload [OF assms] by blast
  note p0 = own_nonzero(1) [OF assms] own_nonzero(2) [OF assms(1)]
  have d: "distinct (members pl)" and m: "set (members pl) \<subseteq> dom (h_str h)"
    using own_members [OF assms(1) pl] by auto
  let ?h = "h\<lparr>h_str := h_str h |` (- set (members pl)), h_pl := (h_pl h)(p := None)\<rparr>"
  have "free_grpc_payload p h = Inr ?h"
    by (rule free_grpc_payload_ok [OF p0(2,1) pl]) (use d m in auto)
  moreover have "own ?h (remove1 p ps)"
    unfolding own_def
  proof (intro conjI)
    have ran: "ran ((h_pl h)(p := None)) = {q. \<exists>a. a \<noteq> p \<and> h_pl h a = Some q}"
      by (auto simp: ran_def)
    have disj: "set (members ql) \<inter> set (members pl) = {}" if "a \<noteq> p" "h_pl h a = Some ql" for a ql
      using own_members(3) [OF assms(1) pl that(2,1)] .
    show "dom (h_str ?h) = (\<Union>pl\<in>ran (h_pl ?h). set (members pl))"
    proof -
      have ranp: "ran (h_pl h) = insert pl {q. \<exists>a. a \<noteq> p \<and> h_pl h a = Some q}"
        using pl by (auto simp: ran_def) (metis option.inject)
      have "dom (h_str h) = (\<Union>ql\<in>ran (h_pl h). set (members ql))" using assms(1) by (simp add: own_def)
      also have "\<dots> = (\<Union>ql\<in>{q. \<exists>a. a \<noteq> p \<and> h_pl h a = Some q}. set (members ql)) \<union> set (members pl)"
        using pl ranp by auto
      finally show ?thesis using disj by (simp add: ran) blast
    qed
    show "\<forall>pl\<in>ran (h_pl ?h). distinct (members pl)"
      using assms(1) by (auto simp: own_def ran_def)
    show "\<forall>p p' pl pl'. h_pl ?h p = Some pl \<and> h_pl ?h p' = Some pl' \<and> p \<noteq> p' \<longrightarrow>
         set (members pl) \<inter> set (members pl') = {}"
      using assms(1) unfolding own_def by (auto split: if_splits)
    show "\<forall>a\<in>dom (h_str ?h) \<union> dom (h_pl ?h). a < h_next ?h"
    proof -
      have "\<forall>a\<in>dom (h_str h) \<union> dom (h_pl h). a < h_next h" using assms(1) by (simp add: own_def)
      moreover have "dom (h_str ?h) \<union> dom (h_pl ?h) \<subseteq> dom (h_str h) \<union> dom (h_pl h)" by auto
      ultimately show ?thesis by (metis (no_types) heap.ext_inject heap.surjective
            heap.update_convs(2,3) subsetD)
    qed
  qed (use assms in \<open>auto simp: own_def\<close>)
  moreover have "read_payload q ?h = read_payload q h" if q: "q \<in> set ps - {p}" for q
  proof -
    obtain ql where ql: "h_pl h q = Some ql" using own_payload [OF assms(1), of q] q by auto
    have "set (members ql) \<inter> set (members pl) = {}"
      using own_members(3) [OF assms(1) pl ql] q by simp
    then show ?thesis
      using ql q by (intro read_payload_cong) (auto simp: restrict_map_def)
  qed
  ultimately show thesis using that by simp
qed


section \<open>Allocation\<close>

text \<open>The six duplications in a row.\<close>

fun strndups :: "(addr \<Rightarrow> bool) \<Rightarrow> string list \<Rightarrow> heap \<Rightarrow> addr list \<times> heap" where
  "strndups avail [] h = ([], h)"
| "strndups avail (s # ss) h =
     (let (a, h) = strndup avail s h; (as, h) = strndups avail ss h in (a # as, h))"

definition payload_of :: "addr list \<Rightarrow> grpc_payload" where
  "payload_of as = \<lparr>pl_event_type = as ! 0, pl_serialization = as ! 1, pl_writer_id = as ! 2,
     pl_telemetry_node = as ! 3, pl_telemetry_port = as ! 4, pl_telemetry_data = as ! 5\<rparr>"

lemma members_payload_of: "length as = 6 \<Longrightarrow> members (payload_of as) = as"
  by (auto simp: members_def payload_of_def eval_nat_numeral length_Suc_conv)

definition str_heap_ok :: "heap \<Rightarrow> bool" where
  "str_heap_ok h = (h_str h 0 = None \<and> 0 < h_next h \<and> (\<forall>a\<in>dom (h_str h). a < h_next h))"

lemma own_parts:
  assumes "own h ps"
  shows "\<forall>pl\<in>ran (h_pl h). distinct (members pl)"
    and "dom (h_str h) = (\<Union>pl\<in>ran (h_pl h). set (members pl))"
    and "distinct ps" and "set ps = dom (h_pl h)"
  using assms unfolding own_def by - (elim conjE, assumption)+

lemma own_bounds:
  assumes "own h ps"
  shows "str_heap_ok h" and "h_pl h (h_next h) = None" and "\<forall>a\<in>dom (h_pl h). a < h_next h"
proof -
  have b: "\<forall>a\<in>dom (h_str h) \<union> dom (h_pl h). a < h_next h" "0 < h_next h" "0 \<notin> dom (h_str h)"
    using assms unfolding own_def by - (elim conjE, assumption)+
  then show "str_heap_ok h" by (auto simp: str_heap_ok_def domIff)
  show "\<forall>a\<in>dom (h_pl h). a < h_next h" using b by blast
  then show "h_pl h (h_next h) = None" by (meson domIff less_irrefl)
qed

lemma strndups_ok:
  assumes "strndups avail ss h = (as, h')" and "str_heap_ok h"
  shows "length as = length ss" and "h_pl h' = h_pl h" and "h_next h \<le> h_next h'"
    and "str_heap_ok h'" and "dom (h_str h') = dom (h_str h) \<union> (set as - {0})"
    and "\<forall>a\<in>dom (h_str h). h_str h' a = h_str h a"
    and "distinct (filter (\<lambda>a. a \<noteq> 0) as)" and "\<forall>a\<in>set as. a = 0 \<or> h_next h \<le> a"
    and "list_all2 (\<lambda>s a. a = 0 \<or> h_str h' a = Some s) ss as"
proof -
  have "length as = length ss \<and> h_pl h' = h_pl h \<and> h_next h \<le> h_next h' \<and> str_heap_ok h' \<and>
    dom (h_str h') = dom (h_str h) \<union> (set as - {0}) \<and>
    (\<forall>a\<in>dom (h_str h). h_str h' a = h_str h a) \<and>
    distinct (filter (\<lambda>a. a \<noteq> 0) as) \<and> (\<forall>a\<in>set as. a = 0 \<or> h_next h \<le> a) \<and>
    list_all2 (\<lambda>s a. a = 0 \<or> h_str h' a = Some s) ss as"
    using assms
  proof (induction ss arbitrary: h as)
    case Nil
    then show ?case by auto
  next
    case (Cons s ss)
    obtain a h1 where a: "strndup avail s h = (a, h1)" by fastforce
    obtain bs h2 where bs: "strndups avail ss h1 = (bs, h2)" by fastforce
    have eq: "as = a # bs" "h' = h2" using Cons.prems(1) a bs by simp_all
    have h1: "h_pl h1 = h_pl h" "h_next h1 = Suc (h_next h)" "a = 0 \<or> a = h_next h"
      "a \<noteq> 0 \<longrightarrow> h_str h1 = (h_str h)(a \<mapsto> s)" "a = 0 \<longrightarrow> h_str h1 = h_str h"
      using a Cons.prems(2) by (auto simp: strndup_def str_heap_ok_def Let_def split: if_splits)
    have ok1: "str_heap_ok h1"
      using h1 Cons.prems(2) by (cases "a = 0") (auto simp: str_heap_ok_def less_Suc_eq)
    note IH = Cons.IH [OF bs [folded eq(2)] ok1]
    have fresh: "a \<noteq> 0 \<Longrightarrow> a \<notin> set bs" "a \<noteq> 0 \<Longrightarrow> a \<notin> dom (h_str h)"
      using IH h1(2,3) Cons.prems(2) by (auto simp: str_heap_ok_def)
    have keep: "\<forall>x\<in>dom (h_str h). h_str h' x = h_str h x"
    proof -
      have "\<forall>x\<in>dom (h_str h). h_str h1 x = h_str h x \<and> x \<in> dom (h_str h1)"
        using h1(4,5) fresh(2) by (cases "a = 0") auto
      then show ?thesis using IH by metis
    qed
    have sa: "a \<noteq> 0 \<Longrightarrow> h_str h' a = Some s"     proof -
      assume "a \<noteq> 0"
      then have "h_str h1 a = Some s" using h1(4) by simp
      then show "h_str h' a = Some s" using IH by (metis domI)
    qed
    have "dom (h_str h1) = dom (h_str h) \<union> ({a} - {0})"
      using h1(4,5) by (cases "a = 0") simp_all
    then have d: "dom (h_str h') = dom (h_str h) \<union> (set as - {0})"
      using IH by (auto simp: eq(1))
    show ?case
      using IH h1(1-3) fresh(1) keep sa d by (auto simp: eq(1))
  qed
  then show "length as = length ss" and "h_pl h' = h_pl h" and "h_next h \<le> h_next h'"
    and "str_heap_ok h'" and "dom (h_str h') = dom (h_str h) \<union> (set as - {0})"
    and "\<forall>a\<in>dom (h_str h). h_str h' a = h_str h a"
    and "distinct (filter (\<lambda>a. a \<noteq> 0) as)" and "\<forall>a\<in>set as. a = 0 \<or> h_next h \<le> a"
    and "list_all2 (\<lambda>s a. a = 0 \<or> h_str h' a = Some s) ss as"
    by blast+
qed

lemma InitGrpcPayload_eq:
  "InitGrpcPayload avail ev ser wid node port data h =
     (let (p, h) = malloc_payload avail h in
      if p = 0 then Inl (Exit 1)
      else let (as, h) = strndups avail (map c_str [ev, ser, wid, node, port, data]) h;
               h = h\<lparr>h_pl := (h_pl h)(p \<mapsto> payload_of as)\<rparr>
           in if 0 \<in> set as then bindr (free_grpc_payload p h) (\<lambda>_. Inl (Exit 1)) else Inr (p, h))"
  by (auto simp: InitGrpcPayload_def Let_def payload_of_def split: prod.splits)


text \<open>Initialising a payload: it succeeds with a new owned payload that holds the six
  arguments up to their first NUL, or the process exits; the other payloads are untouched.\<close>

lemma InitGrpcPayload_run:
  assumes "own h ps"
  shows "InitGrpcPayload avail ev ser wid node port data h = Inl (Exit 1) \<or>
    (\<exists>p h'. InitGrpcPayload avail ev ser wid node port data h = Inr (p, h') \<and>
       own h' (ps @ [p]) \<and> read_payload p h' = Inr (map c_str [ev, ser, wid, node, port, data]) \<and>
       (\<forall>q\<in>set ps. read_payload q h' = read_payload q h))"
proof -
  obtain p h0 where m: "malloc_payload avail h = (p, h0)" by fastforce
  obtain as h1 where as: "strndups avail (map c_str [ev, ser, wid, node, port, data]) h0 = (as, h1)"
    by fastforce
  show ?thesis
  proof (cases "p = 0")
    case True
    then show ?thesis by (simp add: InitGrpcPayload_eq m)
  next
    case False
    have h0: "h_str h0 = h_str h" "h_pl h0 = (h_pl h)(p \<mapsto> null_payload)" "p = h_next h"
      "h_next h0 = Suc (h_next h)" "str_heap_ok h0"
      using m False own_bounds(1) [OF assms]
      by (auto simp: malloc_payload_def str_heap_ok_def Let_def less_Suc_eq split: if_splits)
    note st = strndups_ok [OF as h0(5)]
    let ?h = "h1\<lparr>h_pl := (h_pl h1)(p \<mapsto> payload_of as)\<rparr>"
    have len: "length as = 6" using st(1) by simp
    note mem = members_payload_of [OF len]
    have eq: "InitGrpcPayload avail ev ser wid node port data h =
        (if 0 \<in> set as then bindr (free_grpc_payload p ?h) (\<lambda>_. Inl (Exit 1)) else Inr (p, ?h))"
      using False by (simp only: InitGrpcPayload_eq m as Let_def split_conv if_False)
    show ?thesis
    proof (cases "0 \<in> set as")
      case True
      have "free_grpc_payload p ?h = Inr (?h\<lparr>h_str := h_str ?h |` (- set (members (payload_of as))),
          h_pl := (h_pl ?h)(p := None)\<rparr>)"
        by (rule free_grpc_payload_ok)
          (use False st(4,5,7) in \<open>auto simp: mem str_heap_ok_def\<close>)
      then show ?thesis using eq True by simp
    next
      case nz: False
      have pl1: "h_pl h1 = (h_pl h)(p \<mapsto> null_payload)" using st(2) h0(2) by simp
      then have pl: "h_pl ?h = (h_pl h)(p \<mapsto> payload_of as)" by simp
      have str: "dom (h_str h1) = dom (h_str h) \<union> set as" "\<forall>a\<in>dom (h_str h). h_str h1 a = h_str h a"
        using st(5,6) nz h0(1) by auto
      have "\<forall>a\<in>dom (h_str h). a < h_next h" "\<forall>a\<in>set as. h_next h < a"
        using own_bounds(1) [OF assms] h0(4) st(8) nz by (auto simp: str_heap_ok_def)
      then have fresh: "p \<notin> dom (h_pl h)" "set as \<inter> dom (h_str h) = {}"
        using own_bounds(2) [OF assms] h0(3) by (simp add: domIff, meson disjoint_iff not_less_iff_gr_or_eq)
      have "filter (\<lambda>a. a \<noteq> 0) as = as" using nz by (intro filter_True) metis
      then have da: "distinct as" using st(7) by simp
      have ran: "ran (h_pl ?h) = insert (payload_of as) (ran (h_pl h))"
        using fresh(1) pl by (simp add: domIff)
      have "own ?h (ps @ [p])"
        unfolding own_def
      proof (intro conjI)
        show "distinct (ps @ [p])" "set (ps @ [p]) = dom (h_pl ?h)"
          using assms fresh(1) by (auto simp: own_def pl)
        show "\<forall>pl\<in>ran (h_pl ?h). distinct (members pl)"
          unfolding ran using own_parts(1) [OF assms] da by (simp add: mem)
        show "\<forall>p' p'' pl pl'. h_pl ?h p' = Some pl \<and> h_pl ?h p'' = Some pl' \<and> p' \<noteq> p'' \<longrightarrow>
            set (members pl) \<inter> set (members pl') = {}"
        proof (intro allI impI, elim conjE)
          fix p' p'' pl' pl''
          assume A: "h_pl ?h p' = Some pl'" "h_pl ?h p'' = Some pl''" "p' \<noteq> p''"
          have new: "set (members ql) \<inter> set as = {}" if "h_pl h q = Some ql" for q ql
            using own_members(2) [OF assms that] fresh(2) by blast
          from A consider "pl' = payload_of as" "h_pl h p'' = Some pl''"
            | "pl'' = payload_of as" "h_pl h p' = Some pl'"
            | "h_pl h p' = Some pl'" "h_pl h p'' = Some pl''"
            unfolding pl by (metis fun_upd_apply option.inject)
          then show "set (members pl') \<inter> set (members pl'') = {}"
          proof cases
            case 1
            then show ?thesis using new mem by (simp add: Int_commute)
          next
            case 2
            then show ?thesis using new mem by simp
          next
            case 3
            then show ?thesis using own_members(3) [OF assms 3(2,1)] A(3) by simp
          qed
        qed
        show "dom (h_str ?h) = (\<Union>pl\<in>ran (h_pl ?h). set (members pl))"
          unfolding ran using own_parts(2) [OF assms] str(1) by (simp add: mem Un_commute)
        show "0 \<notin> set (ps @ [p])" "0 \<notin> dom (h_str ?h)" "0 < h_next ?h"
          using own_nonzero [OF assms] False st(4) by (auto simp: str_heap_ok_def)
        show "\<forall>a\<in>dom (h_str ?h) \<union> dom (h_pl ?h). a < h_next ?h"
        proof -
          have "\<forall>a\<in>dom (h_str h1). a < h_next h1" using st(4) by (simp add: str_heap_ok_def)
          moreover have "\<forall>a\<in>insert p (dom (h_pl h)). a < h_next h1"
            using own_bounds(3) [OF assms] st(3) h0(3,4) by (simp, meson less_le_trans less_SucI)
          ultimately show ?thesis using pl by (simp add: ball_Un)
        qed
      qed
      moreover have "read_payload q ?h = read_payload q h" if q: "q \<in> set ps" for q
      proof (rule read_payload_cong)
        show "h_pl ?h q = h_pl h q" using fresh(1) own_payload [OF assms q] pl by auto
        show "\<forall>pl. h_pl h q = Some pl \<longrightarrow> (\<forall>a\<in>set (members pl). h_str ?h a = h_str h a)"
          using own_members(2) [OF assms] str(2) by (simp, blast)
      qed
      moreover have "read_payload p ?h = Inr (map c_str [ev, ser, wid, node, port, data])"
        using st(9) nz
        by (auto simp: read_payload_def load_def read_str_def payload_of_def list_all2_Cons1)
      ultimately show ?thesis using eq nz by auto
    qed
  qed
qed


section \<open>The socket as an interface\<close>

text \<open>What the code relies on in a PUSH/PULL pair: an accepted pointer goes to the end of the
  queue, a received one was at its front, and nothing else moves.\<close>

locale zmq_socket =
  fixes send :: "'q \<Rightarrow> addr \<Rightarrow> 'q send_result"
    and recv :: "'q \<Rightarrow> 'q recv_result"
    and inflight :: "'q \<Rightarrow> addr list"
  assumes sent: "send q p = Sent q' \<Longrightarrow> inflight q' = inflight q @ [p]"
    and received: "recv q = Received p q' \<Longrightarrow> inflight q = p # inflight q'"
    and received_empty: "recv q = Received_empty q' \<Longrightarrow> inflight q' = inflight q"

text \<open>A bounded queue whose receiver is interrupted while it waits on an empty one.\<close>

definition fifo_send :: "nat \<Rightarrow> addr list \<Rightarrow> addr \<Rightarrow> addr list send_result" where
  "fifo_send hwm q p = (if length q < hwm then Sent (q @ [p]) else Send_again)"

definition fifo_recv :: "addr list \<Rightarrow> addr list recv_result" where
  "fifo_recv q = (case q of [] \<Rightarrow> Recv_error 4 | p # q' \<Rightarrow> Received p q')"

interpretation fifo: zmq_socket "fifo_send hwm" fifo_recv "\<lambda>q. q"
  by unfold_locales (auto simp: fifo_send_def fifo_recv_def split: if_splits list.splits)

definition msg_of :: "DataWrapper \<Rightarrow> string list" where
  "msg_of w = map c_str [dw_event_type w, dw_serialization w, dw_writer_id w, dw_telemetry_node w,
     dw_telemetry_port w, dw_telemetry_data w]"

text \<open>The messages behind the pointers in flight: the queue the consumer will see.\<close>

definition holds :: "heap \<Rightarrow> addr list \<Rightarrow> string list list \<Rightarrow> bool" where
  "holds h ps ms = list_all2 (\<lambda>p m. read_payload p h = Inr m) ps ms"

lemma holds_cong: "holds h ps ms \<Longrightarrow> \<forall>q\<in>set ps. read_payload q h' = read_payload q h \<Longrightarrow> holds h' ps ms"
  by (auto simp: holds_def list_all2_conv_all_nth)

context zmq_socket
begin

lemma push_run:
  assumes "own h (inflight q)" and "holds h (inflight q) ms"
  shows "ZmqPusher avail send w h q = Inl (Exit 1) \<or>
    (\<exists>ok h' q'. ZmqPusher avail send w h q = Inr (ok, h', q') \<and> own h' (inflight q') \<and>
       holds h' (inflight q') (ms @ (if ok then [msg_of w] else [])))"
proof -
  let ?init = "InitGrpcPayload avail (dw_event_type w) (dw_serialization w) (dw_writer_id w)
      (dw_telemetry_node w) (dw_telemetry_port w) (dw_telemetry_data w) h"
  consider "?init = Inl (Exit 1)" | p h1 where "?init = Inr (p, h1)" "own h1 (inflight q @ [p])"
      "read_payload p h1 = Inr (msg_of w)" "\<forall>x\<in>set (inflight q). read_payload x h1 = read_payload x h"
    using InitGrpcPayload_run [OF assms(1), of avail "dw_event_type w" "dw_serialization w"
        "dw_writer_id w" "dw_telemetry_node w" "dw_telemetry_port w" "dw_telemetry_data w"]
    unfolding msg_of_def by blast
  then show ?thesis
  proof cases
    case 1
    then show ?thesis by (simp add: ZmqPusher_def)
  next
    case (2 p h1)
    have keep: "holds h1 (inflight q) ms" using assms(2) 2(4) by (rule holds_cong)
    have np: "p \<notin> set (inflight q)" using own_parts(3) [OF 2(2)] by simp
    have p: "p \<in> set (inflight q @ [p])" by simp
    obtain h2 where h2: "free_grpc_payload p h1 = Inr h2" "own h2 (remove1 p (inflight q @ [p]))"
      "\<forall>x\<in>set (inflight q @ [p]) - {p}. read_payload x h2 = read_payload x h1"
      using own_free [OF 2(2) p] by metis
    have o2: "own h2 (inflight q)" using h2(2) np by (simp add: remove1_append)
    have "\<forall>x\<in>set (inflight q). read_payload x h2 = read_payload x h1"
      using h2(3) np by auto
    then have "holds h2 (inflight q) ms" using keep holds_cong by blast
    then show ?thesis
      using 2(1-3) keep h2(1) o2
      by (cases "send q p") (auto simp: ZmqPusher_def sent holds_def list_all2_appendI)
  qed
qed

lemma poll_run:
  assumes "own h (inflight q)" and "holds h (inflight q) ms"
  shows "(\<exists>x. ZmqPoller eterm recv uri h q = Inl (Throw x)) \<or>
    (\<exists>ls h' q' ms'. ZmqPoller eterm recv uri h q = Inr (ls, h', q') \<and> own h' (inflight q') \<and>
       holds h' (inflight q') ms' \<and> ls @ map (pull_line uri) ms' = map (pull_line uri) ms)"
proof (cases "recv q")
  case (Received p q')
  have q: "inflight q = p # inflight q'" by (rule received [OF Received])
  obtain m ms' where m: "ms = m # ms'" "read_payload p h = Inr m" "holds h (inflight q') ms'"
    using assms(2) by (auto simp: q holds_def list_all2_Cons1)
  obtain h2 where h2: "free_grpc_payload p h = Inr h2" "own h2 (remove1 p (p # inflight q'))"
    "\<forall>x\<in>set (p # inflight q') - {p}. read_payload x h2 = read_payload x h"
    using own_free [of h "p # inflight q'" p] assms(1) q by (metis list.set_intros(1))
  have "p \<notin> set (inflight q')" using own_parts(3) [OF assms(1)] by (simp add: q)
  then have "\<forall>x\<in>set (inflight q'). read_payload x h2 = read_payload x h" using h2(3) by auto
  then have "holds h2 (inflight q') ms'" using m(3) holds_cong by blast
  then show ?thesis using Received m(1,2) h2(1,2) by (auto simp: ZmqPoller_def)
next
  case (Received_empty q')
  then show ?thesis using assms by (auto simp: ZmqPoller_def received_empty)
qed (use assms in \<open>auto simp: ZmqPoller_def\<close>)

lemma run_ok:
  assumes "own h (inflight q)" and "holds h (inflight q) ms"
  shows "case zmq_run avail eterm send recv uri ops (h, q) of
      Inl e \<Rightarrow> e = Exit 1 \<or> (\<exists>x. e = Throw x)
    | Inr (ws, out, h', q') \<Rightarrow> own h' (inflight q') \<and>
        (\<exists>ms'. holds h' (inflight q') ms' \<and>
           out @ map (pull_line uri) ms' = map (pull_line uri) (ms @ map msg_of ws))"
  using assms
proof (induction ops arbitrary: h q ms)
  case Nil
  then show ?case by auto
next
  case (Cons op ops)
  show ?case
  proof (cases op)
    case (Push w)
    from push_run [OF Cons.prems, of avail w] show ?thesis
    proof (elim disjE exE conjE)
      assume "ZmqPusher avail send w h q = Inl (Exit 1)"
      then show ?thesis by (simp add: Push)
    next
      fix ok h1 q1
      assume s: "ZmqPusher avail send w h q = Inr (ok, h1, q1)" and o: "own h1 (inflight q1)"
        and m: "holds h1 (inflight q1) (ms @ (if ok then [msg_of w] else []))"
      show ?thesis
        using Cons.IH [OF o m] s
        by (cases "zmq_run avail eterm send recv uri ops (h1, q1)") (auto simp: Push, blast+)
    qed
  next
    case Poll
    from poll_run [OF Cons.prems, of eterm uri] show ?thesis
    proof (elim disjE exE conjE)
      fix x assume "ZmqPoller eterm recv uri h q = Inl (Throw x)"
      then show ?thesis by (simp add: Poll)
    next
      fix ls h1 q1 ms1
      assume s: "ZmqPoller eterm recv uri h q = Inr (ls, h1, q1)" and o: "own h1 (inflight q1)"
        and m: "holds h1 (inflight q1) ms1"
        and l: "ls @ map (pull_line uri) ms1 = map (pull_line uri) ms"
      show ?thesis
        using Cons.IH [OF o m] s
        by (cases "zmq_run avail eterm send recv uri ops (h1, q1)") (auto simp: Poll simp flip: l)
    qed
  qed
qed

end


section \<open>Properties\<close>

text \<open>C19. However pushes and polls interleave, and whichever allocations and sends fail, no
  block is freed twice or read after it was freed and none is leaked: the run ends with the
  heap holding exactly the payloads still in the socket, or by an exception, or by the exit
  on a failed allocation. What the poller printed, followed by what is still queued, is
  exactly what the accepted pushes carried, in their order.\<close>

theorem zmq_run_refines_queue:
  assumes "zmq_socket send recv inflight" and "own h (inflight q)" and "holds h (inflight q) ms"
  shows "case zmq_run avail eterm send recv uri ops (h, q) of
      Inl e \<Rightarrow> e = Exit 1 \<or> (\<exists>x. e = Throw x)
    | Inr (ws, out, h', q') \<Rightarrow> own h' (inflight q') \<and>
        (\<exists>ms'. holds h' (inflight q') ms' \<and>
           out @ map (pull_line uri) ms' = map (pull_line uri) (ms @ map msg_of ws))"
  using assms by (rule zmq_socket.run_ok)

theorem zmq_run_refines_queue_witness:
  "case zmq_run (\<lambda>_. True) 0 (fifo_send 1) fifo_recv ''u'' [Push new_DataWrapper, Push new_DataWrapper, Poll]
     (empty_heap, []) of
     Inl e \<Rightarrow> e = Exit 1 \<or> (\<exists>x. e = Throw x)
   | Inr (ws, out, h', q') \<Rightarrow> own h' q' \<and> (\<exists>ms'. holds h' q' ms' \<and>
       out @ map (pull_line ''u'') ms' = map (pull_line ''u'') (map msg_of ws))"
proof -
  have "holds empty_heap [] []" by (simp add: holds_def)
  from zmq_run_refines_queue [OF fifo.zmq_socket_axioms [of 1] own_empty this, where
      avail = "\<lambda>_. True" and eterm = 0 and uri = "''u''"
      and ops = "[Push new_DataWrapper, Push new_DataWrapper, Poll]"]
  show ?thesis by (simp only: append_Nil)
qed

text \<open>A push either hands the pointer to the socket (and the consumer will then read the six
  members, each up to its first NUL byte) or gives every block it allocated back.\<close>

theorem ZmqPusher_ownership:
  assumes "zmq_socket send recv inflight" and "own h (inflight q)"
    and "ZmqPusher avail send w h q = Inr (ok, h', q')"
  shows "if ok then (\<exists>p. inflight q' = inflight q @ [p] \<and> own h' (inflight q @ [p]) \<and>
             read_payload p h' = Inr (msg_of w))
         else q' = q \<and> own h' (inflight q)"
proof -
  let ?init = "InitGrpcPayload avail (dw_event_type w) (dw_serialization w) (dw_writer_id w)
      (dw_telemetry_node w) (dw_telemetry_port w) (dw_telemetry_data w) h"
  obtain p h1 where i: "?init = Inr (p, h1)" using assms(3) by (auto simp: ZmqPusher_def bindr_eq_Inr)
  then have o1: "own h1 (inflight q @ [p])" and r: "read_payload p h1 = Inr (msg_of w)"
    using InitGrpcPayload_run [OF assms(2), of avail "dw_event_type w" "dw_serialization w"
        "dw_writer_id w" "dw_telemetry_node w" "dw_telemetry_port w" "dw_telemetry_data w"]
    by (auto simp: msg_of_def)
  have "p \<notin> set (inflight q)" using own_parts(3) [OF o1] by simp
  then have free: "\<exists>h2. free_grpc_payload p h1 = Inr h2 \<and> own h2 (inflight q)"
    using own_free [OF o1, of p] by (auto simp: remove1_append)
  show ?thesis
    using assms(3) i o1 r free zmq_socket.sent [OF assms(1), of q p]
    by (cases "send q p") (auto simp: ZmqPusher_def)
qed

lemma push_sample_run: "\<exists>h' q'. ZmqPusher (\<lambda>_. True) (fifo_send 1) new_DataWrapper empty_heap []
    = Inr (True, h', q')"
  by (simp add: ZmqPusher_def InitGrpcPayload_def malloc_payload_def strndup_def empty_heap_def
      fifo_send_def Let_def)

theorem ZmqPusher_ownership_witness:
  "\<exists>p h'. ZmqPusher (\<lambda>_. True) (fifo_send 1) new_DataWrapper empty_heap [] = Inr (True, h', [p]) \<and>
     own h' [p] \<and> read_payload p h' = Inr (msg_of new_DataWrapper)"
  using push_sample_run ZmqPusher_ownership [OF fifo.zmq_socket_axioms [of 1] own_empty,
      where avail = "\<lambda>_. True" and w = new_DataWrapper and ok = True] by auto

text \<open>Through the ZeroMQ back end a body with a NUL byte (any raw GPB message may have one)
  is cut there: the consumer sees only what precedes it.\<close>

theorem zmq_truncates_binary_bodies:
  assumes "own h ps" and "CHR 0x00 \<notin> set before"
    and "InitGrpcPayload avail ev ser wid node port (before @ CHR 0x00 # after) h = Inr (p, h')"
  shows "bindr (read_payload p h') (\<lambda>fs. Inr (fs ! 5)) = Inr before"
  using InitGrpcPayload_run [OF assms(1), of avail ev ser wid node port "before @ CHR 0x00 # after"]
    assms(2,3) by (auto simp: c_str_def takeWhile_append)


lemma init_sample_run: "\<exists>p h'. InitGrpcPayload (\<lambda>_. True) [] [] [] [] [] (''ab'' @ CHR 0x00 # ''cd'')
    empty_heap = Inr (p, h')"
  by (simp add: InitGrpcPayload_def malloc_payload_def strndup_def empty_heap_def Let_def)

theorem zmq_truncates_binary_bodies_witness:
  "\<exists>p h'. InitGrpcPayload (\<lambda>_. True) [] [] [] [] [] (''ab'' @ CHR 0x00 # ''cd'') empty_heap = Inr (p, h') \<and>
     bindr (read_payload p h') (\<lambda>fs. Inr (fs ! 5)) = Inr ''ab''"
proof -
  obtain p h' where i: "InitGrpcPayload (\<lambda>_. True) [] [] [] [] [] (''ab'' @ CHR 0x00 # ''cd'')
    empty_heap = Inr (p, h')"
    using init_sample_run by blast
  have "CHR 0x00 \<notin> set ''ab''" by simp
  from zmq_truncates_binary_bodies [OF own_empty this i] i show ?thesis by blast
qed

end
