(* ===== verification/Cfg_Handler.thy ===== *)
theory Cfg_Handler
  imports Kafka_Delivery
begin

text \<open>
  \<open>src/utils/cfg_handler.{h,cc}\<close>: reading the configuration. A libconfig file is the map of
  its settings (\<open>None\<close> for an absent one); \<open>read_file\<close> is \<open>Config::readFile\<close> and
  \<open>fs_exists\<close> is \<open>std::filesystem::exists\<close>, both parameters. A lookup returns \<open>None\<close> where
  the code returns false; the entries it had already inserted are then not read by any
  caller. The lemmas are the contract of each loader and what a successful lookup promises
  to the rest of the program: which keys exist and which values they can have.
\<close>

section \<open>Settings and loaders\<close>

datatype setting = Str string | Not_a_string

type_synonym libconfig = "string \<rightharpoonup> setting"

type_synonym params = "string \<rightharpoonup> string"

text \<open>The out-parameter keeps its value when the key is absent; \<open>None\<close> is a type error.\<close>

definition ReadStringSetting :: "libconfig \<Rightarrow> string \<Rightarrow> string \<Rightarrow> string option" where
  "ReadStringSetting cfg key out =
     (case cfg key of
        None \<Rightarrow> Some out
      | Some (Str s) \<Rightarrow> Some s
      | Some Not_a_string \<Rightarrow> None)"

definition LoadOptional :: "libconfig \<Rightarrow> string \<Rightarrow> string \<Rightarrow> params \<Rightarrow> params option" where
  "LoadOptional cfg key default_value params =
     (case ReadStringSetting cfg key [] of
        None \<Rightarrow> None
      | Some value \<Rightarrow>
          if cfg key \<noteq> None
          then (if value = [] then None else Some (emplace params key value))
          else Some (emplace params key default_value))"

definition LoadOptionalEnum ::
  "libconfig \<Rightarrow> string \<Rightarrow> string \<Rightarrow> string list \<Rightarrow> params \<Rightarrow> params option" where
  "LoadOptionalEnum cfg key default_value allowed params =
     (case ReadStringSetting cfg key [] of
        None \<Rightarrow> None
      | Some value \<Rightarrow>
          if cfg key \<noteq> None
          then (if value \<in> set allowed then Some (emplace params key value) else None)
          else Some (emplace params key default_value))"

definition LoadMandatory :: "libconfig \<Rightarrow> string \<Rightarrow> params \<Rightarrow> params option" where
  "LoadMandatory cfg key params =
     (if cfg key = None then None
      else case ReadStringSetting cfg key [] of
        None \<Rightarrow> None
      | Some value \<Rightarrow> if value = [] then None else Some (emplace params key value))"

definition LoadOptionalPath ::
  "(string \<Rightarrow> bool) \<Rightarrow> libconfig \<Rightarrow> string \<Rightarrow> string \<Rightarrow> params \<Rightarrow> params option" where
  "LoadOptionalPath fs_exists cfg key default_value params =
     (case ReadStringSetting cfg key [] of
        None \<Rightarrow> None
      | Some value \<Rightarrow>
          let chosen = (if cfg key \<noteq> None then value else default_value)
          in if chosen = [] \<or> \<not> fs_exists chosen then None
             else Some (emplace params key chosen))"

definition set_parameters :: "(string \<Rightarrow> libconfig option) \<Rightarrow> string \<Rightarrow> libconfig option" where
  "set_parameters read_file cfg_path = read_file cfg_path"

text \<open>Sequencing of the steps that return false (\<open>None\<close>) or can throw (\<open>at\<close>).\<close>

definition step :: "(params \<Rightarrow> params option) \<Rightarrow> params \<Rightarrow>
  (params \<Rightarrow> params option res) \<Rightarrow> params option res" where
  "step load p k = (case load p of None \<Rightarrow> Inr None | Some p' \<Rightarrow> k p')"

definition done_ok :: "params \<Rightarrow> params option res" where
  "done_ok p = Inr (Some p)"

section \<open>The five lookups\<close>

definition lookup_logs_parameters ::
  "(string \<Rightarrow> libconfig option) \<Rightarrow> string \<Rightarrow> params option res" where
  "lookup_logs_parameters read_file cfg_path =
     (case set_parameters read_file cfg_path of
        None \<Rightarrow> Inr None
      | Some cfg \<Rightarrow>
          step (LoadOptional cfg ''syslog'' ''false'') Map.empty (\<lambda>p.
          bindr (map_at p ''syslog'') (\<lambda>syslog.
          let rest = (\<lambda>p.
                step (LoadOptional cfg ''console_log'' ''true'') p (\<lambda>p.
                step (LoadOptionalEnum cfg ''spdlog_level'' ''info''
                        [''debug'', ''info'', ''warn'', ''error'', ''off'']) p done_ok))
          in if syslog = ''true'' then
               step (LoadOptionalEnum cfg ''syslog_facility'' ''LOG_USER''
                       [''LOG_DAEMON'', ''LOG_USER'', ''LOG_LOCAL0'', ''LOG_LOCAL1'', ''LOG_LOCAL2'',
                        ''LOG_LOCAL3'', ''LOG_LOCAL4'', ''LOG_LOCAL5'', ''LOG_LOCAL6'', ''LOG_LOCAL7'']) p (\<lambda>p.
               step (LoadOptional cfg ''syslog_ident'' ''mdt-dialout-collector'') p rest)
             else
               rest (emplace (emplace p ''syslog_facility'' ''NONE'') ''syslog_ident'' ''NONE''))))"

text \<open>The TLS block: certificate and key are looked at together, only when TLS is on.\<close>

definition load_tls :: "(string \<Rightarrow> bool) \<Rightarrow> libconfig \<Rightarrow> string \<Rightarrow> params \<Rightarrow> params option" where
  "load_tls fs_exists cfg enable_tls p =
     (if enable_tls = ''true'' then
        (case (cfg ''tls_cert_path'', cfg ''tls_key_path'') of
           (Some (Str tls_cert), Some (Str tls_key)) \<Rightarrow>
             if fs_exists tls_cert \<and> fs_exists tls_key
             then Some (emplace (emplace p ''tls_cert_path'' tls_cert) ''tls_key_path'' tls_key)
             else None
         | _ \<Rightarrow> None)
      else Some (emplace (emplace p ''tls_cert_path'' []) ''tls_key_path'' []))"

record VendorKeys =
  vk_socket :: string
  vk_socket_legacy :: string
  vk_replies :: string
  vk_workers :: string

definition vendors :: "VendorKeys list" where
  "vendors =
     [\<lparr>vk_socket = ''socket_cisco'', vk_socket_legacy = ''ipv4_socket_cisco'',
       vk_replies = ''replies_cisco'', vk_workers = ''cisco_workers''\<rparr>,
      \<lparr>vk_socket = ''socket_juniper'', vk_socket_legacy = ''ipv4_socket_juniper'',
       vk_replies = ''replies_juniper'', vk_workers = ''juniper_workers''\<rparr>,
      \<lparr>vk_socket = ''socket_nokia'', vk_socket_legacy = ''ipv4_socket_nokia'',
       vk_replies = ''replies_nokia'', vk_workers = ''nokia_workers''\<rparr>,
      \<lparr>vk_socket = ''socket_huawei'', vk_socket_legacy = ''ipv4_socket_huawei'',
       vk_replies = ''replies_huawei'', vk_workers = ''huawei_workers''\<rparr>]"

definition load_socket :: "libconfig \<Rightarrow> VendorKeys \<Rightarrow> params \<Rightarrow> params option" where
  "load_socket cfg v p =
     (if cfg (vk_socket v) \<noteq> None then LoadOptional cfg (vk_socket v) [] p
      else case cfg (vk_socket_legacy v) of
        Some (Str value) \<Rightarrow> Some (emplace p (vk_socket v) value)
      | Some Not_a_string \<Rightarrow> None
      | None \<Rightarrow> Some (emplace p (vk_socket v) []))"

text \<open>A \<open>for\<close> loop over the vendors that leaves the function on the first false.\<close>

fun each_vendor :: "(VendorKeys \<Rightarrow> params \<Rightarrow> params option) \<Rightarrow> VendorKeys list \<Rightarrow> params \<Rightarrow> params option"
where
  "each_vendor f [] p = Some p"
| "each_vendor f (v # vs) p = Option.bind (f v p) (each_vendor f vs)"

definition load_limits :: "libconfig \<Rightarrow> VendorKeys \<Rightarrow> params \<Rightarrow> params option res" where
  "load_limits cfg v p =
     bindr (map_at p (vk_socket v)) (\<lambda>socket.
       if socket = [] then done_ok p
       else step (LoadOptional cfg (vk_replies v) ''0'') p (\<lambda>p.
            step (LoadOptional cfg (vk_workers v) ''1'') p done_ok))"

fun each_limits :: "libconfig \<Rightarrow> VendorKeys list \<Rightarrow> params \<Rightarrow> params option res" where
  "each_limits cfg [] p = done_ok p"
| "each_limits cfg (v # vs) p =
     bindr (load_limits cfg v p) (\<lambda>r. case r of None \<Rightarrow> Inr None | Some p \<Rightarrow> each_limits cfg vs p)"

definition lookup_main_parameters ::
  "(string \<Rightarrow> libconfig option) \<Rightarrow> (string \<Rightarrow> bool) \<Rightarrow> string \<Rightarrow> params option res" where
  "lookup_main_parameters read_file fs_exists cfg_path =
     (case set_parameters read_file cfg_path of
        None \<Rightarrow> Inr None
      | Some cfg \<Rightarrow>
          step (LoadOptional cfg ''writer_id'' ''mdt-dialout-collector'') Map.empty (\<lambda>p.
          step (LoadOptionalPath fs_exists cfg ''core_pid_folder'' ''/var/run/'') p (\<lambda>p.
          step (LoadMandatory cfg ''iface'') p (\<lambda>p.
          step (LoadOptionalEnum cfg ''so_bindtodevice_check'' ''true'' [''true'', ''false'']) p (\<lambda>p.
          step (LoadOptionalEnum cfg ''enable_tls'' ''false'' [''true'', ''false'']) p (\<lambda>p.
          bindr (map_at p ''enable_tls'') (\<lambda>enable_tls.
          step (load_tls fs_exists cfg enable_tls) p (\<lambda>p.
          step (each_vendor (load_socket cfg) vendors) p (\<lambda>p.
          bindr (each_limits cfg vendors p) (\<lambda>r. case r of None \<Rightarrow> Inr None | Some p \<Rightarrow>
          step (LoadOptionalEnum cfg ''data_delivery_method'' ''kafka'' [''kafka'', ''zmq''])
            p done_ok))))))))))"


definition lookup_data_manipulation_parameters ::
  "(string \<Rightarrow> libconfig option) \<Rightarrow> (string \<Rightarrow> bool) \<Rightarrow> string \<Rightarrow> params option res" where
  "lookup_data_manipulation_parameters read_file fs_exists cfg_path =
     (case set_parameters read_file cfg_path of
        None \<Rightarrow> Inr None
      | Some cfg \<Rightarrow>
          step (LoadOptional cfg ''enable_cisco_message_to_json_string'' ''false'') Map.empty (\<lambda>p.
          step (LoadOptional cfg ''enable_cisco_gpbkv2json'' ''true'') p (\<lambda>p.
          bindr (map_at p ''enable_cisco_message_to_json_string'') (\<lambda>to_json.
          bindr (map_at p ''enable_cisco_gpbkv2json'') (\<lambda>gpbkv2json.
          if to_json = gpbkv2json then Inr None else
          step (LoadOptional cfg ''enable_label_encode_as_map'' ''false'') p (\<lambda>p.
          bindr (map_at p ''enable_label_encode_as_map'') (\<lambda>csv.
          step (if csv = ''true''
                then LoadOptionalPath fs_exists cfg ''label_map_csv_path''
                       ''/opt/mdt_dialout_collector/csv/label_map.csv''
                else Some) p (\<lambda>p.
          step (LoadOptional cfg ''enable_label_encode_as_map_ptm'' ''false'') p (\<lambda>p.
          bindr (map_at p ''enable_label_encode_as_map_ptm'') (\<lambda>ptm.
          step (if ptm = ''true''
                then LoadOptionalPath fs_exists cfg ''label_map_ptm_path''
                       ''/opt/mdt_dialout_collector/ptm/label_map.ptm''
                else Some) p (\<lambda>p.
          if csv = ''true'' \<and> ptm = ''true'' then Inr None else done_ok p)))))))))))"

definition load_kafka_only ::
  "libconfig \<Rightarrow> bool \<Rightarrow> string \<Rightarrow> string \<Rightarrow> params \<Rightarrow> params option" where
  "load_kafka_only cfg kafka_mode key dummy p =
     (if cfg key \<noteq> None \<or> kafka_mode then LoadMandatory cfg key p
      else Some (emplace p key dummy))"

text \<open>The five values inserted when TLS towards the brokers is off, and the loads when it is on.\<close>

definition no_ssl :: "params \<Rightarrow> params" where
  "no_ssl p = foldl (\<lambda>p (k, v). emplace p k v) p
     [(''ssl_key_location'', ''NULL''), (''ssl_key_password'', ''NULL''),
      (''ssl_certificate_location'', ''NULL''), (''ssl_ca_location'', ''NULL''),
      (''enable_ssl_certificate_verification'', ''false'')]"

definition load_ssl :: "libconfig \<Rightarrow> params \<Rightarrow> params option res" where
  "load_ssl cfg p =
     step (LoadMandatory cfg ''ssl_key_location'') p (\<lambda>p.
     step (LoadMandatory cfg ''ssl_certificate_location'') p (\<lambda>p.
     step (LoadMandatory cfg ''ssl_ca_location'') p (\<lambda>p.
     step (LoadOptional cfg ''ssl_key_password'' ''NULL'') p (\<lambda>p.
     if cfg ''enable_ssl_certificate_verification'' \<noteq> None
     then step (LoadOptional cfg ''enable_ssl_certificate_verification'' ''true'') p done_ok
     else done_ok (emplace p ''enable_ssl_certificate_verification'' ''true'')))))"

definition lookup_kafka_parameters ::
  "(string \<Rightarrow> libconfig option) \<Rightarrow> params \<Rightarrow> string \<Rightarrow> params option res" where
  "lookup_kafka_parameters read_file main_cfg cfg_path =
     (case set_parameters read_file cfg_path of
        None \<Rightarrow> Inr None
      | Some cfg \<Rightarrow>
          bindr (map_at main_cfg ''data_delivery_method'') (\<lambda>method.
          let kafka_mode = (method = ''kafka'') in
          step (load_kafka_only cfg kafka_mode ''topic'' ''dummy_topic'') Map.empty (\<lambda>p.
          step (load_kafka_only cfg kafka_mode ''bootstrap_servers'' ''dummy_servers'') p (\<lambda>p.
          step (LoadOptionalEnum cfg ''enable_idempotence'' ''true'' [''true'', ''false'']) p (\<lambda>p.
          step (LoadOptional cfg ''client_id'' ''mdt-dialout-collector'') p (\<lambda>p.
          step (LoadOptional cfg ''log_level'' ''6'') p (\<lambda>p.
          step (load_kafka_only cfg kafka_mode ''security_protocol'' ''dummy_security_protocol'') p (\<lambda>p.
          bindr (map_at p ''security_protocol'') (\<lambda>proto.
          if proto \<noteq> ''dummy_security_protocol'' \<and> proto \<noteq> ''ssl'' \<and> proto \<noteq> ''plaintext''
          then Inr None
          else if proto \<noteq> ''ssl'' then done_ok (no_ssl p)
          else load_ssl cfg p)))))))))"

text \<open>Unlike the others it does not clear the map it inserts into.\<close>

definition lookup_zmq_parameters :: "params \<Rightarrow> string \<Rightarrow> params \<Rightarrow> params option res" where
  "lookup_zmq_parameters main_cfg zmq_uri p =
     bindr (map_at main_cfg ''data_delivery_method'') (\<lambda>method.
       if method \<noteq> ''zmq'' then done_ok (emplace p ''zmq_uri'' ''ipc:///tmp/dummy.sock'')
       else done_ok (emplace p ''zmq_uri''
              (if zmq_uri = [] then ''ipc:///tmp/grpc.sock'' else zmq_uri)))"

text \<open>The four configuration maps in their global variables.\<close>

record cfg =
  main_cfg_parameters :: params
  data_manipulation_cfg_parameters :: params
  kafka_delivery_cfg_parameters :: params
  zmq_delivery_cfg_parameters :: params

section \<open>The contract of a loader\<close>

text \<open>A loader of one key either fails or adds that key, with an acceptable value when the
  key is new, and leaves every other entry alone.\<close>

locale param_loader =
  fixes load :: "params \<Rightarrow> params option" and key :: string and ok :: "string \<Rightarrow> bool"
  assumes loads: "load p = Some p' \<Longrightarrow> \<exists>v. p' = emplace p key v \<and> ok v"
begin

lemma extends: "load p = Some p' \<Longrightarrow> p \<subseteq>\<^sub>m p'"
  using loads emplace_le by metis

lemma adds: "load p = Some p' \<Longrightarrow> dom p' = insert key (dom p)"
  using loads dom_emplace by metis

lemma other: "load p = Some p' \<Longrightarrow> k \<noteq> key \<Longrightarrow> p' k = p k"
  using loads emplace_other by metis

lemma value_ok: "load p = Some p' \<Longrightarrow> p key = None \<Longrightarrow> \<exists>v. p' key = Some v \<and> ok v"
  using loads [of p p'] by auto

lemma present: "load p = Some p' \<Longrightarrow> \<exists>v. p' key = Some v"
  using adds [of p p'] by (metis domIff insertI1 not_None_eq)

end

interpretation optional: param_loader "LoadOptional cfg key d" key "\<lambda>v. v \<noteq> [] \<or> v = d"
  by unfold_locales (auto simp: LoadOptional_def split: option.splits if_splits)

interpretation enum: param_loader "LoadOptionalEnum cfg key d allowed" key "\<lambda>v. v \<in> set allowed \<or> v = d"
  by unfold_locales (auto simp: LoadOptionalEnum_def split: option.splits if_splits)

interpretation mandatory: param_loader "LoadMandatory cfg key" key "\<lambda>v. v \<noteq> []"
  by unfold_locales (auto simp: LoadMandatory_def split: option.splits if_splits)

interpretation path: param_loader "LoadOptionalPath fs cfg key d" key "\<lambda>v. v \<noteq> [] \<and> fs v"
  by unfold_locales (auto simp: LoadOptionalPath_def Let_def split: option.splits if_splits)

interpretation socket: param_loader "load_socket cfg v" "vk_socket v" "\<lambda>_. True"
  by unfold_locales (auto simp: load_socket_def LoadOptional_def split: option.splits if_splits setting.splits)

interpretation kafka_only: param_loader "load_kafka_only cfg m key d" key "\<lambda>v. v \<noteq> [] \<or> (\<not> m \<and> v = d)"
  by unfold_locales (auto simp: load_kafka_only_def dest: mandatory.loads split: if_splits)

lemma step_Inr: "step load p k = Inr (Some r) \<longleftrightarrow> (\<exists>p'. load p = Some p' \<and> k p' = Inr (Some r))"
  by (auto simp: step_def split: option.splits)

lemma step_Inl: "step load p k = Inl e \<longleftrightarrow> (\<exists>p'. load p = Some p' \<and> k p' = Inl e)"
  by (auto simp: step_def split: option.splits)

lemma done_ok_simps [simp]: "done_ok p = Inr (Some r) \<longleftrightarrow> r = p" "done_ok p \<noteq> Inl e"
  by (auto simp: done_ok_def)

text \<open>Taking a successful run apart.\<close>

lemma readE:
  "(case r of None \<Rightarrow> Inr None | Some cfg \<Rightarrow> k cfg) = Inr (Some p) \<Longrightarrow>
   (\<And>cfg. r = Some cfg \<Longrightarrow> k cfg = Inr (Some p) \<Longrightarrow> P) \<Longrightarrow> P"
  by (cases r) auto

lemma stepE:
  "step load p k = Inr (Some r) \<Longrightarrow> (\<And>p'. load p = Some p' \<Longrightarrow> k p' = Inr (Some r) \<Longrightarrow> P) \<Longrightarrow> P"
  by (auto simp: step_Inr)

lemma atE:
  "bindr (map_at m key) k = Inr (Some r) \<Longrightarrow> (\<And>v. m key = Some v \<Longrightarrow> k v = Inr (Some r) \<Longrightarrow> P) \<Longrightarrow> P"
  by (auto simp: bindr_eq_Inr)

lemma stopE: "(if b then Inr None else k) = Inr (Some r) \<Longrightarrow> (\<not> b \<Longrightarrow> k = Inr (Some r) \<Longrightarrow> P) \<Longrightarrow> P"
  by (cases b) auto

lemma doneE: "done_ok p = Inr (Some r) \<Longrightarrow> (r = p \<Longrightarrow> P) \<Longrightarrow> P"
  by simp

lemmas runE = readE stepE atE stopE doneE

lemmas loader_adds = optional.adds enum.adds mandatory.adds path.adds socket.adds kafka_only.adds
lemmas loader_extends = optional.extends enum.extends mandatory.extends path.extends
  socket.extends kafka_only.extends
lemmas loader_other = optional.other enum.other mandatory.other path.other socket.other
  kafka_only.other


section \<open>The vendor loops\<close>

lemma load_tls_ok:
  assumes "load_tls fs_exists cfg t p = Some p'"
  shows "p \<subseteq>\<^sub>m p'" and "dom p' = dom p \<union> {''tls_cert_path'', ''tls_key_path''}"
    and "''tls_cert_path'' \<notin> dom p \<Longrightarrow> ''tls_key_path'' \<notin> dom p \<Longrightarrow> t = ''true'' \<Longrightarrow>
      \<exists>c k. p' ''tls_cert_path'' = Some c \<and> p' ''tls_key_path'' = Some k \<and> fs_exists c \<and> fs_exists k"
proof -
  obtain c k where p': "p' = emplace (emplace p ''tls_cert_path'' c) ''tls_key_path'' k"
    "t = ''true'' \<longrightarrow> fs_exists c \<and> fs_exists k"
    using assms by (auto simp: load_tls_def split: if_splits option.splits setting.splits)
  show "p \<subseteq>\<^sub>m p'" unfolding p'(1) by (rule map_le_trans [OF emplace_le emplace_le])
  show "dom p' = dom p \<union> {''tls_cert_path'', ''tls_key_path''}" using p'(1) by auto
  assume "''tls_cert_path'' \<notin> dom p" "''tls_key_path'' \<notin> dom p" "t = ''true''"
  then show "\<exists>c k. p' ''tls_cert_path'' = Some c \<and> p' ''tls_key_path'' = Some k \<and>
      fs_exists c \<and> fs_exists k"
    using p' by (simp add: domIff)
qed

lemma each_vendor_ok:
  assumes "each_vendor (load_socket cfg) vs p = Some p'"
  shows "p \<subseteq>\<^sub>m p' \<and> dom p' = dom p \<union> vk_socket ` set vs"
  using assms
proof (induction vs arbitrary: p)
  case Nil
  then show ?case by simp
next
  case (Cons v vs)
  then obtain q where q: "load_socket cfg v p = Some q" "each_vendor (load_socket cfg) vs q = Some p'"
    by (auto simp: bind_eq_Some_conv)
  have "q \<subseteq>\<^sub>m p'" "dom p' = dom q \<union> vk_socket ` set vs" using Cons.IH [OF q(2)] by simp_all
  moreover have "p \<subseteq>\<^sub>m p'" using map_le_trans [OF socket.extends [OF q(1)]] calculation(1) .
  ultimately show ?case using socket.adds [OF q(1)] by simp
qed

text \<open>The limit keys of a vendor are there exactly when it has a socket.\<close>

definition limit_keys :: "params \<Rightarrow> VendorKeys list \<Rightarrow> string set" where
  "limit_keys p vs = (\<Union>v\<in>{v\<in>set vs. p (vk_socket v) \<noteq> Some []}. {vk_replies v, vk_workers v})"

lemma load_limits_ok:
  assumes "load_limits cfg v p = Inr (Some p')"
  shows "p \<subseteq>\<^sub>m p'" and "dom p' = dom p \<union> limit_keys p [v]" and "vk_socket v \<in> dom p"
proof -
  obtain s where s: "p (vk_socket v) = Some s"
    using assms by (auto simp: load_limits_def bindr_eq_Inr)
  have "p \<subseteq>\<^sub>m p' \<and> dom p' = dom p \<union> limit_keys p [v]"
  proof (cases "s = []")
    case True
    then show ?thesis using assms s by (auto simp: load_limits_def limit_keys_def)
  next
    case False
    obtain q where q: "LoadOptional cfg (vk_replies v) ''0'' p = Some q"
      "LoadOptional cfg (vk_workers v) ''1'' q = Some p'"
      using assms s False by (auto simp: load_limits_def step_Inr)
    have "p \<subseteq>\<^sub>m p'" by (rule map_le_trans [OF optional.extends [OF q(1)] optional.extends [OF q(2)]])
    moreover have "dom p' = {vk_replies v, vk_workers v} \<union> dom p"
      using optional.adds [OF q(1)] optional.adds [OF q(2)] by auto
    moreover have "limit_keys p [v] = {vk_replies v, vk_workers v}"
      using s False by (auto simp: limit_keys_def)
    ultimately show ?thesis by blast
  qed
  then show "p \<subseteq>\<^sub>m p'" and "dom p' = dom p \<union> limit_keys p [v]" by auto
  show "vk_socket v \<in> dom p" using s by auto
qed

lemma each_limits_ok:
  assumes "each_limits cfg vs p = Inr (Some p')"
  shows "p \<subseteq>\<^sub>m p' \<and> dom p' = dom p \<union> limit_keys p vs \<and> vk_socket ` set vs \<subseteq> dom p \<or>
    \<not> vk_socket ` set vs \<subseteq> dom p"
  using assms
proof (induction vs arbitrary: p)
  case Nil
  then show ?case by (simp add: limit_keys_def)
next
  case (Cons v vs)
  obtain q where q: "load_limits cfg v p = Inr (Some q)" "each_limits cfg vs q = Inr (Some p')"
    using Cons.prems by (auto simp: bindr_eq_Inr split: option.splits)
  note l = load_limits_ok [OF q(1)]
  show ?case
  proof (cases "vk_socket ` set vs \<subseteq> dom p")
    case True
    have "q (vk_socket w) = p (vk_socket w)" if "w \<in> set vs" for w
    proof -
      have "vk_socket w \<in> dom p" using True that by blast
      then show ?thesis using l(1) by (simp add: map_le_def)
    qed
    then have "limit_keys q vs = limit_keys p vs" by (auto simp: limit_keys_def)
    moreover have "vk_socket ` set vs \<subseteq> dom q" using True l(2) by auto
    ultimately have IH: "q \<subseteq>\<^sub>m p'" "dom p' = dom q \<union> limit_keys p vs"
      using Cons.IH [OF q(2)] by simp_all
    have "p \<subseteq>\<^sub>m p'" by (rule map_le_trans [OF l(1) IH(1)])
    moreover have "limit_keys p (v # vs) = limit_keys p [v] \<union> limit_keys p vs"
      by (auto simp: limit_keys_def)
    moreover have "vk_socket ` set (v # vs) \<subseteq> dom p" using True l(3) by simp
    ultimately show ?thesis using l(2) IH(2) by (simp add: Un_assoc)
  qed auto
qed

lemma load_limits_returns:
  "p (vk_socket v) = Some s \<Longrightarrow> \<exists>r. load_limits cfg v p = Inr r"
  by (auto simp: load_limits_def step_def done_ok_def split: option.splits)

lemma each_limits_returns:
  "vk_socket ` set vs \<subseteq> dom p \<Longrightarrow> each_limits cfg vs p \<noteq> Inl e"
proof (induction vs arbitrary: p)
  case Nil
  then show ?case by simp
next
  case (Cons v vs)
  obtain s where s: "p (vk_socket v) = Some s" using Cons.prems by auto
  then obtain r where r: "load_limits cfg v p = Inr r"
    using load_limits_returns by blast
  show ?case
  proof (cases r)
    case None
    then show ?thesis by (simp add: r)
  next
    case (Some q)
    then have "dom p \<subseteq> dom q" using load_limits_ok(2) r by blast
    moreover have "vk_socket ` set vs \<subseteq> dom p" using Cons.prems by simp
    ultimately have "vk_socket ` set vs \<subseteq> dom q" by (rule subset_trans [rotated])
    then show ?thesis using Cons.IH [of q] by (simp add: r Some)
  qed
qed


lemma lookup_zmq_uri:
  assumes "lookup_zmq_parameters main_cfg uri p = Inr (Some q)"
  shows "\<exists>u. q ''zmq_uri'' = Some u"
proof -
  obtain v where "q = emplace p ''zmq_uri'' v"
    using assms by (auto simp: lookup_zmq_parameters_def bindr_eq_Inr split: if_splits)
  then show ?thesis by (simp add: emplace_same split: option.split)
qed

section \<open>The main parameters\<close>

definition main_keys :: "string set" where
  "main_keys = {''writer_id'', ''core_pid_folder'', ''iface'', ''so_bindtodevice_check'',
     ''enable_tls'', ''tls_cert_path'', ''tls_key_path'', ''data_delivery_method''}"

lemma limit_keys_cases:
  "k \<in> limit_keys p vendors \<Longrightarrow> k \<in> {''replies_cisco'', ''cisco_workers'', ''replies_juniper'',
     ''juniper_workers'', ''replies_nokia'', ''nokia_workers'', ''replies_huawei'', ''huawei_workers''}"
  by (auto simp: limit_keys_def vendors_def)

lemma vendor_sockets:
  "vk_socket ` set vendors = {''socket_cisco'', ''socket_juniper'', ''socket_nokia'', ''socket_huawei''}"
  by (simp add: vendors_def)

lemma notin_dom: "k \<notin> dom p \<Longrightarrow> p k = None"
  by (simp add: domIff)

lemma map_leD: "p \<subseteq>\<^sub>m p' \<Longrightarrow> p k = Some v \<Longrightarrow> p' k = Some v"
  by (metis domI map_le_def)

lemma lookup_main_chain:
  assumes "lookup_main_parameters read_file fs_exists path = Inr (Some p)"
  obtains cfg p1 p2 p3 p4 p5 t p6 p7 p8 where
    "LoadOptional cfg ''writer_id'' ''mdt-dialout-collector'' Map.empty = Some p1"
    and "LoadOptionalPath fs_exists cfg ''core_pid_folder'' ''/var/run/'' p1 = Some p2"
    and "LoadMandatory cfg ''iface'' p2 = Some p3"
    and "LoadOptionalEnum cfg ''so_bindtodevice_check'' ''true'' [''true'', ''false''] p3 = Some p4"
    and "LoadOptionalEnum cfg ''enable_tls'' ''false'' [''true'', ''false''] p4 = Some p5"
    and "p5 ''enable_tls'' = Some t" and "load_tls fs_exists cfg t p5 = Some p6"
    and "each_vendor (load_socket cfg) vendors p6 = Some p7"
    and "each_limits cfg vendors p7 = Inr (Some p8)"
    and "LoadOptionalEnum cfg ''data_delivery_method'' ''kafka'' [''kafka'', ''zmq''] p8 = Some p"
  using assms
  by (auto simp: lookup_main_parameters_def step_Inr bindr_eq_Inr split: option.splits)

lemma lookup_main_contract:
  assumes "lookup_main_parameters read_file fs_exists path = Inr (Some p)"
  shows "dom p = main_keys \<union> vk_socket ` set vendors \<union> limit_keys p vendors"
    and "p ''enable_tls'' = Some ''true'' \<or> p ''enable_tls'' = Some ''false''"
    and "p ''enable_tls'' = Some ''true'' \<Longrightarrow> \<exists>c k. p ''tls_cert_path'' = Some c \<and>
           p ''tls_key_path'' = Some k \<and> fs_exists c \<and> fs_exists k"
    and "\<exists>d. p ''core_pid_folder'' = Some d \<and> d \<noteq> [] \<and> fs_exists d"
    and "\<exists>i. p ''iface'' = Some i \<and> i \<noteq> []"
    and "p ''data_delivery_method'' = Some ''kafka'' \<or> p ''data_delivery_method'' = Some ''zmq''"
proof -
  obtain cfg p1 p2 p3 p4 p5 t p6 p7 p8 where
    c: "LoadOptional cfg ''writer_id'' ''mdt-dialout-collector'' Map.empty = Some p1"
    "LoadOptionalPath fs_exists cfg ''core_pid_folder'' ''/var/run/'' p1 = Some p2"
    "LoadMandatory cfg ''iface'' p2 = Some p3"
    "LoadOptionalEnum cfg ''so_bindtodevice_check'' ''true'' [''true'', ''false''] p3 = Some p4"
    "LoadOptionalEnum cfg ''enable_tls'' ''false'' [''true'', ''false''] p4 = Some p5"
    "p5 ''enable_tls'' = Some t" "load_tls fs_exists cfg t p5 = Some p6"
    "each_vendor (load_socket cfg) vendors p6 = Some p7"
    "each_limits cfg vendors p7 = Inr (Some p8)"
    "LoadOptionalEnum cfg ''data_delivery_method'' ''kafka'' [''kafka'', ''zmq''] p8 = Some p"
    by (rule lookup_main_chain [OF assms])
  have d5: "dom p5 = {''writer_id'', ''core_pid_folder'', ''iface'', ''so_bindtodevice_check'', ''enable_tls''}"
    using optional.adds [OF c(1)] path.adds [OF c(2)] mandatory.adds [OF c(3)] enum.adds [OF c(4)]
      enum.adds [OF c(5)] by auto
  have d7: "dom p7 = dom p6 \<union> vk_socket ` set vendors" and e7: "p6 \<subseteq>\<^sub>m p7"
    using each_vendor_ok [OF c(8)] by simp_all
  then have sock: "vk_socket ` set vendors \<subseteq> dom p7" by simp
  have e8: "p7 \<subseteq>\<^sub>m p8" and d8: "dom p8 = dom p7 \<union> limit_keys p7 vendors"
    using each_limits_ok [OF c(9)] sock by simp_all
  note e = path.extends [OF c(2)] mandatory.extends [OF c(3)] enum.extends [OF c(4)]
    enum.extends [OF c(5)] load_tls_ok(1) [OF c(7)] e7 e8 enum.extends [OF c(10)]
  have e6: "p6 \<subseteq>\<^sub>m p" by (rule map_le_trans [OF e(6) map_le_trans [OF e(7,8)]])
  have e5: "p5 \<subseteq>\<^sub>m p" by (rule map_le_trans [OF e(5) e6])
  have e3: "p3 \<subseteq>\<^sub>m p" by (rule map_le_trans [OF e(3) map_le_trans [OF e(4) e5]])
  have e2: "p2 \<subseteq>\<^sub>m p" by (rule map_le_trans [OF e(2) e3])
  have e7p: "p7 \<subseteq>\<^sub>m p" by (rule map_le_trans [OF e(7,8)])
  have "p (vk_socket v) = p7 (vk_socket v)" if "v \<in> set vendors" for v
  proof -
    have "vk_socket v \<in> dom p7" using sock that by blast
    then show ?thesis using e7p by (simp add: map_le_def)
  qed
  then have lk: "limit_keys p vendors = limit_keys p7 vendors" by (auto simp: limit_keys_def)
  have "dom p = insert ''data_delivery_method'' (dom p8)" by (rule enum.adds [OF c(10)])
  then show "dom p = main_keys \<union> vk_socket ` set vendors \<union> limit_keys p vendors"
    unfolding d8 d7 lk load_tls_ok(2) [OF c(7)] d5 main_keys_def
    by (simp add: Un_assoc insert_commute)
  have "p4 ''enable_tls'' = None"
    using optional.adds [OF c(1)] path.adds [OF c(2)] mandatory.adds [OF c(3)] enum.adds [OF c(4)]
    by (intro notin_dom) simp
  from enum.value_ok [OF c(5) this] have t: "t = ''true'' \<or> t = ''false''"
    by (simp add: c(6))
  have pt: "p ''enable_tls'' = Some t" by (rule map_leD [OF e5, OF c(6)])
  then show "p ''enable_tls'' = Some ''true'' \<or> p ''enable_tls'' = Some ''false''"
    using t by (elim disjE) simp_all
  show "\<exists>c k. p ''tls_cert_path'' = Some c \<and> p ''tls_key_path'' = Some k \<and>
      fs_exists c \<and> fs_exists k" if "p ''enable_tls'' = Some ''true''"
  proof -
    have "t = ''true''" using pt that by simp
    moreover have "''tls_cert_path'' \<notin> dom p5" "''tls_key_path'' \<notin> dom p5" by (simp_all add: d5)
    ultimately obtain cc kk where "p6 ''tls_cert_path'' = Some cc" "p6 ''tls_key_path'' = Some kk"
      "fs_exists cc" "fs_exists kk"
      using load_tls_ok(3) [OF c(7)] by blast
    then show ?thesis using map_leD [OF e6] by blast
  qed
  have "p1 ''core_pid_folder'' = None"
    using optional.adds [OF c(1)] by (intro notin_dom) simp
  from path.value_ok [OF c(2) this]
  show "\<exists>d. p ''core_pid_folder'' = Some d \<and> d \<noteq> [] \<and> fs_exists d"
    using map_leD [OF e2] by blast
  have "p2 ''iface'' = None"
    using optional.adds [OF c(1)] path.adds [OF c(2)] by (intro notin_dom) simp
  from mandatory.value_ok [OF c(3) this] show "\<exists>i. p ''iface'' = Some i \<and> i \<noteq> []"
    using map_leD [OF e3] by blast
  have "''data_delivery_method'' \<notin> limit_keys p7 vendors"
    by (rule notI, drule limit_keys_cases, simp)
  then have "''data_delivery_method'' \<notin> dom p8"
    unfolding d8 d7 load_tls_ok(2) [OF c(7)] d5 vendor_sockets by simp
  then have "p8 ''data_delivery_method'' = None" by (simp add: domIff)
  then show "p ''data_delivery_method'' = Some ''kafka'' \<or> p ''data_delivery_method'' = Some ''zmq''"
    using enum.value_ok [OF c(10)] by (simp add: ex_disj_distrib) blast
qed

lemma lookup_main_never_throws: "lookup_main_parameters read_file fs_exists path \<noteq> Inl e"
proof
  assume "lookup_main_parameters read_file fs_exists path = Inl e"
  then obtain cfg p4 p5 p6 p7 t where
    "LoadOptionalEnum cfg ''enable_tls'' ''false'' [''true'', ''false''] p4 = Some p5"
    "p5 ''enable_tls'' = None \<or> (each_vendor (load_socket cfg) vendors p6 = Some p7 \<and>
       each_limits cfg vendors p7 = Inl e)"
    by (auto simp: lookup_main_parameters_def step_Inl bindr_eq_Inl split: option.splits)
  then show False
    using enum.present each_vendor_ok each_limits_returns [of vendors p7 cfg e]
    by (metis Un_upper2 option.distinct(1))
qed


section \<open>Data manipulation and delivery\<close>

lemma lookup_data_manipulation_contract:
  assumes "lookup_data_manipulation_parameters read_file fs_exists path = Inr (Some p)"
  shows "\<exists>j g csv ptm. p ''enable_cisco_message_to_json_string'' = Some j \<and>
      p ''enable_cisco_gpbkv2json'' = Some g \<and> j \<noteq> g \<and>
      p ''enable_label_encode_as_map'' = Some csv \<and> p ''enable_label_encode_as_map_ptm'' = Some ptm \<and>
      \<not> (csv = ''true'' \<and> ptm = ''true'') \<and>
      (csv = ''true'' \<longrightarrow> (\<exists>f. p ''label_map_csv_path'' = Some f \<and> fs_exists f)) \<and>
      (ptm = ''true'' \<longrightarrow> (\<exists>f. p ''label_map_ptm_path'' = Some f \<and> fs_exists f))"
proof -
  obtain cfg p1 p2 j g p3 csv p4 p5 ptm where
    c: "LoadOptional cfg ''enable_cisco_message_to_json_string'' ''false'' Map.empty = Some p1"
    "LoadOptional cfg ''enable_cisco_gpbkv2json'' ''true'' p1 = Some p2"
    "p2 ''enable_cisco_message_to_json_string'' = Some j" "p2 ''enable_cisco_gpbkv2json'' = Some g"
    "j \<noteq> g" "LoadOptional cfg ''enable_label_encode_as_map'' ''false'' p2 = Some p3"
    "p3 ''enable_label_encode_as_map'' = Some csv"
    "(if csv = ''true'' then LoadOptionalPath fs_exists cfg ''label_map_csv_path''
        ''/opt/mdt_dialout_collector/csv/label_map.csv'' else Some) p3 = Some p4"
    "LoadOptional cfg ''enable_label_encode_as_map_ptm'' ''false'' p4 = Some p5"
    "p5 ''enable_label_encode_as_map_ptm'' = Some ptm"
    "(if ptm = ''true'' then LoadOptionalPath fs_exists cfg ''label_map_ptm_path''
        ''/opt/mdt_dialout_collector/ptm/label_map.ptm'' else Some) p5 = Some p"
    "\<not> (csv = ''true'' \<and> ptm = ''true'')"
    using assms unfolding lookup_data_manipulation_parameters_def
    by (elim runE) (rule that; (assumption | simp only:))
  note e3 = optional.extends [OF c(6)]
  have e4: "p3 \<subseteq>\<^sub>m p4" using c(8) path.extends by (auto split: if_splits)
  have e6: "p5 \<subseteq>\<^sub>m p" using c(11) path.extends by (auto split: if_splits)
  note e5 = optional.extends [OF c(9)]
  have l4: "p4 \<subseteq>\<^sub>m p" by (rule map_le_trans [OF e5 e6])
  have l3: "p3 \<subseteq>\<^sub>m p" by (rule map_le_trans [OF e4 l4])
  have l2: "p2 \<subseteq>\<^sub>m p" by (rule map_le_trans [OF e3 l3])
  have d3: "dom p3 = {''enable_label_encode_as_map'', ''enable_cisco_gpbkv2json'',
      ''enable_cisco_message_to_json_string''}"
    using optional.adds [OF c(1)] optional.adds [OF c(2)] optional.adds [OF c(6)] by simp
  have n3: "p3 ''label_map_csv_path'' = None" by (rule notin_dom) (simp add: d3)
  have csv: "\<exists>f. p ''label_map_csv_path'' = Some f \<and> fs_exists f" if "csv = ''true''"
  proof -
    have "LoadOptionalPath fs_exists cfg ''label_map_csv_path''
        ''/opt/mdt_dialout_collector/csv/label_map.csv'' p3 = Some p4"
      using c(8) that by simp
    from path.value_ok [OF this n3] show ?thesis using map_leD [OF l4] by blast
  qed
  have "dom p5 \<subseteq> {''enable_label_encode_as_map_ptm'', ''label_map_csv_path''} \<union> dom p3"
    using optional.adds [OF c(9)] c(8) path.adds by (auto split: if_splits)
  then have n5: "p5 ''label_map_ptm_path'' = None" by (intro notin_dom) (auto simp: d3)
  have ptm: "\<exists>f. p ''label_map_ptm_path'' = Some f \<and> fs_exists f" if "ptm = ''true''"
  proof -
    have "LoadOptionalPath fs_exists cfg ''label_map_ptm_path''
        ''/opt/mdt_dialout_collector/ptm/label_map.ptm'' p5 = Some p"
      using c(11) that by simp
    from path.value_ok [OF this n5] show ?thesis by blast
  qed
  show ?thesis
    using map_leD [OF l2, OF c(3)] map_leD [OF l2, OF c(4)] map_leD [OF l3, OF c(7)] map_leD [OF e6, OF c(10)]
      c(5,12) csv ptm by blast
qed


text \<open>Every key \<open>KafkaDelivery\<close> reads is present after a successful lookup.\<close>

lemma no_ssl_dom: "dom (no_ssl p) = dom p \<union> {''ssl_key_location'', ''ssl_key_password'',
    ''ssl_certificate_location'', ''ssl_ca_location'', ''enable_ssl_certificate_verification''}"
  by (simp add: no_ssl_def insert_commute)

lemma load_ssl_dom:
  assumes "load_ssl cfg p = Inr (Some p')"
  shows "dom p' = dom p \<union> {''ssl_key_location'', ''ssl_key_password'',
    ''ssl_certificate_location'', ''ssl_ca_location'', ''enable_ssl_certificate_verification''}"
proof -
  obtain p1 p2 p3 p4 where c: "LoadMandatory cfg ''ssl_key_location'' p = Some p1"
    "LoadMandatory cfg ''ssl_certificate_location'' p1 = Some p2"
    "LoadMandatory cfg ''ssl_ca_location'' p2 = Some p3"
    "LoadOptional cfg ''ssl_key_password'' ''NULL'' p3 = Some p4"
    and l: "(if cfg ''enable_ssl_certificate_verification'' \<noteq> None
     then step (LoadOptional cfg ''enable_ssl_certificate_verification'' ''true'') p4 done_ok
     else done_ok (emplace p4 ''enable_ssl_certificate_verification'' ''true'')) = Inr (Some p')"
    using assms unfolding load_ssl_def by (elim runE) (rule that; assumption)
  have "dom p' = insert ''enable_ssl_certificate_verification'' (dom p4)"
  proof (cases "cfg ''enable_ssl_certificate_verification'' = None")
    case True
    then show ?thesis using l by simp
  next
    case False
    then have "LoadOptional cfg ''enable_ssl_certificate_verification'' ''true'' p4 = Some p'"
      using l by (auto simp: step_Inr)
    then show ?thesis by (rule optional.adds)
  qed
  then show ?thesis
    unfolding optional.adds [OF c(4)] mandatory.adds [OF c(3)] mandatory.adds [OF c(2)]
      mandatory.adds [OF c(1)] by (simp add: insert_commute)
qed

lemma lookup_kafka_keys:
  assumes "lookup_kafka_parameters read_file main_cfg path = Inr (Some p)"
  shows "set kafka_cfg_keys \<subseteq> dom p"
proof -
  obtain cfg m p1 p2 p3 p4 p5 p6 proto where
    c: "load_kafka_only cfg m ''topic'' ''dummy_topic'' Map.empty = Some p1"
    "load_kafka_only cfg m ''bootstrap_servers'' ''dummy_servers'' p1 = Some p2"
    "LoadOptionalEnum cfg ''enable_idempotence'' ''true'' [''true'', ''false''] p2 = Some p3"
    "LoadOptional cfg ''client_id'' ''mdt-dialout-collector'' p3 = Some p4"
    "LoadOptional cfg ''log_level'' ''6'' p4 = Some p5"
    "load_kafka_only cfg m ''security_protocol'' ''dummy_security_protocol'' p5 = Some p6"
    and l: "(if proto \<noteq> ''ssl'' then done_ok (no_ssl p6) else load_ssl cfg p6) = Inr (Some p)"
    using assms unfolding lookup_kafka_parameters_def Let_def
    by (elim runE) (rule that; assumption)
  have "dom p = dom p6 \<union> {''ssl_key_location'', ''ssl_key_password'',
    ''ssl_certificate_location'', ''ssl_ca_location'', ''enable_ssl_certificate_verification''}"
    using l no_ssl_dom load_ssl_dom by (simp only: done_ok_simps split: if_splits)
  then show ?thesis
    unfolding kafka_only.adds [OF c(6)] optional.adds [OF c(5)] optional.adds [OF c(4)]
      enum.adds [OF c(3)] kafka_only.adds [OF c(2)] kafka_only.adds [OF c(1)] kafka_cfg_keys_def
    by simp
qed

section \<open>Properties\<close>






















definition sample_cfg :: libconfig where
  "sample_cfg = [''iface'' \<mapsto> Str ''eth0'', ''socket_cisco'' \<mapsto> Str ''0.0.0.0:10007'']"

lemma sample_main: "\<exists>p. lookup_main_parameters (\<lambda>_. Some sample_cfg) (\<lambda>_. True) ''f'' = Inr (Some p) \<and>
    p ''socket_cisco'' = Some ''0.0.0.0:10007'' \<and> p ''cisco_workers'' = Some ''1''"
  by (simp add: lookup_main_parameters_def set_parameters_def sample_cfg_def step_def done_ok_def
      LoadOptional_def LoadOptionalPath_def LoadMandatory_def LoadOptionalEnum_def ReadStringSetting_def
      load_tls_def load_socket_def load_limits_def vendors_def emplace_same)


text \<open>After a successful lookup of the data-manipulation parameters the two Cisco JSON
  switches differ, at most one label-map source is on, and the file of the one that is on
  exists.\<close>

theorem lookup_data_manipulation_exclusive:
  assumes "lookup_data_manipulation_parameters read_file fs_exists path = Inr (Some p)"
  shows "\<exists>j g csv ptm. p ''enable_cisco_message_to_json_string'' = Some j \<and>
      p ''enable_cisco_gpbkv2json'' = Some g \<and> j \<noteq> g \<and>
      p ''enable_label_encode_as_map'' = Some csv \<and> p ''enable_label_encode_as_map_ptm'' = Some ptm \<and>
      \<not> (csv = ''true'' \<and> ptm = ''true'') \<and>
      (csv = ''true'' \<longrightarrow> (\<exists>f. p ''label_map_csv_path'' = Some f \<and> fs_exists f)) \<and>
      (ptm = ''true'' \<longrightarrow> (\<exists>f. p ''label_map_ptm_path'' = Some f \<and> fs_exists f))"
  using assms by (rule lookup_data_manipulation_contract)

definition sample_dm_cfg :: libconfig where
  "sample_dm_cfg = [''enable_cisco_gpbkv2json'' \<mapsto> Str ''no'']"

lemma sample_dm: "\<exists>p. lookup_data_manipulation_parameters (\<lambda>_. Some sample_dm_cfg) (\<lambda>_. True) ''f''
    = Inr (Some p) \<and> p ''enable_cisco_gpbkv2json'' = Some ''no'' \<and>
    p ''enable_cisco_message_to_json_string'' = Some ''false''"
  by (simp add: lookup_data_manipulation_parameters_def set_parameters_def sample_dm_cfg_def step_def
      done_ok_def LoadOptional_def ReadStringSetting_def)

theorem lookup_data_manipulation_exclusive_witness:
  "\<exists>p csv ptm. lookup_data_manipulation_parameters (\<lambda>_. Some sample_dm_cfg) (\<lambda>_. True) ''f''
     = Inr (Some p) \<and> p ''enable_label_encode_as_map'' = Some csv \<and>
     p ''enable_label_encode_as_map_ptm'' = Some ptm \<and> \<not> (csv = ''true'' \<and> ptm = ''true'')"
proof -
  obtain p where p: "lookup_data_manipulation_parameters (\<lambda>_. Some sample_dm_cfg) (\<lambda>_. True) ''f''
      = Inr (Some p)" using sample_dm by blast
  from lookup_data_manipulation_exclusive [OF p] show ?thesis
    by (elim exE conjE) (rule exI [of _ p], intro exI conjI; (rule p | assumption))
qed

text \<open>The Kafka back end can always be built from a successfully looked-up configuration:
  the constructor, which reads every key unconditionally, does not throw in either mode.\<close>

theorem kafka_configuration_constructs:
  assumes "lookup_kafka_parameters read_file main_cfg path = Inr (Some p)"
  shows "\<exists>kd. new_KafkaDelivery p = Inr kd \<and> p ''topic'' = Some (kd_topic kd)"
  using new_KafkaDelivery_total [OF lookup_kafka_keys [OF assms]] by metis

definition sample_kafka_cfg :: libconfig where
  "sample_kafka_cfg = [''topic'' \<mapsto> Str ''t'', ''bootstrap_servers'' \<mapsto> Str ''s'',
     ''security_protocol'' \<mapsto> Str ''dummy_security_protocol'']"

text \<open>The placeholder of the ZeroMQ mode is accepted as a security protocol in Kafka mode.\<close>

lemma sample_kafka: "\<exists>p. lookup_kafka_parameters (\<lambda>_. Some sample_kafka_cfg)
    [''data_delivery_method'' \<mapsto> ''kafka''] ''f'' = Inr (Some p) \<and>
    p ''security_protocol'' = Some ''dummy_security_protocol''"
  by (simp add: lookup_kafka_parameters_def set_parameters_def sample_kafka_cfg_def step_def
      done_ok_def LoadOptional_def LoadOptionalEnum_def LoadMandatory_def load_kafka_only_def
      ReadStringSetting_def no_ssl_def emplace_same)

theorem kafka_configuration_constructs_witness:
  "\<exists>p kd. lookup_kafka_parameters (\<lambda>_. Some sample_kafka_cfg)
     [''data_delivery_method'' \<mapsto> ''kafka''] ''f'' = Inr (Some p) \<and> new_KafkaDelivery p = Inr kd"
proof -
  obtain p where p: "lookup_kafka_parameters (\<lambda>_. Some sample_kafka_cfg)
      [''data_delivery_method'' \<mapsto> ''kafka''] ''f'' = Inr (Some p)" using sample_kafka by blast
  from kafka_configuration_constructs [OF p] show ?thesis
    by (elim exE conjE) (intro exI conjI; (rule p | assumption))
qed

text \<open>An empty legacy socket is taken as "vendor disabled", an empty new-style one is refused.\<close>

lemma empty_socket_legacy:
  "cfg (vk_socket v) = None \<Longrightarrow> cfg (vk_socket_legacy v) = Some (Str []) \<Longrightarrow>
     load_socket cfg v p = Some (emplace p (vk_socket v) [])"
  "cfg (vk_socket v) = Some (Str []) \<Longrightarrow> load_socket cfg v p = None"
  by (simp_all add: load_socket_def LoadOptional_def ReadStringSetting_def)

end
