(* ===== verification/Stream_Fsm.thy ===== *)
theory Stream_Fsm
  imports Prelude
begin

text \<open>
  The per-vendor streams of \<open>src/core/mdt_dialout_core.cc\<close>: \<open>Spawn\<close>, \<open>Proceed\<close> and the loop
  \<open>RunFsm\<close> over the completion queue. The four \<open>Proceed\<close> functions are the same text, so
  one definition serves them, with the vendor's \<open>HandleMessage\<close> as an argument; the theory
  Core instantiates it for each vendor. Stream objects live in a store indexed by their
  tag, and \<open>pending\<close> records the one operation gRPC has outstanding for a tag. The lemmas
  show that an event never reaches a deleted stream, that no stream is left without an
  operation, that one acceptor stays armed, the reply limit, and that draining ends.
\<close>

section \<open>State\<close>

datatype stream_state = Create | Read | Finishing | Done

datatype operation = Requesting | Reading | Finish_sent

record stream =
  st_state :: stream_state
  st_replies :: int

text \<open>\<open>world\<close> is what the vendor's context points to.\<close>

record 'w fsm =
  streams :: "nat \<rightharpoonup> stream"
  pending :: "nat \<rightharpoonup> operation"
  next_tag :: nat
  world :: 'w

text \<open>\<open>new Stream(svc, cq, ctx)\<close>: the constructor asks gRPC for the next call.\<close>

definition Spawn :: "'w fsm \<Rightarrow> 'w fsm" where
  "Spawn s = s
     \<lparr>streams := (streams s)(next_tag s \<mapsto> \<lparr>st_state = Create, st_replies = 0\<rparr>),
      pending := (pending s)(next_tag s \<mapsto> Requesting),
      next_tag := Suc (next_tag s)\<rparr>"

definition delete_this :: "nat \<Rightarrow> 'w fsm \<Rightarrow> 'w fsm" where
  "delete_this tag s = s\<lparr>streams := (streams s)(tag := None)\<rparr>"

text \<open>Setting the state of a stream and starting its next operation.\<close>

definition arm :: "nat \<Rightarrow> stream \<Rightarrow> operation \<Rightarrow> 'w fsm \<Rightarrow> 'w fsm" where
  "arm tag st op s = s\<lparr>streams := (streams s)(tag \<mapsto> st), pending := (pending s)(tag \<mapsto> op)\<rparr>"

definition INT_MAX :: int where "INT_MAX = 2147483647"

text \<open>\<open>++replies_\<close> on an \<open>int\<close>.\<close>

definition increment :: "int \<Rightarrow> int res" where
  "increment n = (if n = INT_MAX then Inl (Undefined Signed_overflow) else Inr (n + 1))"

section \<open>Operations\<close>

definition Proceed ::
  "('req \<Rightarrow> 'w \<Rightarrow> 'w res) \<Rightarrow> int \<Rightarrow> nat \<Rightarrow> bool \<Rightarrow> 'req \<Rightarrow> 'w fsm \<Rightarrow> 'w fsm res" where
  "Proceed HandleMessage max_replies tag ok request s =
     (case streams s tag of
        None \<Rightarrow> Inl (Undefined Use_after_free)
      | Some st \<Rightarrow>
         (case st_state st of
            Create \<Rightarrow>
              if \<not> ok then Inr (delete_this tag s)
              else Inr (arm tag (st\<lparr>st_state := Read\<rparr>) Reading (Spawn s))
          | Read \<Rightarrow>
              if \<not> ok then Inr (arm tag (st\<lparr>st_state := Finishing\<rparr>) Finish_sent s)
              else
                bindr (HandleMessage request (world s)) (\<lambda>w.
                bindr (increment (st_replies st)) (\<lambda>n.
                  let st = st\<lparr>st_replies := n\<rparr>; s = s\<lparr>world := w\<rparr>
                  in if max_replies > 0 \<and> n \<ge> max_replies
                     then Inr (arm tag (st\<lparr>st_state := Finishing\<rparr>) Finish_sent s)
                     else Inr (arm tag st Reading s)))
          | Finishing \<Rightarrow> Inr (delete_this tag s)
          | Done \<Rightarrow> Inr (delete_this tag s)))"

text \<open>What \<open>cq->Next\<close> hands out: the tag of an operation that is over, whether it succeeded,
  and, for a read, the message that arrived.\<close>

record 'req event =
  ev_tag :: nat
  ev_ok :: bool
  ev_request :: 'req

definition on_event ::
  "('req \<Rightarrow> 'w \<Rightarrow> 'w res) \<Rightarrow> int \<Rightarrow> 'req event \<Rightarrow> 'w fsm \<Rightarrow> 'w fsm res" where
  "on_event HandleMessage max_replies e s =
     Proceed HandleMessage max_replies (ev_tag e) (ev_ok e) (ev_request e)
       (s\<lparr>pending := (pending s)(ev_tag e := None)\<rparr>)"

definition fsm_init :: "'w \<Rightarrow> 'w fsm" where
  "fsm_init w = \<lparr>streams = Map.empty, pending = Map.empty, next_tag = 0, world = w\<rparr>"

text \<open>\<open>RunFsm\<close> on the events the queue delivers until it is shut down.\<close>

definition RunFsm ::
  "('req \<Rightarrow> 'w \<Rightarrow> 'w res) \<Rightarrow> int \<Rightarrow> 'req event list \<Rightarrow> 'w \<Rightarrow> 'w fsm res" where
  "RunFsm HandleMessage max_replies events w =
     foldM (on_event HandleMessage max_replies) events (Spawn (fsm_init w))"

text \<open>gRPC's side of the contract: an event is the end of an operation that was started, and
  each operation ends once.\<close>

inductive delivered ::
  "('req \<Rightarrow> 'w \<Rightarrow> 'w res) \<Rightarrow> int \<Rightarrow> 'w fsm \<Rightarrow> 'req event list \<Rightarrow> bool" for H m where
  delivered_Nil: "delivered H m s []"
| delivered_stop: "ev_tag e \<in> dom (pending s) \<Longrightarrow> on_event H m e s = Inl x \<Longrightarrow> delivered H m s (e # es)"
| delivered_Cons: "ev_tag e \<in> dom (pending s) \<Longrightarrow> on_event H m e s = Inr s' \<Longrightarrow>
    delivered H m s' es \<Longrightarrow> delivered H m s (e # es)"

inductive_cases delivered_ConsE: "delivered H m s (e # es)"

lemma delivered_simps:
  "delivered H m s []"
  "delivered H m s (e # es) \<longleftrightarrow> ev_tag e \<in> dom (pending s) \<and>
     (case on_event H m e s of Inl _ \<Rightarrow> True | Inr s' \<Rightarrow> delivered H m s' es)"
  by (rule delivered_Nil)
    (auto elim: delivered_ConsE intro: delivered_stop delivered_Cons split: sum.splits)

section \<open>Invariant\<close>

text \<open>The operation a stream in a given state must have outstanding.\<close>

fun op_of :: "stream_state \<Rightarrow> operation option" where
  "op_of Create = Some Requesting"
| "op_of Read = Some Reading"
| "op_of Finishing = Some Finish_sent"
| "op_of Done = None"

definition in_limit :: "int \<Rightarrow> stream \<Rightarrow> bool" where
  "in_limit m st =
     (0 \<le> st_replies st \<and> st_replies st \<le> INT_MAX \<and>
      (m > 0 \<longrightarrow> st_replies st \<le> m \<and> (st_state st = Read \<longrightarrow> st_replies st < m)) \<and>
      (st_state st = Create \<longrightarrow> st_replies st = 0))"

definition acceptors :: "'w fsm \<Rightarrow> nat set" where
  "acceptors s = {t. \<exists>st. streams s t = Some st \<and> st_state st = Create}"

definition fsm_ok :: "int \<Rightarrow> 'w fsm \<Rightarrow> bool" where
  "fsm_ok m s =
     (finite (dom (streams s)) \<and> (\<forall>t\<in>dom (streams s). t < next_tag s) \<and>
      (\<forall>t. pending s t = Option.bind (streams s t) (\<lambda>st. op_of (st_state st))) \<and>
      (\<forall>t st. streams s t = Some st \<longrightarrow> st_state st \<noteq> Done \<and> in_limit m st) \<and>
      card (acceptors s) \<le> 1)"

lemma op_of_Done: "op_of st = None \<longleftrightarrow> st = Done"
  by (cases st) auto

lemma fsm_ok_pending:
  assumes "fsm_ok m s"
  shows "dom (pending s) = dom (streams s)"
  using assms by (force simp: fsm_ok_def dom_def op_of_Done bind_eq_None_conv)

lemma acceptors_finite: "finite (dom (streams s)) \<Longrightarrow> finite (acceptors s)"
  by (rule finite_subset [of _ "dom (streams s)"]) (auto simp: acceptors_def)

lemma acceptors_simps:
  "acceptors (delete_this t s) = acceptors s - {t}"
  "st_state st \<noteq> Create \<Longrightarrow> acceptors (arm t st op s) = acceptors s - {t}"
  "acceptors (s\<lparr>pending := p\<rparr>) = acceptors s"
  "acceptors (s\<lparr>world := w\<rparr>) = acceptors s"
  "acceptors (Spawn s) = insert (next_tag s) (acceptors s)"
  by (auto simp: acceptors_def delete_this_def arm_def Spawn_def split: if_splits)

lemma fsm_ok_init: "fsm_ok m (Spawn (fsm_init w))" "acceptors (Spawn (fsm_init w)) = {0}"
proof -
  show a: "acceptors (Spawn (fsm_init w)) = {0}"
    by (auto simp: acceptors_def Spawn_def fsm_init_def)
  show "fsm_ok m (Spawn (fsm_init w))"
    using a by (auto simp: fsm_ok_def Spawn_def fsm_init_def in_limit_def INT_MAX_def)
qed

text \<open>The three ways an event changes the store.\<close>

lemma fsm_ok_delete:
  assumes "fsm_ok m s"
  shows "fsm_ok m (delete_this t (s\<lparr>pending := (pending s)(t := None)\<rparr>))"
proof -
  have "card (acceptors s - {t}) \<le> 1"
    using assms card_Diff1_le [of "acceptors s" t] by (auto simp: fsm_ok_def intro: le_trans)
  then show ?thesis
    using assms by (auto simp: fsm_ok_def acceptors_simps) (auto simp: delete_this_def split: if_splits)
qed

lemma fsm_ok_arm:
  assumes "fsm_ok m s" and "streams s t = Some st" and "op_of (st_state st') = Some op"
    and "st_state st' \<noteq> Create" and "in_limit m st'"
  shows "fsm_ok m (arm t st' op (s\<lparr>pending := (pending s)(t := None), world := w\<rparr>))"
proof -
  have "card (acceptors s - {t}) \<le> 1"
    using assms card_Diff1_le [of "acceptors s" t] by (auto simp: fsm_ok_def intro: le_trans)
  then show ?thesis
    using assms by (auto simp: fsm_ok_def acceptors_simps) (auto simp: arm_def split: if_splits)
qed

definition accept :: "nat \<Rightarrow> stream \<Rightarrow> 'w fsm \<Rightarrow> 'w fsm" where
  "accept t st s = arm t (st\<lparr>st_state := Read\<rparr>) Reading (Spawn (s\<lparr>pending := (pending s)(t := None)\<rparr>))"

lemma fsm_ok_accept:
  assumes "fsm_ok m s" and "streams s t = Some st" and "st_state st = Create"
  shows "fsm_ok m (accept t st s)" and "acceptors (accept t st s) = {next_tag s}"
proof -
  have fin: "finite (acceptors s)"
    using assms(1) by (intro acceptors_finite) (simp add: fsm_ok_def)
  have t: "t \<in> acceptors s" "t \<noteq> next_tag s" "card (acceptors s) \<le> 1"
    using assms by (auto simp: fsm_ok_def) (auto simp: acceptors_def)
  note t = t fin
  then have "acceptors s = {t}" by (metis card_1_singletonE card_gt_0_iff empty_iff le_antisym
        less_eq_Suc_le One_nat_def singletonD)
  then show a: "acceptors (accept t st s) = {next_tag s}"
    using t(2) by (auto simp: accept_def acceptors_simps)
  have "in_limit m (st\<lparr>st_state := Read\<rparr>)"
    using assms by (auto simp: fsm_ok_def in_limit_def INT_MAX_def)
  then show "fsm_ok m (accept t st s)"
    unfolding fsm_ok_def a using assms t(2)
    by (auto simp: accept_def arm_def Spawn_def fsm_ok_def in_limit_def less_Suc_eq split: if_splits)
qed


section \<open>One event\<close>

lemma on_event_ok:
  assumes "fsm_ok m s" and "ev_tag e \<in> dom (pending s)" and "m \<le> INT_MAX"
  shows "(\<exists>s'. on_event H m e s = Inr s' \<and> fsm_ok m s' \<and>
            (acceptors s' = {} \<longrightarrow> acceptors s = {} \<or> (ev_tag e \<in> acceptors s \<and> \<not> ev_ok e))) \<or>
    (\<exists>x. on_event H m e s = Inl x \<and> ev_ok e \<and>
       (x = Undefined Signed_overflow \<and> m \<le> 0 \<or> H (ev_request e) (world s) = Inl x))"
proof -
  let ?t = "ev_tag e" and ?s = "s\<lparr>pending := (pending s)(ev_tag e := None)\<rparr>"
  obtain st where st: "streams s ?t = Some st"
    using assms(2) fsm_ok_pending [OF assms(1)] by auto
  have lim: "in_limit m st" "st_state st \<noteq> Done" using assms(1) st by (auto simp: fsm_ok_def)
  note del = fsm_ok_delete [OF assms(1), of ?t]
  have keep: "?t \<notin> acceptors s" if "st_state st \<noteq> Create" using st that by (auto simp: acceptors_def)
  have finish: "fsm_ok m (arm ?t (st'\<lparr>st_state := Finishing\<rparr>) Finish_sent
      (?s\<lparr>world := w\<rparr>))" if "0 \<le> st_replies st'" "st_replies st' \<le> INT_MAX" "m > 0 \<longrightarrow> st_replies st' \<le> m"
    for st' w
    using fsm_ok_arm [OF assms(1) st, of "st'\<lparr>st_state := Finishing\<rparr>" Finish_sent w] that
    by (simp add: in_limit_def)
  show ?thesis
  proof (cases "st_state st")
    case Create
    then have "?t \<in> acceptors s" using st by (auto simp: acceptors_def)
    then show ?thesis
      using Create st del fsm_ok_accept [OF assms(1) st Create]
      by (cases "ev_ok e") (auto simp: on_event_def Proceed_def accept_def)
  next
    case Read
    have w: "?s\<lparr>world := world s\<rparr> = ?s" by simp
    show ?thesis
    proof (cases "ev_ok e")
      case False
      have "fsm_ok m (arm ?t (st\<lparr>st_state := Finishing\<rparr>) Finish_sent ?s)"
        using finish [of st "world s"] lim(1) unfolding w by (simp add: in_limit_def)
      then show ?thesis
        using Read st False keep by (auto simp: on_event_def Proceed_def acceptors_simps)
    next
      case ok: True
      show ?thesis
      proof (cases "H (ev_request e) (world s)")
        case (Inl x)
        then show ?thesis using Read st ok by (simp add: on_event_def Proceed_def)
      next
        case (Inr w)
        have r: "st_replies st \<noteq> INT_MAX" if "m > 0" using lim(1) that Read assms(3) by (auto simp: in_limit_def)
        show ?thesis
        proof (cases "st_replies st = INT_MAX")
          case True
          then have "m \<le> 0" using r by force
          then show ?thesis using Read st ok Inr True
            by (simp add: on_event_def Proceed_def increment_def)
        next
          case nmax: False
          let ?n = "st_replies st + 1"
          have n: "0 \<le> ?n" "?n \<le> INT_MAX" "m > 0 \<longrightarrow> ?n \<le> m"
            using lim(1) nmax Read by (auto simp: in_limit_def)
          have fin: "fsm_ok m (arm ?t (st\<lparr>st_replies := ?n, st_state := Finishing\<rparr>) Finish_sent
              (?s\<lparr>world := w\<rparr>))"
            using finish [of "st\<lparr>st_replies := ?n\<rparr>" w] n by simp
          have cont: "fsm_ok m (arm ?t (st\<lparr>st_replies := ?n\<rparr>) Reading (?s\<lparr>world := w\<rparr>))"
            if "\<not> (m > 0 \<and> ?n \<ge> m)"
            by (rule fsm_ok_arm [OF assms(1) st]) (use that n Read in \<open>auto simp: in_limit_def\<close>)
          show ?thesis
          proof (cases "m > 0 \<and> ?n \<ge> m")
            case True
            then have "on_event H m e s = Inr (arm ?t (st\<lparr>st_replies := ?n, st_state := Finishing\<rparr>)
                Finish_sent (?s\<lparr>world := w\<rparr>))"
              using Read st ok Inr nmax by (simp add: on_event_def Proceed_def increment_def)
            then show ?thesis using fin keep Read by (auto simp: acceptors_simps)
          next
            case False
            then have "on_event H m e s = Inr (arm ?t (st\<lparr>st_replies := ?n\<rparr>) Reading (?s\<lparr>world := w\<rparr>))"
              using Read st ok Inr nmax by (auto simp: on_event_def Proceed_def increment_def Let_def)
            then show ?thesis using cont [OF False] keep Read by (auto simp: acceptors_simps)
          qed
        qed
      qed
    qed
  next
    case Finishing
    then show ?thesis using st del keep by (auto simp: on_event_def Proceed_def acceptors_simps)
  next
    case Done
    then show ?thesis using lim(2) by simp
  qed
qed

lemma RunFsm_ok:
  assumes "delivered H m s es" and "fsm_ok m s" and "m \<le> INT_MAX"
  shows "case foldM (on_event H m) es s of
      Inr s' \<Rightarrow> fsm_ok m s'
    | Inl x \<Rightarrow> x = Undefined Signed_overflow \<and> m \<le> 0 \<or> (\<exists>r w. H r w = Inl x)"
  using assms
proof (induction rule: delivered.induct)
  case (delivered_Nil s)
  then show ?case by simp
next
  case (delivered_stop e s x es)
  then show ?case using on_event_ok [of m s e H] by auto
next
  case (delivered_Cons e s s' es)
  then show ?case using on_event_ok [of m s e H] by auto
qed


section \<open>Acceptor and draining\<close>

text \<open>Some accept operation of the run failed (as happens once the server shuts down).\<close>

fun accept_failed ::
  "('req \<Rightarrow> 'w \<Rightarrow> 'w res) \<Rightarrow> int \<Rightarrow> 'req event list \<Rightarrow> 'w fsm \<Rightarrow> bool" where
  "accept_failed H m [] s = False"
| "accept_failed H m (e # es) s =
     ((ev_tag e \<in> acceptors s \<and> \<not> ev_ok e) \<or>
      (case on_event H m e s of Inr s' \<Rightarrow> accept_failed H m es s' | Inl _ \<Rightarrow> False))"

lemma acceptor_kept:
  assumes "delivered H m s es" and "fsm_ok m s" and "m \<le> INT_MAX"
    and "acceptors s \<noteq> {}" and "\<not> accept_failed H m es s" and "foldM (on_event H m) es s = Inr s'"
  shows "acceptors s' \<noteq> {}"
  using assms
proof (induction rule: delivered.induct)
  case (delivered_Nil s)
  then show ?case by simp
next
  case (delivered_stop e s x es)
  then show ?case by simp
next
  case (delivered_Cons e s s1 es)
  then have "fsm_ok m s1" "acceptors s1 \<noteq> {}"
    using on_event_ok [of m s e H] by auto
  then show ?case using delivered_Cons by simp
qed

text \<open>How many unsuccessful events a store can still take.\<close>

fun weight :: "stream_state \<Rightarrow> nat" where
  "weight Read = 2"
| "weight _ = 1"

definition open_work :: "'w fsm \<Rightarrow> nat" where
  "open_work s = (\<Sum>t\<in>dom (streams s). weight (st_state (the (streams s t))))"

lemma work_delete:
  assumes "finite (dom (streams s))" and "streams s t = Some st"
  shows "open_work (delete_this t (s\<lparr>pending := p\<rparr>)) + weight (st_state st) = open_work s"
proof -
  have "open_work (delete_this t (s\<lparr>pending := p\<rparr>))
      = (\<Sum>u\<in>dom (streams s) - {t}. weight (st_state (the (streams s u))))"
    unfolding open_work_def by (rule sum.cong) (auto simp: delete_this_def)
  moreover have "t \<in> dom (streams s)" using assms(2) by auto
  ultimately show ?thesis
    using sum.remove [OF assms(1), of t "\<lambda>u. weight (st_state (the (streams s u)))"] assms(2)
    by (simp add: open_work_def)
qed

lemma work_arm:
  assumes "finite (dom (streams s))" and "streams s t = Some st"
  shows "open_work (arm t st' op (s\<lparr>pending := p\<rparr>)) + weight (st_state st) = open_work s + weight (st_state st')"
proof -
  have t: "t \<in> dom (streams s)" using assms(2) by auto
  have "open_work (arm t st' op (s\<lparr>pending := p\<rparr>)) = weight (st_state st') +
      (\<Sum>u\<in>dom (streams s) - {t}. weight (st_state (the (((streams s)(t \<mapsto> st')) u))))"
    using sum.remove [OF assms(1) t, of "\<lambda>u. weight (st_state (the (((streams s)(t \<mapsto> st')) u)))"] t
    by (simp add: open_work_def arm_def insert_absorb)
  also have "(\<Sum>u\<in>dom (streams s) - {t}. weight (st_state (the (((streams s)(t \<mapsto> st')) u))))
      = (\<Sum>u\<in>dom (streams s) - {t}. weight (st_state (the (streams s u))))"
    by (rule sum.cong) auto
  finally show ?thesis
    using sum.remove [OF assms(1) t, of "\<lambda>u. weight (st_state (the (streams s u)))"] assms(2)
    by (simp add: open_work_def)
qed

lemma failing_event:
  assumes "fsm_ok m s" and "ev_tag e \<in> dom (pending s)" and "\<not> ev_ok e"
  obtains s' where "on_event H m e s = Inr s'" and "open_work s' < open_work s"
proof -
  obtain st where st: "streams s (ev_tag e) = Some st"
    using assms(2) fsm_ok_pending [OF assms(1)] by auto
  have fin: "finite (dom (streams s))" using assms(1) by (simp add: fsm_ok_def)
  let ?p = "(pending s)(ev_tag e := None)"
  note d = work_delete [OF fin st, of ?p]
  note a = work_arm [OF fin st, of "st\<lparr>st_state := Finishing\<rparr>" Finish_sent ?p]
  show thesis
    using that st assms(3) d a
    by (cases "st_state st") (auto simp: on_event_def Proceed_def)
qed

lemma drain_bound:
  assumes "delivered H m s es" and "fsm_ok m s" and "m \<le> INT_MAX" and "\<forall>e\<in>set es. \<not> ev_ok e"
  shows "\<exists>s'. foldM (on_event H m) es s = Inr s' \<and> fsm_ok m s' \<and> open_work s' + length es \<le> open_work s"
  using assms
proof (induction rule: delivered.induct)
  case (delivered_Nil s)
  then show ?case by simp
next
  case (delivered_stop e s x es)
  then show ?case using failing_event [of m s e H] by fastforce
next
  case (delivered_Cons e s s1 es)
  have "open_work s1 < open_work s"
    using failing_event [of m s e H] delivered_Cons by fastforce
  moreover have "fsm_ok m s1" using on_event_ok [of m s e H] delivered_Cons by auto
  ultimately show ?case using delivered_Cons by fastforce
qed

lemma drain_world:
  assumes "foldM (on_event H m) es s = Inr s'" and "\<forall>e\<in>set es. \<not> ev_ok e"
  shows "world s' = world s"
  using assms
proof (induction es arbitrary: s)
  case (Cons e es)
  then obtain s1 where s1: "on_event H m e s = Inr s1" "foldM (on_event H m) es s1 = Inr s'"
    by (cases "on_event H m e s") auto
  have "world s1 = world s"
    using s1(1) Cons.prems(2)
    by (auto simp: on_event_def Proceed_def arm_def delete_this_def split: option.splits stream_state.splits)
  then show ?case using Cons.IH [OF s1(2)] Cons.prems(2) by simp
qed simp

lemma work_bound:
  assumes "fsm_ok m s"
  shows "open_work s \<le> 2 * card (dom (pending s))"
proof -
  have "weight st \<le> 2" for st by (cases st) auto
  then have "open_work s \<le> (\<Sum>t\<in>dom (streams s). 2)" unfolding open_work_def by (intro sum_mono) simp
  then show ?thesis using fsm_ok_pending [OF assms] by simp
qed


lemma delivered_append:
  assumes "delivered H m s (es @ ds)" and "foldM (on_event H m) es s = Inr s'"
  shows "delivered H m s es \<and> delivered H m s' ds"
  using assms
proof (induction es arbitrary: s)
  case Nil
  then show ?case by (simp add: delivered_Nil)
next
  case (Cons e es)
  then obtain s1 where s1: "on_event H m e s = Inr s1" "foldM (on_event H m) es s1 = Inr s'"
    by (cases "on_event H m e s") auto
  have "ev_tag e \<in> dom (pending s)" "delivered H m s1 (es @ ds)"
    using Cons.prems(1) s1 by (auto elim: delivered_ConsE)
  then show ?case using Cons.IH [OF _ s1(2)] s1(1) by (auto intro: delivered_Cons)
qed

lemma foldM_append_Inr: "foldM f xs s = Inr t \<Longrightarrow> foldM f (xs @ ys) s = foldM f ys t"
  by (simp add: foldM_append)

text \<open>The messages a run hands to \<open>HandleMessage\<close>: the successful reads.\<close>

fun handled ::
  "('req \<Rightarrow> 'w \<Rightarrow> 'w res) \<Rightarrow> int \<Rightarrow> 'req event list \<Rightarrow> 'w fsm \<Rightarrow> 'req list" where
  "handled H m [] s = []"
| "handled H m (e # es) s =
     (if ev_ok e \<and> (case streams s (ev_tag e) of Some st \<Rightarrow> st_state st = Read | None \<Rightarrow> False)
      then [ev_request e] else []) @
     (case on_event H m e s of Inr s' \<Rightarrow> handled H m es s' | Inl _ \<Rightarrow> [])"

lemma on_event_world:
  assumes "on_event H m e s = Inr s'"
  shows "if ev_ok e \<and> (case streams s (ev_tag e) of Some st \<Rightarrow> st_state st = Read | None \<Rightarrow> False)
    then H (ev_request e) (world s) = Inr (world s') else world s' = world s"
  using assms
  by (auto simp: on_event_def Proceed_def arm_def delete_this_def Spawn_def bindr_eq_Inr Let_def
      split: option.splits stream_state.splits if_splits)

text \<open>A run acts on the context's objects as \<open>HandleMessage\<close> on those messages, in order.\<close>

lemma world_of_run:
  assumes "foldM (on_event H m) es s = Inr s'"
  shows "foldM H (handled H m es s) (world s) = Inr (world s')"
  using assms
proof (induction es arbitrary: s)
  case (Cons e es)
  then obtain s1 where s1: "on_event H m e s = Inr s1" "foldM (on_event H m) es s1 = Inr s'"
    by (cases "on_event H m e s") auto
  show ?case using Cons.IH [OF s1(2)] on_event_world [OF s1(1)] s1(1) by (simp split: if_splits)
qed simp

section \<open>A stream that only reads\<close>

definition reads :: "nat \<Rightarrow> 'req list \<Rightarrow> 'req event list" where
  "reads t rs = map (\<lambda>r. \<lparr>ev_tag = t, ev_ok = True, ev_request = r\<rparr>) rs"

lemma reads_simps:
  "reads t [] = []"
  "reads t (r # rs) = \<lparr>ev_tag = t, ev_ok = True, ev_request = r\<rparr> # reads t rs"
  "reads t (rs @ rs') = reads t rs @ reads t rs'"
  by (simp_all add: reads_def)

definition serving :: "nat \<Rightarrow> int \<Rightarrow> 'w \<Rightarrow> 'w fsm \<Rightarrow> 'w fsm" where
  "serving t n w s = arm t \<lparr>st_state = Read, st_replies = n\<rparr> Reading (s\<lparr>world := w\<rparr>)"

lemma serving_step:
  assumes "H r w = Inr w'"
  shows "on_event H m \<lparr>ev_tag = t, ev_ok = True, ev_request = r\<rparr> (serving t n w s) =
    (if n = INT_MAX then Inl (Undefined Signed_overflow)
     else if m > 0 \<and> n + 1 \<ge> m
     then Inr (arm t \<lparr>st_state = Finishing, st_replies = n + 1\<rparr> Finish_sent (s\<lparr>world := w'\<rparr>))
     else Inr (serving t (n + 1) w' s))"
  using assms by (auto simp: on_event_def Proceed_def serving_def arm_def increment_def bindr_def)

lemma serving_run:
  assumes "\<And>r w. H r w = Inr (f r w)"
    and "n + int (length rs) \<le> INT_MAX" and "m \<le> 0 \<or> n + int (length rs) < m"
  shows "foldM (on_event H m) (reads t rs) (serving t n w s) =
    Inr (serving t (n + int (length rs)) (fold f rs w) s)"
  using assms(2,3)
proof (induction rs arbitrary: n w)
  case Nil
  then show ?case by (simp add: reads_simps)
next
  case (Cons r rs)
  have "on_event H m \<lparr>ev_tag = t, ev_ok = True, ev_request = r\<rparr> (serving t n w s)
      = Inr (serving t (n + 1) (f r w) s)"
    using Cons.prems assms(1) [of r w] by (auto simp: serving_step)
  then show ?case using Cons.IH [of "n + 1" "f r w"] Cons.prems by (simp add: reads_simps algebra_simps)
qed

text \<open>The first stream of a server, once a call has been accepted on it.\<close>

definition accept_first :: "'req \<Rightarrow> 'req event" where
  "accept_first r = \<lparr>ev_tag = 0, ev_ok = True, ev_request = r\<rparr>"

definition accepted :: "'w fsm \<Rightarrow> 'w fsm" where
  "accepted s = Spawn s"

lemma accept_first_step:
  "on_event H m (accept_first r) (Spawn (fsm_init w)) = Inr (serving 0 0 w (accepted (Spawn (fsm_init w))))"
  by (simp add: on_event_def Proceed_def accept_first_def serving_def accepted_def arm_def Spawn_def
      fsm_init_def fun_upd_twist fun_upd_def) (rule ext | simp)+

lemma serve_one:
  assumes "H r w = Inr w'" and "m \<le> 0"
  obtains s where "RunFsm H m (accept_first r0 # reads 0 [r]) w = Inr s" and "world s = w'"
    and "handled H m (accept_first r0 # reads 0 [r]) (Spawn (fsm_init w)) = [r]"
proof -
  let ?s0 = "accepted (Spawn (fsm_init w))"
  have st: "streams (serving 0 0 w ?s0) 0 = Some \<lparr>st_state = Read, st_replies = 0\<rparr>"
    "streams (Spawn (fsm_init w)) 0 = Some \<lparr>st_state = Create, st_replies = 0\<rparr>"
    by (simp_all add: serving_def arm_def Spawn_def fsm_init_def)
  have e: "on_event H m \<lparr>ev_tag = 0, ev_ok = True, ev_request = r\<rparr> (serving 0 0 w ?s0)
      = Inr (serving 0 1 w' ?s0)"
    using serving_step [of H r w w' m 0 0 ?s0] assms by (simp add: INT_MAX_def)
  show thesis
  proof (rule that)
    show "RunFsm H m (accept_first r0 # reads 0 [r]) w = Inr (serving 0 1 w' ?s0)"
      using e by (simp add: RunFsm_def accept_first_step reads_simps)
    show "world (serving 0 1 w' ?s0) = w'" by (simp add: serving_def arm_def)
    show "handled H m (accept_first r0 # reads 0 [r]) (Spawn (fsm_init w)) = [r]"
      using e st accept_first_step [of H m r0 w]
      by (simp add: reads_simps) (simp add: accept_first_def)
  qed
qed

section \<open>Properties\<close>

definition sample_handler :: "nat \<Rightarrow> nat \<Rightarrow> nat res" where
  "sample_handler r w = Inr (w + r)"

definition sample_event :: "nat \<Rightarrow> bool \<Rightarrow> nat event" where
  "sample_event t ok = \<lparr>ev_tag = t, ev_ok = ok, ev_request = 7\<rparr>"

text \<open>Two calls are accepted, the first sends a message and hangs up while the second waits;
  then the server shuts down.\<close>

definition sample_busy :: "nat event list" where
  "sample_busy = [sample_event 0 True, sample_event 0 True, sample_event 1 True, sample_event 0 False]"

definition sample_drain :: "nat event list" where
  "sample_drain = [sample_event 2 False, sample_event 1 False, sample_event 0 False, sample_event 1 False]"

lemmas fsm_sample_defs = sample_busy_def sample_drain_def sample_event_def sample_handler_def
  on_event_def Proceed_def arm_def Spawn_def delete_this_def fsm_init_def increment_def INT_MAX_def

lemma sample_delivered:
  "delivered sample_handler 5 (Spawn (fsm_init 0)) (sample_busy @ sample_drain)"
  unfolding sample_busy_def sample_drain_def
  by (simp add: delivered_simps fsm_sample_defs)

text \<open>C7. Whatever events gRPC delivers for the operations the streams started, \<open>RunFsm\<close> never
  calls \<open>Proceed\<close> on a deleted stream: a run stops only by an exception of \<open>HandleMessage\<close> or,
  with an unlimited number of replies, by overflow of \<open>replies_\<close>. Otherwise every
  live stream has exactly the one outstanding operation its state calls for (so it will be
  heard of again), its replies are within the limit, and at most one acceptor waits.\<close>

theorem RunFsm_safe:
  assumes "delivered HandleMessage m (Spawn (fsm_init w)) es" and "m \<le> INT_MAX"
  shows "case RunFsm HandleMessage m es w of
      Inl x \<Rightarrow> (x = Undefined Signed_overflow \<and> m \<le> 0) \<or> (\<exists>r w. HandleMessage r w = Inl x)
    | Inr s \<Rightarrow>
        dom (pending s) = dom (streams s) \<and>
        (\<forall>t st. streams s t = Some st \<longrightarrow> pending s t = op_of (st_state st) \<and> in_limit m st) \<and>
        card (acceptors s) \<le> 1"
proof (cases "RunFsm HandleMessage m es w")
  case (Inl x)
  then show ?thesis using RunFsm_ok [OF assms(1) fsm_ok_init(1) assms(2)] by (simp add: RunFsm_def)
next
  case (Inr s)
  then have ok: "fsm_ok m s" using RunFsm_ok [OF assms(1) fsm_ok_init(1) assms(2)] by (simp add: RunFsm_def)
  then show ?thesis using Inr fsm_ok_pending [OF ok] by (simp add: fsm_ok_def)
qed

lemma RunFsm_safe_witness:
  "case RunFsm sample_handler 5 (sample_busy @ sample_drain) 0 of
      Inl x \<Rightarrow> (x = Undefined Signed_overflow \<and> (5::int) \<le> 0) \<or> (\<exists>r w. sample_handler r w = Inl x)
    | Inr s \<Rightarrow>
        dom (pending s) = dom (streams s) \<and>
        (\<forall>t st. streams s t = Some st \<longrightarrow> pending s t = op_of (st_state st) \<and> in_limit 5 st) \<and>
        card (acceptors s) \<le> 1"
  by (rule RunFsm_safe [OF sample_delivered]) (simp add: INT_MAX_def)

text \<open>As long as no accept operation fails, exactly one stream is armed to accept the
  next call after every event: \<open>Proceed\<close> spawns the successor before it serves the call.\<close>

theorem RunFsm_keeps_acceptor:
  assumes "delivered HandleMessage m (Spawn (fsm_init w)) es" and "m \<le> INT_MAX"
    and "\<not> accept_failed HandleMessage m es (Spawn (fsm_init w))"
    and "RunFsm HandleMessage m es w = Inr s"
  shows "\<exists>t. acceptors s = {t} \<and> pending s t = Some Requesting"
proof -
  have ok: "fsm_ok m s"
    using RunFsm_ok [OF assms(1) fsm_ok_init(1) assms(2)] assms(4) by (simp add: RunFsm_def)
  have "acceptors s \<noteq> {}"
    using acceptor_kept [OF assms(1) fsm_ok_init(1) assms(2) _ assms(3)] assms(4)
    by (simp add: RunFsm_def fsm_ok_init(2))
  moreover have "finite (acceptors s)" "card (acceptors s) \<le> 1"
    using ok acceptors_finite [of s] by (auto simp: fsm_ok_def)
  ultimately have "card (acceptors s) = 1" by (simp add: le_less card_eq_0_iff)
  then obtain t where t: "acceptors s = {t}" by (rule card_1_singletonE)
  then have "t \<in> acceptors s" by simp
  then show ?thesis using t ok by (auto simp: fsm_ok_def acceptors_def)
qed

lemma RunFsm_keeps_acceptor_witness:
  "\<exists>s. RunFsm sample_handler 5 sample_busy 0 = Inr s \<and>
     (\<exists>t. acceptors s = {t} \<and> pending s t = Some Requesting)"
proof -
  have "\<exists>s. foldM (on_event sample_handler 5) sample_busy (Spawn (fsm_init 0)) = Inr s"
    by (simp add: fsm_sample_defs)
  then obtain s where s: "foldM (on_event sample_handler 5) sample_busy (Spawn (fsm_init 0)) = Inr s" ..
  then have r: "RunFsm sample_handler 5 sample_busy 0 = Inr s" by (simp add: RunFsm_def)
  have d: "delivered sample_handler 5 (Spawn (fsm_init 0)) sample_busy"
    using delivered_append [OF sample_delivered s] by simp
  have n: "\<not> accept_failed sample_handler 5 sample_busy (Spawn (fsm_init 0))"
    by (simp add: fsm_sample_defs acceptors_def)
  show ?thesis
    using RunFsm_keeps_acceptor [OF d _ n r] r by (simp add: INT_MAX_def)
qed

text \<open>C13. Once every operation fails (what a shut-down server and queue deliver), the streams
  go away: from any reachable state with \<open>n\<close> outstanding operations at most \<open>2 * n\<close> further
  events arrive, none of them raises an error, and when nothing is outstanding no stream
  object is left.\<close>

theorem RunFsm_drains:
  assumes "delivered HandleMessage m (Spawn (fsm_init w)) (es @ ds)" and "m \<le> INT_MAX"
    and "RunFsm HandleMessage m es w = Inr s" and "\<forall>e\<in>set ds. \<not> ev_ok e"
  shows "\<exists>s'. RunFsm HandleMessage m (es @ ds) w = Inr s' \<and>
    length ds \<le> 2 * card (dom (pending s)) \<and> world s' = world s \<and>
    (pending s' = Map.empty \<longrightarrow> streams s' = Map.empty)"
proof -
  have es: "foldM (on_event HandleMessage m) es (Spawn (fsm_init w)) = Inr s"
    using assms(3) by (simp add: RunFsm_def)
  note d = delivered_append [OF assms(1) es]
  then have ok: "fsm_ok m s"
    using RunFsm_ok [OF _ fsm_ok_init(1) assms(2), of HandleMessage w es] es by simp
  obtain s' where s': "foldM (on_event HandleMessage m) ds s = Inr s'" "fsm_ok m s'"
    "open_work s' + length ds \<le> open_work s"
    using drain_bound [OF conjunct2 [OF d] ok assms(2,4)] by blast
  have "length ds \<le> 2 * card (dom (pending s))" using s'(3) work_bound [OF ok] by linarith
  moreover have "pending s' = Map.empty \<longrightarrow> streams s' = Map.empty"
    using fsm_ok_pending [OF s'(2)] by (metis dom_eq_empty_conv)
  ultimately show ?thesis
    using foldM_append_Inr [OF es, of ds] s'(1) drain_world [OF s'(1) assms(4)] by (simp add: RunFsm_def)
qed

lemma RunFsm_drains_witness:
  "\<exists>s s'. RunFsm sample_handler 5 sample_busy 0 = Inr s \<and>
    RunFsm sample_handler 5 (sample_busy @ sample_drain) 0 = Inr s' \<and>
    length sample_drain \<le> 2 * card (dom (pending s)) \<and> world s' = world s \<and>
    (pending s' = Map.empty \<longrightarrow> streams s' = Map.empty)"
proof -
  have "\<exists>s. RunFsm sample_handler 5 sample_busy 0 = Inr s" by (simp add: RunFsm_def fsm_sample_defs)
  then obtain s where s: "RunFsm sample_handler 5 sample_busy 0 = Inr s" ..
  have f: "\<forall>e\<in>set sample_drain. \<not> ev_ok e" by (simp add: sample_drain_def sample_event_def)
  show ?thesis using RunFsm_drains [OF sample_delivered _ s f] s by (simp add: INT_MAX_def)
qed

text \<open>C26. With a limit \<open>m\<close> the first call of a server hands its first \<open>m\<close> messages to
  \<open>HandleMessage\<close>, in order; before the \<open>m\<close>-th the stream goes on reading, after it the call
  is finished, and the next acceptor is armed throughout.\<close>

theorem RunFsm_reply_limit:
  assumes "\<And>r w. HandleMessage r w = Inr (f r w)"
    and "0 < m" and "m \<le> INT_MAX" and "int (length rs) \<le> m"
  shows "\<exists>s. RunFsm HandleMessage m (accept_first r0 # reads 0 rs) w = Inr s \<and>
    world s = fold f rs w \<and> acceptors s = {1} \<and>
    streams s 0 = Some \<lparr>st_state = (if int (length rs) < m then Read else Finishing),
                        st_replies = int (length rs)\<rparr> \<and>
    pending s 0 = Some (if int (length rs) < m then Reading else Finish_sent)"
proof -
  let ?s0 = "accepted (Spawn (fsm_init w))"
  have acc: "acceptors ?s0 - {0} = {1}"
    using fsm_ok_init(2) [of w] unfolding accepted_def acceptors_simps(5) [of "Spawn (fsm_init w)"]
    by (auto simp: Spawn_def fsm_init_def)
  have run: "RunFsm HandleMessage m (accept_first r0 # reads 0 xs) w =
      foldM (on_event HandleMessage m) (reads 0 xs) (serving 0 0 w ?s0)" for xs
    by (simp add: RunFsm_def accept_first_step)
  show ?thesis
  proof (cases "int (length rs) < m")
    case True
    then have "RunFsm HandleMessage m (accept_first r0 # reads 0 rs) w =
        Inr (serving 0 (int (length rs)) (fold f rs w) ?s0)"
      using serving_run [of HandleMessage f 0 rs m 0 w ?s0] assms by (simp add: run)
    moreover have "acceptors (serving 0 (int (length rs)) (fold f rs w) ?s0) = {1}"
      using acc by (simp add: serving_def acceptors_simps)
    ultimately show ?thesis using True by (simp add: serving_def arm_def)
  next
    case False
    then obtain xs x where rs: "rs = xs @ [x]" "int (length xs) + 1 = m"
      using assms(2,4) by (cases rs rule: rev_cases) auto
    have "foldM (on_event HandleMessage m) (reads 0 xs) (serving 0 0 w ?s0)
        = Inr (serving 0 (int (length xs)) (fold f xs w) ?s0)"
      using serving_run [of HandleMessage f 0 xs m 0 w ?s0] assms rs by simp
    then have "RunFsm HandleMessage m (accept_first r0 # reads 0 rs) w =
        Inr (arm 0 \<lparr>st_state = Finishing, st_replies = m\<rparr> Finish_sent (?s0\<lparr>world := fold f rs w\<rparr>))"
      using rs assms serving_step [of HandleMessage x "fold f xs w" "fold f rs w" m 0 "int (length xs)" ?s0]
      unfolding run by (simp add: reads_simps foldM_append_Inr)
    then show ?thesis using acc rs by (simp add: acceptors_simps) (simp add: arm_def)
  qed
qed

lemma RunFsm_reply_limit_witness:
  "\<exists>s. RunFsm sample_handler 2 (accept_first 0 # reads 0 [3, 4]) 1 = Inr s \<and>
    world s = fold (\<lambda>r w. w + r) [3, 4] 1 \<and> acceptors s = {1} \<and>
    streams s 0 = Some \<lparr>st_state = Finishing, st_replies = 2\<rparr> \<and> pending s 0 = Some Finish_sent"
  using RunFsm_reply_limit [of sample_handler "\<lambda>r w. w + r" 2 "[3, 4]" 0 1]
  by (simp add: sample_handler_def INT_MAX_def)

lemma of_nat_numeral_pow: "int (2 ^ n) = 2 ^ n" by simp

text \<open>Without a limit (\<open>replies_<vendor> = "0"\<close>) the counter \<open>replies_\<close>, an \<open>int\<close>, overflows:
  a call that sends \<open>n\<close> messages runs into undefined behaviour exactly when \<open>n\<close> exceeds
  \<open>2 ^ 31 - 1\<close>.\<close>

theorem RunFsm_unlimited_overflow:
  assumes "\<And>r w. HandleMessage r w = Inr (f r w)" and "m \<le> 0"
  shows "RunFsm HandleMessage m (accept_first r0 # reads 0 rs) w = Inl (Undefined Signed_overflow)
    \<longleftrightarrow> 2 ^ 31 - 1 < int (length rs)"
proof -
  let ?s0 = "accepted (Spawn (fsm_init w))"
  have run: "RunFsm HandleMessage m (accept_first r0 # reads 0 xs) w =
      foldM (on_event HandleMessage m) (reads 0 xs) (serving 0 0 w ?s0)" for xs
    by (simp add: RunFsm_def accept_first_step)
  have max: "(2::int) ^ 31 - 1 = INT_MAX" by (simp add: INT_MAX_def)
  show ?thesis
  proof (cases "int (length rs) \<le> INT_MAX")
    case True
    then show ?thesis
      using serving_run [of HandleMessage f 0 rs m 0 w ?s0] assms unfolding max by (simp add: run)
  next
    case False
    define xs where "xs = take (nat INT_MAX) rs"
    have len: "int (length xs) = INT_MAX" using False by (simp add: xs_def INT_MAX_def)
    have "nat INT_MAX < length rs" using False by (simp add: INT_MAX_def)
    then obtain y ys where y: "rs = xs @ y # ys" using id_take_nth_drop [of "nat INT_MAX" rs] xs_def by blast
    have "foldM (on_event HandleMessage m) (reads 0 xs) (serving 0 0 w ?s0)
        = Inr (serving 0 INT_MAX (fold f xs w) ?s0)"
      using serving_run [of HandleMessage f 0 xs m 0 w ?s0] assms len by simp
    then have "RunFsm HandleMessage m (accept_first r0 # reads 0 rs) w = Inl (Undefined Signed_overflow)"
      using serving_step [of HandleMessage y "fold f xs w" "f y (fold f xs w)" m 0 INT_MAX ?s0] assms
      unfolding run y by (simp add: reads_simps foldM_append_Inr)
    then show ?thesis using False unfolding max by simp
  qed
qed

lemma RunFsm_unlimited_overflow_witness:
  "RunFsm sample_handler 0 (accept_first 0 # reads 0 (replicate (2 ^ 31) 1)) 0 =
    Inl (Undefined Signed_overflow)"
proof -
  have "RunFsm sample_handler 0 (accept_first 0 # reads 0 rs) 0 = Inl (Undefined Signed_overflow)
      \<longleftrightarrow> 2 ^ 31 - 1 < int (length rs)" for rs
    by (rule RunFsm_unlimited_overflow [of sample_handler "\<lambda>r w. w + r"])
      (simp_all add: sample_handler_def)
  moreover have "(2::int) ^ 31 - 1 < int (length (replicate (2 ^ 31) (1::nat)))"
    unfolding length_replicate of_nat_numeral_pow by simp
  ultimately show ?thesis by blast
qed

end
