(* ===== verification/Core.thy ===== *)
theory Core
  imports Peer_Parser Cisco_Decode Gnmi_Decode Huawei_Decode Kafka_Delivery Zmq_Delivery Cfg_Handler
    Stream_Fsm "HOL-Library.Sublist"
begin

text \<open>
  The message path of \<open>src/core/mdt_dialout_core.{h,cc}\<close>: the plumbing a vendor's thread
  builds from the configuration (\<open>VendorPlumbing\<close>, the four \<open>Context\<close>s and \<open>FsmCtrl\<close>s),
  \<open>deliver_payload\<close>, and the four \<open>HandleMessage\<close> functions, which are what the streams of
  Stream_Fsm run on every message. The locale \<open>vendor_stream\<close> states what the four have in
  common: a message yields at most one body, and that body is delivered for the peer of the
  call. Its lemmas say what a whole run publishes.
\<close>

section \<open>Plumbing\<close>

datatype DeliveryMethod = Kafka | Zmq

text \<open>What stands outside the repository: JsonCpp, the Kafka client's \<open>send\<close>, whether
  allocations succeed, and the ZeroMQ socket's \<open>send\<close>.\<close>

record ('j, 'p, 'q) env =
  e_json :: "'j json_api"
  e_send :: "'p \<Rightarrow> string ProducerRecord \<Rightarrow> (unit res \<times> 'p) res"
  e_avail :: "addr \<Rightarrow> bool"
  e_zmq_send :: "'q \<Rightarrow> addr \<Rightarrow> 'q send_result"

text \<open>The values of a \<open>Context\<close>; Cisco's has two more.\<close>

record Context =
  cx_zmq_uri :: string
  cx_max_replies :: int
  cx_delivery :: DeliveryMethod
  cx_writer_id :: string
  cx_label_encode :: bool

record CiscoContext = Context +
  cx_cisco_gpbkv2json :: bool
  cx_cisco_msg_to_json :: bool

text \<open>The objects its pointers point to. The producer and the socket are null in the other
  delivery mode.\<close>

record ('p, 'q) objects =
  o_label_map :: label_map
  o_data_manipulation :: DataManipulation
  o_data_wrapper :: DataWrapper
  o_kafka_delivery :: KafkaDelivery
  o_kafka_producer :: "'p option"
  o_zmq_sock :: "'q option"
  o_heap :: heap

record ('p, 'q) VendorPlumbing =
  vp_data_manipulation :: DataManipulation
  vp_data_wrapper :: DataWrapper
  vp_kafka_delivery :: KafkaDelivery
  vp_zmq_uri :: string
  vp_kafka_producer :: "'p option"
  vp_zmq_sock :: "'q option"
  vp_delivery :: DeliveryMethod
  vp_label_encode :: bool
  vp_writer_id :: string

text \<open>\<open>new_producer\<close> and \<open>connect\<close> are the constructors of the Kafka client and of the
  connected socket; both may throw.\<close>

definition new_VendorPlumbing ::
  "((string \<rightharpoonup> string) \<Rightarrow> 'p res) \<Rightarrow> (string \<Rightarrow> 'q res) \<Rightarrow> cfg \<Rightarrow> ('p, 'q) VendorPlumbing res" where
  "new_VendorPlumbing new_producer connect c =
     bindr (new_KafkaDelivery (kafka_delivery_cfg_parameters c)) (\<lambda>kafka_delivery.
     bindr (map_at (zmq_delivery_cfg_parameters c) ''zmq_uri'') (\<lambda>zmq_uri.
     bindr (map_at (main_cfg_parameters c) ''writer_id'') (\<lambda>writer_id.
     bindr (map_at (main_cfg_parameters c) ''data_delivery_method'') (\<lambda>ddm.
     bindr (if ddm = ''kafka'' then
              bindr (new_producer (kd_properties kafka_delivery)) (\<lambda>p. Inr (Some p, None, Kafka))
            else if ddm = ''zmq'' then
              bindr (connect zmq_uri) (\<lambda>q. Inr (None, Some q, Zmq))
            else Inl Abort) (\<lambda>(producer, sock, delivery).
     bindr (map_at (data_manipulation_cfg_parameters c) ''enable_label_encode_as_map'') (\<lambda>csv.
     bindr (if csv = ''true'' then Inr True
            else bindr (map_at (data_manipulation_cfg_parameters c) ''enable_label_encode_as_map_ptm'')
                   (\<lambda>ptm. Inr (ptm = ''true''))) (\<lambda>label_encode.
       Inr \<lparr>vp_data_manipulation = new_DataManipulation, vp_data_wrapper = new_DataWrapper,
            vp_kafka_delivery = kafka_delivery, vp_zmq_uri = zmq_uri, vp_kafka_producer = producer,
            vp_zmq_sock = sock, vp_delivery = delivery, vp_label_encode = label_encode,
            vp_writer_id = writer_id\<rparr>)))))))"

definition plumbing_objects :: "label_map \<Rightarrow> heap \<Rightarrow> ('p, 'q) VendorPlumbing \<Rightarrow> ('p, 'q) objects" where
  "plumbing_objects lm h pl =
     \<lparr>o_label_map = lm, o_data_manipulation = vp_data_manipulation pl,
      o_data_wrapper = vp_data_wrapper pl, o_kafka_delivery = vp_kafka_delivery pl,
      o_kafka_producer = vp_kafka_producer pl, o_zmq_sock = vp_zmq_sock pl, o_heap = h\<rparr>"

definition vendor_context :: "string \<Rightarrow> cfg \<Rightarrow> ('p, 'q) VendorPlumbing \<Rightarrow> Context res" where
  "vendor_context replies_key c pl =
     bindr (map_at (main_cfg_parameters c) replies_key) (\<lambda>s.
     bindr (stoi s) (\<lambda>n.
       Inr \<lparr>cx_zmq_uri = vp_zmq_uri pl, cx_max_replies = n, cx_delivery = vp_delivery pl,
            cx_writer_id = vp_writer_id pl, cx_label_encode = vp_label_encode pl\<rparr>))"

section \<open>Delivery\<close>

text \<open>The null pointers are only dereferenced here.\<close>

definition deref :: "'a option \<Rightarrow> 'a res" where
  "deref p = (case p of None \<Rightarrow> Inl (Undefined Null_dereference) | Some x \<Rightarrow> Inr x)"

definition deliver_payload ::
  "('j, 'p, 'q) env \<Rightarrow> 'c Context_scheme \<Rightarrow> 64 word \<Rightarrow> string \<Rightarrow> string \<Rightarrow> string \<Rightarrow>
   ('p, 'q) objects \<Rightarrow> ('p, 'q) objects res" where
  "deliver_payload E ctx now body peer_ip peer_port w =
     (case cx_delivery ctx of
        Kafka \<Rightarrow>
          bindr (BuildEnvelope (e_json E) now body peer_ip peer_port
                   (if cx_label_encode ctx then Some (o_label_map w) else None)
                   (cx_writer_id ctx) (o_data_manipulation w)) (\<lambda>(ok, envelope, dm).
          let w = w\<lparr>o_data_manipulation := dm\<rparr> in
          if \<not> ok then Inr w
          else bindr (deref (o_kafka_producer w)) (\<lambda>producer.
               bindr (AsyncKafkaProducer (e_send E) (o_kafka_delivery w) peer_ip envelope producer)
                 (\<lambda>(_, producer). Inr (w\<lparr>o_kafka_producer := Some producer\<rparr>))))
      | Zmq \<Rightarrow>
          let (_, dw) = BuildDataWrapper now ''gRPC'' ''json_string'' (cx_writer_id ctx) peer_ip
                          peer_port body (o_data_wrapper w);
              w = w\<lparr>o_data_wrapper := dw\<rparr>
          in bindr (deref (o_zmq_sock w)) (\<lambda>sock.
             bindr (ZmqPusher (e_avail E) (e_zmq_send E) dw (o_heap w) sock) (\<lambda>(_, h, sock).
               Inr (w\<lparr>o_heap := h, o_zmq_sock := Some sock\<rparr>))))"

section \<open>The four handlers\<close>

text \<open>One message of a call: the call's peer string, the clock, and the request.\<close>

record 'r message =
  m_peer :: string
  m_now :: "64 word"
  m_request :: 'r

record MdtDialoutArgs =
  md_ReqId :: "64 word"
  md_data :: string
  md_errors :: string

datatype MessageData = data_bytes string | data_json string

record serviceArgs =
  sa_ReqId :: "64 word"
  sa_MessageData :: "MessageData option"
  sa_errors :: string

fun get_data :: "MessageData option \<Rightarrow> string" where
  "get_data (Some (data_bytes s)) = s"
| "get_data _ = []"

fun get_data_json :: "MessageData option \<Rightarrow> string" where
  "get_data_json (Some (data_json s)) = s"
| "get_data_json _ = []"

text \<open>\<open>parse_tlm\<close> is \<open>Telemetry::ParseFromString\<close> (its result and what it leaves in the
  message), \<open>tlm_json\<close> the text \<open>MessageToJsonString\<close> appends.\<close>

definition Cisco_HandleMessage ::
  "('j, 'p, 'q) env \<Rightarrow> (string \<Rightarrow> bool \<times> cisco_Telemetry) \<Rightarrow> (cisco_Telemetry \<Rightarrow> string) \<Rightarrow>
   CiscoContext \<Rightarrow> MdtDialoutArgs message \<Rightarrow> ('p, 'q) objects \<Rightarrow> ('p, 'q) objects res" where
  "Cisco_HandleMessage E parse_tlm tlm_json ctx m w =
     bindr (ParsePeer (m_peer m)) (\<lambda>peer.
     let (parsing_str, cisco_tlm) = parse_tlm (md_data (m_request m));
         stream_data_in = md_data (m_request m);
         deliver = (\<lambda>body. deliver_payload E ctx (m_now m) body (ip peer) (port peer) w)
     in if stream_data_in = [] then Inr w
        else if c_data_gpbkv cisco_tlm \<noteq> [] \<and> parsing_str then
          (if cx_cisco_gpbkv2json ctx then
             bindr (CiscoGpbkv2Json (e_json E) cisco_tlm) (\<lambda>(ok, stream_data_in_normalization).
               if ok then deliver stream_data_in_normalization else Inr w)
           else if cx_cisco_msg_to_json ctx then deliver (tlm_json cisco_tlm)
           else Inr w)
        else if c_data_gpb cisco_tlm \<noteq> None \<and> parsing_str then deliver stream_data_in
        else if \<not> parsing_str then deliver stream_data_in
        else Inr w)"

text \<open>\<open>JuniperUpdate\<close> is called only when \<open>JuniperExtension\<close> returned true; whatever the
  outcome, \<open>json_str_out\<close> is delivered.\<close>

definition Juniper_HandleMessage ::
  "('j, 'p, 'q) env \<Rightarrow> (string \<Rightarrow> GnmiJuniperTelemetryHeaderExtension option) \<Rightarrow>
   (GnmiJuniperTelemetryHeaderExtension \<Rightarrow> string option) \<Rightarrow>
   Context \<Rightarrow> SubscribeResponse message \<Rightarrow> ('p, 'q) objects \<Rightarrow> ('p, 'q) objects res" where
  "Juniper_HandleMessage E parse_ext ext_json ctx m w =
     bindr (ParsePeer (m_peer m)) (\<lambda>peer.
     bindr (JuniperExtension (e_json E) parse_ext ext_json (m_request m) (j_null (e_json E)))
       (\<lambda>(ok, root).
     bindr (if ok then JuniperUpdate (e_json E) (m_request m) root else Inr (False, [], root))
       (\<lambda>(ok, json_str_out, root).
       deliver_payload E ctx (m_now m) json_str_out (ip peer) (port peer) w)))"

definition Nokia_HandleMessage ::
  "('j, 'p, 'q) env \<Rightarrow> Context \<Rightarrow> SubscribeResponse message \<Rightarrow> ('p, 'q) objects \<Rightarrow> ('p, 'q) objects res" where
  "Nokia_HandleMessage E ctx m w =
     bindr (ParsePeer (m_peer m)) (\<lambda>peer.
     bindr (NokiaUpdate (e_json E) (m_request m) (j_null (e_json E))) (\<lambda>(ok, json_str_out, root).
       deliver_payload E ctx (m_now m) json_str_out (ip peer) (port peer) w))"

definition Huawei_HandleMessage ::
  "('j, 'p, 'q) env \<Rightarrow> (string \<Rightarrow> bool \<times> huawei_Telemetry) \<Rightarrow> (string \<Rightarrow> 'oc option) \<Rightarrow>
   ('oc \<Rightarrow> string) \<Rightarrow> Context \<Rightarrow> serviceArgs message \<Rightarrow> ('p, 'q) objects \<Rightarrow> ('p, 'q) objects res" where
  "Huawei_HandleMessage E parse_tlm parse_oc oc_json ctx m w =
     bindr (ParsePeer (m_peer m)) (\<lambda>peer.
     let (parsing_str, huawei_tlm) = parse_tlm (get_data (sa_MessageData (m_request m)));
         stream_data_in = get_data (sa_MessageData (m_request m));
         deliver = (\<lambda>body w. deliver_payload E ctx (m_now m) body (ip peer) (port peer) w)
     in bindr (if stream_data_in = [] then Inr w
               else if h_data_gpb huawei_tlm \<noteq> None \<and> parsing_str \<and>
                       h_proto_path huawei_tlm = ''openconfig_interfaces.Interfaces'' then
                 bindr (HuaweiGpbOpenconfigInterface (e_json E) parse_oc oc_json huawei_tlm [])
                   (\<lambda>(ok, json_str_out). deliver json_str_out w)
               else Inr w) (\<lambda>w.
        let stream_data_in = get_data_json (sa_MessageData (m_request m))
        in if stream_data_in = [] then Inr w else deliver stream_data_in w))"

section \<open>The streams of each vendor\<close>

definition Cisco_Proceed where
  "Cisco_Proceed E parse_tlm tlm_json ctx =
     Proceed (Cisco_HandleMessage E parse_tlm tlm_json ctx) (cx_max_replies ctx)"

definition Juniper_Proceed where
  "Juniper_Proceed E parse_ext ext_json ctx =
     Proceed (Juniper_HandleMessage E parse_ext ext_json ctx) (cx_max_replies ctx)"

definition Nokia_Proceed where
  "Nokia_Proceed E ctx = Proceed (Nokia_HandleMessage E ctx) (cx_max_replies ctx)"

definition Huawei_Proceed where
  "Huawei_Proceed E parse_tlm parse_oc oc_json ctx =
     Proceed (Huawei_HandleMessage E parse_tlm parse_oc oc_json ctx) (cx_max_replies ctx)"

definition CiscoFsmCtrl where
  "CiscoFsmCtrl E new_producer connect parse_tlm tlm_json c lm h events =
     bindr (new_VendorPlumbing new_producer connect c) (\<lambda>pl.
     bindr (vendor_context ''replies_cisco'' c pl) (\<lambda>ctx.
     bindr (map_at (data_manipulation_cfg_parameters c) ''enable_cisco_gpbkv2json'') (\<lambda>kv.
     bindr (map_at (data_manipulation_cfg_parameters c) ''enable_cisco_message_to_json_string'') (\<lambda>mj.
     let ctx = Context.extend ctx
           (CiscoContext.fields (kv = ''true'') (mj = ''true''))
     in RunFsm (Cisco_HandleMessage E parse_tlm tlm_json ctx) (cx_max_replies ctx) events
          (plumbing_objects lm h pl)))))"

definition JuniperFsmCtrl where
  "JuniperFsmCtrl E new_producer connect parse_ext ext_json c lm h events =
     bindr (new_VendorPlumbing new_producer connect c) (\<lambda>pl.
     bindr (vendor_context ''replies_juniper'' c pl) (\<lambda>ctx.
       RunFsm (Juniper_HandleMessage E parse_ext ext_json ctx) (cx_max_replies ctx) events
         (plumbing_objects lm h pl)))"

definition NokiaFsmCtrl where
  "NokiaFsmCtrl E new_producer connect c lm h events =
     bindr (new_VendorPlumbing new_producer connect c) (\<lambda>pl.
     bindr (vendor_context ''replies_nokia'' c pl) (\<lambda>ctx.
       RunFsm (Nokia_HandleMessage E ctx) (cx_max_replies ctx) events
         (plumbing_objects lm h pl)))"

definition HuaweiFsmCtrl where
  "HuaweiFsmCtrl E new_producer connect parse_tlm parse_oc oc_json c lm h events =
     bindr (new_VendorPlumbing new_producer connect c) (\<lambda>pl.
     bindr (vendor_context ''replies_huawei'' c pl) (\<lambda>ctx.
       RunFsm (Huawei_HandleMessage E parse_tlm parse_oc oc_json ctx) (cx_max_replies ctx) events
         (plumbing_objects lm h pl)))"

section \<open>What the handlers share\<close>

text \<open>The body a request is delivered with, if any.\<close>

definition cisco_payload ::
  "('j, 'p, 'q) env \<Rightarrow> (string \<Rightarrow> bool \<times> cisco_Telemetry) \<Rightarrow> (cisco_Telemetry \<Rightarrow> string) \<Rightarrow>
   CiscoContext \<Rightarrow> MdtDialoutArgs \<Rightarrow> string option res" where
  "cisco_payload E parse_tlm tlm_json ctx r =
     (let (parsed, tlm) = parse_tlm (md_data r) in
      if md_data r = [] then Inr None
      else if \<not> parsed then Inr (Some (md_data r))
      else if c_data_gpbkv tlm = [] then
        Inr (if c_data_gpb tlm = None then None else Some (md_data r))
      else if cx_cisco_gpbkv2json ctx then
        bindr (CiscoGpbkv2Json_root (e_json E) tlm) (\<lambda>root. Inr (Some (j_write (e_json E) root)))
      else Inr (if cx_cisco_msg_to_json ctx then Some (tlm_json tlm) else None))"

definition juniper_payload ::
  "('j, 'p, 'q) env \<Rightarrow> (string \<Rightarrow> GnmiJuniperTelemetryHeaderExtension option) \<Rightarrow>
   (GnmiJuniperTelemetryHeaderExtension \<Rightarrow> string option) \<Rightarrow> SubscribeResponse \<Rightarrow> string option res" where
  "juniper_payload E parse_ext ext_json r =
     bindr (JuniperExtension (e_json E) parse_ext ext_json r (j_null (e_json E))) (\<lambda>(ok, root).
       if \<not> ok then Inr (Some [])
       else bindr (JuniperUpdate_root (e_json E) r root) (\<lambda>root. Inr (Some (j_write (e_json E) root))))"

definition nokia_payload :: "('j, 'p, 'q) env \<Rightarrow> SubscribeResponse \<Rightarrow> string option res" where
  "nokia_payload E r =
     bindr (NokiaUpdate_root (e_json E) r (j_null (e_json E))) (\<lambda>root.
       Inr (Some (j_write (e_json E) root)))"

definition huawei_payload ::
  "('j, 'p, 'q) env \<Rightarrow> (string \<Rightarrow> bool \<times> huawei_Telemetry) \<Rightarrow> (string \<Rightarrow> 'oc option) \<Rightarrow>
   ('oc \<Rightarrow> string) \<Rightarrow> serviceArgs \<Rightarrow> string option res" where
  "huawei_payload E parse_tlm parse_oc oc_json r =
     (case sa_MessageData r of
        None \<Rightarrow> Inr None
      | Some (data_json s) \<Rightarrow> Inr (if s = [] then None else Some s)
      | Some (data_bytes s) \<Rightarrow>
          let (parsed, tlm) = parse_tlm s in
          if s = [] \<or> \<not> parsed \<or> h_data_gpb tlm = None \<or>
             h_proto_path tlm \<noteq> ''openconfig_interfaces.Interfaces'' then Inr None
          else bindr (HuaweiGpbOpenconfigInterface (e_json E) parse_oc oc_json tlm [])
                 (\<lambda>(_, out). Inr (Some out)))"

text \<open>Every handler is: find the peer, find the body, deliver it.\<close>

definition handle_body ::
  "('j, 'p, 'q) env \<Rightarrow> 'c Context_scheme \<Rightarrow> ('r \<Rightarrow> string option res) \<Rightarrow> 'r message \<Rightarrow>
   ('p, 'q) objects \<Rightarrow> ('p, 'q) objects res" where
  "handle_body E ctx payload m w =
     bindr (ParsePeer (m_peer m)) (\<lambda>peer. bindr (payload (m_request m)) (\<lambda>b.
       case b of None \<Rightarrow> Inr w
       | Some body \<Rightarrow> deliver_payload E ctx (m_now m) body (ip peer) (port peer) w))"

lemma Cisco_handle_body:
  "Cisco_HandleMessage E parse_tlm tlm_json ctx m w =
     handle_body E ctx (cisco_payload E parse_tlm tlm_json ctx) m w"
  by (cases "parse_tlm (md_data (m_request m))")
    (auto simp: Cisco_HandleMessage_def handle_body_def cisco_payload_def CiscoGpbkv2Json_def
      bindr_assoc intro!: bindr_cong)

lemma Juniper_handle_body:
  "Juniper_HandleMessage E parse_ext ext_json ctx m w =
     handle_body E ctx (juniper_payload E parse_ext ext_json) m w"
  by (auto simp: Juniper_HandleMessage_def handle_body_def juniper_payload_def JuniperUpdate_def
      bindr_assoc intro!: bindr_cong split: prod.splits)

lemma Nokia_handle_body:
  "Nokia_HandleMessage E ctx m w = handle_body E ctx (nokia_payload E) m w"
  by (auto simp: Nokia_HandleMessage_def handle_body_def nokia_payload_def NokiaUpdate_def
      bindr_assoc intro!: bindr_cong)

text \<open>Huawei's two deliveries exclude each other: the two payload fields are a \<open>oneof\<close>.\<close>

lemma Huawei_handle_body:
  "Huawei_HandleMessage E parse_tlm parse_oc oc_json ctx m w =
     handle_body E ctx (huawei_payload E parse_tlm parse_oc oc_json) m w"
proof (cases "sa_MessageData (m_request m)")
  case None
  then show ?thesis
    by (auto simp: Huawei_HandleMessage_def handle_body_def huawei_payload_def split: prod.splits)
next
  case (Some d)
  then show ?thesis
    by (cases d) (auto simp: Huawei_HandleMessage_def handle_body_def huawei_payload_def bindr_assoc
        intro!: bindr_cong split: prod.splits)
qed

section \<open>What a run publishes\<close>

text \<open>The bodies a list of messages is delivered with, in order.\<close>

definition bodies :: "('r \<Rightarrow> string option res) \<Rightarrow> 'r message list \<Rightarrow> ('r message \<times> string) list" where
  "bodies payload ms =
     concat (map (\<lambda>m. case payload (m_request m) of Inr (Some b) \<Rightarrow> [(m, b)] | _ \<Rightarrow> []) ms)"

text \<open>The record published for a body: keyed by the peer's address, on the configured topic,
  its value an envelope as Data_Manipulation specifies it.\<close>

definition published ::
  "('j, 'p, 'q) env \<Rightarrow> 'c Context_scheme \<Rightarrow> label_map \<Rightarrow> KafkaDelivery \<Rightarrow> 64 word \<Rightarrow>
   'r message \<times> string \<Rightarrow> string ProducerRecord \<Rightarrow> bool" where
  "published E ctx lm kd seq mb r =
     (\<exists>peer n ok v root. ParsePeer (m_peer (fst mb)) = Inr peer \<and> stoi (port peer) = Inr n \<and>
        j_parse (e_json E) (snd mb) = Inr (ok, v) \<and>
        r = new_ProducerRecord_UA (kd_topic kd) (ip peer) (j_write (e_json E) root) \<and>
        envelope_ok (e_json E) (m_now (fst mb)) (if ok then v else j_string (e_json E) (snd mb))
          (ip peer) n (if cx_label_encode ctx then Some lm else None) (cx_writer_id ctx) seq root)"

text \<open>One record per body, in order, numbered consecutively. The map can be another one for each
  message; in a run without a reload it is the one of the start.\<close>

definition labelled_published ::
  "('j, 'p, 'q) env \<Rightarrow> 'c Context_scheme \<Rightarrow> KafkaDelivery \<Rightarrow> 64 word \<Rightarrow>
   (('r message \<times> string) \<times> label_map) list \<Rightarrow> string ProducerRecord list \<Rightarrow> bool" where
  "labelled_published E ctx kd seq bs rs =
     (length rs = length bs \<and>
      (\<forall>i<length bs. published E ctx (snd (bs ! i)) kd (seq + of_nat (Suc i)) (fst (bs ! i)) (rs ! i)))"

definition all_published ::
  "('j, 'p, 'q) env \<Rightarrow> 'c Context_scheme \<Rightarrow> ('p, 'q) objects \<Rightarrow> ('r message \<times> string) list \<Rightarrow>
   string ProducerRecord list \<Rightarrow> bool" where
  "all_published E ctx w bs rs =
     (length rs = length bs \<and>
      (\<forall>i<length bs. published E ctx (o_label_map w) (o_kafka_delivery w)
         (dm_sequence_number (o_data_manipulation w) + of_nat (Suc i)) (bs ! i) (rs ! i)))"

lemma labelled_published_Nil [simp]: "labelled_published E ctx kd seq [] []"
  by (simp add: labelled_published_def)

lemma labelled_published_Cons:
  assumes "published E ctx lm kd (seq + 1) b r" and "labelled_published E ctx kd (seq + 1) bs rs"
  shows "labelled_published E ctx kd seq ((b, lm) # bs) (r # rs)"
  using assms by (auto simp: labelled_published_def less_Suc_eq_0_disj algebra_simps)

lemma all_published_labelled:
  "all_published E ctx w bs rs =
     labelled_published E ctx (o_kafka_delivery w) (dm_sequence_number (o_data_manipulation w))
       (map (\<lambda>b. (b, o_label_map w)) bs) rs"
  by (auto simp: all_published_def labelled_published_def)

text \<open>Handling a message with a given label map, and the bodies with their maps.\<close>

definition handle_with ::
  "('m \<Rightarrow> ('p, 'q) objects \<Rightarrow> ('p, 'q) objects res) \<Rightarrow> 'm \<times> label_map \<Rightarrow> ('p, 'q) objects \<Rightarrow>
   ('p, 'q) objects res" where
  "handle_with handle = (\<lambda>(m, lm) w. handle m (w\<lparr>o_label_map := lm\<rparr>))"

definition labelled_bodies ::
  "('r \<Rightarrow> string option res) \<Rightarrow> ('r message \<times> label_map) list \<Rightarrow>
   (('r message \<times> string) \<times> label_map) list" where
  "labelled_bodies payload ms =
     concat (map (\<lambda>(m, lm). map (\<lambda>b. (b, lm)) (bodies payload [m])) ms)"

lemma labelled_bodies_const:
  "labelled_bodies payload (map (\<lambda>m. (m, lm)) ms) = map (\<lambda>b. (b, lm)) (bodies payload ms)"
  by (induction ms) (auto simp: labelled_bodies_def bodies_def)

lemma deliver_kafka:
  assumes "json_lib (e_json E)" and "cx_delivery ctx = Kafka"
    and "deliver_payload E ctx now body a p w = Inr w'" and "o_kafka_producer w = Some k"
  shows "\<exists>n ok v root. stoi p = Inr n \<and> j_parse (e_json E) body = Inr (ok, v) \<and>
    envelope_ok (e_json E) now (if ok then v else j_string (e_json E) body) a n
      (if cx_label_encode ctx then Some (o_label_map w) else None) (cx_writer_id ctx)
      (dm_sequence_number (o_data_manipulation w) + 1) root \<and>
    (\<exists>sent k'. AsyncKafkaProducer (e_send E) (o_kafka_delivery w) a (j_write (e_json E) root) k
       = Inr (sent, k') \<and>
     w' = w\<lparr>o_data_manipulation := dm_set_sequence_number (o_data_manipulation w),
           o_kafka_producer := Some k'\<rparr>)"
proof -
  let ?lm = "if cx_label_encode ctx then Some (o_label_map w) else None"
  let ?be = "BuildEnvelope (e_json E) now body a p ?lm (cx_writer_id ctx) (o_data_manipulation w)"
  obtain r where r: "?be = Inr r"
    using assms(2,3) by (auto simp: deliver_payload_def bindr_eq_Inr)
  obtain n ok v where s: "stoi p = Inr n" "j_parse (e_json E) body = Inr (ok, v)"
    using r by (auto simp: BuildEnvelope_def bindr_eq_Inr)
  have l: "label_entry_ok lm a" if "?lm = Some lm" for lm
    using r that json_lib.label_json_short [OF assms(1), of lm a]
    by (cases "label_entry_ok lm a")
      (auto simp: BuildEnvelope_def bindr_eq_Inr split: prod.splits if_splits)
  obtain root where root: "?be = Inr (True, j_write (e_json E) root,
        dm_set_sequence_number (o_data_manipulation w))"
    "envelope_ok (e_json E) now (if ok then v else j_string (e_json E) body) a n ?lm
       (cx_writer_id ctx) (dm_sequence_number (o_data_manipulation w) + 1) root"
    by (rule json_lib.BuildEnvelope_run [OF assms(1) s l])
  have "\<exists>sent k'. AsyncKafkaProducer (e_send E) (o_kafka_delivery w) a (j_write (e_json E) root) k
       = Inr (sent, k') \<and>
     w' = w\<lparr>o_data_manipulation := dm_set_sequence_number (o_data_manipulation w),
           o_kafka_producer := Some k'\<rparr>"
    using assms(2,3,4) root(1)
    by (auto simp: deliver_payload_def deref_def bindr_eq_Inr split: prod.splits)
  then show ?thesis using s root(2) by blast
qed

text \<open>JsonCpp's writer never prints an empty text.\<close>

definition prints :: "'j json_api \<Rightarrow> bool" where
  "prints J = (\<forall>v. j_write J v \<noteq> [])"

text \<open>The calls of \<open>send\<close> for a list of records, whether they return or throw.\<close>

definition sends ::
  "('p \<Rightarrow> string ProducerRecord \<Rightarrow> (unit res \<times> 'p) res) \<Rightarrow> string ProducerRecord list \<Rightarrow> 'p \<Rightarrow> 'p res" where
  "sends send rs p = foldM (\<lambda>r p. bindr (send p r) (\<lambda>(_, p). Inr p)) rs p"

lemma sends_Nil [simp]: "sends send [] p = Inr p"
  by (simp add: sends_def)

lemma sends_Cons: "send p r = Inr (result, p') \<Longrightarrow> sends send (r # rs) p = sends send rs p'"
  by (simp add: sends_def)

text \<open>The producer as the list of the records it was handed.\<close>

definition recording :: "('j, string ProducerRecord list, 'q) env \<Rightarrow> bool" where
  "recording E = (\<forall>p r. e_send E p r = Inr (Inr (), p @ [r]))"

lemma sends_recording: "recording E \<Longrightarrow> sends (e_send E) rs p = Inr (p @ rs)"
  by (induction rs arbitrary: p) (auto simp: recording_def sends_Cons)

locale vendor_stream =
  fixes handle :: "'r message \<Rightarrow> ('p, 'q) objects \<Rightarrow> ('p, 'q) objects res"
    and E :: "('j, 'p, 'q) env"
    and ctx :: "'c Context_scheme"
    and payload :: "'r \<Rightarrow> string option res"
  assumes handle: "handle m w = handle_body E ctx payload m w"
begin

text \<open>A message whose body is absent changes nothing; otherwise the call's peer decides.\<close>

lemma handle_none: "payload (m_request m) = Inr None \<Longrightarrow> handle m w = Inr w"
  using ParsePeer_total [of "m_peer m"] by (auto simp: handle handle_body_def)

lemma handle_some:
  assumes "payload (m_request m) = Inr (Some body)" and "ParsePeer (m_peer m) = Inr peer"
  shows "handle m w = deliver_payload E ctx (m_now m) body (ip peer) (port peer) w"
  using assms by (simp add: handle handle_body_def)

lemma handleE:
  assumes "handle m w = Inr w'"
  obtains "payload (m_request m) = Inr None" and "w' = w"
  | peer body where "payload (m_request m) = Inr (Some body)" and "ParsePeer (m_peer m) = Inr peer"
      and "deliver_payload E ctx (m_now m) body (ip peer) (port peer) w = Inr w'"
proof -
  obtain peer b where p: "ParsePeer (m_peer m) = Inr peer" "payload (m_request m) = Inr b"
    "(case b of None \<Rightarrow> Inr w
      | Some body \<Rightarrow> deliver_payload E ctx (m_now m) body (ip peer) (port peer) w) = Inr w'"
    using assms by (auto simp: handle handle_body_def bindr_eq_Inr)
  show thesis using p that by (cases b) auto
qed

lemma kafka_returns:
  assumes "json_lib (e_json E)" and "cx_delivery ctx = Kafka"
    and "payload (m_request m) = Inr (Some body)" and "ParsePeer (m_peer m) = Inr peer"
    and "stoi (port peer) = Inr n" and "j_parse (e_json E) body = Inr (ok, v)"
    and "cx_label_encode ctx \<longrightarrow> label_entry_ok (o_label_map w) (ip peer)"
    and "o_kafka_producer w = Some k"
    and "\<And>body. \<exists>sent k'. AsyncKafkaProducer (e_send E) (o_kafka_delivery w) (ip peer) body k = Inr (sent, k')"
  shows "\<exists>w'. handle m w = Inr w'"
proof -
  let ?lm = "if cx_label_encode ctx then Some (o_label_map w) else None"
  have l: "label_entry_ok lm (ip peer)" if "?lm = Some lm" for lm
    using assms(7) that by (simp split: if_splits)
  obtain root where "BuildEnvelope (e_json E) (m_now m) body (ip peer) (port peer) ?lm (cx_writer_id ctx)
      (o_data_manipulation w) = Inr (True, j_write (e_json E) root,
        dm_set_sequence_number (o_data_manipulation w))"
    by (rule json_lib.BuildEnvelope_run [OF assms(1,5,6) l])
  moreover obtain sent k' where "AsyncKafkaProducer (e_send E) (o_kafka_delivery w) (ip peer)
      (j_write (e_json E) root) k = Inr (sent, k')" using assms(9) by blast
  ultimately show ?thesis
    using assms(2,8) by (simp add: handle_some [OF assms(3,4)] deliver_payload_def deref_def)
qed

lemma kafka_port_throws:
  assumes "cx_delivery ctx = Kafka" and "payload (m_request m) = Inr (Some body)"
    and "ParsePeer (m_peer m) = Inr peer" and "stoi (port peer) = Inl e"
  shows "handle m w = Inl e"
  using assms by (simp add: handle_some [OF assms(2,3)] deliver_payload_def BuildEnvelope_def)

lemma publishes_with:
  assumes "json_lib (e_json E)" and "prints (e_json E)" and "cx_delivery ctx = Kafka"
    and "foldM (handle_with handle) ms w = Inr w'" and "o_kafka_producer w = Some p"
  shows "\<exists>rs p'. o_kafka_producer w' = Some p' \<and> sends (e_send E) rs p = Inr p' \<and>
    labelled_published E ctx (o_kafka_delivery w) (dm_sequence_number (o_data_manipulation w))
      (labelled_bodies payload ms) rs"
  using assms(4,5)
proof (induction ms arbitrary: w p)
  case Nil
  then show ?case by (intro exI [of _ "[]"]) (simp add: labelled_bodies_def)
next
  case (Cons mlm ms)
  obtain m lm where ml: "mlm = (m, lm)" by (cases mlm)
  let ?w = "w\<lparr>o_label_map := lm\<rparr>"
  obtain w1 where w1: "handle m ?w = Inr w1" "foldM (handle_with handle) ms w1 = Inr w'"
    using Cons.prems(1) by (auto simp: ml handle_with_def bindr_eq_Inr)
  from w1(1) show ?case
  proof (cases rule: handleE)
    case 1
    then show ?thesis using Cons.IH [OF w1(2)] Cons.prems(2)
      by (simp add: labelled_bodies_def bodies_def ml)
  next
    case (2 peer body)
    have "o_kafka_producer ?w = Some p" using Cons.prems(2) by simp
    then obtain n ok v root sent p1 where d: "stoi (port peer) = Inr n" "j_parse (e_json E) body = Inr (ok, v)"
      "envelope_ok (e_json E) (m_now m) (if ok then v else j_string (e_json E) body) (ip peer) n
        (if cx_label_encode ctx then Some lm else None) (cx_writer_id ctx)
        (dm_sequence_number (o_data_manipulation w) + 1) root"
      "AsyncKafkaProducer (e_send E) (o_kafka_delivery w) (ip peer) (j_write (e_json E) root) p = Inr (sent, p1)"
      "w1 = ?w\<lparr>o_data_manipulation := dm_set_sequence_number (o_data_manipulation w),
           o_kafka_producer := Some p1\<rparr>"
      using deliver_kafka [OF assms(1,3) 2(3)] by (auto cong: if_cong)
    let ?r = "new_ProducerRecord_UA (kd_topic (o_kafka_delivery w)) (ip peer) (j_write (e_json E) root)"
    obtain result where r: "e_send E p ?r = Inr (result, p1)"
      using AsyncKafkaProducer_sends [OF d(4)] assms(2) by (auto simp: prints_def)
    have "o_kafka_producer w1 = Some p1" using d(5) by simp
    then obtain rs p' where rs: "o_kafka_producer w' = Some p'" "sends (e_send E) rs p1 = Inr p'"
      "labelled_published E ctx (o_kafka_delivery w) (dm_sequence_number (o_data_manipulation w) + 1)
        (labelled_bodies payload ms) rs"
      using Cons.IH [OF w1(2)] d(5) by (auto simp: dm_set_sequence_number_def)
    have "published E ctx lm (o_kafka_delivery w) (dm_sequence_number (o_data_manipulation w) + 1) (m, body) ?r"
      unfolding published_def using 2(2) d(1-3) by auto
    from labelled_published_Cons [OF this rs(3)]
    have "labelled_published E ctx (o_kafka_delivery w) (dm_sequence_number (o_data_manipulation w))
        (labelled_bodies payload (mlm # ms)) (?r # rs)"
      using 2(1) by (simp add: labelled_bodies_def bodies_def ml)
    moreover have "sends (e_send E) (?r # rs) p = Inr p'" using r rs(2) by (simp add: sends_Cons)
    ultimately show ?thesis using rs(1) by blast
  qed
qed

text \<open>A handler leaves the label map alone.\<close>

lemma handle_keeps_map:
  assumes "handle m w = Inr w'"
  shows "o_label_map w' = o_label_map w"
  using assms
proof (cases rule: handleE)
  case (2 peer body)
  then show ?thesis
    by (cases "cx_delivery ctx")
      (auto simp: deliver_payload_def bindr_eq_Inr Let_def split: prod.splits if_splits)
qed simp

lemma foldM_handle_with:
  "foldM handle ms w = Inr w' \<Longrightarrow>
   foldM (handle_with handle) (map (\<lambda>m. (m, o_label_map w)) ms) w = Inr w'"
proof (induction ms arbitrary: w)
  case (Cons m ms)
  then obtain w1 where w1: "handle m w = Inr w1" "foldM handle ms w1 = Inr w'"
    by (auto simp: bindr_eq_Inr)
  then show ?case using Cons.IH [OF w1(2)] handle_keeps_map [OF w1(1)]
    by (simp add: handle_with_def)
qed simp

lemma publishes:
  assumes "json_lib (e_json E)" and "prints (e_json E)" and "cx_delivery ctx = Kafka"
    and "foldM handle ms w = Inr w'" and "o_kafka_producer w = Some p"
  shows "\<exists>rs p'. o_kafka_producer w' = Some p' \<and> sends (e_send E) rs p = Inr p' \<and>
    all_published E ctx w (bodies payload ms) rs"
  using publishes_with [OF assms(1-3) foldM_handle_with [OF assms(4)] assms(5)]
  by (simp add: all_published_labelled labelled_bodies_const)

text \<open>The same for a run of the state machine.\<close>

lemma run_publishes:
  assumes "json_lib (e_json E)" and "prints (e_json E)" and "cx_delivery ctx = Kafka"
    and "RunFsm handle m events w = Inr s" and "o_kafka_producer w = Some p"
  shows "\<exists>rs p'. o_kafka_producer (world s) = Some p' \<and> sends (e_send E) rs p = Inr p' \<and>
    all_published E ctx w (bodies payload (handled handle m events (Spawn (fsm_init w)))) rs"
  using world_of_run [of handle m events "Spawn (fsm_init w)" s] assms(4)
    publishes [OF assms(1-3) _ assms(5)]
  by (simp add: RunFsm_def Spawn_def fsm_init_def)

end

interpretation cisco: vendor_stream "Cisco_HandleMessage E parse_tlm tlm_json ctx" E ctx
    "cisco_payload E parse_tlm tlm_json ctx" for E parse_tlm tlm_json ctx
  by unfold_locales (rule Cisco_handle_body)

interpretation juniper: vendor_stream "Juniper_HandleMessage E parse_ext ext_json ctx" E ctx
    "juniper_payload E parse_ext ext_json" for E parse_ext ext_json ctx
  by unfold_locales (rule Juniper_handle_body)

interpretation nokia: vendor_stream "Nokia_HandleMessage E ctx" E ctx "nokia_payload E" for E ctx
  by unfold_locales (rule Nokia_handle_body)

interpretation huawei: vendor_stream "Huawei_HandleMessage E parse_tlm parse_oc oc_json ctx" E ctx
    "huawei_payload E parse_tlm parse_oc oc_json" for E parse_tlm parse_oc oc_json ctx
  by unfold_locales (rule Huawei_handle_body)

section \<open>What a run queues for the ZeroMQ consumer\<close>

definition zmq_msg :: "'c Context_scheme \<Rightarrow> 'r message \<times> string \<Rightarrow> string list" where
  "zmq_msg ctx mb =
     (case ParsePeer (m_peer (fst mb)) of
        Inr peer \<Rightarrow> map c_str [''gRPC'', ''json_string'', cx_writer_id ctx, ip peer, port peer, snd mb]
      | Inl _ \<Rightarrow> [])"

text \<open>The bodies are offered to the socket one after the other, each once. The socket takes the
  pointer of a body or refuses it, and then stays as it was: \<open>offered send q bs q' ns\<close> says that
  of the bodies \<open>bs\<close> exactly \<open>ns\<close> were taken.\<close>

inductive offered ::
  "('q \<Rightarrow> addr \<Rightarrow> 'q send_result) \<Rightarrow> 'q \<Rightarrow> string list list \<Rightarrow> 'q \<Rightarrow> string list list \<Rightarrow> bool"
  for send :: "'q \<Rightarrow> addr \<Rightarrow> 'q send_result" where
  none_left: "offered send q [] q []"
| taken: "send q p = Sent q1 \<Longrightarrow> offered send q1 bs q' ns \<Longrightarrow> offered send q (b # bs) q' (b # ns)"
| refused: "\<forall>q1. send q p \<noteq> Sent q1 \<Longrightarrow> offered send q bs q' ns \<Longrightarrow> offered send q (b # bs) q' ns"

inductive_cases offered_NilE [elim!]: "offered send q [] q' ns"
inductive_cases offered_ConsE: "offered send q (b # bs) q' ns"

lemma offered_subseq: "offered send q bs q' ns \<Longrightarrow> subseq ns bs"
  by (induction rule: offered.induct) auto

text \<open>A socket that takes everything gets every body.\<close>

lemma offered_all: "offered send q bs q' ns \<Longrightarrow> \<forall>q p. \<exists>q1. send q p = Sent q1 \<Longrightarrow> ns = bs"
  by (induction rule: offered.induct) auto

lemma ZmqPusher_offers:
  assumes "ZmqPusher avail send dw h q = Inr (ok, h', q')"
  shows "\<exists>p. if ok then send q p = Sent q' else q' = q \<and> (\<forall>q1. send q p \<noteq> Sent q1)"
proof -
  obtain p h1 where r: "(case send q p of
       Sent q' \<Rightarrow> Inr (True, h1, q')
     | Send_again \<Rightarrow> bindr (free_grpc_payload p h1) (\<lambda>h. Inr (False, h, q))
     | Send_error _ \<Rightarrow> bindr (free_grpc_payload p h1) (\<lambda>h. Inr (False, h, q))) = Inr (ok, h', q')"
    using assms by (auto simp: ZmqPusher_def bindr_eq_Inr)
  then show ?thesis by (cases "send q p") (auto simp: bindr_eq_Inr intro!: exI [of _ p])
qed

text \<open>What a run leaves in the socket, which had \<open>q\<close> with the messages \<open>ns\<close>: the old messages, then
  those bodies that the socket took, and every block of the heap belongs to one of them.\<close>

definition queued ::
  "('j, 'p, 'q) env \<Rightarrow> ('q \<Rightarrow> addr list) \<Rightarrow> 'q \<Rightarrow> string list list \<Rightarrow> string list list \<Rightarrow>
   ('p, 'q) objects \<Rightarrow> bool" where
  "queued E inflight q ns bs w' =
     (\<exists>q' ns'. o_zmq_sock w' = Some q' \<and> own (o_heap w') (inflight q') \<and>
        holds (o_heap w') (inflight q') (ns @ ns') \<and> offered (e_zmq_send E) q bs q' ns' \<and>
        ((\<forall>q p. \<exists>q1. e_zmq_send E q p = Sent q1) \<longrightarrow> ns' = bs))"

locale zmq_stream = vendor_stream handle E ctx payload + zmq_socket "e_zmq_send E" recv inflight
  for handle :: "'r message \<Rightarrow> ('p, 'q) objects \<Rightarrow> ('p, 'q) objects res"
    and E :: "('j, 'p, 'q) env"
    and ctx :: "'c Context_scheme"
    and payload :: "'r \<Rightarrow> string option res"
    and recv :: "'q \<Rightarrow> 'q recv_result"
    and inflight :: "'q \<Rightarrow> addr list"
begin

lemma queues:
  assumes "cx_delivery ctx = Zmq" and "foldM handle ms w = Inr w'" and "o_zmq_sock w = Some q"
    and "own (o_heap w) (inflight q)" and "holds (o_heap w) (inflight q) ns"
  shows "\<exists>q' ns'. o_zmq_sock w' = Some q' \<and> own (o_heap w') (inflight q') \<and>
    holds (o_heap w') (inflight q') (ns @ ns') \<and>
    offered (e_zmq_send E) q (map (zmq_msg ctx) (bodies payload ms)) q' ns'"
  using assms(2-5)
proof (induction ms arbitrary: w q ns)
  case Nil
  then show ?case by (auto simp: bodies_def intro!: exI [of _ "[]"] none_left)
next
  case (Cons m ms)
  obtain w1 where w1: "handle m w = Inr w1" "foldM handle ms w1 = Inr w'"
    using Cons.prems(1) by (auto simp: bindr_eq_Inr)
  from w1(1) show ?case
  proof (cases rule: handleE)
    case 1
    then show ?thesis using Cons.IH [OF w1(2)] Cons.prems(2-4) by (simp add: bodies_def)
  next
    case (2 peer body)
    define dw where "dw = snd (BuildDataWrapper (m_now m) ''gRPC'' ''json_string'' (cx_writer_id ctx)
      (ip peer) (port peer) body (o_data_wrapper w))"
    have "msg_of dw = zmq_msg ctx (m, body)"
      using 2(2) by (simp add: dw_def BuildDataWrapper_def msg_of_def zmq_msg_def)
    moreover obtain ok h1 q1 where z: "ZmqPusher (e_avail E) (e_zmq_send E) dw (o_heap w) q = Inr (ok, h1, q1)"
      "w1 = w\<lparr>o_data_wrapper := dw, o_heap := h1, o_zmq_sock := Some q1\<rparr>"
      using 2(3) assms(1) Cons.prems(2)
      by (auto simp: deliver_payload_def deref_def dw_def bindr_eq_Inr split: prod.splits)
    ultimately have n: "own h1 (inflight q1)"
      "holds h1 (inflight q1) (ns @ (if ok then [zmq_msg ctx (m, body)] else []))"
      using push_run [OF Cons.prems(3,4), of "e_avail E" dw] by auto
    obtain q' ns' where IH: "o_zmq_sock w' = Some q'" "own (o_heap w') (inflight q')"
      "holds (o_heap w') (inflight q') ((ns @ (if ok then [zmq_msg ctx (m, body)] else [])) @ ns')"
      "offered (e_zmq_send E) q1 (map (zmq_msg ctx) (bodies payload ms)) q' ns'"
      using Cons.IH [OF w1(2), of q1 "ns @ (if ok then [zmq_msg ctx (m, body)] else [])"] n z(2)
      by auto
    have "map (zmq_msg ctx) (bodies payload (m # ms)) = zmq_msg ctx (m, body) # map (zmq_msg ctx) (bodies payload ms)"
      using 2(1) by (simp add: bodies_def)
    moreover have "offered (e_zmq_send E) q (zmq_msg ctx (m, body) # map (zmq_msg ctx) (bodies payload ms)) q'
        ((if ok then [zmq_msg ctx (m, body)] else []) @ ns')"
    proof -
      obtain p where "if ok then e_zmq_send E q p = Sent q1
          else q1 = q \<and> (\<forall>q2. e_zmq_send E q p \<noteq> Sent q2)"
        using ZmqPusher_offers [OF z(1)] by blast
      then show ?thesis using IH(4) by (auto intro: taken refused split: if_splits)
    qed
    ultimately show ?thesis using IH(1-3) by (metis append.assoc)
  qed
qed

lemma run_queues:
  assumes "cx_delivery ctx = Zmq" and "RunFsm handle m events w = Inr s" and "o_zmq_sock w = Some q"
    and "own (o_heap w) (inflight q)" and "holds (o_heap w) (inflight q) ns"
  shows "queued E inflight q ns
    (map (zmq_msg ctx) (bodies payload (handled handle m events (Spawn (fsm_init w))))) (world s)"
proof -
  have "foldM handle (handled handle m events (Spawn (fsm_init w))) w = Inr (world s)"
    using world_of_run [of handle m events "Spawn (fsm_init w)" s] assms(2)
    by (simp add: RunFsm_def Spawn_def fsm_init_def)
  from queues [OF assms(1) this assms(3-5)]
  obtain q' ns' where q: "o_zmq_sock (world s) = Some q'" "own (o_heap (world s)) (inflight q')"
    "holds (o_heap (world s)) (inflight q') (ns @ ns')"
    "offered (e_zmq_send E) q (map (zmq_msg ctx) (bodies payload (handled handle m events (Spawn (fsm_init w))))) q' ns'"
    by blast
  then show ?thesis using offered_all [OF q(4)] unfolding queued_def by blast
qed

end

interpretation cisco_zmq: zmq_stream "Cisco_HandleMessage (E\<lparr>e_zmq_send := fifo_send hwm\<rparr>) parse_tlm tlm_json ctx"
    "E\<lparr>e_zmq_send := fifo_send hwm\<rparr>" ctx
    "cisco_payload (E\<lparr>e_zmq_send := fifo_send hwm\<rparr>) parse_tlm tlm_json ctx" fifo_recv "\<lambda>q. q"
  for E parse_tlm tlm_json ctx hwm
  using fifo.zmq_socket_axioms [of hwm]
  by unfold_locales (auto simp: Cisco_handle_body zmq_socket_def)

lemma gnmi_huawei_zmq_streams:
  assumes "zmq_socket (e_zmq_send E) recv inflight"
  shows "zmq_stream (Cisco_HandleMessage E parse_tlm tlm_json cctx) E cctx
      (cisco_payload E parse_tlm tlm_json cctx) recv inflight"
    and "zmq_stream (Juniper_HandleMessage E parse_ext ext_json ctx) E ctx
      (juniper_payload E parse_ext ext_json) recv inflight"
    and "zmq_stream (Nokia_HandleMessage E ctx) E ctx (nokia_payload E) recv inflight"
    and "zmq_stream (Huawei_HandleMessage E parse_htlm parse_oc oc_json ctx) E ctx
      (huawei_payload E parse_htlm parse_oc oc_json) recv inflight"
  using assms cisco.vendor_stream_axioms juniper.vendor_stream_axioms nokia.vendor_stream_axioms
    huawei.vendor_stream_axioms by (simp_all add: zmq_stream_def)

section \<open>Sample values\<close>

definition sample_env :: "(jvalue, string ProducerRecord list, addr list) env" where
  "sample_env = \<lparr>e_json = ref_json, e_send = (\<lambda>p r. Inr (Inr (), p @ [r])), e_avail = (\<lambda>_. True),
     e_zmq_send = fifo_send 10\<rparr>"

definition sample_kd :: KafkaDelivery where
  "sample_kd = \<lparr>kd_properties = Map.empty, kd_topic = ''t'', kd_bootstrap_servers = [],
     kd_enable_idempotence = [], kd_client_id = [], kd_security_protocol = [],
     kd_ssl_key_location = [], kd_ssl_key_password = [], kd_ssl_certificate_location = [],
     kd_ssl_ca_location = [], kd_enable_ssl_certificate_verification = [], kd_log_level = []\<rparr>"

definition sample_objects :: "(string ProducerRecord list, addr list) objects" where
  "sample_objects = \<lparr>o_label_map = Map.empty, o_data_manipulation = new_DataManipulation,
     o_data_wrapper = new_DataWrapper, o_kafka_delivery = sample_kd, o_kafka_producer = Some [],
     o_zmq_sock = Some [], o_heap = empty_heap\<rparr>"

definition sample_ctx :: "DeliveryMethod \<Rightarrow> Context" where
  "sample_ctx d = \<lparr>cx_zmq_uri = [], cx_max_replies = 0, cx_delivery = d, cx_writer_id = ''w'',
     cx_label_encode = True\<rparr>"

definition sample_cisco_ctx :: "DeliveryMethod \<Rightarrow> CiscoContext" where
  "sample_cisco_ctx d = \<lparr>cx_zmq_uri = [], cx_max_replies = 0, cx_delivery = d, cx_writer_id = ''w'',
     cx_label_encode = True, cx_cisco_gpbkv2json = True, cx_cisco_msg_to_json = False\<rparr>"

definition sample_message :: "'r \<Rightarrow> 'r message" where
  "sample_message r = \<lparr>m_peer = ''ipv4'' @ '':'' @ ''1.1.1.1'' @ '':'' @ ''5678'', m_now = 7, m_request = r\<rparr>"

text \<open>A device that sends JSON: its data does not parse as a GPB message.\<close>

definition sample_json :: "string \<Rightarrow> bool \<times> cisco_Telemetry" where
  "sample_json s = (False, cisco_sample)"

definition sample_cisco :: MdtDialoutArgs where
  "sample_cisco = \<lparr>md_ReqId = 1, md_data = ''{}'', md_errors = []\<rparr>"

definition sample_huawei :: serviceArgs where
  "sample_huawei = \<lparr>sa_ReqId = 1, sa_MessageData = Some (data_json ''{}''), sa_errors = []\<rparr>"

lemma sample_peer: "ParsePeer (m_peer (sample_message r)) = Inr \<lparr>ip = ''1.1.1.1'', port = ''5678''\<rparr>"
  unfolding sample_message_def by code_simp

lemma ref_json_ok: "json_lib ref_json" "prints ref_json"
proof -
  have "ref_write v \<noteq> []" for v by (cases v) (auto simp: dec_of_nat_nonempty quote_str_def)
  then show "prints ref_json" by (simp add: prints_def)
qed (rule json_lib_ref)

lemma sample_env_ok: "json_lib (e_json sample_env)" "prints (e_json sample_env)" "recording sample_env"
  using ref_json_ok by (simp_all add: recording_def sample_env_def)

lemma sample_sends: "\<exists>sent k'. AsyncKafkaProducer (e_send sample_env) kd a body k = Inr (sent, k')"
  by (cases "body = []") (auto simp: AsyncKafkaProducer_def catch_kafka_def sample_env_def)

lemma sample_cisco_payload:
  "cisco_payload E sample_json (\<lambda>_. []) ctx sample_cisco = Inr (Some ''{}'')"
  by (simp add: cisco_payload_def sample_json_def sample_cisco_def)

lemma sample_huawei_payload:
  "huawei_payload E parse_tlm parse_oc oc_json sample_huawei = Inr (Some ''{}'')"
  by (simp add: huawei_payload_def sample_huawei_def)

lemma sample_request: "m_request (sample_message r) = r"
  by (simp add: sample_message_def)

lemma sample_parse: "j_parse (e_json sample_env) ''{}'' = Inr (True, JObject [])"
  by (simp add: sample_env_def ref_parse_def)

lemma sample_sel:
  "cx_delivery (sample_ctx d) = d" "cx_delivery (sample_cisco_ctx d) = d"
  "o_kafka_producer sample_objects = Some []" "label_entry_ok (o_label_map sample_objects) a"
  by (simp_all add: sample_ctx_def sample_cisco_ctx_def sample_objects_def label_entry_ok_def)

section \<open>Properties\<close>

text \<open>C1. In Kafka mode a Cisco run calls the producer's send exactly once for each message that
  has a body and in the order the messages were read, whatever these calls answer: the record
  is keyed by the address of the call's peer and holds the envelope of the body, with
  consecutive sequence numbers.\<close>

theorem Cisco_run_publishes:
  assumes "json_lib (e_json E)" and "prints (e_json E)" and "cx_delivery ctx = Kafka"
    and "RunFsm (Cisco_HandleMessage E parse_tlm tlm_json ctx) m events w = Inr s"
    and "o_kafka_producer w = Some p"
  shows "\<exists>rs p'. o_kafka_producer (world s) = Some p' \<and> sends (e_send E) rs p = Inr p' \<and>
    all_published E ctx w (bodies (cisco_payload E parse_tlm tlm_json ctx)
      (handled (Cisco_HandleMessage E parse_tlm tlm_json ctx) m events (Spawn (fsm_init w)))) rs"
  using assms by (rule cisco.run_publishes)

lemma sample_cisco_returns:
  "\<exists>w'. Cisco_HandleMessage sample_env sample_json (\<lambda>_. []) (sample_cisco_ctx Kafka)
     (sample_message sample_cisco) sample_objects = Inr w'"
  by (rule cisco.kafka_returns [OF sample_env_ok(1) _ _ sample_peer _ sample_parse])
    (simp_all add: sample_request sample_cisco_payload sample_sel stoi_5678 sample_sends)

lemma Cisco_run_publishes_witness:
  "\<exists>s r. RunFsm (Cisco_HandleMessage sample_env sample_json (\<lambda>_. []) (sample_cisco_ctx Kafka)) 0
       (accept_first (sample_message sample_cisco) # reads 0 [sample_message sample_cisco])
       sample_objects = Inr s \<and>
     o_kafka_producer (world s) = Some [r] \<and>
     all_published sample_env (sample_cisco_ctx Kafka) sample_objects
       [(sample_message sample_cisco, ''{}'')] [r]"
proof -
  let ?H = "Cisco_HandleMessage sample_env sample_json (\<lambda>_. []) (sample_cisco_ctx Kafka)"
  obtain w' where "?H (sample_message sample_cisco) sample_objects = Inr w'"
    using sample_cisco_returns by blast
  then obtain s where s: "RunFsm ?H 0 (accept_first (sample_message sample_cisco) #
        reads 0 [sample_message sample_cisco]) sample_objects = Inr s"
    "handled ?H 0 (accept_first (sample_message sample_cisco) # reads 0 [sample_message sample_cisco])
      (Spawn (fsm_init sample_objects)) = [sample_message sample_cisco]"
    by (rule serve_one) auto
  have k: "cx_delivery (sample_cisco_ctx Kafka) = Kafka" "o_kafka_producer sample_objects = Some []"
    by (simp_all add: sample_cisco_ctx_def sample_objects_def)
  have b: "bodies (cisco_payload sample_env sample_json (\<lambda>_. []) (sample_cisco_ctx Kafka))
      [sample_message sample_cisco] = [(sample_message sample_cisco, ''{}'')]"
    by (simp add: bodies_def sample_request sample_cisco_payload)
  from Cisco_run_publishes [OF sample_env_ok(1,2) k(1) s(1) k(2)] obtain rs where
    rs: "o_kafka_producer (world s) = Some ([] @ rs)"
    "all_published sample_env (sample_cisco_ctx Kafka) sample_objects
       [(sample_message sample_cisco, ''{}'')] rs"
    unfolding s(2) b sends_recording [OF sample_env_ok(3)] by auto
  then obtain r where "rs = [r]" by (auto simp: all_published_def length_Suc_conv)
  then show ?thesis using s(1) rs by (metis append_Nil)
qed

text \<open>C3. The same for the Juniper, Nokia and Huawei runs.\<close>

theorem gnmi_and_Huawei_runs_publish:
  assumes "json_lib (e_json E)" and "prints (e_json E)" and "cx_delivery ctx = Kafka"
    and "o_kafka_producer w = Some p"
  shows "(RunFsm (Juniper_HandleMessage E parse_ext ext_json ctx) m events w = Inr s \<longrightarrow>
      (\<exists>rs p'. o_kafka_producer (world s) = Some p' \<and> sends (e_send E) rs p = Inr p' \<and>
        all_published E ctx w (bodies (juniper_payload E parse_ext ext_json)
          (handled (Juniper_HandleMessage E parse_ext ext_json ctx) m events (Spawn (fsm_init w)))) rs)) \<and>
    (RunFsm (Nokia_HandleMessage E ctx) m events w = Inr s \<longrightarrow>
      (\<exists>rs p'. o_kafka_producer (world s) = Some p' \<and> sends (e_send E) rs p = Inr p' \<and>
        all_published E ctx w (bodies (nokia_payload E)
          (handled (Nokia_HandleMessage E ctx) m events (Spawn (fsm_init w)))) rs)) \<and>
    (RunFsm (Huawei_HandleMessage E parse_tlm parse_oc oc_json ctx) m hevents w = Inr hs \<longrightarrow>
      (\<exists>rs p'. o_kafka_producer (world hs) = Some p' \<and> sends (e_send E) rs p = Inr p' \<and>
        all_published E ctx w (bodies (huawei_payload E parse_tlm parse_oc oc_json)
          (handled (Huawei_HandleMessage E parse_tlm parse_oc oc_json ctx) m hevents
             (Spawn (fsm_init w)))) rs))"
  using juniper.run_publishes [OF assms(1-3) _ assms(4)]
    nokia.run_publishes [OF assms(1-3) _ assms(4)]
    huawei.run_publishes [OF assms(1-3) _ assms(4)] by blast

lemma sample_huawei_returns:
  "\<exists>w'. Huawei_HandleMessage sample_env (\<lambda>_. (False, huawei_sample [])) (\<lambda>_. None :: unit option)
     (\<lambda>_. []) (sample_ctx Kafka) (sample_message sample_huawei) sample_objects = Inr w'"
  by (rule huawei.kafka_returns [OF sample_env_ok(1) _ _ sample_peer _ sample_parse])
    (simp_all add: sample_request sample_huawei_payload sample_sel stoi_5678 sample_sends)

lemma gnmi_and_Huawei_runs_publish_witness:
  "\<exists>s r. RunFsm (Huawei_HandleMessage sample_env (\<lambda>_. (False, huawei_sample []))
         (\<lambda>_. None :: unit option) (\<lambda>_. []) (sample_ctx Kafka)) 0
       (accept_first (sample_message sample_huawei) # reads 0 [sample_message sample_huawei])
       sample_objects = Inr s \<and> o_kafka_producer (world s) = Some [r]"
proof -
  let ?H = "Huawei_HandleMessage sample_env (\<lambda>_. (False, huawei_sample []))
         (\<lambda>_. None :: unit option) (\<lambda>_. []) (sample_ctx Kafka)"
  obtain w' where "?H (sample_message sample_huawei) sample_objects = Inr w'"
    using sample_huawei_returns by blast
  then obtain s where s: "RunFsm ?H 0 (accept_first (sample_message sample_huawei) #
        reads 0 [sample_message sample_huawei]) sample_objects = Inr s"
    "handled ?H 0 (accept_first (sample_message sample_huawei) # reads 0 [sample_message sample_huawei])
      (Spawn (fsm_init sample_objects)) = [sample_message sample_huawei]"
    by (rule serve_one) auto
  have k: "cx_delivery (sample_ctx Kafka) = Kafka" "o_kafka_producer sample_objects = Some []"
    by (simp_all add: sample_ctx_def sample_objects_def)
  have b: "bodies (huawei_payload sample_env (\<lambda>_. (False, huawei_sample []))
         (\<lambda>_. None :: unit option) (\<lambda>_. [])) [sample_message sample_huawei]
      = [(sample_message sample_huawei, ''{}'')]"
    by (simp add: bodies_def sample_request sample_huawei_payload)
  note pub = gnmi_and_Huawei_runs_publish [OF sample_env_ok(1,2) k(1) k(2),
    where parse_tlm = "\<lambda>_. (False, huawei_sample [])" and parse_oc = "\<lambda>_. None :: unit option"
    and oc_json = "\<lambda>_. []" and m = 0 and hs = s and hevents = "accept_first (sample_message sample_huawei) #
      reads 0 [sample_message sample_huawei]"]
  from mp [OF conjunct2 [OF conjunct2 [OF pub]] s(1)] obtain rs where
    rs: "o_kafka_producer (world s) = Some ([] @ rs)"
    "all_published sample_env (sample_ctx Kafka) sample_objects
       [(sample_message sample_huawei, ''{}'')] rs"
    unfolding s(2) b sends_recording [OF sample_env_ok(3)] by auto
  then obtain r where "rs = [r]" by (auto simp: all_published_def length_Suc_conv)
  then show ?thesis using s(1) rs by (metis append_Nil)
qed

text \<open>C4. In ZeroMQ mode a run of any of the four vendors offers the body of each of its messages
  to the socket, once and in order, with the address and port of the call's peer. What it leaves
  in the socket's queue is what was there before, then exactly the bodies that the socket took, in
  order: all of them when the socket refuses none; a refused body is dropped, and its message
  freed. Every block of the heap belongs to a queued message.\<close>

theorem runs_queue:
  assumes "zmq_socket (e_zmq_send E) recv inflight" and "cx_delivery ctx = Zmq" and "cx_delivery cctx = Zmq"
    and "o_zmq_sock w = Some q" and "own (o_heap w) (inflight q)" and "holds (o_heap w) (inflight q) ns"
  shows "(RunFsm (Cisco_HandleMessage E parse_tlm tlm_json cctx) m events w = Inr s \<longrightarrow>
      queued E inflight q ns (map (zmq_msg cctx) (bodies (cisco_payload E parse_tlm tlm_json cctx)
        (handled (Cisco_HandleMessage E parse_tlm tlm_json cctx) m events (Spawn (fsm_init w))))) (world s)) \<and>
    (RunFsm (Juniper_HandleMessage E parse_ext ext_json ctx) m gevents w = Inr sg \<longrightarrow>
      queued E inflight q ns (map (zmq_msg ctx) (bodies (juniper_payload E parse_ext ext_json)
        (handled (Juniper_HandleMessage E parse_ext ext_json ctx) m gevents (Spawn (fsm_init w))))) (world sg)) \<and>
    (RunFsm (Nokia_HandleMessage E ctx) m gevents w = Inr sg \<longrightarrow>
      queued E inflight q ns (map (zmq_msg ctx) (bodies (nokia_payload E)
        (handled (Nokia_HandleMessage E ctx) m gevents (Spawn (fsm_init w))))) (world sg)) \<and>
    (RunFsm (Huawei_HandleMessage E parse_htlm parse_oc oc_json ctx) m hevents w = Inr hs \<longrightarrow>
      queued E inflight q ns (map (zmq_msg ctx) (bodies (huawei_payload E parse_htlm parse_oc oc_json)
        (handled (Huawei_HandleMessage E parse_htlm parse_oc oc_json ctx) m hevents
           (Spawn (fsm_init w))))) (world hs))"
  using zmq_stream.run_queues [OF gnmi_huawei_zmq_streams(1) [OF assms(1)] assms(3) _ assms(4-6)]
    zmq_stream.run_queues [OF gnmi_huawei_zmq_streams(2) [OF assms(1)] assms(2) _ assms(4-6)]
    zmq_stream.run_queues [OF gnmi_huawei_zmq_streams(3) [OF assms(1)] assms(2) _ assms(4-6)]
    zmq_stream.run_queues [OF gnmi_huawei_zmq_streams(4) [OF assms(1)] assms(2) _ assms(4-6)]
  by blast

lemma sample_push:
  "\<exists>h q. ZmqPusher (\<lambda>_. True) (fifo_send 10) dw empty_heap [] = Inr (True, h, q)"
  by (simp add: ZmqPusher_def InitGrpcPayload_def malloc_payload_def strndup_def empty_heap_def
      fifo_send_def Let_def)

lemma runs_queue_witness:
  "\<exists>s q'. RunFsm (Cisco_HandleMessage sample_env sample_json (\<lambda>_. []) (sample_cisco_ctx Zmq)) 0
       (accept_first (sample_message sample_cisco) # reads 0 [sample_message sample_cisco])
       sample_objects = Inr s \<and>
     o_zmq_sock (world s) = Some q' \<and> own (o_heap (world s)) q' \<and> holds (o_heap (world s)) q'
       [map c_str [''gRPC'', ''json_string'', ''w'', ''1.1.1.1'', ''5678'', ''{}'']]"
proof -
  let ?H = "Cisco_HandleMessage sample_env sample_json (\<lambda>_. []) (sample_cisco_ctx Zmq)"
  note r = sample_request
  have z: "cx_delivery (sample_cisco_ctx Zmq) = Zmq" "o_zmq_sock sample_objects = Some []"
    "own (o_heap sample_objects) []" "holds (o_heap sample_objects) [] []"
    "zmq_socket (e_zmq_send sample_env) fifo_recv (\<lambda>q. q)"
    using own_empty fifo.zmq_socket_axioms
    by (simp_all add: sample_cisco_ctx_def sample_objects_def sample_env_def holds_def)
  have "\<exists>w'. ?H (sample_message sample_cisco) sample_objects = Inr w'"
    using sample_push [of "snd (BuildDataWrapper (m_now (sample_message sample_cisco)) ''gRPC''
        ''json_string'' ''w'' ''1.1.1.1'' ''5678'' ''{}'' new_DataWrapper)"]
    by (auto simp: cisco.handle_some [OF _ sample_peer] r sample_cisco_payload deliver_payload_def
        z(1) sample_cisco_ctx_def sample_objects_def sample_env_def deref_def split: prod.splits)
  then obtain w' where "?H (sample_message sample_cisco) sample_objects = Inr w'" by blast
  then obtain s where s: "RunFsm ?H 0 (accept_first (sample_message sample_cisco) #
        reads 0 [sample_message sample_cisco]) sample_objects = Inr s"
    "handled ?H 0 (accept_first (sample_message sample_cisco) # reads 0 [sample_message sample_cisco])
      (Spawn (fsm_init sample_objects)) = [sample_message sample_cisco]"
    by (rule serve_one) auto
  have "zmq_msg (sample_cisco_ctx Zmq) (sample_message sample_cisco, ''{}'') =
      map c_str [''gRPC'', ''json_string'', ''w'', ''1.1.1.1'', ''5678'', ''{}'']"
    by (simp add: zmq_msg_def sample_peer sample_cisco_ctx_def)
  then have "map (zmq_msg (sample_cisco_ctx Zmq)) (bodies (cisco_payload sample_env sample_json (\<lambda>_. [])
      (sample_cisco_ctx Zmq)) [sample_message sample_cisco]) =
      [map c_str [''gRPC'', ''json_string'', ''w'', ''1.1.1.1'', ''5678'', ''{}'']]"
    by (simp only: bodies_def r sample_cisco_payload list.map sum.case option.case concat.simps
        append_Nil2)
  note b = this
  have z': "cx_delivery (sample_ctx Zmq) = Zmq" by (simp add: sample_ctx_def)
  note run = runs_queue [OF z(5) z' z(1) z(2,3,4), of sample_json "\<lambda>_. []" 0]
  have "queued sample_env (\<lambda>q. q) [] [] [map c_str [''gRPC'', ''json_string'', ''w'', ''1.1.1.1'', ''5678'', ''{}'']]
      (world s)"
    using mp [OF conjunct1 [OF run] s(1)] unfolding s(2) b .
  then obtain q' ns' where q': "o_zmq_sock (world s) = Some q'" "own (o_heap (world s)) q'"
    "holds (o_heap (world s)) q' ns'"
    "offered (fifo_send 10) [] [map c_str [''gRPC'', ''json_string'', ''w'', ''1.1.1.1'', ''5678'', ''{}'']] q' ns'"
    by (auto simp: queued_def sample_env_def)
  have "ns' = [map c_str [''gRPC'', ''json_string'', ''w'', ''1.1.1.1'', ''5678'', ''{}'']]"
    using q'(4) by (auto elim!: offered_ConsE simp: fifo_send_def split: if_splits)
  then show ?thesis using s(1) q' by blast
qed

end
