(* ===== verification/Kafka_Client.thy ===== *)
theory Kafka_Client
  imports Kafka_Types Kafka_Properties
begin

text \<open>
  \<open>src/include/kafka/KafkaClient.h\<close>: the base class of the Kafka clients. librdkafka is a
  record of functions: what its configuration object, its constructor and its metadata calls
  return. The constructor is followed statement by statement, with the ownership of the
  configuration object counted, because the library's constructor takes it only when it
  succeeds. Registering callbacks on the configuration object has no effect of its own: which
  callbacks are called is in the steps of Kafka_Producer.
\<close>

section \<open>Errors and their names\<close>

definition RD_KAFKA_RESP_ERR_INVALID_ARG :: int where
  "RD_KAFKA_RESP_ERR_INVALID_ARG = - 186"

definition RD_KAFKA_RESP_ERR_TIMED_OUT :: int where
  "RD_KAFKA_RESP_ERR_TIMED_OUT = - 185"

definition RD_KAFKA_RESP_ERR_FATAL :: int where
  "RD_KAFKA_RESP_ERR_FATAL = - 150"

text \<open>\<open>KAFKA_THROW_ERROR\<close> and \<open>KAFKA_THROW_IF_WITH_ERROR\<close>: the exception holds a copy.\<close>

definition throw_error :: "Error \<Rightarrow> 'a res" where
  "throw_error e = Inl (Throw (Kafka_exception (Error_copy e)))"

definition throw_if_with_error :: "Error \<Rightarrow> unit res" where
  "throw_if_with_error e = (if Error_bool e then throw_error e else Inr ())"

definition invalid_arg :: "string \<Rightarrow> 'a res" where
  "invalid_arg msg = throw_error (Error_text RD_KAFKA_RESP_ERR_INVALID_ARG msg False)"

section \<open>Validation\<close>

text \<open>\<open>random\<close> is the string \<open>utility::getRandomString\<close> generates.\<close>

definition client_validate :: "string \<Rightarrow> Properties \<Rightarrow> Properties res" where
  "client_validate random props =
     (if getProperty props ''bootstrap.servers'' = None
      then invalid_arg ''Validation failed! With no property [bootstrap.servers]''
      else
        let props = (if getProperty props ''client.id'' = None
                     then put ''client.id'' random props else props);
            props = (if getProperty props ''log_level'' = None
                     then put ''log_level'' (dec_of_int Notice) props else props)
        in Inr props)"

section \<open>The client object\<close>

datatype ClientType = Consumer_client | Producer_client | Admin_client

fun getClientTypeString :: "ClientType \<Rightarrow> string" where
  "getClientTypeString Consumer_client = ''KafkaConsumer''"
| "getClientTypeString Producer_client = ''KafkaProducer''"
| "getClientTypeString Admin_client = ''AdminClient''"

text \<open>What is called of librdkafka: \<open>rd_kafka_conf_set\<close> with its result code, adding the
  interceptor, \<open>rd_kafka_new\<close> (for a consumer or not) with the last error it leaves, and
  \<open>rd_kafka_brokers_add\<close> with the number of brokers it added.\<close>

record ('c, 'k) rdkafka_conf =
  rd_conf_new :: 'c
  rd_conf_set :: "'c \<Rightarrow> string \<Rightarrow> string \<Rightarrow> int \<times> 'c"
  rd_interceptor_add :: "'c \<Rightarrow> int \<times> 'c"
  rd_new :: "bool \<Rightarrow> 'c \<Rightarrow> 'k option \<times> int"
  rd_brokers_add :: "'k \<Rightarrow> string \<Rightarrow> int \<times> 'k"

text \<open>\<open>kc_log\<close> collects the lines that are handed to the logger.\<close>

record 'k KafkaClient =
  kc_opened :: bool
  kc_properties :: Properties
  kc_clientId :: string
  kc_clientName :: string
  kc_logLevel :: int
  kc_auto_polling :: bool
  kc_rk :: "'k option"
  kc_pollable :: bool
  kc_pollThread :: bool
  kc_log :: "(int \<times> string) list"

definition LOG_BUFFER_SIZE :: nat where
  "LOG_BUFFER_SIZE = 1024"

definition doLog :: "int \<Rightarrow> string \<Rightarrow> ('k, 'z) KafkaClient_scheme \<Rightarrow> ('k, 'z) KafkaClient_scheme" where
  "doLog level msg c =
     (if 0 \<le> level \<and> level \<le> kc_logLevel c
      then c\<lparr>kc_log := kc_log c @
             [(level, LogBuffer_print LOG_BUFFER_SIZE msg
                        (LogBuffer_print LOG_BUFFER_SIZE (kc_clientName c @ '' '') []))]\<rparr>
      else c)"

text \<open>The object before the body of the constructor runs.\<close>

definition blank_client :: "bool \<Rightarrow> 'k KafkaClient" where
  "blank_client auto_polling = \<lparr>kc_opened = False, kc_properties = Map.empty, kc_clientId = [],
     kc_clientName = [], kc_logLevel = Notice, kc_auto_polling = auto_polling, kc_rk = None,
     kc_pollable = False, kc_pollThread = False, kc_log = []\<rparr>"

definition PRIVATE_PROPERTY_KEYS :: "string list" where
  "PRIVATE_PROPERTY_KEYS = [''max.poll.records'']"

definition save_client_id :: "ClientType \<Rightarrow> Properties \<Rightarrow> 'k KafkaClient \<Rightarrow> 'k KafkaClient" where
  "save_client_id ty props c =
     (case getProperty props ''client.id'' of
        None \<Rightarrow> c
      | Some i \<Rightarrow> c\<lparr>kc_clientId := i, kc_clientName := getClientTypeString ty @ ''['' @ i @ '']''\<rparr>)"

text \<open>\<open>std::stoi\<close> under a handler for \<open>std::exception\<close>; \<open>what\<close> is the text of the exception.\<close>

definition save_log_level :: "(exn \<Rightarrow> string) \<Rightarrow> Properties \<Rightarrow> 'k KafkaClient \<Rightarrow> 'k KafkaClient res" where
  "save_log_level what props c =
     (case getProperty props ''log_level'' of
        None \<Rightarrow> Inr c
      | Some s \<Rightarrow>
          (case stoi s of
             Inl (Throw e) \<Rightarrow> invalid_arg (''Invalid log_level['' @ s @
                                 ''], which must be an number!'' @ what e)
           | Inl e \<Rightarrow> Inl e
           | Inr n \<Rightarrow>
               if n < Emerg \<or> n > Debug
               then invalid_arg (''Invalid log_level['' @ s @
                      ''], which must be a value between 0 and 7!'')
               else Inr (c\<lparr>kc_logLevel := n\<rparr>)))"

text \<open>One turn of the loop over the properties: a property that librdkafka refuses is logged and
  dropped.\<close>

definition conf_step ::
  "('c, 'k) rdkafka_conf \<Rightarrow> string \<times> string \<Rightarrow> 'c \<times> 'k KafkaClient \<Rightarrow> 'c \<times> 'k KafkaClient" where
  "conf_step rd kv s =
     (let (conf, c) = s; (key, val) = kv
      in if key \<in> set PRIVATE_PROPERTY_KEYS
         then (conf, c\<lparr>kc_properties := put key val (kc_properties c)\<rparr>)
         else let (result, conf) = rd_conf_set rd conf (c_str key) (c_str val)
              in if result = 0
                 then (conf, c\<lparr>kc_properties := put key val (kc_properties c)\<rparr>)
                 else (conf, doLog Err (''failed to be initialized with property['' @ c_str key @
                        '':'' @ c_str val @ ''], result['' @ dec_of_int result @ '']'') c))"

text \<open>The rest of the constructor, from the call of \<open>rd_kafka_new\<close>. The handle is destroyed with
  the object when an exception leaves; the configuration object was released to the library,
  which keeps it only together with a handle. The second component counts the configuration
  objects that nobody owns any more.\<close>

definition open_client ::
  "('c, 'k) rdkafka_conf \<Rightarrow> ClientType \<Rightarrow> Properties \<Rightarrow> 'c \<Rightarrow> 'k KafkaClient \<Rightarrow> 'k KafkaClient res \<times> nat" where
  "open_client rd ty props conf c =
     (let (handle, last_error) = rd_new rd (ty = Consumer_client) conf;
          leaked = (if handle = None then 1 else 0)
      in (bindr (throw_if_with_error (Error_code last_error)) (\<lambda>_.
          case getProperty props ''bootstrap.servers'' of
            None \<Rightarrow> invalid_arg ''No broker could be added successfully, BOOTSTRAP_SERVERS=[NA]''
          | Some brokers \<Rightarrow>
              (case handle of
                 None \<Rightarrow> Inl (Undefined Null_dereference)
               | Some rk \<Rightarrow>
                   let (n, rk) = rd_brokers_add rd rk (c_str brokers)
                   in if n = 0
                      then invalid_arg (''No broker could be added successfully, BOOTSTRAP_SERVERS=['' @
                             brokers @ '']'')
                      else Inr (c\<lparr>kc_rk := Some rk, kc_opened := True\<rparr>))), leaked))"

definition new_KafkaClient ::
  "('c, 'k) rdkafka_conf \<Rightarrow> (exn \<Rightarrow> string) \<Rightarrow> ClientType \<Rightarrow> Properties \<Rightarrow> bool \<Rightarrow> bool \<Rightarrow>
   'k KafkaClient res \<times> nat" where
  "new_KafkaClient rd what ty props auto_polling no_interceptors =
     (case save_log_level what props (save_client_id ty props (blank_client auto_polling)) of
        Inl e \<Rightarrow> (Inl e, 0)
      | Inr c \<Rightarrow>
          let (conf, c) = fold (conf_step rd) (entries props) (rd_conf_new rd, c)
          in if no_interceptors then open_client rd ty props conf c
             else let (result, conf) = rd_interceptor_add rd conf
                  in case throw_if_with_error (Error_code result) of
                       Inl e \<Rightarrow> (Inl e, 0)
                     | Inr _ \<Rightarrow> open_client rd ty props conf c)"

text \<open>\<open>getClientHandle()\<close>: null is only dereferenced by librdkafka.\<close>

definition handle_of :: "('k, 'z) KafkaClient_scheme \<Rightarrow> 'k res" where
  "handle_of p = (case kc_rk p of None \<Rightarrow> Inl (Undefined Null_dereference) | Some k \<Rightarrow> Inr k)"

text \<open>The background polling.\<close>

definition startBackgroundPollingIfNecessary ::
  "('k, 'z) KafkaClient_scheme \<Rightarrow> ('k, 'z) KafkaClient_scheme" where
  "startBackgroundPollingIfNecessary c =
     (let c = c\<lparr>kc_pollable := True\<rparr>
      in if kc_auto_polling c then c\<lparr>kc_pollThread := True\<rparr> else c)"

definition stopBackgroundPollingIfNecessary ::
  "('k, 'z) KafkaClient_scheme \<Rightarrow> ('k, 'z) KafkaClient_scheme" where
  "stopBackgroundPollingIfNecessary c = c\<lparr>kc_pollThread := False, kc_pollable := False\<rparr>"

text \<open>\<open>convertMsDurationToInt\<close>: a \<open>static_cast<int>\<close> below the bound. \<open>InfiniteTimeout\<close> is the
  largest 64-bit count.\<close>

definition InfiniteTimeout :: int where
  "InfiniteTimeout = 2 ^ 63 - 1"

definition convertMsDurationToInt :: "int \<Rightarrow> int" where
  "convertMsDurationToInt ms = (if ms > 2147483647 then - 1 else sint (word_of_int ms :: 32 word))"

text \<open>\<open>rd_kafka_set_log_level\<close> is told the value that was stored.\<close>

definition setLogLevel ::
  "('k \<Rightarrow> int \<Rightarrow> 'k) \<Rightarrow> int \<Rightarrow> ('k, 'z) KafkaClient_scheme \<Rightarrow> ('k, 'z) KafkaClient_scheme" where
  "setLogLevel set_log_level level c =
     (let n = (if level < Emerg then Emerg else if level > Debug then Debug else level)
      in c\<lparr>kc_logLevel := n, kc_rk := map_option (\<lambda>rk. set_log_level rk n) (kc_rk c)\<rparr>)"

text \<open>\<open>conf_get name n\<close> is \<open>rd_kafka_conf_get\<close> into a buffer of \<open>n\<close> bytes: the result code, the C
  string it leaves in the buffer, and the size the whole value needs. A failing assertion
  aborts.\<close>

definition client_getProperty ::
  "(string \<Rightarrow> nat \<Rightarrow> int \<times> string \<times> nat) \<Rightarrow> ('k, 'z) KafkaClient_scheme \<Rightarrow> string \<Rightarrow>
   string option res" where
  "client_getProperty conf_get c name =
     (case getProperty (kc_properties c) name of
        Some v \<Rightarrow> Inr (Some v)
      | None \<Rightarrow>
          let (result, valueBuf, valueSize) = conf_get name 512
          in if result \<noteq> 0 then Inr None
             else if valueSize > 512
             then let (result, valueBuf, valueSize) = conf_get name valueSize
                  in if result \<noteq> 0 then Inl Abort else Inr (Some valueBuf)
             else Inr (Some valueBuf))"

section \<open>Callbacks\<close>

text \<open>\<open>fatal_error\<close> is what \<open>rd_kafka_fatal_error\<close> reports, its text already cut to the buffer.\<close>

definition errorCallback :: "int \<times> string \<Rightarrow> int \<Rightarrow> string \<Rightarrow> Error" where
  "errorCallback fatal_error err reason =
     (if err \<noteq> RD_KAFKA_RESP_ERR_FATAL then Error_text err reason False
      else Error_text (fst fatal_error) (snd fatal_error) True)"

record SaslOauthbearerToken =
  tk_value :: string
  tk_mdLifetime :: int
  tk_mdPrincipalName :: string
  tk_extensions :: Properties

definition empty_token :: SaslOauthbearerToken where
  "empty_token = \<lparr>tk_value = [], tk_mdLifetime = 0, tk_mdPrincipalName = [],
     tk_extensions = Map.empty\<rparr>"

datatype oauth_call =
    Set_token string int string "string list"
  | Set_token_failure string

definition onOauthbearerTokenRefresh ::
  "(string \<Rightarrow> string + SaslOauthbearerToken) option \<Rightarrow> string \<Rightarrow> string + SaslOauthbearerToken" where
  "onOauthbearerTokenRefresh cb config =
     (case cb of
        None \<Rightarrow> Inl ''No OAUTHBEARER token refresh callback configured!''
      | Some f \<Rightarrow> f config)"

text \<open>The calls the refresh makes, in order. A callback that throws gives the text of its
  exception; \<open>set_token\<close> is the error of \<open>rd_kafka_oauthbearer_set_token\<close>, if any.\<close>

definition oauthbearerTokenRefreshCallback ::
  "(string \<Rightarrow> string + SaslOauthbearerToken) option \<Rightarrow> (SaslOauthbearerToken \<Rightarrow> string option) \<Rightarrow>
   string \<Rightarrow> oauth_call list" where
  "oauthbearerTokenRefreshCallback cb set_token config =
     (let (token, calls) =
            (case onOauthbearerTokenRefresh cb config of
               Inr t \<Rightarrow> (t, [])
             | Inl e \<Rightarrow> (empty_token, [Set_token_failure e]));
          extensions = concat (map (\<lambda>(k, v). [k, v]) (entries (tk_extensions token)))
      in calls @ [Set_token (tk_value token) (tk_mdLifetime token) (tk_mdPrincipalName token) extensions] @
         (case set_token token of None \<Rightarrow> [] | Some e \<Rightarrow> [Set_token_failure e]))"

section \<open>Lemmas\<close>

lemma throw_if_with_error_simps [simp]:
  "throw_if_with_error (Error_code 0) = Inr ()"
  "c \<noteq> 0 \<Longrightarrow> throw_if_with_error (Error_code c) = throw_error (Error_code c)"
  by (simp_all add: throw_if_with_error_def Error_bool_def)

lemma not_thrown [simp]: "throw_error e \<noteq> Inr x" "invalid_arg m \<noteq> Inr x"
  by (simp_all add: throw_error_def invalid_arg_def)

text \<open>Validation keeps every given property and adds what is missing.\<close>

lemma client_validate_result:
  assumes "getProperty props ''bootstrap.servers'' \<noteq> None"
  obtains q where "client_validate random props = Inr q" and "props \<subseteq>\<^sub>m q"
    and "dom q = dom props \<union> {''client.id'', ''log_level''}"
    and "\<And>k. k \<notin> {''client.id'', ''log_level''} \<Longrightarrow> q k = props k"
proof -
  let ?q = "(\<lambda>p. if p ''log_level'' = None then p(''log_level'' \<mapsto> dec_of_int Notice) else p)
    (if props ''client.id'' = None then props(''client.id'' \<mapsto> random) else props)"
  have "client_validate random props = Inr ?q"
    using assms by (cases "props ''client.id''"; cases "props ''log_level''")
      (simp_all add: client_validate_def getProperty_def put_def Let_def)
  moreover have "props \<subseteq>\<^sub>m ?q" "dom ?q = dom props \<union> {''client.id'', ''log_level''}"
    by (auto simp: map_le_def)
  ultimately show thesis using that [of ?q] by simp
qed

lemma client_validate_complete:
  assumes "{''bootstrap.servers'', ''client.id'', ''log_level''} \<subseteq> dom props"
  shows "client_validate random props = Inr props"
  using assms by (auto simp: client_validate_def getProperty_def)

lemma doLog_simps [simp]:
  "kc_opened (doLog l m c) = kc_opened c" "kc_properties (doLog l m c) = kc_properties c"
  "kc_clientId (doLog l m c) = kc_clientId c" "kc_clientName (doLog l m c) = kc_clientName c"
  "kc_logLevel (doLog l m c) = kc_logLevel c" "kc_auto_polling (doLog l m c) = kc_auto_polling c"
  "kc_rk (doLog l m c) = kc_rk c" "kc_pollable (doLog l m c) = kc_pollable c"
  "kc_pollThread (doLog l m c) = kc_pollThread c" "KafkaClient.more (doLog l m c) = KafkaClient.more c"
  by (simp_all add: doLog_def)

text \<open>No line is longer than the buffer allows.\<close>

lemma doLog_bounded:
  assumes "\<forall>(l, t) \<in> set (kc_log c). length t < LOG_BUFFER_SIZE"
  shows "\<forall>(l, t) \<in> set (kc_log (doLog level msg c)). length t < LOG_BUFFER_SIZE"
proof -
  have "length (LogBuffer_print LOG_BUFFER_SIZE msg (LogBuffer_print LOG_BUFFER_SIZE s [])) < LOG_BUFFER_SIZE" for s
    by (intro LogBuffer_print_bounded) (simp add: LOG_BUFFER_SIZE_def)
  then show ?thesis using assms by (auto simp: doLog_def)
qed

text \<open>The loop over the properties changes the properties and the log only, and records a subset
  of what it was given.\<close>

lemma conf_steps_frame:
  "case fold (conf_step rd) kvs (conf, c) of (conf', c') \<Rightarrow>
     kc_opened c' = kc_opened c \<and> kc_clientId c' = kc_clientId c \<and> kc_clientName c' = kc_clientName c \<and>
     kc_logLevel c' = kc_logLevel c \<and> kc_auto_polling c' = kc_auto_polling c \<and> kc_rk c' = kc_rk c \<and>
     kc_pollable c' = kc_pollable c \<and> kc_pollThread c' = kc_pollThread c"
proof (induction kvs arbitrary: conf c)
  case (Cons kv kvs)
  obtain conf1 c1 where 1: "conf_step rd kv (conf, c) = (conf1, c1)" by fastforce
  then have "kc_opened c1 = kc_opened c \<and> kc_clientId c1 = kc_clientId c \<and>
     kc_clientName c1 = kc_clientName c \<and> kc_logLevel c1 = kc_logLevel c \<and>
     kc_auto_polling c1 = kc_auto_polling c \<and> kc_rk c1 = kc_rk c \<and> kc_pollable c1 = kc_pollable c \<and>
     kc_pollThread c1 = kc_pollThread c"
    by (auto simp: conf_step_def Let_def split: prod.splits if_splits)
  then show ?case using Cons.IH [where conf = conf1 and c = c1] 1 by (auto split: prod.splits)
qed simp

lemma conf_steps_properties:
  assumes "fold (conf_step rd) kvs (conf, c) = (conf', c')" and "set kvs \<subseteq> {(k, v). props k = Some v}"
    and "kc_properties c \<subseteq>\<^sub>m props"
  shows "kc_properties c' \<subseteq>\<^sub>m props"
  using assms
proof (induction kvs arbitrary: conf c)
  case (Cons kv kvs)
  obtain conf1 c1 where 1: "conf_step rd kv (conf, c) = (conf1, c1)" by fastforce
  have "kc_properties c1 \<subseteq>\<^sub>m props"
    using 1 Cons.prems(2,3)
    by (auto simp: conf_step_def Let_def put_def map_le_def dom_def split: prod.splits if_splits)
  then show ?case using Cons.IH [where conf = conf1 and c = c1] Cons.prems(1,2) 1 by simp
qed simp

text \<open>When the library's verdict on a setting depends on the setting alone, the properties that
  took effect are the accepted ones.\<close>

lemma conf_steps_accepted:
  assumes "fold (conf_step rd) kvs (conf, c) = (conf', c')" and "distinct (map fst kvs)"
    and "\<And>conf k v. fst (rd_conf_set rd conf (c_str k) (c_str v)) = 0 \<longleftrightarrow> ok k v"
    and "\<And>k v. k \<in> set PRIVATE_PROPERTY_KEYS \<Longrightarrow> ok k v"
  shows "kc_properties c' = kc_properties c ++ (\<lambda>k. case map_of kvs k of
           None \<Rightarrow> None | Some v \<Rightarrow> if ok k v then Some v else None)"
  using assms(1,2)
proof (induction kvs arbitrary: conf c)
  case Nil
  then show ?case by (auto simp: map_add_def)
next
  case (Cons kv kvs)
  obtain k v where kv: "kv = (k, v)" by fastforce
  obtain conf1 c1 where 1: "conf_step rd kv (conf, c) = (conf1, c1)" by fastforce
  have p: "kc_properties c1 = (if ok k v then (kc_properties c)(k \<mapsto> v) else kc_properties c)"
    using 1 kv assms(3) [of conf k v] assms(4) [of k v]
    by (auto simp: conf_step_def Let_def put_def split: prod.splits if_splits)
  have "map_of kvs k = None" using Cons.prems(2) kv by (auto simp: map_of_eq_None_iff)
  then show ?case using Cons.IH [where conf = conf1 and c = c1] Cons.prems 1 kv p
    by (auto simp: map_add_def fun_eq_iff split: option.splits)
qed

text \<open>The level is what \<open>stoi\<close> reads when that is between 0 and 7; any other text throws.\<close>

definition log_level_ok :: "string \<Rightarrow> int \<Rightarrow> bool" where
  "log_level_ok s n = (stoi s = Inr n \<and> 0 \<le> n \<and> n \<le> 7)"

lemma stoi_throws: "stoi s = Inl e \<Longrightarrow> \<exists>x. e = Throw x"
  by (auto simp: stoi_def Let_def split: if_splits)

definition log_level_error :: "(exn \<Rightarrow> string) \<Rightarrow> string \<Rightarrow> string" where
  "log_level_error what s =
     (case stoi s of
        Inl (Throw e) \<Rightarrow> ''Invalid log_level['' @ s @ ''], which must be an number!'' @ what e
      | _ \<Rightarrow> ''Invalid log_level['' @ s @ ''], which must be a value between 0 and 7!'')"

lemma save_log_level_result:
  assumes "props ''log_level'' = Some s"
  shows "log_level_ok s n \<Longrightarrow> save_log_level what props c = Inr (c\<lparr>kc_logLevel := n\<rparr>)"
    and "\<nexists>n. log_level_ok s n \<Longrightarrow> save_log_level what props c = invalid_arg (log_level_error what s)"
proof -
  show "log_level_ok s n \<Longrightarrow> save_log_level what props c = Inr (c\<lparr>kc_logLevel := n\<rparr>)"
    using assms by (simp add: save_log_level_def getProperty_def log_level_ok_def Emerg_def Debug_def)
  assume n: "\<nexists>n. log_level_ok s n"
  show "save_log_level what props c = invalid_arg (log_level_error what s)"
  proof (cases "stoi s")
    case (Inl e)
    then obtain x where "e = Throw x" using stoi_throws by blast
    then show ?thesis using assms Inl by (auto simp: save_log_level_def getProperty_def log_level_error_def)
  next
    case (Inr k)
    then have "k < 0 \<or> k > 7" using n by (auto simp: log_level_ok_def)
    then show ?thesis using assms Inr
      by (auto simp: save_log_level_def getProperty_def Emerg_def Debug_def log_level_error_def)
  qed
qed

text \<open>What a constructed client is: open, with a handle, at a legal log level, with the polling mode
  it was given and a subset of the properties.\<close>

lemma open_client_Inr:
  assumes "fst (open_client rd ty props conf c) = Inr c'"
  shows "\<exists>rk. c' = c\<lparr>kc_rk := Some rk, kc_opened := True\<rparr>"
  using assms
  by (auto simp: open_client_def Let_def bindr_eq_Inr split: option.splits prod.splits if_splits)

lemma new_KafkaClient_Inr:
  assumes "fst (new_KafkaClient rd what ty props auto_polling no_interceptors) = Inr c"
    and "finite (dom props)" and "props ''log_level'' = Some s"
  shows "kc_opened c \<and> kc_rk c \<noteq> None \<and> kc_auto_polling c = auto_polling \<and> \<not> kc_pollThread c \<and>
    kc_properties c \<subseteq>\<^sub>m props \<and> log_level_ok s (kc_logLevel c)"
proof -
  obtain n where n: "log_level_ok s n"
  proof -
    have False if "\<nexists>n. log_level_ok s n"
      using assms(1,3) that
      by (simp add: new_KafkaClient_def save_log_level_result(2) [of props s] invalid_arg_def throw_error_def)
    then show thesis using that by blast
  qed
  let ?c0 = "(save_client_id ty props (blank_client auto_polling))\<lparr>kc_logLevel := n\<rparr>"
  obtain conf c1 where l: "fold (conf_step rd) (entries props) (rd_conf_new rd, ?c0) = (conf, c1)"
    by fastforce
  have c0: "kc_auto_polling ?c0 = auto_polling" "\<not> kc_pollThread ?c0" "kc_properties ?c0 = Map.empty"
    "kc_logLevel ?c0 = n"
    by (auto simp: save_client_id_def blank_client_def split: option.splits)
  have c1: "kc_auto_polling c1 = auto_polling \<and> \<not> kc_pollThread c1 \<and> kc_logLevel c1 = n"
    using conf_steps_frame [where rd = rd and kvs = "entries props" and conf = "rd_conf_new rd" and c = ?c0] l c0 by simp
  have p: "kc_properties c1 \<subseteq>\<^sub>m props"
  proof (rule conf_steps_properties [OF l])
    show "set (entries props) \<subseteq> {(k, v). props k = Some v}" using set_entries [OF assms(2)] by simp
    show "kc_properties ?c0 \<subseteq>\<^sub>m props" unfolding c0(3) by simp
  qed
  have s: "save_log_level what props (save_client_id ty props (blank_client auto_polling)) = Inr ?c0"
    by (rule save_log_level_result(1) [of props s n]) (use assms(3) n in simp_all)
  then obtain conf' where "fst (open_client rd ty props conf' c1) = Inr c"
    using assms(1) l unfolding new_KafkaClient_def s sum.case l Let_def prod.case
    by (cases no_interceptors; cases "rd_interceptor_add rd conf")
      (auto split: sum.splits)
  then obtain rk where "c = c1\<lparr>kc_rk := Some rk, kc_opened := True\<rparr>"
    by (auto dest: open_client_Inr)
  then show ?thesis using c1 p n by simp
qed

text \<open>The handle it holds is one that librdkafka made and to which it added the brokers.\<close>

lemma open_client_handle:
  assumes "fst (open_client rd ty props conf c) = Inr c'"
  shows "\<exists>k code b. rd_new rd (ty = Consumer_client) conf = (Some k, code) \<and>
    kc_rk c' = Some (snd (rd_brokers_add rd k b))"
  using assms
  by (auto simp: open_client_def Let_def bindr_eq_Inr split: option.splits prod.splits if_splits)
    (metis snd_conv)

lemma new_KafkaClient_handle:
  assumes "fst (new_KafkaClient rd what ty props auto_polling no_interceptors) = Inr c"
  shows "\<exists>conf k code b. rd_new rd (ty = Consumer_client) conf = (Some k, code) \<and>
    kc_rk c = Some (snd (rd_brokers_add rd k b))"
proof -
  obtain conf c0 where "fst (open_client rd ty props conf c0) = Inr c"
    using assms
    by (auto simp: new_KafkaClient_def Let_def split: if_splits prod.splits sum.splits)
  then show ?thesis using open_client_handle by fastforce
qed

text \<open>Every outcome of the constructor, for any librdkafka. \<open>client_conf\<close> is the configuration that
  the loop over the properties leaves.\<close>

definition client_conf :: "('c, 'k) rdkafka_conf \<Rightarrow> Properties \<Rightarrow> 'c" where
  "client_conf rd props = fold (\<lambda>(key, val) conf. if key = ''max.poll.records'' then conf
     else snd (rd_conf_set rd conf (c_str key) (c_str val))) (entries props) (rd_conf_new rd)"

lemma conf_steps_conf:
  "fst (fold (conf_step rd) kvs (conf, c)) = fold (\<lambda>(key, val) conf. if key = ''max.poll.records'' then conf
     else snd (rd_conf_set rd conf (c_str key) (c_str val))) kvs conf"
proof (induction kvs arbitrary: conf c)
  case (Cons kv kvs)
  obtain key val where kv: "kv = (key, val)" by (cases kv)
  obtain conf1 c1 where step: "conf_step rd kv (conf, c) = (conf1, c1)" by fastforce
  have "conf1 = (if key = ''max.poll.records'' then conf
     else snd (rd_conf_set rd conf (c_str key) (c_str val)))"
    using step by (auto simp: conf_step_def kv PRIVATE_PROPERTY_KEYS_def split: prod.splits if_splits)
  then have "fold (\<lambda>(key, val) conf. if key = ''max.poll.records'' then conf
      else snd (rd_conf_set rd conf (c_str key) (c_str val))) (kv # kvs) conf =
    fold (\<lambda>(key, val) conf. if key = ''max.poll.records'' then conf
      else snd (rd_conf_set rd conf (c_str key) (c_str val))) kvs conf1" by (simp add: kv)
  then show ?case using Cons.IH [of conf1 c1] step by (simp only: fold_simps)
qed simp

lemma new_KafkaClient_outcome:
  assumes "props ''log_level'' = Some s" and "props ''bootstrap.servers'' = Some b"
  shows "\<nexists>n. log_level_ok s n \<Longrightarrow> \<exists>e. fst (new_KafkaClient rd what ty props auto_polling True)
       = Inl (Throw (Kafka_exception e)) \<and> Error_value e = RD_KAFKA_RESP_ERR_INVALID_ARG"
    and "log_level_ok s n \<Longrightarrow> \<exists>c e1 e2. fst (new_KafkaClient rd what ty props auto_polling True) =
       (case rd_new rd (ty = Consumer_client) (client_conf rd props) of (handle, code) \<Rightarrow>
          if code \<noteq> 0 then Inl (Throw (Kafka_exception e1))
          else case handle of None \<Rightarrow> Inl (Undefined Null_dereference)
            | Some rk \<Rightarrow> if fst (rd_brokers_add rd rk (c_str b)) = 0 then Inl (Throw (Kafka_exception e2))
                         else Inr c) \<and>
       Error_value e1 = snd (rd_new rd (ty = Consumer_client) (client_conf rd props)) \<and>
       Error_value e2 = RD_KAFKA_RESP_ERR_INVALID_ARG"
proof -
  show "\<exists>e. fst (new_KafkaClient rd what ty props auto_polling True)
       = Inl (Throw (Kafka_exception e)) \<and> Error_value e = RD_KAFKA_RESP_ERR_INVALID_ARG"
    if "\<nexists>n. log_level_ok s n"
    using assms(1) that
    by (simp add: new_KafkaClient_def save_log_level_result(2) [of props s] invalid_arg_def throw_error_def)
  show "\<exists>c e1 e2. fst (new_KafkaClient rd what ty props auto_polling True) =
       (case rd_new rd (ty = Consumer_client) (client_conf rd props) of (handle, code) \<Rightarrow>
          if code \<noteq> 0 then Inl (Throw (Kafka_exception e1))
          else case handle of None \<Rightarrow> Inl (Undefined Null_dereference)
            | Some rk \<Rightarrow> if fst (rd_brokers_add rd rk (c_str b)) = 0 then Inl (Throw (Kafka_exception e2))
                         else Inr c) \<and>
       Error_value e1 = snd (rd_new rd (ty = Consumer_client) (client_conf rd props)) \<and>
       Error_value e2 = RD_KAFKA_RESP_ERR_INVALID_ARG"
    if n: "log_level_ok s n"
  proof -
    let ?c0 = "(save_client_id ty props (blank_client auto_polling))\<lparr>kc_logLevel := n\<rparr>"
    let ?f = "fold (conf_step rd) (entries props) (rd_conf_new rd, ?c0)"
    have conf: "fst ?f = client_conf rd props" by (simp add: conf_steps_conf client_conf_def)
    have "fst (new_KafkaClient rd what ty props auto_polling True) = fst (open_client rd ty props (fst ?f) (snd ?f))"
      using assms(1) n by (simp add: new_KafkaClient_def save_log_level_result(1) [of props s n] case_prod_unfold Let_def)
    also have "\<dots> = fst (open_client rd ty props (client_conf rd props) (snd ?f))" by (simp only: conf)
    finally have o: "fst (new_KafkaClient rd what ty props auto_polling True) =
        fst (open_client rd ty props (client_conf rd props) (snd ?f))" .
    obtain handle code where h: "rd_new rd (ty = Consumer_client) (client_conf rd props) = (handle, code)" by fastforce
    let ?e1 = "Error_copy (Error_code code)"
    let ?e2 = "Error_copy (Error_text RD_KAFKA_RESP_ERR_INVALID_ARG
      (''No broker could be added successfully, BOOTSTRAP_SERVERS=['' @ b @ '']'') False)"
    have b: "Error_bool (Error_code code) = (code \<noteq> 0)"
      by (simp add: Error_bool_def Error_value_def Error_code_def)
    have v: "Error_value ?e1 = code" "Error_value ?e2 = RD_KAFKA_RESP_ERR_INVALID_ARG"
      by (simp_all add: Error_value_def Error_copy_def Error_code_def Error_text_def)
    have "\<exists>c. fst (open_client rd ty props (client_conf rd props) (snd ?f)) =
       (if code \<noteq> 0 then Inl (Throw (Kafka_exception ?e1))
          else case handle of None \<Rightarrow> Inl (Undefined Null_dereference)
            | Some rk \<Rightarrow> if fst (rd_brokers_add rd rk (c_str b)) = 0 then Inl (Throw (Kafka_exception ?e2))
                         else Inr c)"
      using assms(2)
      by (cases handle) (auto simp: open_client_def h b getProperty_def throw_if_with_error_def throw_error_def
          invalid_arg_def case_prod_unfold Let_def)
    then obtain c where "fst (open_client rd ty props (client_conf rd props) (snd ?f)) =
       (if code \<noteq> 0 then Inl (Throw (Kafka_exception ?e1))
          else case handle of None \<Rightarrow> Inl (Undefined Null_dereference)
            | Some rk \<Rightarrow> if fst (rd_brokers_add rd rk (c_str b)) = 0 then Inl (Throw (Kafka_exception ?e2))
                         else Inr c)" by blast
    then show ?thesis unfolding o h using v
      by (intro exI [of _ c] exI [of _ ?e1] exI [of _ ?e2]) simp
  qed
qed

text \<open>A failing \<open>rd_kafka_new\<close> leaves the configuration object to nobody.\<close>

lemma failed_rd_new_leaks:
  assumes "rd_new rd (ty = Consumer_client) conf = (None, code)" and "code \<noteq> 0"
  shows "\<exists>e. open_client rd ty props conf c = (Inl (Throw (Kafka_exception e)), 1) \<and> Error_value e = code"
  using assms by (simp add: open_client_def throw_error_def)

text \<open>The value that \<open>rd_kafka_conf_get\<close> holds is returned whole, however long it is.\<close>

lemma client_getProperty_result:
  assumes "\<And>n. conf_get name n = (0, take (n - 1) v, Suc (length v))"
  shows "client_getProperty conf_get c name =
    Inr (Some (case getProperty (kc_properties c) name of Some w \<Rightarrow> w | None \<Rightarrow> v))"
  using assms by (simp add: client_getProperty_def split: option.splits)

text \<open>The time-outs: the infinite one becomes librdkafka's \<open>-1\<close>, others up to the largest \<open>int\<close>
  are kept.\<close>

lemma convertMsDurationToInt_simps:
  "convertMsDurationToInt InfiniteTimeout = - 1"
  "0 \<le> ms \<Longrightarrow> ms \<le> 2147483647 \<Longrightarrow> convertMsDurationToInt ms = ms"
  by (simp_all add: convertMsDurationToInt_def InfiniteTimeout_def sint_sbintrunc'
      signed_take_bit_int_eq_self)

text \<open>A refresh callback that throws is reported, and then an empty token is set all the same.\<close>

lemma failed_refresh_sets_token:
  assumes "onOauthbearerTokenRefresh cb config = Inl e"
  shows "\<exists>rest. oauthbearerTokenRefreshCallback cb set_token config =
    Set_token_failure e # Set_token [] 0 [] [] # rest"
  using assms by (auto simp: oauthbearerTokenRefreshCallback_def empty_token_def entries_def)

text \<open>A refused setting is written to the log with its value, passwords included.\<close>

lemma refused_setting_is_logged:
  assumes "fst (rd_conf_set rd conf ''ssl.key.password'' (c_str v)) \<noteq> 0"
    and "kc_clientName c = ''c''" and "length v < 900" and "Err \<le> kc_logLevel c"
  shows "\<exists>l pre post. kc_log (snd (conf_step rd (''ssl.key.password'', v) (conf, c))) =
    kc_log c @ [(l, pre @ ''ssl.key.password:'' @ c_str v @ post)]"
proof -
  let ?r = "fst (rd_conf_set rd conf ''ssl.key.password'' (c_str v))"
  let ?m = "''failed to be initialized with property[ssl.key.password:'' @ c_str v @ ''], result['' @
    dec_of_int ?r @ '']''"
  have k: "c_str ''ssl.key.password'' = ''ssl.key.password''" "''ssl.key.password'' \<notin> set PRIVATE_PROPERTY_KEYS"
    by (simp_all add: c_str_def PRIVATE_PROPERTY_KEYS_def)
  have len: "length (c_str v) < 900"
    using assms(3) length_takeWhile_le [of "\<lambda>c. c \<noteq> CHR 0x00" v] by (simp add: c_str_def)
  have "take 1023 (''c '' @ ?m) = ''c failed to be initialized with property['' @
    (''ssl.key.password:'' @ c_str v) @ take (1023 - 58 - length (c_str v)) (''], result['' @ dec_of_int ?r @ '']'')"
    using len by simp
  moreover have "snd (conf_step rd (''ssl.key.password'', v) (conf, c)) = doLog Err ?m c"
    using assms(1) k by (cases "rd_conf_set rd conf ''ssl.key.password'' (c_str v)")
      (simp add: conf_step_def Let_def)
  moreover have "kc_log (doLog Err ?m c) = kc_log c @ [(Err, take 1023 (''c '' @ ?m))]"
    using assms(2,4) LogBuffer_print_twice [of LOG_BUFFER_SIZE ?m "''c ''"]
    by (simp add: doLog_def Err_def LOG_BUFFER_SIZE_def del: take_Cons')
  ultimately have "kc_log (snd (conf_step rd (''ssl.key.password'', v) (conf, c))) = kc_log c @
    [(Err, ''c failed to be initialized with property['' @ (''ssl.key.password:'' @ c_str v) @
       take (1023 - 58 - length (c_str v)) (''], result['' @ dec_of_int ?r @ '']''))]"
    by (simp only:)
  then show ?thesis unfolding append_assoc by (intro exI)
qed

end
