(* ===== verification/Kafka_Producer.thy ===== *)
theory Kafka_Producer
  imports Kafka_Client "HOL-Library.Multiset"
begin

text \<open>
  \<open>src/include/kafka/KafkaProducer.h\<close>: validation, construction, the asynchronous \<open>send\<close>, the
  delivery callback, \<open>flush\<close>, \<open>purge\<close> and \<open>close\<close>. Every send allocates an opaque object
  (the record's id and the user's callback) whose address travels through librdkafka and comes
  back in the delivery report, possibly while \<open>send\<close> has not returned yet; the live objects are
  a map from addresses, so that freeing one twice or reading a freed one is a failure.
  librdkafka is a record of functions. How the threads interleave, and the contract of
  librdkafka, are in Kafka_Async.
\<close>

section \<open>Validation\<close>

text \<open>In the order of a \<open>std::set\<close>.\<close>

definition availPartitioners :: "string list" where
  "availPartitioners = [''consistent'', ''consistent_random'', ''fnv1a'', ''fnv1a_random'',
     ''murmur2'', ''murmur2_random'', ''random'']"

definition partitioner_message :: "string \<Rightarrow> string" where
  "partitioner_message partitioner =
     fst (fold (\<lambda>a (msg, isTheFirst). (msg @ (if isTheFirst then [] else '', '') @ a, False))
            availPartitioners
            (''Invalid partitioner ['' @ partitioner @ '']! Valid options: '', True)) @ ''.''"

definition KAFKA_IDEMP_MAX_INFLIGHT :: int where
  "KAFKA_IDEMP_MAX_INFLIGHT = 5"

definition validate_partitioner :: "Properties \<Rightarrow> unit res" where
  "validate_partitioner props =
     (case getProperty props ''partitioner'' of
        None \<Rightarrow> Inr ()
      | Some p \<Rightarrow> if p \<in> set availPartitioners then Inr () else invalid_arg (partitioner_message p))"

text \<open>Here \<open>std::stoi\<close> stands without a handler.\<close>

definition validate_idempotence :: "Properties \<Rightarrow> unit res" where
  "validate_idempotence props =
     (if getProperty props ''enable.idempotence'' = Some ''true'' then
        bindr (case getProperty props ''max.in.flight'' of
                 None \<Rightarrow> Inr ()
               | Some s \<Rightarrow> bindr (stoi s) (\<lambda>n.
                   if n > KAFKA_IDEMP_MAX_INFLIGHT
                   then invalid_arg (''`max.in.flight` must be set <= '' @
                          dec_of_int KAFKA_IDEMP_MAX_INFLIGHT @
                          '' when `enable.idempotence` is `true`'')
                   else Inr ())) (\<lambda>_.
        case getProperty props ''acks'' of
          None \<Rightarrow> Inr ()
        | Some a \<Rightarrow> if a \<noteq> ''all'' \<and> a \<noteq> ''-1''
                   then invalid_arg ''`acks` must be set to `all`/`-1` when `enable.idempotence` is `true`''
                   else Inr ())
      else Inr ())"

definition producer_validate :: "string \<Rightarrow> Properties \<Rightarrow> Properties res" where
  "producer_validate random props =
     bindr (client_validate random props) (\<lambda>props.
     bindr (validate_partitioner props) (\<lambda>_.
     bindr (validate_idempotence props) (\<lambda>_. Inr props)))"

section \<open>The producer and librdkafka\<close>

text \<open>An argument of \<open>rd_kafka_produceva\<close>.\<close>

datatype rd_kafka_vu =
    VTYPE_TOPIC string
  | VTYPE_PARTITION int
  | VTYPE_MSGFLAGS int
  | VTYPE_KEY ConstBuffer
  | VTYPE_VALUE ConstBuffer
  | VTYPE_OPAQUE nat
  | VTYPE_HEADER string ConstBuffer

text \<open>What is called on a handle: producing (against the memory the buffers point into), polling
  and flushing with the delivery reports they dispatch, purging, the length of the queue.\<close>

record 'k rdkafka =
  rk_produceva :: "'k \<Rightarrow> mem \<Rightarrow> rd_kafka_vu list \<Rightarrow> rd_kafka_error option \<times> 'k"
  rk_poll :: "'k \<Rightarrow> int \<Rightarrow> rd_kafka_message list \<times> 'k"
  rk_flush :: "'k \<Rightarrow> int \<Rightarrow> int \<times> rd_kafka_message list \<times> 'k"
  rk_purge :: "'k \<Rightarrow> 32 word \<Rightarrow> int \<times> 'k"
  rk_outq_len :: "'k \<Rightarrow> int"

record 'u DeliveryCbOpaque =
  dc_recordId :: "64 word option"
  dc_deliveryCb :: 'u

text \<open>The producer adds the store of its opaque objects and the list of the callbacks that ran,
  each with the metadata and the error it was given. A user's callback is a value of type
  \<open>'u\<close> that identifies it.\<close>

record ('k, 'u) KafkaProducer = "'k KafkaClient" +
  kp_opaques :: "nat \<rightharpoonup> 'u DeliveryCbOpaque"
  kp_next :: nat
  kp_delivered :: "('u \<times> RecordMetadata \<times> Error) list"

definition as_producer :: "'k KafkaClient \<Rightarrow> ('k, 'u) KafkaProducer" where
  "as_producer c = KafkaClient.extend c
     \<lparr>kp_opaques = Map.empty, kp_next = 1, kp_delivered = []\<rparr>"

definition new_KafkaProducer ::
  "('c, 'k) rdkafka_conf \<Rightarrow> (exn \<Rightarrow> string) \<Rightarrow> string \<Rightarrow> Properties \<Rightarrow> bool \<Rightarrow> bool \<Rightarrow>
   ('k, 'u) KafkaProducer res" where
  "new_KafkaProducer rd what random props auto_polling no_interceptors =
     bindr (producer_validate random props) (\<lambda>props.
     bindr (fst (new_KafkaClient rd what Producer_client props auto_polling no_interceptors)) (\<lambda>c.
       let p = startBackgroundPollingIfNecessary (as_producer c)
       in Inr (doLog Notice (''initializes with properties['' @
                 c_str (Properties_toString (kc_properties p)) @ '']'') p)))"

section \<open>Delivery reports\<close>

definition delete_opaque :: "nat \<Rightarrow> ('k, 'u) KafkaProducer \<Rightarrow> ('k, 'u) KafkaProducer res" where
  "delete_opaque ptr p =
     (case kp_opaques p ptr of
        None \<Rightarrow> Inl (Undefined Invalid_free)
      | Some _ \<Rightarrow> Inr (p\<lparr>kp_opaques := (kp_opaques p)(ptr := None)\<rparr>))"

text \<open>\<open>DeliveryCbOpaque::operator()\<close>.\<close>

definition call_opaque ::
  "nat \<Rightarrow> rd_kafka_message \<Rightarrow> ('k, 'u) KafkaProducer \<Rightarrow> ('k, 'u) KafkaProducer res" where
  "call_opaque ptr rkmsg p =
     (case kp_opaques p ptr of
        None \<Rightarrow> Inl (Undefined Use_after_free)
      | Some o' \<Rightarrow> Inr (p\<lparr>kp_delivered := kp_delivered p @
           [(dc_deliveryCb o', new_RecordMetadata rkmsg (dc_recordId o'), Error_code (rm_err rkmsg))]\<rparr>))"

definition deliveryCallback ::
  "rd_kafka_message \<Rightarrow> ('k, 'u) KafkaProducer \<Rightarrow> ('k, 'u) KafkaProducer res" where
  "deliveryCallback rkmsg p =
     (case rm_private rkmsg of
        None \<Rightarrow> Inr p
      | Some ptr \<Rightarrow> bindr (call_opaque ptr rkmsg p) (delete_opaque ptr))"

definition pollCallbacks ::
  "'k rdkafka \<Rightarrow> int \<Rightarrow> ('k, 'u) KafkaProducer \<Rightarrow> ('k, 'u) KafkaProducer res" where
  "pollCallbacks rd timeoutMs p =
     bindr (handle_of p) (\<lambda>k.
     let (reports, k) = rk_poll rd k timeoutMs
     in foldM deliveryCallback reports (p\<lparr>kc_rk := Some k\<rparr>))"

section \<open>Sending\<close>

datatype SendOption = NoCopyRecordValue | ToCopyRecordValue
datatype ActionWhileQueueIsFull = Block | NoBlock

definition RD_KAFKA_MSG_F_COPY :: "32 word" where "RD_KAFKA_MSG_F_COPY = 2"
definition RD_KAFKA_MSG_F_BLOCK :: "32 word" where "RD_KAFKA_MSG_F_BLOCK = 4"

unbundle bit_operations_syntax

definition msg_flags :: "bool \<Rightarrow> SendOption \<Rightarrow> ActionWhileQueueIsFull \<Rightarrow> 32 word" where
  "msg_flags auto_polling option action =
     (let queueFullAction = (if auto_polling then action else NoBlock)
      in (if option = ToCopyRecordValue then RD_KAFKA_MSG_F_COPY else 0) OR
         (if queueFullAction = Block then RD_KAFKA_MSG_F_BLOCK else 0))"

definition header_vu :: "ConstBuffer Header \<Rightarrow> rd_kafka_vu" where
  "header_vu h = VTYPE_HEADER (c_str (hd_key h)) (hd_value h)"

definition send_vus ::
  "ConstBuffer ProducerRecord \<Rightarrow> 32 word \<Rightarrow> nat \<Rightarrow> rd_kafka_vu list" where
  "send_vus r flags ptr =
     [VTYPE_TOPIC (c_str (pr_topic r)), VTYPE_PARTITION (pr_partition r),
      VTYPE_MSGFLAGS (sint flags), VTYPE_KEY (pr_key r), VTYPE_VALUE (pr_value r),
      VTYPE_OPAQUE ptr] @ map header_vu (pr_headers r)"

text \<open>\<open>send\<close> in the three parts between which other threads can run: allocating the opaque
  object, the call of \<open>rd_kafka_produceva\<close>, and the end, where the object is deleted by its
  \<open>unique_ptr\<close> when an exception leaves and released to the delivery callback otherwise.\<close>

definition send_begin ::
  "ConstBuffer ProducerRecord \<Rightarrow> 'u \<Rightarrow> ('k, 'u) KafkaProducer \<Rightarrow> nat \<times> ('k, 'u) KafkaProducer" where
  "send_begin r deliveryCb p =
     (kp_next p, p\<lparr>kp_next := Suc (kp_next p),
        kp_opaques := (kp_opaques p)(kp_next p \<mapsto> \<lparr>dc_recordId = pr_id r, dc_deliveryCb = deliveryCb\<rparr>)\<rparr>)"

definition send_call ::
  "'k rdkafka \<Rightarrow> mem \<Rightarrow> ConstBuffer ProducerRecord \<Rightarrow> SendOption \<Rightarrow> ActionWhileQueueIsFull \<Rightarrow> nat \<Rightarrow>
   ('k, 'u) KafkaProducer \<Rightarrow> (Error \<times> ('k, 'u) KafkaProducer) res" where
  "send_call rd M r option action ptr p =
     bindr (handle_of p) (\<lambda>k.
     let (e, k) = rk_produceva rd k M (send_vus r (msg_flags (kc_auto_polling p) option action) ptr)
     in Inr (Error_rich e, p\<lparr>kc_rk := Some k\<rparr>))"

definition send_end ::
  "Error \<Rightarrow> nat \<Rightarrow> ('k, 'u) KafkaProducer \<Rightarrow> (unit res \<times> ('k, 'u) KafkaProducer) res" where
  "send_end sendResult ptr p =
     (case throw_if_with_error sendResult of
        Inl e \<Rightarrow> bindr (delete_opaque ptr p) (\<lambda>p. Inr (Inl e, p))
      | Inr _ \<Rightarrow> Inr (Inr (), p))"

text \<open>The whole function, when no other thread runs in between. The outer result says whether its
  behaviour is defined, the inner one whether it returns or throws.\<close>

definition send ::
  "'k rdkafka \<Rightarrow> mem \<Rightarrow> ConstBuffer ProducerRecord \<Rightarrow> 'u \<Rightarrow> SendOption \<Rightarrow> ActionWhileQueueIsFull \<Rightarrow>
   ('k, 'u) KafkaProducer \<Rightarrow> (unit res \<times> ('k, 'u) KafkaProducer) res" where
  "send rd M r deliveryCb option action p =
     (let (ptr, p) = send_begin r deliveryCb p
      in bindr (send_call rd M r option action ptr p) (\<lambda>(sendResult, p). send_end sendResult ptr p))"

text \<open>The overload that reports through a reference: \<open>Some\<close> is the error it assigns.\<close>

definition send_noexcept ::
  "'k rdkafka \<Rightarrow> mem \<Rightarrow> ConstBuffer ProducerRecord \<Rightarrow> 'u \<Rightarrow> SendOption \<Rightarrow> ActionWhileQueueIsFull \<Rightarrow>
   ('k, 'u) KafkaProducer \<Rightarrow> (Error option res \<times> ('k, 'u) KafkaProducer) res" where
  "send_noexcept rd M r deliveryCb option action p =
     bindr (send rd M r deliveryCb option action p) (\<lambda>(result, p).
       Inr (case result of
              Inr _ \<Rightarrow> Inr None
            | Inl (Throw (Kafka_exception e)) \<Rightarrow> Inr (Some (Error_copy e))
            | Inl e \<Rightarrow> Inl e, p))"

section \<open>Flushing, purging, closing\<close>

definition flush ::
  "'k rdkafka \<Rightarrow> int \<Rightarrow> ('k, 'u) KafkaProducer \<Rightarrow> (Error \<times> ('k, 'u) KafkaProducer) res" where
  "flush rd timeout p =
     bindr (handle_of p) (\<lambda>k.
     let (result, reports, k) = rk_flush rd k (convertMsDurationToInt timeout)
     in bindr (foldM deliveryCallback reports (p\<lparr>kc_rk := Some k\<rparr>)) (\<lambda>p. Inr (Error_code result, p)))"

definition RD_KAFKA_PURGE_F_QUEUE :: "32 word" where "RD_KAFKA_PURGE_F_QUEUE = 1"
definition RD_KAFKA_PURGE_F_INFLIGHT :: "32 word" where "RD_KAFKA_PURGE_F_INFLIGHT = 2"

definition purge :: "'k rdkafka \<Rightarrow> ('k, 'u) KafkaProducer \<Rightarrow> (Error \<times> ('k, 'u) KafkaProducer) res" where
  "purge rd p =
     bindr (handle_of p) (\<lambda>k.
     let (result, k) = rk_purge rd k (RD_KAFKA_PURGE_F_QUEUE OR RD_KAFKA_PURGE_F_INFLIGHT)
     in Inr (Error_code result, p\<lparr>kc_rk := Some k\<rparr>))"

text \<open>The polling thread is joined before anything is flushed.\<close>

definition close :: "'k rdkafka \<Rightarrow> int \<Rightarrow> ('k, 'u) KafkaProducer \<Rightarrow> ('k, 'u) KafkaProducer res" where
  "close rd timeout p =
     bindr (flush rd timeout (stopBackgroundPollingIfNecessary (p\<lparr>kc_opened := False\<rparr>))) (\<lambda>(result, p).
     bindr (if Error_value result = RD_KAFKA_RESP_ERR_TIMED_OUT
            then bindr (handle_of p) (\<lambda>k.
                 bindr (purge rd (doLog Notice (''purge messages before close, outQLen['' @
                          dec_of_int (rk_outq_len rd k) @ '']'') p)) (\<lambda>(_, p). Inr p))
            else Inr p) (\<lambda>p.
     bindr (pollCallbacks rd 0 p) (\<lambda>p. Inr (doLog Notice ''closed'' p))))"

definition destroy_KafkaProducer ::
  "'k rdkafka \<Rightarrow> ('k, 'u) KafkaProducer \<Rightarrow> ('k, 'u) KafkaProducer res" where
  "destroy_KafkaProducer rd p = (if kc_opened p then close rd InfiniteTimeout p else Inr p)"

end
