(* ===== verification/Kafka_Async.thy ===== *)
theory Kafka_Async
  imports Kafka_Producer
begin

text \<open>
  The asynchronous life of a Kafka producer (\<open>src/include/kafka/KafkaProducer.h\<close>) against any
  librdkafka that keeps its documented contract (locale \<open>rdkafka\<close>): \<open>producer_step\<close> interleaves
  the thread that sends, the polling thread and librdkafka itself. The invariant \<open>accounts\<close>
  says that the opaque objects alive are the one a running \<open>send\<close> owns and those of the
  messages librdkafka holds, and that every accepted send is either held or has had its
  callback run. It follows that no object is freed twice or used after it was freed, and that a
  closed producer has run every callback exactly once.
\<close>

section \<open>The contract of librdkafka\<close>

text \<open>The message that a list of arguments describes: key and headers are always copied, the value
  only when the copy flag is set; otherwise librdkafka keeps the pointer.\<close>

datatype payload = Copied string | Borrowed ConstBuffer

record outmsg =
  om_topic :: "string option"
  om_partition :: int
  om_key :: string
  om_value :: payload
  om_headers :: "(string \<times> string) list"
  om_opaque :: "nat option"

fun first_of :: "'a list \<Rightarrow> 'a option" where
  "first_of [] = None"
| "first_of (x # xs) = Some x"

unbundle bit_operations_syntax

definition copies :: "int \<Rightarrow> bool" where
  "copies flags = ((word_of_int flags :: 32 word) AND RD_KAFKA_MSG_F_COPY \<noteq> 0)"

definition read_opt :: "mem \<Rightarrow> ConstBuffer option \<Rightarrow> string res" where
  "read_opt M b = (case b of None \<Rightarrow> Inr [] | Some b \<Rightarrow> read_buffer M b)"

definition vu_payload :: "mem \<Rightarrow> int list \<Rightarrow> ConstBuffer option \<Rightarrow> payload res" where
  "vu_payload M flags b =
     (if list_ex copies flags then bindr (read_opt M b) (\<lambda>v. Inr (Copied v))
      else Inr (case b of None \<Rightarrow> Copied [] | Some b \<Rightarrow> Borrowed b))"

definition vu_message :: "mem \<Rightarrow> rd_kafka_vu list \<Rightarrow> outmsg res" where
  "vu_message M vus =
     bindr (read_opt M (first_of [b. VTYPE_KEY b \<leftarrow> vus])) (\<lambda>k.
     bindr (vu_payload M [f. VTYPE_MSGFLAGS f \<leftarrow> vus] (first_of [b. VTYPE_VALUE b \<leftarrow> vus])) (\<lambda>v.
     bindr (mapM (\<lambda>(n, b). bindr (read_buffer M b) (\<lambda>s. Inr (n, s)))
              [(n, b). VTYPE_HEADER n b \<leftarrow> vus]) (\<lambda>hs.
       Inr \<lparr>om_topic = first_of [t. VTYPE_TOPIC t \<leftarrow> vus],
            om_partition = (case first_of [p. VTYPE_PARTITION p \<leftarrow> vus] of
                              Some p \<Rightarrow> p | None \<Rightarrow> RD_KAFKA_PARTITION_UA),
            om_key = k, om_value = v, om_headers = hs,
            om_opaque = first_of [p. VTYPE_OPAQUE p \<leftarrow> vus]\<rparr>)))"

text \<open>\<open>held k\<close> are the messages a handle was given and has not reported yet; \<open>progress\<close> is what
  the library does by itself. Producing hands over one message or fails with a code; polling and
  flushing report messages that are held, once each; a flush that does not time out leaves
  none, and after purging the queue and what is in flight one poll reports the rest.\<close>

locale rdkafka =
  fixes rd :: "'k rdkafka"
    and progress :: "'k \<Rightarrow> 'k \<Rightarrow> bool"
    and held :: "'k \<Rightarrow> outmsg multiset"
  assumes produceva: "vu_message M vus = Inr m \<Longrightarrow> rk_produceva rd k M vus = (e, k') \<Longrightarrow>
      (case e of None \<Rightarrow> held k' = held k + {#m#} | Some r \<Rightarrow> rke_code r \<noteq> 0 \<and> held k' = held k)"
    and poll: "rk_poll rd k t = (ms, k') \<Longrightarrow>
      \<exists>N. held k = held k' + N \<and> image_mset om_opaque N = mset (map rm_private ms)"
    and flush: "rk_flush rd k t = (c, ms, k') \<Longrightarrow>
      (\<exists>N. held k = held k' + N \<and> image_mset om_opaque N = mset (map rm_private ms)) \<and>
      (c \<noteq> RD_KAFKA_RESP_ERR_TIMED_OUT \<longrightarrow> held k' = {#})"
    and purge: "rk_purge rd k (RD_KAFKA_PURGE_F_QUEUE OR RD_KAFKA_PURGE_F_INFLIGHT) = (c, k') \<Longrightarrow>
      held k' = held k \<and> held (snd (rk_poll rd k' 0)) = {#}"
    and progress: "progress k k' \<Longrightarrow> held k' = held k"

section \<open>Threads\<close>

text \<open>Where the sending thread is: outside \<open>send\<close>, before the call of \<open>rd_kafka_produceva\<close>, or
  after it.\<close>

datatype send_pc =
    Outside
  | Owns nat "ConstBuffer ProducerRecord" SendOption ActionWhileQueueIsFull
  | Called nat Error

text \<open>A state also carries the callbacks of the sends accepted so far. The buffers have to be
  readable when \<open>rd_kafka_produceva\<close> is called, in whatever the memory is at that time.\<close>

type_synonym ('k, 'u) pstate = "send_pc \<times> 'u list \<times> ('k, 'u) KafkaProducer"

inductive producer_step ::
  "'k rdkafka \<Rightarrow> ('k \<Rightarrow> 'k \<Rightarrow> bool) \<Rightarrow> ('k, 'u) pstate \<Rightarrow> ('k, 'u) pstate \<Rightarrow> bool"
  for rd progress where
  begin_send: "send_begin r cb p = (ptr, p') \<Longrightarrow>
    producer_step rd progress (Outside, acc, p) (Owns ptr r option action, acc, p')"
| call_send: "send_call rd M r option action ptr p = Inr (e, p') \<Longrightarrow>
    vu_message M (send_vus r (msg_flags (kc_auto_polling p) option action) ptr) = Inr m \<Longrightarrow>
    acc' = (if Error_bool e then acc else acc @ [dc_deliveryCb (the (kp_opaques p ptr))]) \<Longrightarrow>
    producer_step rd progress (Owns ptr r option action, acc, p) (Called ptr e, acc', p')"
| end_send: "send_end e ptr p = Inr (result, p') \<Longrightarrow>
    producer_step rd progress (Called ptr e, acc, p) (Outside, acc, p')"
| poll_thread: "kc_pollThread p \<Longrightarrow> pollCallbacks rd 10 p = Inr p' \<Longrightarrow>
    producer_step rd progress (pc, acc, p) (pc, acc, p')"
| internal: "kc_rk p = Some k \<Longrightarrow> progress k k' \<Longrightarrow>
    producer_step rd progress (pc, acc, p) (pc, acc, p\<lparr>kc_rk := Some k'\<rparr>)"

text \<open>The object that the sending thread still owns.\<close>

fun owned :: "send_pc \<Rightarrow> nat set" where
  "owned Outside = {}"
| "owned (Owns ptr r option action) = {ptr}"
| "owned (Called ptr e) = (if Error_bool e then {ptr} else {})"

definition handed :: "nat set \<Rightarrow> ('k, 'u) KafkaProducer \<Rightarrow> nat multiset" where
  "handed own p = mset_set (dom (kp_opaques p) - own)"

definition callbacks :: "('k, 'u) KafkaProducer \<Rightarrow> 'u list" where
  "callbacks p = map fst (kp_delivered p)"

definition cb_at :: "('k, 'u) KafkaProducer \<Rightarrow> nat \<Rightarrow> 'u" where
  "cb_at p x = dc_deliveryCb (the (kp_opaques p x))"

definition account :: "nat set \<Rightarrow> ('k, 'u) KafkaProducer \<Rightarrow> outmsg multiset \<Rightarrow> 'u multiset \<Rightarrow> bool" where
  "account own p ms acc =
     (finite (dom (kp_opaques p)) \<and> (\<forall>x\<in>dom (kp_opaques p). x < kp_next p) \<and>
      own \<subseteq> dom (kp_opaques p) \<and>
      image_mset om_opaque ms = image_mset Some (handed own p) \<and>
      acc = mset (callbacks p) + image_mset (cb_at p) (handed own p))"

definition accounts :: "('k \<Rightarrow> outmsg multiset) \<Rightarrow> ('k, 'u) pstate \<Rightarrow> bool" where
  "accounts held s =
     (case s of (pc, acc, p) \<Rightarrow>
        \<exists>k. kc_rk p = Some k \<and> account (owned pc) p (held k) (mset acc))"

lemma account_rk [simp]: "account own (p\<lparr>kc_rk := k\<rparr>) ms acc = account own p ms acc"
  by (simp add: account_def handed_def callbacks_def cb_at_def [abs_def])

text \<open>Serving a list of reports: each is for a different live object, which is read and freed.\<close>

lemma deliver_one:
  assumes "account own p (m + {#x#}) acc" and "rm_private r = om_opaque x"
  shows "\<exists>p'. deliveryCallback r p = Inr p' \<and> account own p' m acc \<and>
    KafkaClient.truncate p' = KafkaClient.truncate p \<and> (\<forall>x\<in>own. kp_opaques p' x = kp_opaques p x)"
proof -
  let ?O = "kp_opaques p"
  have finO: "finite (dom ?O)" using assms(1) by (simp add: account_def)
  then have fin: "finite (dom ?O - own)" by simp
  have im: "image_mset om_opaque m + {#om_opaque x#} = image_mset Some (handed own p)"
    using assms(1) by (simp add: account_def)
  then have "om_opaque x \<in># image_mset Some (handed own p)"
    by (metis add_mset_add_single union_single_eq_member)
  then obtain ptr where ptr: "om_opaque x = Some ptr" "ptr \<in> dom ?O - own"
    using fin by (auto simp: handed_def)
  obtain d where d: "?O ptr = Some d" using ptr(2) by auto
  let ?p = "p\<lparr>kp_delivered := kp_delivered p @ [(dc_deliveryCb d, new_RecordMetadata r (dc_recordId d),
      Error_code (rm_err r))], kp_opaques := ?O(ptr := None)\<rparr>"
  have "deliveryCallback r p = Inr ?p"
    using assms(2) ptr(1) d by (simp add: deliveryCallback_def call_opaque_def delete_opaque_def)
  moreover have h: "handed own p = handed own ?p + {#ptr#}"
  proof -
    have "dom (?O(ptr := None)) - own = (dom ?O - own) - {ptr}" by auto
    then show ?thesis using mset_set.remove [OF fin ptr(2)] by (simp add: handed_def)
  qed
  moreover have "image_mset (cb_at ?p) (handed own ?p) = image_mset (cb_at p) (handed own ?p)"
    using finO by (intro image_mset_cong) (auto simp: handed_def cb_at_def)
  then have "account own ?p m acc"
    using assms(1) h ptr im d by (auto simp: account_def callbacks_def cb_at_def)
  ultimately show ?thesis using ptr(2)
    by (intro exI [of _ ?p]) (auto simp: KafkaClient.truncate_def)
qed

lemma deliver_all:
  assumes "account own p (ms + N) acc" and "image_mset om_opaque N = mset (map rm_private reports)"
  shows "\<exists>p'. foldM deliveryCallback reports p = Inr p' \<and> account own p' ms acc \<and>
    KafkaClient.truncate p' = KafkaClient.truncate p \<and> (\<forall>x\<in>own. kp_opaques p' x = kp_opaques p x)"
  using assms
proof (induction reports arbitrary: p N)
  case Nil
  then show ?case by simp
next
  case (Cons r reports)
  have "rm_private r \<in># image_mset om_opaque N" using Cons.prems(2) by simp
  then obtain x where x: "x \<in># N" "rm_private r = om_opaque x" by auto
  then obtain N' where N: "N = add_mset x N'" by (metis multi_member_split)
  then have acc: "account own p ((ms + N') + {#x#}) acc" using Cons.prems(1) by simp
  obtain p1 where p1: "deliveryCallback r p = Inr p1" "account own p1 (ms + N') acc"
    "KafkaClient.truncate p1 = KafkaClient.truncate p" "\<forall>x\<in>own. kp_opaques p1 x = kp_opaques p x"
    using deliver_one [OF acc x(2)] by blast
  have "image_mset om_opaque N' = mset (map rm_private reports)" using Cons.prems(2) N x(2) by simp
  then show ?case using Cons.IH [OF p1(2)] p1 by simp
qed

lemma send_vus_message:
  assumes "vu_message M (send_vus r flags ptr) = Inr m"
  shows "om_opaque m = Some ptr" and "om_topic m = Some (c_str (pr_topic r))"
    and "om_partition m = pr_partition r" and "read_buffer M (pr_key r) = Inr (om_key m)"
    and "om_value m = Borrowed (pr_value r) \<or> (\<exists>v. read_buffer M (pr_value r) = Inr v \<and> om_value m = Copied v)"
  using assms
  by (auto simp: vu_message_def send_vus_def bindr_eq_Inr read_opt_def vu_payload_def split: if_splits)

lemma delete_owned:
  assumes "account {ptr} p ms acc"
  obtains p' where "delete_opaque ptr p = Inr p'" and "account {} p' ms acc" and "kc_rk p' = kc_rk p"
proof -
  obtain d where d: "kp_opaques p ptr = Some d" using assms by (auto simp: account_def)
  let ?p = "p\<lparr>kp_opaques := (kp_opaques p)(ptr := None)\<rparr>"
  have fin: "finite (dom (kp_opaques p))" using assms by (simp add: account_def)
  have h: "handed {} ?p = handed {ptr} p" by (simp add: handed_def)
  have "image_mset (cb_at ?p) (handed {ptr} p) = image_mset (cb_at p) (handed {ptr} p)"
    using fin by (intro image_mset_cong) (auto simp: handed_def cb_at_def)
  then have "account {} ?p ms acc" using assms h by (auto simp: account_def callbacks_def)
  then show thesis using that [of ?p] d by (simp add: delete_opaque_def)
qed

lemma allocate_owned:
  assumes "account {} p ms acc" and "send_begin r cb p = (ptr, p')"
  shows "account {ptr} p' ms acc \<and> kc_rk p' = kc_rk p \<and> cb_at p' ptr = cb"
proof -
  have p': "ptr = kp_next p" "p' = p\<lparr>kp_next := Suc (kp_next p), kp_opaques := (kp_opaques p)
      (kp_next p \<mapsto> \<lparr>dc_recordId = pr_id r, dc_deliveryCb = cb\<rparr>)\<rparr>"
    using assms(2) by (auto simp: send_begin_def)
  have fin: "finite (dom (kp_opaques p))" and fresh: "kp_next p \<notin> dom (kp_opaques p)"
    using assms(1) by (auto simp: account_def)
  have bound: "x < Suc (kp_next p)" if "kp_opaques p x = Some y" for x y
  proof -
    have "x < kp_next p" using assms(1) that by (auto simp: account_def)
    then show ?thesis by simp
  qed
  have "insert (kp_next p) (dom (kp_opaques p)) - {kp_next p} = dom (kp_opaques p)" using fresh by auto
  then have h: "handed {ptr} p' = handed {} p" using p' by (simp add: handed_def)
  have "image_mset (cb_at p') (handed {} p) = image_mset (cb_at p) (handed {} p)"
    using fin fresh p' by (intro image_mset_cong) (auto simp: handed_def cb_at_def)
  then have "account {ptr} p' ms acc"
    using assms(1) h p' bound by (auto simp: account_def callbacks_def)
  then show ?thesis using p' by (simp add: cb_at_def)
qed

text \<open>Handing the owned object over with a message.\<close>

lemma hand_over:
  assumes "account {ptr} p ms acc" and "om_opaque m = Some ptr"
  shows "account {} p (ms + {#m#}) (acc + {#cb_at p ptr#})"
proof -
  have fin: "finite (dom (kp_opaques p))" and "ptr \<in> dom (kp_opaques p)"
    using assms(1) by (auto simp: account_def)
  then have "handed {} p = add_mset ptr (handed {ptr} p)"
    using mset_set.remove [of "dom (kp_opaques p)" ptr] by (simp add: handed_def)
  then show ?thesis using assms by (auto simp: account_def)
qed

context rdkafka
begin

lemma pollCallbacks_ok:
  assumes "kc_rk p = Some k" and "account own p (held k) acc"
  shows "\<exists>p' k'. pollCallbacks rd t p = Inr p' \<and> kc_rk p' = Some k' \<and> k' = snd (rk_poll rd k t) \<and>
    account own p' (held k') acc \<and> (\<forall>x\<in>own. kp_opaques p' x = kp_opaques p x) \<and>
    KafkaClient.truncate p' = (KafkaClient.truncate p)\<lparr>kc_rk := Some k'\<rparr>"
proof -
  obtain ms k' where ms: "rk_poll rd k t = (ms, k')" by fastforce
  then obtain N where N: "held k = held k' + N" "image_mset om_opaque N = mset (map rm_private ms)"
    using poll by blast
  have "account own (p\<lparr>kc_rk := Some k'\<rparr>) (held k' + N) acc" using assms(2) N(1) by simp
  from deliver_all [OF this N(2)] obtain p' where p':
    "foldM deliveryCallback ms (p\<lparr>kc_rk := Some k'\<rparr>) = Inr p'" "account own p' (held k') acc"
    "KafkaClient.truncate p' = KafkaClient.truncate (p\<lparr>kc_rk := Some k'\<rparr>)"
    "\<forall>x\<in>own. kp_opaques p' x = kp_opaques p x" by auto
  then have "kc_rk p' = Some k'" by (simp add: KafkaClient.truncate_def)
  moreover have "pollCallbacks rd t p = Inr p'"
    using p'(1) assms(1) ms by (simp add: pollCallbacks_def handle_of_def)
  ultimately show ?thesis using p'(2,3,4) ms by (auto simp: KafkaClient.truncate_def)
qed

lemma flush_ok:
  assumes "kc_rk p = Some k" and "account own p (held k) acc"
  shows "\<exists>p' k' c. Kafka_Producer.flush rd t p = Inr (Error_code c, p') \<and> kc_rk p' = Some k' \<and>
    account own p' (held k') acc \<and> (c \<noteq> RD_KAFKA_RESP_ERR_TIMED_OUT \<longrightarrow> held k' = {#}) \<and>
    KafkaClient.truncate p' = (KafkaClient.truncate p)\<lparr>kc_rk := Some k'\<rparr>"
proof -
  obtain c ms k' where ms: "rk_flush rd k (convertMsDurationToInt t) = (c, ms, k')" by (metis prod_cases3)
  then obtain N where N: "held k = held k' + N" "image_mset om_opaque N = mset (map rm_private ms)"
    and e: "c \<noteq> RD_KAFKA_RESP_ERR_TIMED_OUT \<longrightarrow> held k' = {#}"
    using flush by blast
  have "account own (p\<lparr>kc_rk := Some k'\<rparr>) (held k' + N) acc" using assms(2) N(1) by simp
  from deliver_all [OF this N(2)] obtain p' where p':
    "foldM deliveryCallback ms (p\<lparr>kc_rk := Some k'\<rparr>) = Inr p'" "account own p' (held k') acc"
    "KafkaClient.truncate p' = KafkaClient.truncate (p\<lparr>kc_rk := Some k'\<rparr>)" by blast
  then have "kc_rk p' = Some k'" by (simp add: KafkaClient.truncate_def)
  moreover have "Kafka_Producer.flush rd t p = Inr (Error_code c, p')"
    using p'(1) assms(1) ms by (simp add: flush_def handle_of_def)
  ultimately show ?thesis using p'(2,3) e by (auto simp: KafkaClient.truncate_def)
qed

lemma send_call_ok:
  assumes "kc_rk p = Some k" and "account {ptr} p (held k) (mset acc)"
    and "vu_message M (send_vus r (msg_flags (kc_auto_polling p) option action) ptr) = Inr m"
  shows "\<exists>e p' k'. send_call rd M r option action ptr p = Inr (Error_rich e, p') \<and>
    p' = p\<lparr>kc_rk := Some k'\<rparr> \<and> Error_bool (Error_rich e) = (e \<noteq> None) \<and>
    held k' = (if e = None then held k + {#m#} else held k) \<and>
    (if e = None then account {} p' (held k') (mset (acc @ [cb_at p ptr]))
     else account {ptr} p' (held k') (mset acc))"
proof -
  obtain e k' where e: "rk_produceva rd k M (send_vus r (msg_flags (kc_auto_polling p) option action) ptr)
      = (e, k')" by fastforce
  have c: "send_call rd M r option action ptr p = Inr (Error_rich e, p\<lparr>kc_rk := Some k'\<rparr>)"
    using assms(1) e by (simp add: send_call_def handle_of_def)
  show ?thesis
  proof (cases e)
    case None
    then have h: "held k' = held k + {#m#}" using produceva [OF assms(3) e] by simp
    then have "account {} (p\<lparr>kc_rk := Some k'\<rparr>) (held k') (mset (acc @ [cb_at p ptr]))"
      using hand_over [OF assms(2) send_vus_message(1) [OF assms(3)]] by simp
    then show ?thesis using c None h
      by (intro exI [of _ None] exI [of _ "p\<lparr>kc_rk := Some k'\<rparr>"] exI [of _ k']) (simp add: Error_bool_def)
  next
    case (Some x)
    then have "held k' = held k" "rke_code x \<noteq> 0" using produceva [OF assms(3) e] by auto
    then show ?thesis using c Some assms(2)
      by (intro exI [of _ e] exI [of _ "p\<lparr>kc_rk := Some k'\<rparr>"] exI [of _ k']) (simp add: Error_bool_def)
  qed
qed

text \<open>The invariant is kept by every step.\<close>

lemma accounts_step:
  assumes "producer_step rd progress s s'" and "accounts held s"
  shows "accounts held s'"
  using assms
proof (induction rule: producer_step.induct)
  case (begin_send r cb p ptr p' acc option action)
  then show ?case using allocate_owned [OF _ begin_send(1)] by (auto simp: accounts_def)
next
  case (call_send M r option action ptr p e p' m acc' acc)
  then obtain k where k: "kc_rk p = Some k" "account {ptr} p (held k) (mset acc)"
    by (auto simp: accounts_def)
  obtain e' k' where e': "e = Error_rich e'" "p' = p\<lparr>kc_rk := Some k'\<rparr>" "Error_bool e = (e' \<noteq> None)"
    "if e' = None then account {} p' (held k') (mset (acc @ [cb_at p ptr]))
     else account {ptr} p' (held k') (mset acc)"
    using send_call_ok [OF k call_send(2)] call_send(1) by auto
  then show ?case using call_send(3) by (cases "e' = None") (auto simp: accounts_def cb_at_def)
next
  case (end_send e ptr p result p' acc)
  then show ?case
  proof (cases "Error_bool e")
    case True
    then obtain k where k: "kc_rk p = Some k" "account {ptr} p (held k) (mset acc)"
      using end_send by (auto simp: accounts_def)
    obtain p1 where "delete_opaque ptr p = Inr p1" "account {} p1 (held k) (mset acc)" "kc_rk p1 = kc_rk p"
      by (rule delete_owned [OF k(2)])
    then show ?thesis using end_send(1) True k(1)
      by (simp add: accounts_def send_end_def throw_if_with_error_def throw_error_def)
  next
    case False
    then show ?thesis using end_send
      by (auto simp: accounts_def send_end_def throw_if_with_error_def)
  qed
next
  case (poll_thread p p' pc acc)
  then obtain k where k: "kc_rk p = Some k" "account (owned pc) p (held k) (mset acc)"
    by (auto simp: accounts_def)
  then show ?case using pollCallbacks_ok [OF k, of 10] poll_thread(2) by (auto simp: accounts_def)
next
  case (internal p k k' pc acc)
  then show ?case using progress [OF internal(2)] by (auto simp: accounts_def)
qed

lemma accounts_steps:
  assumes "(producer_step rd progress)\<^sup>*\<^sup>* s s'" and "accounts held s"
  shows "accounts held s'"
  using assms by (induction rule: rtranclp_induct) (auto intro: accounts_step)

end

section \<open>Safety and completeness\<close>

lemma account_doLog [simp]: "account own (doLog l m p) ms acc = account own p ms acc"
  by (simp add: doLog_def account_def handed_def callbacks_def cb_at_def [abs_def])

lemma account_stop [simp]:
  "account own (stopBackgroundPollingIfNecessary (p\<lparr>kc_opened := b\<rparr>)) ms acc = account own p ms acc"
  by (simp add: stopBackgroundPollingIfNecessary_def account_def handed_def callbacks_def cb_at_def [abs_def])

lemma account_all_delivered:
  "account {} p {#} acc \<Longrightarrow> kp_opaques p = Map.empty \<and> mset (callbacks p) = acc"
  by (auto simp: account_def handed_def mset_set_empty_iff)

lemma truncateD:
  assumes "KafkaClient.truncate p = c"
  shows "kc_opened p = kc_opened c" "kc_pollThread p = kc_pollThread c" "kc_rk p = kc_rk c"
    "kc_auto_polling p = kc_auto_polling c"
  using assms by (auto simp: KafkaClient.truncate_def)

text \<open>What a new producer is, for a handle that holds nothing.\<close>

definition fresh :: "('k \<Rightarrow> outmsg multiset) \<Rightarrow> ('k, 'u) KafkaProducer \<Rightarrow> bool" where
  "fresh held p = (\<exists>k. kc_rk p = Some k \<and> held k = {#} \<and> kp_opaques p = Map.empty \<and> kp_delivered p = [])"

lemma fresh_accounts: "fresh held p \<Longrightarrow> accounts held (Outside, [], p)"
  by (auto simp: fresh_def accounts_def account_def handed_def callbacks_def)

context rdkafka
begin

text \<open>Closing returns, whether the flush is complete or has to be followed by a purge.\<close>

lemma close_ok:
  assumes "accounts held (Outside, acc, p)"
  shows "\<exists>p'. close rd t p = Inr p' \<and> kp_opaques p' = Map.empty \<and> mset (callbacks p') = mset acc \<and>
    \<not> kc_opened p' \<and> \<not> kc_pollThread p'"
proof -
  let ?p = "stopBackgroundPollingIfNecessary (p\<lparr>kc_opened := False\<rparr>)"
  obtain k where p: "kc_rk p = Some k" "account {} p (held k) (mset acc)"
    using assms by (auto simp: accounts_def)
  have k: "kc_rk ?p = Some k" "account {} ?p (held k) (mset acc)"
    using p(1) by (simp add: stopBackgroundPollingIfNecessary_def) (simp only: account_stop p(2))
  obtain p1 k1 c where 1: "Kafka_Producer.flush rd t ?p = Inr (Error_code c, p1)" "kc_rk p1 = Some k1"
    "account {} p1 (held k1) (mset acc)" "c \<noteq> RD_KAFKA_RESP_ERR_TIMED_OUT \<longrightarrow> held k1 = {#}"
    "KafkaClient.truncate p1 = (KafkaClient.truncate ?p)\<lparr>kc_rk := Some k1\<rparr>"
    using flush_ok [OF k] by blast
  have f1: "\<not> kc_opened p1" "\<not> kc_pollThread p1"
    using truncateD [OF 1(5)] by (simp_all add: KafkaClient.truncate_def stopBackgroundPollingIfNecessary_def)
  obtain p2 k2 where 2: "(if c = RD_KAFKA_RESP_ERR_TIMED_OUT
      then bindr (handle_of p1) (\<lambda>k. bindr (Kafka_Producer.purge rd (doLog Notice
             (''purge messages before close, outQLen['' @ dec_of_int (rk_outq_len rd k) @ '']'') p1))
             (\<lambda>(_, p). Inr p))
      else Inr p1) = Inr p2" "kc_rk p2 = Some k2" "account {} p2 (held k2) (mset acc)"
    "held (snd (rk_poll rd k2 0)) = {#}" "\<not> kc_opened p2" "\<not> kc_pollThread p2"
  proof (cases "c = RD_KAFKA_RESP_ERR_TIMED_OUT")
    case True
    let ?p1 = "doLog Notice (''purge messages before close, outQLen['' @ dec_of_int (rk_outq_len rd k1) @ '']'') p1"
    obtain d k2 where d: "rk_purge rd k1 (RD_KAFKA_PURGE_F_QUEUE OR RD_KAFKA_PURGE_F_INFLIGHT) = (d, k2)"
      by fastforce
    then show thesis
      using that [of "?p1\<lparr>kc_rk := Some k2\<rparr>" k2] purge [OF d] True 1(2,3) f1
      by (simp add: handle_of_def purge_def)
  next
    case False
    then have h: "held k1 = {#}" using 1(4) by simp
    obtain ms k2 where "rk_poll rd k1 0 = (ms, k2)" by fastforce
    moreover from poll [OF this] h have "held k2 = {#}" by auto
    ultimately show thesis using that [of p1 k1] False 1(2,3) f1 by simp
  qed
  obtain p3 where 3: "pollCallbacks rd 0 p2 = Inr p3" "account {} p3 {#} (mset acc)"
    "KafkaClient.truncate p3 = (KafkaClient.truncate p2)\<lparr>kc_rk := Some (snd (rk_poll rd k2 0))\<rparr>"
    using pollCallbacks_ok [OF 2(2,3), of 0] 2(4) by auto
  have "close rd t p = Inr (doLog Notice ''closed'' p3)"
    using 1(1) 2(1) 3(1) by (simp add: close_def)
  moreover have "\<not> kc_opened p3" "\<not> kc_pollThread p3"
    using truncateD [OF 3(3)] 2(5,6) by (simp_all add: KafkaClient.truncate_def)
  moreover have "account {} (doLog Notice ''closed'' p3) {#} (mset acc)" using 3(2) by simp
  ultimately show ?thesis using account_all_delivered by fastforce
qed

text \<open>In a state the invariant describes, serving reports and ending a call never touch a freed
  object.\<close>

lemma never_dangles:
  assumes "accounts held (pc, acc, p)"
  shows "(\<exists>p'. pollCallbacks rd t p = Inr p') \<and>
    (\<forall>ptr e. pc = Called ptr e \<longrightarrow> (\<exists>x. send_end e ptr p = Inr x))"
proof -
  obtain k where k: "kc_rk p = Some k" "account (owned pc) p (held k) (mset acc)"
    using assms by (auto simp: accounts_def)
  have "\<exists>x. send_end e ptr p = Inr x" if pc: "pc = Called ptr e" for ptr e
  proof (cases "Error_bool e")
    case True
    then have "account {ptr} p (held k) (mset acc)" using k(2) pc by simp
    then obtain p' where "delete_opaque ptr p = Inr p'" by (rule delete_owned)
    then show ?thesis using True by (simp add: send_end_def throw_if_with_error_def throw_error_def)
  next
    case False
    then show ?thesis by (simp add: send_end_def throw_if_with_error_def)
  qed
  then show ?thesis using pollCallbacks_ok [OF k, of t] by blast
qed

end

section \<open>A reference librdkafka\<close>

text \<open>It queues up to \<open>cap\<close> messages, refuses more with the code for a full queue, and reports all of
  them as delivered at the next poll.\<close>

definition report_of :: "outmsg \<Rightarrow> rd_kafka_message" where
  "report_of m = \<lparr>rm_err = 0, rm_topic = om_topic m, rm_partition = 0, rm_offset = 0,
     rm_key_len = length (om_key m), rm_len = 0, rm_timestamp = (0, 0), rm_status = 2,
     rm_private = om_opaque m\<rparr>"

definition ref_rdkafka :: "nat \<Rightarrow> outmsg list rdkafka" where
  "ref_rdkafka cap =
     \<lparr>rk_produceva = (\<lambda>k M vus. case vu_message M vus of
        Inr m \<Rightarrow> if length k < cap then (None, k @ [m])
                 else (Some \<lparr>rke_code = - 184, rke_string = ''queue full'', rke_is_fatal = False,
                             rke_is_retriable = True, rke_txn_requires_abort = False\<rparr>, k)
      | Inl _ \<Rightarrow> (None, k)),
      rk_poll = (\<lambda>k t. (map report_of k, [])),
      rk_flush = (\<lambda>k t. (0, map report_of k, [])),
      rk_purge = (\<lambda>k f. (0, k)),
      rk_outq_len = (\<lambda>k. int (length k))\<rparr>"

interpretation ref: rdkafka "ref_rdkafka cap" "(=)" mset
proof unfold_locales
  have r: "image_mset om_opaque (mset k) = mset (map rm_private (map report_of k))" for k
    by (simp add: report_of_def image_mset.compositionality comp_def)
  fix M vus m k e k' t ms c
  show "case e of None \<Rightarrow> mset k' = mset k + {#m#} | Some r \<Rightarrow> rke_code r \<noteq> 0 \<and> mset k' = mset k"
    if "vu_message M vus = Inr m" "rk_produceva (ref_rdkafka cap) k M vus = (e, k')"
    using that by (auto simp: ref_rdkafka_def split: if_splits)
  show "\<exists>N. mset k = mset k' + N \<and> image_mset om_opaque N = mset (map rm_private ms)"
    if "rk_poll (ref_rdkafka cap) k t = (ms, k')"
    using that by (intro exI [of _ "mset k"]) (auto simp: ref_rdkafka_def r simp del: mset_map map_map)
  show "(\<exists>N. mset k = mset k' + N \<and> image_mset om_opaque N = mset (map rm_private ms)) \<and>
      (c \<noteq> RD_KAFKA_RESP_ERR_TIMED_OUT \<longrightarrow> mset k' = {#})"
    if "rk_flush (ref_rdkafka cap) k t = (c, ms, k')"
    using that by (intro conjI exI [of _ "mset k"]) (auto simp: ref_rdkafka_def r simp del: mset_map map_map)
qed (auto simp: ref_rdkafka_def)

section \<open>Properties\<close>

definition sample_producer :: "(outmsg list, nat) KafkaProducer" where
  "sample_producer = KafkaClient.extend ((blank_client True)\<lparr>kc_rk := Some [], kc_opened := True\<rparr>)
     \<lparr>kp_opaques = Map.empty, kp_next = 1, kp_delivered = []\<rparr>"

definition sample_record :: "ConstBuffer ProducerRecord" where
  "sample_record = new_ProducerRecord_UA ''t'' \<lparr>cb_data = None, cb_size = 0\<rparr> \<lparr>cb_data = None, cb_size = 0\<rparr>"

lemma sample_fresh: "fresh mset sample_producer"
  by (simp add: fresh_def sample_producer_def KafkaClient.extend_def)

lemma sample_steps: "\<exists>p. (producer_step (ref_rdkafka 10) (=))\<^sup>*\<^sup>* (Outside, [], sample_producer) (Outside, [7], p)"
proof -
  let ?S = "producer_step (ref_rdkafka 10) (=)"
  let ?p1 = "snd (send_begin sample_record 7 sample_producer)"
  have b: "send_begin sample_record 7 sample_producer = (1, ?p1)"
    by (simp add: send_begin_def sample_producer_def KafkaClient.extend_def)
  have p1: "kc_rk ?p1 = Some []" "kp_opaques ?p1 1 = Some \<lparr>dc_recordId = None, dc_deliveryCb = 7\<rparr>"
    by (simp_all add: send_begin_def sample_producer_def KafkaClient.extend_def sample_record_def
        new_ProducerRecord_UA_def new_ProducerRecord_def)
  let ?f = "msg_flags (kc_auto_polling ?p1) ToCopyRecordValue Block"
  have "\<exists>m. vu_message Map.empty (send_vus sample_record f 1) = Inr m" for f
    by (cases "copies (sint f)") (simp_all add: vu_message_def send_vus_def sample_record_def
        new_ProducerRecord_UA_def new_ProducerRecord_def read_opt_def read_buffer_def vu_payload_def)
  then obtain m where m: "vu_message Map.empty (send_vus sample_record ?f 1) = Inr m" by blast
  obtain p2 where c: "send_call (ref_rdkafka 10) Map.empty sample_record ToCopyRecordValue Block 1 ?p1
      = Inr (Error_rich None, p2)"
    using m p1(1) by (simp add: send_call_def handle_of_def ref_rdkafka_def)
  have e: "send_end (Error_rich None) 1 p2 = Inr (Inr (), p2)"
    by (simp add: send_end_def throw_if_with_error_def Error_bool_def)
  have 1: "?S (Outside, [], sample_producer) (Owns 1 sample_record ToCopyRecordValue Block, [], ?p1)"
    by (rule producer_step.begin_send [OF b])
  have 2: "?S (Owns 1 sample_record ToCopyRecordValue Block, [], ?p1) (Called 1 (Error_rich None), [7], p2)"
    by (rule producer_step.call_send [OF c m]) (use p1(2) in \<open>simp add: Error_bool_def\<close>)
  have 3: "?S (Called 1 (Error_rich None), [7], p2) (Outside, [7], p2)"
    by (rule producer_step.end_send [OF e])
  show ?thesis using 1 2 3 by (meson rtranclp.rtrancl_refl rtranclp.rtrancl_into_rtrancl)
qed

text \<open>C8. However the sending thread, the polling thread and librdkafka interleave, the handle of
  the producer is never null, serving any further delivery reports neither uses nor frees an
  object that was freed before, and neither does the end of a send that is under way.\<close>

theorem producer_never_dangles:
  assumes "rdkafka rd progress held" and "fresh held p0"
    and "(producer_step rd progress)\<^sup>*\<^sup>* (Outside, [], p0) (pc, acc, p)"
  shows "(\<exists>k. handle_of p = Inr k) \<and> (\<exists>p'. pollCallbacks rd t p = Inr p') \<and>
    (\<forall>ptr e. pc = Called ptr e \<longrightarrow> (\<exists>x. send_end e ptr p = Inr x))"
proof -
  have a: "accounts held (pc, acc, p)"
    using rdkafka.accounts_steps [OF assms(1,3) fresh_accounts [OF assms(2)]] .
  then have "\<exists>k. handle_of p = Inr k" by (auto simp: accounts_def handle_of_def)
  then show ?thesis using rdkafka.never_dangles [OF assms(1) a] by blast
qed

theorem producer_never_dangles_witness:
  "\<exists>p p'. (producer_step (ref_rdkafka 10) (=))\<^sup>*\<^sup>* (Outside, [], sample_producer) (Outside, [7], p) \<and>
     pollCallbacks (ref_rdkafka 10) 10 p = Inr p'"
  using sample_steps producer_never_dangles [OF ref.rdkafka_axioms sample_fresh, where t = 10] by blast

text \<open>C9. Closing a producer in any state that can be reached, with any time-out, returns; then the
  polling thread is gone, the callback of every send that was accepted has run exactly once,
  by the flush, by the final poll after a purge, or earlier, and every callback object is
  freed.\<close>

theorem close_runs_every_callback:
  assumes "rdkafka rd progress held" and "fresh held p0"
    and "(producer_step rd progress)\<^sup>*\<^sup>* (Outside, [], p0) (Outside, acc, p)"
  shows "\<exists>q. close rd timeout p = Inr q \<and> kp_opaques q = Map.empty \<and> mset (callbacks q) = mset acc \<and>
    \<not> kc_opened q \<and> \<not> kc_pollThread q"
  using rdkafka.close_ok [OF assms(1) rdkafka.accounts_steps [OF assms(1,3) fresh_accounts [OF assms(2)]]] .

theorem close_runs_every_callback_witness:
  "\<exists>p q. (producer_step (ref_rdkafka 10) (=))\<^sup>*\<^sup>* (Outside, [], sample_producer) (Outside, [7], p) \<and>
     close (ref_rdkafka 10) InfiniteTimeout p = Inr q \<and> kp_opaques q = Map.empty \<and>
     mset (callbacks q) = mset [7]"
  using sample_steps close_runs_every_callback [OF ref.rdkafka_axioms sample_fresh, where timeout = InfiniteTimeout]
  by blast

end
