(* ===== verification/Kafka_Wiring.thy ===== *)
theory Kafka_Wiring
  imports Core Kafka_Async
begin

text \<open>
  The collector's Kafka back end over the client library: what \<open>AsyncKafkaProducer\<close> of
  \<open>src/dataDelivery/kafka_delivery.cc\<close> passes to the producer's \<open>send\<close>, when the producer of a
  worker can be constructed from the configuration, and the life of a worker's producer from
  its construction in \<open>VendorPlumbing\<close>, through a run of the state machine, to its destructor.
  Other threads may run between any two steps of a send.
\<close>

section \<open>The record and its buffers\<close>

text \<open>\<open>kafka::Key(peer.c_str(), peer.size())\<close> and the same for the value: pointers to the two strings of
  the caller.\<close>

definition send_strings :: "string ProducerRecord \<Rightarrow> mem" where
  "send_strings r = [1 \<mapsto> pr_key r, 2 \<mapsto> pr_value r]"

definition with_buffers :: "string ProducerRecord \<Rightarrow> ConstBuffer ProducerRecord" where
  "with_buffers r =
     \<lparr>pr_topic = pr_topic r, pr_partition = pr_partition r,
      pr_key = \<lparr>cb_data = Some 1, cb_size = length (pr_key r)\<rparr>,
      pr_value = \<lparr>cb_data = Some 2, cb_size = length (pr_value r)\<rparr>,
      pr_headers = [], pr_id = pr_id r\<rparr>"

text \<open>The message librdkafka is handed: topic, partition, key and value of the record, all of them
  copied, and the opaque pointer. It does not depend on the memory afterwards.\<close>

lemma copies_flags:
  "copies (sint (msg_flags auto_polling ToCopyRecordValue action))"
  "\<not> copies (sint (msg_flags auto_polling NoCopyRecordValue action))"
  by (cases auto_polling; cases action;
      simp add: copies_def msg_flags_def RD_KAFKA_MSG_F_COPY_def RD_KAFKA_MSG_F_BLOCK_def)+

lemma collector_message:
  "vu_message (send_strings r) (send_vus (with_buffers r) (msg_flags auto_polling ToCopyRecordValue action) ptr) =
     Inr \<lparr>om_topic = Some (c_str (pr_topic r)), om_partition = pr_partition r, om_key = pr_key r,
          om_value = Copied (pr_value r), om_headers = [], om_opaque = Some ptr\<rparr>"
  using copies_flags(1) [of auto_polling action] read_buffer_ok [of "send_strings r" 1 "pr_key r"]
    read_buffer_ok [of "send_strings r" 2 "pr_value r"]
  by (simp add: vu_message_def send_vus_def with_buffers_def send_strings_def vu_payload_def read_opt_def)

section \<open>Sending among other threads\<close>

text \<open>What can happen to a producer while the sending thread does nothing.\<close>

inductive background_step ::
  "'k rdkafka \<Rightarrow> ('k \<Rightarrow> 'k \<Rightarrow> bool) \<Rightarrow> ('k, 'u) KafkaProducer \<Rightarrow> ('k, 'u) KafkaProducer \<Rightarrow> bool"
  for rd progress where
  "kc_pollThread p \<Longrightarrow> pollCallbacks rd 10 p = Inr p' \<Longrightarrow> background_step rd progress p p'"
| "kc_rk p = Some k \<Longrightarrow> progress k k' \<Longrightarrow> background_step rd progress p (p\<lparr>kc_rk := Some k'\<rparr>)"

text \<open>One call of \<open>send\<close> by \<open>AsyncKafkaProducer\<close>. The callback is identified by its record.\<close>

definition threaded_send ::
  "'k rdkafka \<Rightarrow> ('k \<Rightarrow> 'k \<Rightarrow> bool) \<Rightarrow> string ProducerRecord \<Rightarrow>
   ('k, string ProducerRecord) KafkaProducer \<Rightarrow> unit res \<times> ('k, string ProducerRecord) KafkaProducer \<Rightarrow> bool" where
  "threaded_send rd progress r p x =
     (\<exists>p0 ptr p1 p2 e p3 p4.
        (background_step rd progress)\<^sup>*\<^sup>* p p0 \<and>
        send_begin (with_buffers r) r p0 = (ptr, p1) \<and>
        (background_step rd progress)\<^sup>*\<^sup>* p1 p2 \<and>
        send_call rd (send_strings r) (with_buffers r) ToCopyRecordValue Block ptr p2 = Inr (e, p3) \<and>
        (background_step rd progress)\<^sup>*\<^sup>* p3 p4 \<and>
        send_end e ptr p4 = Inr x)"

text \<open>Without other threads it is the function \<open>send\<close>.\<close>

definition collector_send ::
  "'k rdkafka \<Rightarrow> ('k, string ProducerRecord) KafkaProducer \<Rightarrow> string ProducerRecord \<Rightarrow>
   (unit res \<times> ('k, string ProducerRecord) KafkaProducer) res" where
  "collector_send rd p r = send rd (send_strings r) (with_buffers r) r ToCopyRecordValue Block p"

lemma collector_send_threaded:
  "collector_send rd p r = Inr x \<Longrightarrow> threaded_send rd progress r p x"
  unfolding collector_send_def send_def threaded_send_def
  by (fastforce simp: bindr_eq_Inr split: prod.splits)

text \<open>A \<open>send\<close> that is such a call, whatever the other threads do meanwhile.\<close>

definition threaded ::
  "'k rdkafka \<Rightarrow> ('k \<Rightarrow> 'k \<Rightarrow> bool) \<Rightarrow>
   (('k, string ProducerRecord) KafkaProducer \<Rightarrow> string ProducerRecord \<Rightarrow>
     (unit res \<times> ('k, string ProducerRecord) KafkaProducer) res) \<Rightarrow> bool" where
  "threaded rd progress psend =
     (\<forall>p r x. psend p r = Inr x \<longrightarrow> threaded_send rd progress r p x)"

lemma threaded_collector_send: "threaded rd progress (collector_send rd)"
  using collector_send_threaded by (auto simp: threaded_def)

text \<open>A background step keeps the account and leaves the object that the sender owns alone.\<close>

context rdkafka
begin

lemma background_step_ok:
  assumes "background_step rd progress p p'" and "kc_rk p = Some k" and "account mine p (held k) acc"
  shows "\<exists>k'. kc_rk p' = Some k' \<and> account mine p' (held k') acc \<and>
    (\<forall>x\<in>mine. kp_opaques p' x = kp_opaques p x) \<and> kc_opened p' = kc_opened p"
  using assms(1)
proof cases
  case 1
  from pollCallbacks_ok [OF assms(2,3), of 10] obtain k' where k': "kc_rk p' = Some k'"
    "account mine p' (held k') acc" "\<forall>x\<in>mine. kp_opaques p' x = kp_opaques p x"
    "KafkaClient.truncate p' = (KafkaClient.truncate p)\<lparr>kc_rk := Some k'\<rparr>"
    using 1(2) by auto
  then show ?thesis using truncateD(1) [OF k'(4)] by (simp add: KafkaClient.truncate_def)
next
  case (2 k0 k')
  then show ?thesis using assms(2,3) progress [OF 2(3)] by simp
qed

lemma background_ok:
  assumes "(background_step rd progress)\<^sup>*\<^sup>* p p'" and "kc_rk p = Some k"
    and "account mine p (held k) acc"
  shows "\<exists>k'. kc_rk p' = Some k' \<and> account mine p' (held k') acc \<and>
    (\<forall>x\<in>mine. kp_opaques p' x = kp_opaques p x) \<and> kc_opened p' = kc_opened p"
  using assms(1)
proof (induction rule: rtranclp_induct)
  case base
  then show ?case using assms(2,3) by simp
next
  case (step q q')
  then obtain k' where k': "kc_rk q = Some k'" "account mine q (held k') acc"
    "\<forall>x\<in>mine. kp_opaques q x = kp_opaques p x" "kc_opened q = kc_opened p" by blast
  from background_step_ok [OF step(2) k'(1,2)] show ?case using k'(3,4) by auto
qed

text \<open>A send is accepted exactly when it returns, and then its callback is accounted for.\<close>

lemma threaded_send_ok:
  assumes "threaded_send rd progress r p (result, p')" and "accounts held (Outside, acc, p)"
  shows "accounts held (Outside, acc @ (if result = Inr () then [r] else []), p') \<and>
    kc_opened p' = kc_opened p"
proof -
  obtain p0 ptr p1 p2 e p3 p4 where s:
    "(background_step rd progress)\<^sup>*\<^sup>* p p0" "send_begin (with_buffers r) r p0 = (ptr, p1)"
    "(background_step rd progress)\<^sup>*\<^sup>* p1 p2"
    "send_call rd (send_strings r) (with_buffers r) ToCopyRecordValue Block ptr p2 = Inr (e, p3)"
    "(background_step rd progress)\<^sup>*\<^sup>* p3 p4" "send_end e ptr p4 = Inr (result, p')"
    using assms(1) by (auto simp: threaded_send_def)
  obtain k where k: "kc_rk p = Some k" "account {} p (held k) (mset acc)"
    using assms(2) by (auto simp: accounts_def)
  obtain k0 where k0: "kc_rk p0 = Some k0" "account {} p0 (held k0) (mset acc)" "kc_opened p0 = kc_opened p"
    using background_ok [OF s(1) k] by blast
  have 1: "account {ptr} p1 (held k0) (mset acc)" "kc_rk p1 = Some k0" "cb_at p1 ptr = r"
    "kc_opened p1 = kc_opened p"
    using allocate_owned [OF k0(2) s(2)] k0(1,3) s(2) by (auto simp: send_begin_def)
  obtain k2 where 2: "kc_rk p2 = Some k2" "account {ptr} p2 (held k2) (mset acc)"
    "kp_opaques p2 ptr = kp_opaques p1 ptr" "kc_opened p2 = kc_opened p"
    using background_ok [OF s(3) 1(2,1)] 1(4) by auto
  have cb: "cb_at p2 ptr = r" using 1(3) 2(3) by (simp add: cb_at_def)
  obtain e' k3 where 3: "e = Error_rich e'" "p3 = p2\<lparr>kc_rk := Some k3\<rparr>"
    "Error_bool (Error_rich e') = (e' \<noteq> None)"
    "if e' = None then account {} p3 (held k3) (mset (acc @ [r])) else account {ptr} p3 (held k3) (mset acc)"
  proof -
    from send_call_ok [OF 2(1,2) collector_message [of r "kc_auto_polling p2" Block ptr]]
    obtain e' p' k3 where c: "send_call rd (send_strings r) (with_buffers r) ToCopyRecordValue Block ptr p2 =
        Inr (Error_rich e', p')" "p' = p2\<lparr>kc_rk := Some k3\<rparr>" "Error_bool (Error_rich e') = (e' \<noteq> None)"
      "if e' = None then account {} p' (held k3) (mset (acc @ [cb_at p2 ptr]))
       else account {ptr} p' (held k3) (mset acc)" by blast
    have "e = Error_rich e'" "p3 = p'" using c(1) s(4) by simp_all
    then show thesis using that [of e' k3] c(2-4) cb by (cases e') simp_all
  qed
  have p3: "kc_rk p3 = Some k3" "kc_opened p3 = kc_opened p" using 3(2) 2(4) by simp_all
  show ?thesis
  proof (cases "e' = None")
    case True
    then have "account {} p3 (held k3) (mset (acc @ [r]))" using 3(4) by simp
    from background_ok [OF s(5) p3(1) this] obtain k4 where
      "kc_rk p4 = Some k4" "account {} p4 (held k4) (mset (acc @ [r]))" "kc_opened p4 = kc_opened p"
      using p3(2) by auto
    moreover have "result = Inr ()" "p' = p4"
      using s(6) 3(1,3) True by (auto simp: send_end_def throw_if_with_error_def)
    ultimately show ?thesis by (simp add: accounts_def)
  next
    case False
    then have "account {ptr} p3 (held k3) (mset acc)" using 3(4) by simp
    from background_ok [OF s(5) p3(1) this] obtain k4 where k4:
      "kc_rk p4 = Some k4" "account {ptr} p4 (held k4) (mset acc)" "kc_opened p4 = kc_opened p"
      using p3(2) by auto
    obtain p5 where p5: "delete_opaque ptr p4 = Inr p5" "account {} p5 (held k4) (mset acc)" "kc_rk p5 = kc_rk p4"
      by (rule delete_owned [OF k4(2)])
    have "result \<noteq> Inr ()" "p' = p5"
      using s(6) 3(1,3) False p5(1) by (auto simp: send_end_def throw_if_with_error_def throw_error_def)
    moreover have "kc_opened p5 = kc_opened p4"
      using p5(1) by (auto simp: delete_opaque_def split: option.splits)
    ultimately show ?thesis using p5(2,3) k4(1,3) by (simp add: accounts_def)
  qed
qed

end

section \<open>The records a producer accepted\<close>

definition send_accepting ::
  "('p \<Rightarrow> string ProducerRecord \<Rightarrow> (unit res \<times> 'p) res) \<Rightarrow> string ProducerRecord \<Rightarrow>
   string ProducerRecord list \<times> 'p \<Rightarrow> (string ProducerRecord list \<times> 'p) res" where
  "send_accepting psend r s =
     bindr (psend (snd s) r) (\<lambda>(result, p). Inr (if result = Inr () then fst s @ [r] else fst s, p))"

definition accepts ::
  "('p \<Rightarrow> string ProducerRecord \<Rightarrow> (unit res \<times> 'p) res) \<Rightarrow> string ProducerRecord list \<Rightarrow> 'p \<Rightarrow>
   string ProducerRecord list \<times> 'p \<Rightarrow> bool" where
  "accepts psend rs p x = (foldM (send_accepting psend) rs ([], p) = Inr x)"

lemma sends_accepting:
  assumes "sends psend rs p = Inr p'"
  shows "\<exists>as. foldM (send_accepting psend) rs (acc, p) = Inr (acc @ as, p') \<and> subseq as rs"
  using assms
proof (induction rs arbitrary: acc p)
  case Nil
  then show ?case by simp
next
  case (Cons r rs)
  obtain result p1 where r: "psend p r = Inr (result, p1)"
    using Cons.prems by (auto simp: sends_def bindr_eq_Inr)
  let ?a = "if result = Inr () then [r] else []"
  have "sends psend rs p1 = Inr p'" using Cons.prems r by (simp add: sends_Cons)
  then obtain as where as: "foldM (send_accepting psend) rs (acc @ ?a, p1) = Inr ((acc @ ?a) @ as, p')"
    "subseq as rs"
    using Cons.IH by blast
  have "send_accepting psend r (acc, p) = Inr (acc @ ?a, p1)" using r by (simp add: send_accepting_def)
  then have "foldM (send_accepting psend) (r # rs) (acc, p) = Inr (acc @ (?a @ as), p')"
    using as(1) by simp
  moreover have "subseq (?a @ as) (r # rs)" using as(2) by auto
  ultimately show ?case by blast
qed

context rdkafka
begin

lemma accepting_ok:
  assumes "threaded rd progress psend"
    and "foldM (send_accepting psend) rs (acc, p) = Inr (acc', p')" and "accounts held (Outside, acc, p)"
  shows "accounts held (Outside, acc', p') \<and> kc_opened p' = kc_opened p"
  using assms(2,3)
proof (induction rs arbitrary: acc p)
  case Nil
  then show ?case by simp
next
  case (Cons r rs)
  obtain result p1 where r: "psend p r = Inr (result, p1)"
    "foldM (send_accepting psend) rs (if result = Inr () then acc @ [r] else acc, p1) = Inr (acc', p')"
  proof -
    obtain x where x: "send_accepting psend r (acc, p) = Inr x"
      "foldM (send_accepting psend) rs x = Inr (acc', p')"
      using Cons.prems(1) by (auto simp: bindr_eq_Inr)
    then obtain result p1 where "psend p r = Inr (result, p1)"
      "x = (if result = Inr () then acc @ [r] else acc, p1)"
      by (auto simp: send_accepting_def bindr_eq_Inr)
    then show thesis using that x(2) by blast
  qed
  have "accounts held (Outside, if result = Inr () then acc @ [r] else acc, p1)" "kc_opened p1 = kc_opened p"
    using threaded_send_ok [of r p result p1 acc] assms(1) r(1) Cons.prems(2)
    by (auto simp: threaded_def split: if_splits)
  then show ?case using Cons.IH [OF r(2)] by simp
qed

text \<open>From a new producer through any sequence of sends to the destructor.\<close>

lemma sends_then_destroyed:
  assumes "threaded rd progress psend"
    and "sends psend rs p = Inr p'" and "fresh held p" and "kc_opened p"
  shows "\<exists>as q. accepts psend rs p (as, p') \<and> subseq as rs \<and> destroy_KafkaProducer rd p' = Inr q \<and>
    mset (callbacks q) = mset as \<and> kp_opaques q = Map.empty"
proof -
  obtain as where as: "foldM (send_accepting psend) rs ([], p) = Inr (as, p')" "subseq as rs"
    using sends_accepting [OF assms(2), of "[]"] by auto
  have a: "accounts held (Outside, as, p')" "kc_opened p'"
    using accepting_ok [OF assms(1) as(1) fresh_accounts [OF assms(3)]] assms(4) by simp_all
  obtain q where "close rd InfiniteTimeout p' = Inr q" "kp_opaques q = Map.empty"
    "mset (callbacks q) = mset as"
    using close_ok [OF a(1)] by blast
  then show ?thesis using as a(2) by (auto simp: destroy_KafkaProducer_def accepts_def)
qed

end

section \<open>Construction\<close>

text \<open>\<open>kafka_producer.emplace(kafka_delivery.get_properties())\<close>: the default arguments are automatic
  polling and no interceptors.\<close>

definition worker_producer ::
  "('c, 'k) rdkafka_conf \<Rightarrow> (exn \<Rightarrow> string) \<Rightarrow> string \<Rightarrow> Properties \<Rightarrow>
   ('k, string ProducerRecord) KafkaProducer res" where
  "worker_producer rc what random props = new_KafkaProducer rc what random props True True"

lemma as_producer_simps [simp]:
  "kc_rk (as_producer c) = kc_rk c" "kc_opened (as_producer c) = kc_opened c"
  "kc_auto_polling (as_producer c) = kc_auto_polling c"
  "kp_opaques (as_producer c) = Map.empty" "kp_delivered (as_producer c) = []"
  by (simp_all add: as_producer_def KafkaClient.extend_def)

lemma doLog_producer [simp]:
  "kp_opaques (doLog l m p) = kp_opaques p" "kp_delivered (doLog l m p) = kp_delivered p"
  by (simp_all add: doLog_def)

text \<open>A handle that \<open>rd_kafka_new\<close> made holds no message yet.\<close>

definition starts_empty :: "('c, 'k) rdkafka_conf \<Rightarrow> ('k \<Rightarrow> outmsg multiset) \<Rightarrow> bool" where
  "starts_empty rc held = (\<forall>consumer conf k code b. rd_new rc consumer conf = (Some k, code) \<longrightarrow>
     held (snd (rd_brokers_add rc k b)) = {#})"

text \<open>A new producer is open, polls in the background, and has nothing outstanding.\<close>

lemma new_KafkaProducer_fresh:
  assumes "new_KafkaProducer rc what random props True no_interceptors = Inr p"
    and "starts_empty rc held"
    and "finite (dom props)"
  shows "fresh held p \<and> kc_opened p \<and> kc_pollThread p"
proof -
  obtain q c where q: "producer_validate random props = Inr q"
    "fst (new_KafkaClient rc what Producer_client q True no_interceptors) = Inr c"
    "\<exists>msg. doLog Notice msg (startBackgroundPollingIfNecessary (as_producer c)) = p"
    using assms(1) unfolding new_KafkaProducer_def bindr_eq_Inr Let_def sum.inject by blast
  have "client_validate random props = Inr q"
    using q(1) by (auto simp: producer_validate_def bindr_eq_Inr)
  then have v: "finite (dom q)" "\<exists>s. q ''log_level'' = Some s"
    using assms(3) by (auto simp: client_validate_def getProperty_def put_def Let_def split: if_splits)
  then have c: "kc_opened c" "kc_auto_polling c"
    using new_KafkaClient_Inr [OF q(2) v(1)] by blast+
  obtain conf k code b where "rd_new rc (Producer_client = Consumer_client) conf = (Some k, code)"
    "kc_rk c = Some (snd (rd_brokers_add rc k b))"
    using new_KafkaClient_handle [OF q(2)] by blast
  then have "\<exists>k. kc_rk c = Some k \<and> held k = {#}" using assms(2) unfolding starts_empty_def by blast
  then show ?thesis using c q(3) by (auto simp: fresh_def startBackgroundPollingIfNecessary_def Let_def)
qed

text \<open>The collector's properties pass validation unchanged.\<close>

lemma producer_validate_collector:
  assumes "new_KafkaDelivery cfg = Inr kd"
  shows "producer_validate random (kd_properties kd) = Inr (kd_properties kd)"
    and "kd_properties kd ''log_level'' = Some (kd_log_level kd)"
    and "kd_properties kd ''bootstrap.servers'' = Some (kd_bootstrap_servers kd)"
    and "finite (dom (kd_properties kd))"
proof -
  note k = kd_properties_set [OF assms] set_kafka_properties_def
  show "producer_validate random (kd_properties kd) = Inr (kd_properties kd)"
    using client_validate_complete [of "kd_properties kd" random]
    by (simp add: producer_validate_def validate_partitioner_def validate_idempotence_def getProperty_def k)
qed (simp_all add: kd_properties_set [OF assms] set_kafka_properties_def)

text \<open>Every outcome of constructing a worker's producer, for any librdkafka: the log level must be
  a number from 0 to 7, \<open>rd_kafka_new\<close> must report no error for the worker's configuration, and
  it must take at least one of the brokers.\<close>

definition producer_handle ::
  "('c, 'k) rdkafka_conf \<Rightarrow> Properties \<Rightarrow> 'k option \<times> int" where
  "producer_handle rc props = rd_new rc False (client_conf rc props)"

lemma new_producer_outcome:
  assumes "new_KafkaDelivery cfg = Inr kd"
  shows "\<nexists>n. log_level_ok (kd_log_level kd) n \<Longrightarrow>
      \<exists>e. worker_producer rc what random (kd_properties kd) = Inl (Throw (Kafka_exception e)) \<and>
        Error_value e = RD_KAFKA_RESP_ERR_INVALID_ARG"
    and "log_level_ok (kd_log_level kd) n \<Longrightarrow>
      \<exists>p e1 e2. worker_producer rc what random (kd_properties kd) =
       (case producer_handle rc (kd_properties kd) of (handle, code) \<Rightarrow>
          if code \<noteq> 0 then Inl (Throw (Kafka_exception e1))
          else case handle of None \<Rightarrow> Inl (Undefined Null_dereference)
            | Some rk \<Rightarrow> if fst (rd_brokers_add rc rk (c_str (kd_bootstrap_servers kd))) = 0
                         then Inl (Throw (Kafka_exception e2)) else Inr p) \<and>
       Error_value e1 = snd (producer_handle rc (kd_properties kd)) \<and>
       Error_value e2 = RD_KAFKA_RESP_ERR_INVALID_ARG"
proof -
  note v = producer_validate_collector [OF assms(1)]
  note client = new_KafkaClient_outcome [OF v(2,3), where rd = rc and what = what and ty = Producer_client
      and auto_polling = True]
  have w: "worker_producer rc what random (kd_properties kd) =
      bindr (fst (new_KafkaClient rc what Producer_client (kd_properties kd) True True)) (\<lambda>c.
        let p = startBackgroundPollingIfNecessary (as_producer c)
        in Inr (doLog Notice (''initializes with properties['' @
             c_str (Properties_toString (kc_properties p)) @ '']'') p))"
    by (simp only: worker_producer_def new_KafkaProducer_def v(1) bindr_Inr)
  show "\<exists>e. worker_producer rc what random (kd_properties kd) = Inl (Throw (Kafka_exception e)) \<and>
        Error_value e = RD_KAFKA_RESP_ERR_INVALID_ARG"
    if "\<nexists>n. log_level_ok (kd_log_level kd) n"
    using client(1) [OF that] by (auto simp: w)
  show "\<exists>p e1 e2. worker_producer rc what random (kd_properties kd) =
       (case producer_handle rc (kd_properties kd) of (handle, code) \<Rightarrow>
          if code \<noteq> 0 then Inl (Throw (Kafka_exception e1))
          else case handle of None \<Rightarrow> Inl (Undefined Null_dereference)
            | Some rk \<Rightarrow> if fst (rd_brokers_add rc rk (c_str (kd_bootstrap_servers kd))) = 0
                         then Inl (Throw (Kafka_exception e2)) else Inr p) \<and>
       Error_value e1 = snd (producer_handle rc (kd_properties kd)) \<and>
       Error_value e2 = RD_KAFKA_RESP_ERR_INVALID_ARG"
    if n: "log_level_ok (kd_log_level kd) n"
  proof -
    obtain c e1 e2 where c: "fst (new_KafkaClient rc what Producer_client (kd_properties kd) True True) =
       (case producer_handle rc (kd_properties kd) of (handle, code) \<Rightarrow>
          if code \<noteq> 0 then Inl (Throw (Kafka_exception e1))
          else case handle of None \<Rightarrow> Inl (Undefined Null_dereference)
            | Some rk \<Rightarrow> if fst (rd_brokers_add rc rk (c_str (kd_bootstrap_servers kd))) = 0
                         then Inl (Throw (Kafka_exception e2)) else Inr c)"
       "Error_value e1 = snd (producer_handle rc (kd_properties kd))" "Error_value e2 = RD_KAFKA_RESP_ERR_INVALID_ARG"
      using client(2) [OF n] by (auto simp: producer_handle_def)
    obtain handle code where h: "producer_handle rc (kd_properties kd) = (handle, code)" by fastforce
    let ?p = "startBackgroundPollingIfNecessary (as_producer c) :: ('a, string ProducerRecord) KafkaProducer"
    let ?q = "doLog Notice (''initializes with properties['' @ c_str (Properties_toString (kc_properties ?p)) @ '']'') ?p"
    show ?thesis
      using c by (intro exI [of _ ?q] exI [of _ e1] exI [of _ e2]) (simp add: w h Let_def split: option.split)
  qed
qed

section \<open>The life of a worker's producer\<close>

context rdkafka
begin

text \<open>The send of the collector always has a defined outcome: it returns or throws a
  \<open>KafkaException\<close>.\<close>

lemma collector_send_total:
  assumes "accounts held (Outside, acc, p)"
  shows "\<exists>result p'. collector_send rd p r = Inr (result, p') \<and>
    (result = Inr () \<or> (\<exists>e. result = Inl (Throw (Kafka_exception e))))"
proof -
  obtain k where k: "kc_rk p = Some k" "account {} p (held k) (mset acc)"
    using assms by (auto simp: accounts_def)
  obtain ptr p1 where p1: "send_begin (with_buffers r) r p = (ptr, p1)" by fastforce
  have 1: "account {ptr} p1 (held k) (mset acc)" "kc_rk p1 = Some k"
    using allocate_owned [OF k(2) p1] k(1) by auto
  from send_call_ok [OF 1(2,1) collector_message [of r "kc_auto_polling p1" Block ptr]]
  obtain e p2 k2 where 2: "send_call rd (send_strings r) (with_buffers r) ToCopyRecordValue Block ptr p1 =
      Inr (Error_rich e, p2)" "Error_bool (Error_rich e) = (e \<noteq> None)"
    "if e = None then account {} p2 (held k2) (mset (acc @ [cb_at p1 ptr]))
     else account {ptr} p2 (held k2) (mset acc)" by blast
  have s: "collector_send rd p r = send_end (Error_rich e) ptr p2"
    using p1 2(1) by (simp add: collector_send_def send_def)
  show ?thesis
  proof (cases e)
    case None
    then show ?thesis using s 2(2) by (simp add: send_end_def throw_if_with_error_def)
  next
    case (Some x)
    then have "account {ptr} p2 (held k2) (mset acc)" using 2(3) by simp
    then obtain p3 where "delete_opaque ptr p2 = Inr p3" by (rule delete_owned)
    then show ?thesis using s 2(2) Some
      by (simp add: send_end_def throw_if_with_error_def throw_error_def)
  qed
qed

lemma collector_async_total:
  assumes "fresh held p"
  shows "\<exists>sent p'. AsyncKafkaProducer (collector_send rd) kd a body p = Inr (sent, p')"
proof (cases "body = []")
  case True
  then show ?thesis by (auto simp: AsyncKafkaProducer_def)
next
  case False
  obtain result p' where "collector_send rd p (new_ProducerRecord_UA (kd_topic kd) a body) = Inr (result, p')"
    "result = Inr () \<or> (\<exists>e. result = Inl (Throw (Kafka_exception e)))"
    using collector_send_total [OF fresh_accounts [OF assms]] by blast
  then show ?thesis using False by (auto simp: AsyncKafkaProducer_def catch_kafka_def)
qed

text \<open>A run of any of the four handlers that starts with a new producer.\<close>

lemma run_then_destroyed:
  assumes "vendor_stream handle E ctx payload" and "json_lib (e_json E)" and "prints (e_json E)"
    and "cx_delivery ctx = Kafka" and "RunFsm handle m events w = Inr s"
    and "o_kafka_producer w = Some p" and "fresh held p" and "kc_opened p"
    and "threaded rd progress (e_send E)"
  shows "\<exists>rs as p' q. o_kafka_producer (world s) = Some p' \<and>
    all_published E ctx w (bodies payload (handled handle m events (Spawn (fsm_init w)))) rs \<and>
    accepts (e_send E) rs p (as, p') \<and> subseq as rs \<and> destroy_KafkaProducer rd p' = Inr q \<and>
    mset (callbacks q) = mset as \<and> kp_opaques q = Map.empty"
proof -
  obtain rs p' where r: "o_kafka_producer (world s) = Some p'" "sends (e_send E) rs p = Inr p'"
    "all_published E ctx w (bodies payload (handled handle m events (Spawn (fsm_init w)))) rs"
    using vendor_stream.run_publishes [OF assms(1-6)] by blast
  show ?thesis using sends_then_destroyed [OF assms(9) r(2) assms(7,8)] r(1,3) by blast
qed

end

lemma kafka_plumbing:
  assumes "new_VendorPlumbing new_producer connect c = Inr pl"
    and "main_cfg_parameters c ''data_delivery_method'' = Some ''kafka''"
  shows "\<exists>kd p. new_KafkaDelivery (kafka_delivery_cfg_parameters c) = Inr kd \<and>
    new_producer (kd_properties kd) = Inr p \<and> vp_kafka_producer pl = Some p \<and> vp_delivery pl = Kafka"
  using assms by (auto simp: new_VendorPlumbing_def bindr_eq_Inr)

section \<open>Sample values\<close>

text \<open>A librdkafka that accepts every setting, and the configuration of a Kafka worker.\<close>

definition ref_conf :: "(unit, outmsg list) rdkafka_conf" where
  "ref_conf = \<lparr>rd_conf_new = (), rd_conf_set = (\<lambda>_ _ _. (0, ())), rd_interceptor_add = (\<lambda>c. (0, c)),
     rd_new = (\<lambda>_ _. (Some [], 0)), rd_brokers_add = (\<lambda>k _. (1, k))\<rparr>"

lemma ref_conf_ok: "starts_empty ref_conf mset"
  by (simp add: starts_empty_def ref_conf_def)

definition sample_worker_cfg :: cfg where
  "sample_worker_cfg =
     \<lparr>main_cfg_parameters = [''data_delivery_method'' \<mapsto> ''kafka'', ''writer_id'' \<mapsto> ''w'', ''replies_cisco'' \<mapsto> ''0''],
      data_manipulation_cfg_parameters = [''enable_label_encode_as_map'' \<mapsto> ''false'',
        ''enable_label_encode_as_map_ptm'' \<mapsto> ''false'', ''enable_cisco_gpbkv2json'' \<mapsto> ''true'',
        ''enable_cisco_message_to_json_string'' \<mapsto> ''false''],
      kafka_delivery_cfg_parameters = map_of (map (\<lambda>k. (k, if k = ''log_level'' then ''6'' else ''x'')) kafka_cfg_keys),
      zmq_delivery_cfg_parameters = [''zmq_uri'' \<mapsto> ''u'']\<rparr>"

definition ref_env :: "(jvalue, (outmsg list, string ProducerRecord) KafkaProducer, unit) env" where
  "ref_env = \<lparr>e_json = ref_json, e_send = collector_send (ref_rdkafka 10), e_avail = (\<lambda>_. True),
     e_zmq_send = (\<lambda>q _. Sent q)\<rparr>"

abbreviation ref_producer :: "Properties \<Rightarrow> (outmsg list, string ProducerRecord) KafkaProducer res" where
  "ref_producer \<equiv> worker_producer ref_conf (\<lambda>_. []) ''r''"

lemma log_level_6: "log_level_ok ''6'' 6"
proof -
  have "stoi ''6'' = Inr 6" by code_simp
  then show ?thesis by (simp add: log_level_ok_def)
qed

lemma sample_worker_kd:
  "\<exists>kd. new_KafkaDelivery (kafka_delivery_cfg_parameters sample_worker_cfg) = Inr kd \<and> kd_log_level kd = ''6''"
  by (simp add: new_KafkaDelivery_def sample_worker_cfg_def kafka_cfg_keys_def Let_def)

lemma sample_worker_plumbing:
  obtains pl p ctx where "new_VendorPlumbing ref_producer (\<lambda>_. Inr ()) sample_worker_cfg = Inr pl"
    and "vp_kafka_producer pl = Some p" and "fresh mset p" and "vp_delivery pl = Kafka"
    and "vendor_context ''replies_cisco'' sample_worker_cfg pl = Inr ctx" and "cx_max_replies ctx = 0"
    and "cx_delivery ctx = Kafka" and "cx_label_encode ctx = False"
proof -
  obtain kd where kd: "new_KafkaDelivery (kafka_delivery_cfg_parameters sample_worker_cfg) = Inr kd"
    "kd_log_level kd = ''6''" using sample_worker_kd by blast
  have ok: "log_level_ok (kd_log_level kd) 6" unfolding kd(2) by (rule log_level_6)
  obtain p :: "(outmsg list, string ProducerRecord) KafkaProducer" where p: "ref_producer (kd_properties kd) = Inr p"
    using new_producer_outcome(2) [OF kd(1) ok, of ref_conf "\<lambda>_. []" "''r''"]
    by (auto simp: producer_handle_def ref_conf_def)
  have f: "fresh mset p"
    using new_KafkaProducer_fresh [OF p [unfolded worker_producer_def] ref_conf_ok producer_validate_collector(4) [OF kd(1)]] by simp
  have z: "stoi ''0'' = Inr 0" by code_simp
  have m: "main_cfg_parameters sample_worker_cfg ''data_delivery_method'' = Some ''kafka''"
    "main_cfg_parameters sample_worker_cfg ''writer_id'' = Some ''w''"
    "main_cfg_parameters sample_worker_cfg ''replies_cisco'' = Some ''0''"
    "data_manipulation_cfg_parameters sample_worker_cfg ''enable_label_encode_as_map'' = Some ''false''"
    "data_manipulation_cfg_parameters sample_worker_cfg ''enable_label_encode_as_map_ptm'' = Some ''false''"
    "zmq_delivery_cfg_parameters sample_worker_cfg ''zmq_uri'' = Some ''u''"
    by (simp_all add: sample_worker_cfg_def)
  let ?pl = "\<lparr>vp_data_manipulation = new_DataManipulation, vp_data_wrapper = new_DataWrapper,
            vp_kafka_delivery = kd, vp_zmq_uri = ''u'', vp_kafka_producer = Some p,
            vp_zmq_sock = None, vp_delivery = Kafka, vp_label_encode = False, vp_writer_id = ''w''\<rparr>"
  have "new_VendorPlumbing ref_producer (\<lambda>_. Inr ()) sample_worker_cfg = Inr ?pl"
    by (simp add: new_VendorPlumbing_def kd(1) p m)
  then show thesis using that [of ?pl p] f by (simp add: vendor_context_def m z)
qed

lemma sample_worker_run:
  obtains s where "CiscoFsmCtrl ref_env ref_producer (\<lambda>_. Inr ()) sample_json (\<lambda>_. []) sample_worker_cfg
    Map.empty empty_heap (accept_first (sample_message sample_cisco) # reads 0 [sample_message sample_cisco]) = Inr s"
proof -
  obtain pl p ctx where c: "new_VendorPlumbing ref_producer (\<lambda>_. Inr ()) sample_worker_cfg = Inr pl"
    "vp_kafka_producer pl = Some p" "fresh mset p" "vp_delivery pl = Kafka"
    "vendor_context ''replies_cisco'' sample_worker_cfg pl = Inr ctx" "cx_max_replies ctx = 0"
    "cx_delivery ctx = Kafka" "cx_label_encode ctx = False"
    by (rule sample_worker_plumbing)
  let ?ctx = "Context.extend ctx (CiscoContext.fields True False)"
  let ?w = "plumbing_objects Map.empty empty_heap pl"
  have x: "cx_delivery ?ctx = Kafka" "\<not> cx_label_encode ?ctx" "cx_max_replies ?ctx = 0"
    using c(6-8) by (simp_all add: Context.extend_def)
  have w: "o_kafka_producer ?w = Some p" using c(2) by (simp add: plumbing_objects_def)
  have e: "e_json ref_env = ref_json" "e_send ref_env = collector_send (ref_rdkafka 10)"
    by (simp_all add: ref_env_def)
  have parse: "j_parse (e_json ref_env) ''{}'' = Inr (True, JObject [])" by (simp add: e ref_parse_def)
  have pay: "cisco_payload ref_env sample_json (\<lambda>_. []) ?ctx (m_request (sample_message sample_cisco)) = Inr (Some ''{}'')"
    by (simp add: sample_request sample_cisco_payload)
  have j: "json_lib (e_json ref_env)" using ref_json_ok(1) by (simp add: e)
  have st: "stoi (port \<lparr>ip = ''1.1.1.1'', port = ''5678''\<rparr>) = Inr 5678" by (simp add: stoi_5678)
  have a: "\<And>body. \<exists>sent k'. AsyncKafkaProducer (e_send ref_env) (o_kafka_delivery ?w)
      (ip \<lparr>ip = ''1.1.1.1'', port = ''5678''\<rparr>) body p = Inr (sent, k')"
    unfolding e using ref.collector_async_total [OF c(3)] by blast
  have l: "cx_label_encode ?ctx \<longrightarrow> label_entry_ok (o_label_map ?w) (ip \<lparr>ip = ''1.1.1.1'', port = ''5678''\<rparr>)"
    using x(2) by blast
  obtain w' where "Cisco_HandleMessage ref_env sample_json (\<lambda>_. []) ?ctx (sample_message sample_cisco) ?w = Inr w'"
    using cisco.kafka_returns [OF j x(1) pay sample_peer st parse l w a] by blast
  then obtain s where "RunFsm (Cisco_HandleMessage ref_env sample_json (\<lambda>_. []) ?ctx) 0
      (accept_first (sample_message sample_cisco) # reads 0 [sample_message sample_cisco]) ?w = Inr s"
    by (rule serve_one) auto
  then have "CiscoFsmCtrl ref_env ref_producer (\<lambda>_. Inr ()) sample_json (\<lambda>_. []) sample_worker_cfg
    Map.empty empty_heap (accept_first (sample_message sample_cisco) # reads 0 [sample_message sample_cisco]) = Inr s"
    using c(1,5) x(3) by (simp add: CiscoFsmCtrl_def sample_worker_cfg_def)
  then show thesis by (rule that)
qed

section \<open>Properties\<close>

text \<open>C2. The life of a Cisco worker's producer, for any librdkafka that keeps its contract and any
  interleaving of its threads: the worker constructs the producer, each message with a body is
  sent as one record, and when the worker ends the destructor returns, the callback of every
  record that was accepted has run exactly once, and no callback object is left.\<close>

theorem kafka_worker_reports_all:
  assumes "rdkafka rd progress held"
    and "starts_empty rc held"
    and "threaded rd progress (e_send E)"
    and "json_lib (e_json E)" and "prints (e_json E)"
    and "main_cfg_parameters c ''data_delivery_method'' = Some ''kafka''"
    and "CiscoFsmCtrl E (worker_producer rc what random) connect
      parse_tlm tlm_json c lm h events = Inr s"
  shows "\<exists>pl ctx p rs as p' q. vp_kafka_producer pl = Some p \<and> o_kafka_producer (world s) = Some p' \<and>
    all_published E ctx (plumbing_objects lm h pl) (bodies (cisco_payload E parse_tlm tlm_json ctx)
      (handled (Cisco_HandleMessage E parse_tlm tlm_json ctx) (cx_max_replies ctx) events
        (Spawn (fsm_init (plumbing_objects lm h pl))))) rs \<and>
    accepts (e_send E) rs p (as, p') \<and> subseq as rs \<and>
    destroy_KafkaProducer rd p' = Inr q \<and> mset (callbacks q) = mset as \<and> kp_opaques q = Map.empty"
proof -
  let ?np = "worker_producer rc what random"
  obtain pl ctx0 kv mj where f: "new_VendorPlumbing ?np connect c = Inr pl"
    "vendor_context ''replies_cisco'' c pl = Inr ctx0"
    "RunFsm (Cisco_HandleMessage E parse_tlm tlm_json
       (Context.extend ctx0 (CiscoContext.fields (kv = ''true'') (mj = ''true''))))
       (cx_max_replies (Context.extend ctx0 (CiscoContext.fields (kv = ''true'') (mj = ''true'')))) events
       (plumbing_objects lm h pl) = Inr s"
    using assms(7) by (auto simp: CiscoFsmCtrl_def bindr_eq_Inr Let_def)
  let ?ctx = "Context.extend ctx0 (CiscoContext.fields (kv = ''true'') (mj = ''true''))"
  obtain kd p where p: "new_KafkaDelivery (kafka_delivery_cfg_parameters c) = Inr kd"
    "?np (kd_properties kd) = Inr p" "vp_kafka_producer pl = Some p" "vp_delivery pl = Kafka"
    using kafka_plumbing [OF f(1) assms(6)] by blast
  have fresh: "fresh held p" "kc_opened p"
    using new_KafkaProducer_fresh [OF p(2) [unfolded worker_producer_def] assms(2) producer_validate_collector(4) [OF p(1)]] by simp_all
  have k: "cx_delivery ?ctx = Kafka"
    using f(2) p(4) by (auto simp: vendor_context_def bindr_eq_Inr Context.extend_def)
  have w: "o_kafka_producer (plumbing_objects lm h pl) = Some p"
    using p(3) by (simp add: plumbing_objects_def)
  from rdkafka.run_then_destroyed [OF assms(1) cisco.vendor_stream_axioms assms(4,5) k f(3) w fresh assms(3)]
  show ?thesis using p(3) by blast
qed

theorem kafka_worker_reports_all_witness:
  "\<exists>s p' q. CiscoFsmCtrl ref_env ref_producer (\<lambda>_. Inr ()) sample_json (\<lambda>_. []) sample_worker_cfg
    Map.empty empty_heap (accept_first (sample_message sample_cisco) # reads 0 [sample_message sample_cisco]) = Inr s \<and>
    o_kafka_producer (world s) = Some p' \<and> destroy_KafkaProducer (ref_rdkafka 10) p' = Inr q \<and>
    kp_opaques q = Map.empty"
proof -
  obtain s where s: "CiscoFsmCtrl ref_env ref_producer (\<lambda>_. Inr ()) sample_json (\<lambda>_. []) sample_worker_cfg
    Map.empty empty_heap (accept_first (sample_message sample_cisco) # reads 0 [sample_message sample_cisco]) = Inr s"
    by (rule sample_worker_run)
  have e: "threaded (ref_rdkafka 10) (=) (e_send ref_env)" "json_lib (e_json ref_env)" "prints (e_json ref_env)"
    using ref_json_ok threaded_collector_send by (simp_all add: ref_env_def)
  have k: "main_cfg_parameters sample_worker_cfg ''data_delivery_method'' = Some ''kafka''"
    by (simp add: sample_worker_cfg_def)
  from kafka_worker_reports_all [OF ref.rdkafka_axioms ref_conf_ok e k s] show ?thesis
    using s by blast
qed

text \<open>C28. What a call of \<open>AsyncKafkaProducer\<close> with a body hands over to a librdkafka that keeps its
  contract: nothing when it reports failure, and when it reports success exactly one message on
  the configured topic, with the partition left open, the peer's address as key, the JSON
  text as value, byte for byte and copied (so it does not depend on the caller's strings after
  the call), without headers, and with the new callback object as opaque pointer.\<close>

theorem collector_hands_over:
  assumes "rdkafka rd progress held" and "kc_rk p = Some k" and "body \<noteq> []"
    and "AsyncKafkaProducer (collector_send rd) kd peer body p = Inr (sent, p')"
  shows "\<exists>k'. kc_rk p' = Some k' \<and> held k' = held k + (if sent then
      {# \<lparr>om_topic = Some (c_str (kd_topic kd)), om_partition = RD_KAFKA_PARTITION_UA, om_key = peer,
           om_value = Copied body, om_headers = [], om_opaque = Some (kp_next p)\<rparr> #} else {#}) \<and>
    (sent \<longrightarrow> kp_opaques p' (kp_next p) =
       Some \<lparr>dc_recordId = None, dc_deliveryCb = new_ProducerRecord_UA (kd_topic kd) peer body\<rparr>)"
proof -
  let ?r = "new_ProducerRecord_UA (kd_topic kd) peer body"
  obtain result where c: "collector_send rd p ?r = Inr (result, p')" "catch_kafka result = Inr sent"
    using assms(3,4) by (auto simp: AsyncKafkaProducer_def bindr_eq_Inr)
  obtain ptr p1 where p1: "send_begin (with_buffers ?r) ?r p = (ptr, p1)" by fastforce
  then have ptr: "ptr = kp_next p" "kc_rk p1 = Some k"
    "kp_opaques p1 ptr = Some \<lparr>dc_recordId = pr_id (with_buffers ?r), dc_deliveryCb = ?r\<rparr>"
    using assms(2) by (auto simp: send_begin_def)
  let ?vus = "send_vus (with_buffers ?r) (msg_flags (kc_auto_polling p1) ToCopyRecordValue Block) ptr"
  obtain e k' where k': "rk_produceva rd k (send_strings ?r) ?vus = (e, k')" by fastforce
  note held = rdkafka.produceva [OF assms(1) collector_message [of ?r "kc_auto_polling p1" Block ptr] k']
  have s: "send_end (Error_rich e) ptr (p1\<lparr>kc_rk := Some k'\<rparr>) = Inr (result, p')"
    using c(1) by (simp add: collector_send_def send_def p1 send_call_def handle_of_def ptr(2) k')
  show ?thesis
  proof (cases e)
    case None
    then have "result = Inr ()" "p' = p1\<lparr>kc_rk := Some k'\<rparr>"
      using s by (auto simp: send_end_def throw_if_with_error_def Error_bool_def)
    moreover have "sent" using c(2) \<open>result = Inr ()\<close> by (simp add: catch_kafka_def)
    ultimately show ?thesis
      using held None ptr by (simp add: new_ProducerRecord_UA_def new_ProducerRecord_def with_buffers_def)
  next
    case (Some x)
    then have x: "rke_code x \<noteq> 0" "held k' = held k" using held by simp_all
    then have "\<exists>err. result = Inl (Throw (Kafka_exception err))" "kc_rk p' = Some k'"
      using s Some by (auto simp: send_end_def throw_if_with_error_def throw_error_def Error_bool_def
          delete_opaque_def bindr_eq_Inr split: option.splits)
    moreover have "\<not> sent" using c(2) calculation(1) by (auto simp: catch_kafka_def)
    ultimately show ?thesis using x(2) by simp
  qed
qed

definition idle_producer :: "(outmsg list, string ProducerRecord) KafkaProducer" where
  "idle_producer = KafkaClient.extend ((blank_client True)\<lparr>kc_rk := Some [], kc_opened := True\<rparr>)
     \<lparr>kp_opaques = Map.empty, kp_next = 1, kp_delivered = []\<rparr>"

theorem collector_hands_over_witness:
  "\<exists>p' k'. AsyncKafkaProducer (collector_send (ref_rdkafka 10)) sample_kd ''1.1.1.1'' ''{}'' idle_producer =
      Inr (True, p') \<and> kc_rk p' = Some k' \<and>
    mset k' = {# \<lparr>om_topic = Some ''t'', om_partition = RD_KAFKA_PARTITION_UA, om_key = ''1.1.1.1'',
      om_value = Copied ''{}'', om_headers = [], om_opaque = Some 1\<rparr> #}"
proof -
  let ?r = "new_ProducerRecord_UA ''t'' ''1.1.1.1'' ''{}''"
  have k: "kc_rk idle_producer = Some []" "kp_next idle_producer = 1" "kd_topic sample_kd = ''t''"
    by (simp_all add: idle_producer_def KafkaClient.extend_def sample_kd_def)
  have "\<exists>p'. collector_send (ref_rdkafka 10) idle_producer ?r = Inr (Inr (), p')"
    using k by (simp add: collector_send_def send_def send_begin_def send_call_def handle_of_def ref_rdkafka_def
        collector_message send_end_def throw_if_with_error_def Error_bool_def)
  then obtain p' where p': "AsyncKafkaProducer (collector_send (ref_rdkafka 10)) sample_kd ''1.1.1.1'' ''{}''
      idle_producer = Inr (True, p')"
    by (auto simp: AsyncKafkaProducer_def k(3) catch_kafka_def)
  show ?thesis
    using collector_hands_over [OF ref.rdkafka_axioms k(1) _ p'] p' k(2,3) by (auto simp: c_str_def)
qed

end
