(* ===== verification/Kafka_Metadata.thy ===== *)
theory Kafka_Metadata
  imports Kafka_Client "HOL-Library.Product_Lexorder"
begin

text \<open>
  Topics, partitions and broker metadata of the Kafka client library: the conversions between
  its sets and maps and librdkafka's lists (\<open>src/include/kafka/RdKafkaHelper.h\<close>), their printed
  forms (Types.h), the class \<open>BrokerMetadata\<close> (BrokerMetadata.h) and
  \<open>KafkaClient::fetchBrokerMetadata\<close> with the callbacks that only log or dispatch
  (KafkaClient.h). The lemmas show that the conversions lose nothing and what fetched metadata
  contains.
\<close>

section \<open>Topics and partitions\<close>

type_synonym TopicPartition = "string \<times> int"
type_synonym TopicPartitionOffsets = "TopicPartition \<rightharpoonup> int"

text \<open>The entries of a \<open>std::map\<close> in its order, and the loops that append to a string with a comma
  unless the string is still empty.\<close>

definition map_entries :: "('k :: linorder \<rightharpoonup> 'v) \<Rightarrow> ('k \<times> 'v) list" where
  "map_entries m = map (\<lambda>k. (k, the (m k))) (sorted_list_of_set (dom m))"

definition append_all :: "('a \<Rightarrow> string) \<Rightarrow> 'a list \<Rightarrow> string" where
  "append_all f xs = fold (\<lambda>x ret. ret @ (if ret = [] then [] else '','') @ f x) xs []"

definition Topics_toString :: "string set \<Rightarrow> string" where
  "Topics_toString topics = append_all (\<lambda>t. t) (sorted_list_of_set topics)"

definition TopicPartition_toString :: "TopicPartition \<Rightarrow> string" where
  "TopicPartition_toString tp = fst tp @ ''-'' @ dec_of_int (snd tp)"

definition TopicPartitions_toString :: "TopicPartition set \<Rightarrow> string" where
  "TopicPartitions_toString tps = append_all TopicPartition_toString (sorted_list_of_set tps)"

definition TopicPartitionOffset_toString :: "string \<times> int \<times> int \<Rightarrow> string" where
  "TopicPartitionOffset_toString = (\<lambda>(t, p, off). t @ ''-'' @ dec_of_int p @ '':'' @ dec_of_int off)"

definition TopicPartitionOffsets_toString :: "TopicPartitionOffsets \<Rightarrow> string" where
  "TopicPartitionOffsets_toString tpos =
     append_all (\<lambda>((t, p), off). TopicPartitionOffset_toString (t, p, off)) (map_entries tpos)"

section \<open>Conversions\<close>

record rd_kafka_topic_partition =
  tpe_topic :: string
  tpe_partition :: int
  tpe_offset :: int

text \<open>A list of librdkafka can be null.\<close>

definition getTopicPartitionOffsets :: "rd_kafka_topic_partition list option \<Rightarrow> TopicPartitionOffsets" where
  "getTopicPartitionOffsets rk_tpos =
     fold (\<lambda>e ret. ret((tpe_topic e, tpe_partition e) \<mapsto> tpe_offset e))
       (case rk_tpos of None \<Rightarrow> [] | Some es \<Rightarrow> es) Map.empty"

definition getTopics :: "rd_kafka_topic_partition list option \<Rightarrow> string set" where
  "getTopics rk_topics = fold (\<lambda>e. insert (tpe_topic e)) (case rk_topics of None \<Rightarrow> [] | Some es \<Rightarrow> es) {}"

definition getTopicPartitions :: "rd_kafka_topic_partition list option \<Rightarrow> TopicPartition set" where
  "getTopicPartitions rk_tpos =
     fold (\<lambda>e. insert (tpe_topic e, tpe_partition e)) (case rk_tpos of None \<Rightarrow> [] | Some es \<Rightarrow> es) {}"

definition createRkTopicPartitionList :: "TopicPartitionOffsets \<Rightarrow> rd_kafka_topic_partition list" where
  "createRkTopicPartitionList tpos =
     map (\<lambda>((t, p), off). \<lparr>tpe_topic = c_str t, tpe_partition = p, tpe_offset = off\<rparr>) (map_entries tpos)"

definition createRkList_of_partitions :: "TopicPartition set \<Rightarrow> rd_kafka_topic_partition list" where
  "createRkList_of_partitions tps =
     createRkTopicPartitionList (\<lambda>tp. if tp \<in> tps then Some RD_KAFKA_OFFSET_INVALID else None)"

definition createRkList_of_topics :: "string set \<Rightarrow> rd_kafka_topic_partition list" where
  "createRkList_of_topics topics =
     createRkTopicPartitionList (\<lambda>(t, p). if t \<in> topics \<and> p = RD_KAFKA_PARTITION_UA
       then Some RD_KAFKA_OFFSET_INVALID else None)"

section \<open>Broker metadata\<close>

record Node =
  nd_id :: int
  nd_host :: string
  nd_port :: int

record PartitionInfo =
  pi_leader :: int
  pi_replicas :: "int list"
  pi_inSyncReplicas :: "int list"

record BrokerMetadata =
  bm_topic :: string
  bm_origNodeName :: string
  bm_nodes :: "int \<rightharpoonup> Node"
  bm_partitions :: "int \<rightharpoonup> PartitionInfo"

definition new_BrokerMetadata :: "string \<Rightarrow> BrokerMetadata" where
  "new_BrokerMetadata topic =
     \<lparr>bm_topic = topic, bm_origNodeName = [], bm_nodes = Map.empty, bm_partitions = Map.empty\<rparr>"

definition addReplica :: "int \<Rightarrow> PartitionInfo \<Rightarrow> PartitionInfo" where
  "addReplica i pi = pi\<lparr>pi_replicas := pi_replicas pi @ [i]\<rparr>"

definition addInSyncReplica :: "int \<Rightarrow> PartitionInfo \<Rightarrow> PartitionInfo" where
  "addInSyncReplica i pi = pi\<lparr>pi_inSyncReplicas := pi_inSyncReplicas pi @ [i]\<rparr>"

definition addNode :: "int \<Rightarrow> string \<Rightarrow> int \<Rightarrow> BrokerMetadata \<Rightarrow> BrokerMetadata" where
  "addNode nodeId host port_nr md =
     md\<lparr>bm_nodes := (bm_nodes md)(nodeId \<mapsto> \<lparr>nd_id = nodeId, nd_host = host, nd_port = port_nr\<rparr>)\<rparr>"

text \<open>\<open>std::map::emplace\<close> keeps a partition that is already there.\<close>

definition addPartitionInfo :: "int \<Rightarrow> PartitionInfo \<Rightarrow> BrokerMetadata \<Rightarrow> BrokerMetadata" where
  "addPartitionInfo part info md = md\<lparr>bm_partitions := emplace (bm_partitions md) part info\<rparr>"

definition nodes_of :: "BrokerMetadata \<Rightarrow> Node list" where
  "nodes_of md = map snd (map_entries (bm_nodes md))"

definition getNodeDescription :: "BrokerMetadata \<Rightarrow> int \<Rightarrow> string" where
  "getNodeDescription md i =
     (case bm_nodes md i of
        None \<Rightarrow> ''-:-/'' @ dec_of_int i
      | Some n \<Rightarrow> nd_host n @ '':'' @ dec_of_int (nd_port n) @ ''/'' @ dec_of_int i)"

text \<open>Here the separator is decided by a flag.\<close>

definition separated :: "string \<Rightarrow> ('a \<Rightarrow> string) \<Rightarrow> 'a list \<Rightarrow> string" where
  "separated sep f xs =
     fst (fold (\<lambda>x (out, isTheFirst). (out @ (if isTheFirst then [] else sep) @ f x, False)) xs ([], True))"

definition PartitionInfo_toString :: "BrokerMetadata \<Rightarrow> PartitionInfo \<Rightarrow> string" where
  "PartitionInfo_toString md info =
     ''leader['' @ getNodeDescription md (pi_leader info) @ ''], replicas['' @
     separated '', '' (getNodeDescription md) (pi_replicas info) @ ''], inSyncReplicas['' @
     separated '', '' (getNodeDescription md) (pi_inSyncReplicas info) @ '']''"

definition BrokerMetadata_toString :: "BrokerMetadata \<Rightarrow> string" where
  "BrokerMetadata_toString md =
     ''originatingNode['' @ bm_origNodeName md @ ''], topic['' @ bm_topic md @ ''], partitions{'' @
     separated ''; '' (\<lambda>(part, info). dec_of_int part @ '': '' @ PartitionInfo_toString md info)
       (map_entries (bm_partitions md)) @ ''}''"

section \<open>Fetching metadata\<close>

text \<open>librdkafka's metadata: brokers with id, host and port, topics, and the broker that answered.\<close>

record rd_kafka_metadata_partition =
  mp_id :: int
  mp_err :: int
  mp_leader :: int
  mp_replicas :: "int list"
  mp_isrs :: "int list"

record rd_kafka_metadata_topic =
  mt_topic :: string
  mt_partitions :: "rd_kafka_metadata_partition list"
  mt_err :: int

record rd_kafka_metadata =
  rkm_brokers :: "(int \<times> string \<times> int) list"
  rkm_topics :: "rd_kafka_metadata_topic list"
  rkm_orig_broker_name :: "string option"

definition partition_info :: "rd_kafka_metadata_partition \<Rightarrow> PartitionInfo" where
  "partition_info mp =
     fold addInSyncReplica (mp_isrs mp) (fold addReplica (mp_replicas mp)
       \<lparr>pi_leader = mp_leader mp, pi_replicas = [], pi_inSyncReplicas = []\<rparr>)"

text \<open>A turn of the loop over the partitions, with the client that logs.\<close>

definition add_partition ::
  "(int \<Rightarrow> string) \<Rightarrow> bool \<Rightarrow> string \<Rightarrow> rd_kafka_metadata_partition \<Rightarrow>
   BrokerMetadata \<times> ('k, 'z) KafkaClient_scheme \<Rightarrow> BrokerMetadata \<times> ('k, 'z) KafkaClient_scheme" where
  "add_partition err2str quiet topic mp = (\<lambda>(md, c).
     if mp_err mp \<noteq> 0 then
       (md, if quiet then c
            else doLog Err (''got error['' @ err2str (mp_err mp) @
              ''] while constructing BrokerMetadata for topic['' @ c_str topic @ '']-partition['' @
              dec_of_int (mp_id mp) @ '']'') c)
     else (addPartitionInfo (mp_id mp) (partition_info mp) md, c))"

text \<open>\<open>rd_metadata\<close> is \<open>rd_kafka_metadata\<close> for all topics: its error and what it leaves in the
  pointer.\<close>

definition fetchBrokerMetadata ::
  "('k \<Rightarrow> int \<Rightarrow> int \<times> rd_kafka_metadata option) \<Rightarrow> (int \<Rightarrow> string) \<Rightarrow> string \<Rightarrow> int \<Rightarrow> bool \<Rightarrow>
   ('k, 'z) KafkaClient_scheme \<Rightarrow> (BrokerMetadata option \<times> ('k, 'z) KafkaClient_scheme) res" where
  "fetchBrokerMetadata rd_metadata err2str topic timeout quiet c =
     (case kc_rk c of
        None \<Rightarrow> Inl (Undefined Null_dereference)
      | Some k \<Rightarrow>
          let (err, rk_metadata) = rd_metadata k (convertMsDurationToInt timeout)
          in if err \<noteq> 0 then
               Inr (None, if quiet then c
                          else doLog Err (''failed to get BrokerMetadata! error['' @ err2str err @ '']'') c)
             else case rk_metadata of
               None \<Rightarrow> Inl (Undefined Null_dereference)
             | Some m \<Rightarrow>
                (case List.find (\<lambda>t. mt_topic t = topic) (rkm_topics m) of
                   None \<Rightarrow>
                     Inr (None, if quiet then c
                       else doLog Err (''failed to find BrokerMetadata for topic['' @ c_str topic @ '']'') c)
                 | Some t \<Rightarrow>
                     if mt_err t \<noteq> 0 then
                       Inr (None, if quiet then c
                         else doLog Err (''failed to get BrokerMetadata for topic['' @ c_str topic @
                           '']! error['' @ err2str (mt_err t) @ '']'') c)
                     else
                       let md = (new_BrokerMetadata (mt_topic t))\<lparr>bm_origNodeName :=
                                  (case rkm_orig_broker_name m of Some n \<Rightarrow> n | None \<Rightarrow> [])\<rparr>;
                           md = fold (\<lambda>(i, host, port_nr). addNode i host port_nr) (rkm_brokers m) md;
                           (md, c) = fold (add_partition err2str quiet topic) (mt_partitions t) (md, c)
                       in Inr (Some md, c)))"

section \<open>Other callbacks\<close>

definition onLog :: "int \<Rightarrow> string \<Rightarrow> string \<Rightarrow> ('k, 'z) KafkaClient_scheme \<Rightarrow> ('k, 'z) KafkaClient_scheme" where
  "onLog level fac buf c = doLog level (fac @ '' | '' @ buf) c"

text \<open>\<open>start\<close> and \<open>exit\<close> are the results of adding the two thread interceptors.\<close>

definition configInterceptorOnNew :: "int \<Rightarrow> int \<Rightarrow> int" where
  "configInterceptorOnNew start exit = (if start \<noteq> 0 then start else if exit \<noteq> 0 then exit else 0)"

section \<open>Lemmas\<close>

lemma set_map_entries: "finite (dom m) \<Longrightarrow> set (map_entries m) = {(k, v). m k = Some v}"
  by (force simp: map_entries_def dom_def image_iff)

lemma map_entries_keys: "finite (dom m) \<Longrightarrow> map fst (map_entries m) = sorted_list_of_set (dom m)"
  by (simp add: map_entries_def comp_def)

lemma map_of_map_entries:
  assumes "finite (dom m)"
  shows "map_of (map_entries m) = m"
proof
  fix k
  have "distinct (map fst (map_entries m))" using map_entries_keys [OF assms] by simp
  then show "map_of (map_entries m) k = m k"
    using set_map_entries [OF assms]
    by (cases "m k") (auto simp: map_of_eq_None_iff map_of_eq_Some_iff)
qed

lemma fold_put: "fold (\<lambda>e ret. ret(f e \<mapsto> g e)) es m = m ++ map_of (rev (map (\<lambda>e. (f e, g e)) es))"
  by (induction es arbitrary: m) (auto simp: map_add_def fun_eq_iff split: option.splits)

lemma fold_insert: "fold (\<lambda>e. insert (f e)) es A = f ` set es \<union> A"
  by (induction es arbitrary: A) auto

text \<open>A topic name without null characters survives \<open>c_str\<close>.\<close>

definition plain_topic :: "string \<Rightarrow> bool" where
  "plain_topic t = (c_str t = t)"

lemma getTopicPartitionOffsets_create:
  assumes "finite (dom tpos)" and "\<And>t p. tpos (t, p) \<noteq> None \<Longrightarrow> plain_topic t"
  shows "getTopicPartitionOffsets (Some (createRkTopicPartitionList tpos)) = tpos"
proof -
  have "map (\<lambda>((t, p), off). ((c_str t, p), off)) (map_entries tpos) = map_entries tpos"
    by (rule map_idI) (use assms set_map_entries [OF assms(1)] in \<open>auto simp: plain_topic_def\<close>)
  moreover have "distinct (map fst (map_entries tpos))" using map_entries_keys [OF assms(1)] by simp
  ultimately show ?thesis
    using map_of_map_entries [OF assms(1)] map_of_rev_distinct [of "map_entries tpos"]
    by (simp add: getTopicPartitionOffsets_def createRkTopicPartitionList_def fold_put comp_def split_def)
qed

lemma create_getTopicPartitions:
  assumes "finite tps" and "\<And>t p. (t, p) \<in> tps \<Longrightarrow> plain_topic t"
  shows "getTopicPartitions (Some (createRkList_of_partitions tps)) = tps"
proof -
  let ?m = "\<lambda>tp. if tp \<in> tps then Some RD_KAFKA_OFFSET_INVALID else None"
  have d: "dom ?m = tps" by (auto split: if_splits)
  have "(\<lambda>((t, p), off). (c_str t, p)) ` set (map_entries ?m) = tps"
    unfolding set_map_entries [of ?m, unfolded d, OF assms(1)]
    using assms(2) by (auto simp: plain_topic_def image_def split: if_splits)
  then show ?thesis
    by (simp add: getTopicPartitions_def createRkList_of_partitions_def createRkTopicPartitionList_def
        fold_insert image_image split_def)
qed

lemma partition_info_fields:
  "partition_info mp = \<lparr>pi_leader = mp_leader mp, pi_replicas = mp_replicas mp,
     pi_inSyncReplicas = mp_isrs mp\<rparr>"
proof -
  have "fold addReplica is pi = pi\<lparr>pi_replicas := pi_replicas pi @ is\<rparr>" for "is" pi
    by (induction "is" arbitrary: pi) (auto simp: addReplica_def)
  moreover have "fold addInSyncReplica is pi = pi\<lparr>pi_inSyncReplicas := pi_inSyncReplicas pi @ is\<rparr>" for "is" pi
    by (induction "is" arbitrary: pi) (auto simp: addInSyncReplica_def)
  ultimately show ?thesis by (simp add: partition_info_def)
qed

lemma create_getTopics:
  assumes "finite ts" and "\<And>t. t \<in> ts \<Longrightarrow> plain_topic t"
  shows "getTopics (Some (createRkList_of_topics ts)) = ts"
proof -
  let ?m = "\<lambda>(t, p). if t \<in> ts \<and> p = RD_KAFKA_PARTITION_UA then Some RD_KAFKA_OFFSET_INVALID else None"
  have "dom ?m = ts \<times> {RD_KAFKA_PARTITION_UA}" by (auto split: if_splits)
  then have "finite (dom ?m)" using assms(1) by simp
  note e = set_map_entries [OF this]
  have "(\<lambda>((t, p), off). c_str t) ` set (map_entries ?m) = ts"
    unfolding e using assms(2) by (auto simp: plain_topic_def image_def split: if_splits)
  then show ?thesis
    by (simp add: getTopics_def createRkList_of_topics_def createRkTopicPartitionList_def
        fold_insert image_image split_def)
qed

lemma fold_addNode:
  "fold (\<lambda>(i, host, port_nr). addNode i host port_nr) bs md =
     md\<lparr>bm_nodes := bm_nodes md ++
       map_of (rev (map (\<lambda>(i, host, port_nr). (i, \<lparr>nd_id = i, nd_host = host, nd_port = port_nr\<rparr>)) bs))\<rparr>"
  by (induction bs arbitrary: md) (auto simp: addNode_def)

lemma fold_add_partition:
  "fst (fold (add_partition err2str quiet topic) mps (md, c)) =
     md\<lparr>bm_partitions := map_of (map (\<lambda>mp. (mp_id mp, partition_info mp))
          (filter (\<lambda>mp. mp_err mp = 0) mps)) ++ bm_partitions md\<rparr>"
proof (induction mps arbitrary: md c)
  case (Cons mp mps)
  have "(map_of xs ++ emplace m k v) = (map_of xs)(k \<mapsto> v) ++ m" for xs m and k :: int and v :: PartitionInfo
    by (auto simp: emplace_def map_add_def fun_eq_iff split: option.splits)
  moreover obtain c1 where "add_partition err2str quiet topic mp (md, c) =
      (if mp_err mp \<noteq> 0 then md else addPartitionInfo (mp_id mp) (partition_info mp) md, c1)"
    by (cases "mp_err mp = 0") (auto simp: add_partition_def)
  ultimately show ?case by (simp add: Cons.IH addPartitionInfo_def)
qed simp

section \<open>Properties\<close>

text \<open>The lists handed to librdkafka and read back from it carry the same topics, partitions and
  offsets, for topic names without null characters.\<close>

theorem topic_lists_roundtrip:
  assumes "finite (dom tpos)" and "\<And>t p. tpos (t, p) \<noteq> None \<Longrightarrow> plain_topic t"
    and "finite tps" and "\<And>t p. (t, p) \<in> tps \<Longrightarrow> plain_topic t"
    and "finite ts" and "\<And>t. t \<in> ts \<Longrightarrow> plain_topic t"
  shows "getTopicPartitionOffsets (Some (createRkTopicPartitionList tpos)) = tpos \<and>
    getTopicPartitions (Some (createRkList_of_partitions tps)) = tps \<and>
    getTopics (Some (createRkList_of_topics ts)) = ts"
  by (intro conjI getTopicPartitionOffsets_create create_getTopicPartitions create_getTopics; rule assms)

text \<open>What fetched metadata contains: it is returned only when librdkafka answered and knows the topic
  without error; then it has every broker under its id (the last one listed), and of every
  partition the first entry without an error, with its leader, replicas and in-sync replicas.\<close>

theorem fetchBrokerMetadata_contents:
  assumes "fetchBrokerMetadata rd_metadata err2str topic timeout quiet c = Inr (Some md, c')"
  shows "\<exists>k m t. kc_rk c = Some k \<and> rd_metadata k (convertMsDurationToInt timeout) = (0, Some m) \<and>
    List.find (\<lambda>t. mt_topic t = topic) (rkm_topics m) = Some t \<and> mt_err t = 0 \<and> bm_topic md = topic \<and>
    bm_nodes md = map_of (rev (map (\<lambda>(i, host, port_nr).
      (i, \<lparr>nd_id = i, nd_host = host, nd_port = port_nr\<rparr>)) (rkm_brokers m))) \<and>
    bm_partitions md = map_of (map (\<lambda>mp. (mp_id mp, \<lparr>pi_leader = mp_leader mp,
        pi_replicas = mp_replicas mp, pi_inSyncReplicas = mp_isrs mp\<rparr>))
      (filter (\<lambda>mp. mp_err mp = 0) (mt_partitions t)))"
proof -
  obtain k m t where k: "kc_rk c = Some k" "rd_metadata k (convertMsDurationToInt timeout) = (0, Some m)"
    "List.find (\<lambda>t. mt_topic t = topic) (rkm_topics m) = Some t" "mt_err t = 0"
    using assms by (auto simp: fetchBrokerMetadata_def Let_def split: option.splits prod.splits if_splits)
  let ?md = "fold (\<lambda>(i, host, port_nr). addNode i host port_nr) (rkm_brokers m)
    ((new_BrokerMetadata (mt_topic t))\<lparr>bm_origNodeName :=
       (case rkm_orig_broker_name m of Some n \<Rightarrow> n | None \<Rightarrow> [])\<rparr>)"
  have "md = fst (fold (add_partition err2str quiet topic) (mt_partitions t) (?md, c))"
    using assms k by (auto simp: fetchBrokerMetadata_def Let_def split: prod.splits)
  moreover have "mt_topic t = topic" using k(3) by (auto simp: find_Some_iff)
  ultimately show ?thesis using k
    by (intro exI [of _ k] exI [of _ m] exI [of _ t])
      (simp add: fold_add_partition fold_addNode new_BrokerMetadata_def partition_info_fields)
qed

end
