(* ===== verification/Kafka_Sync.thy ===== *)
theory Kafka_Sync
  imports Kafka_Producer Kafka_Metadata
begin

text \<open>
  The blocking calls of \<open>src/include/kafka/KafkaProducer.h\<close>: \<open>syncSend\<close>, which waits for the
  delivery report of its own record, and the five calls of the transactional interface. The
  lemmas show what \<open>syncSend\<close> returns, that it never returns when no thread polls, which
  errors of a transaction a caller can tell apart, and what a time-out in milliseconds becomes.
\<close>

section \<open>Sending and waiting\<close>

text \<open>What the callback has stored in the two local variables: a copy of the metadata it was given
  and its error.\<close>

definition delivery_result :: "'u \<Rightarrow> ('k, 'u) KafkaProducer \<Rightarrow> (RecordMetadata \<times> Error) option" where
  "delivery_result deliveryCb p =
     map_option snd (List.find (\<lambda>x. fst x = deliveryCb) (kp_delivered p))"

definition syncSend_return :: "RecordMetadata \<times> Error \<Rightarrow> RecordMetadata res" where
  "syncSend_return r =
     bindr (RecordMetadata_copy (fst r)) (\<lambda>recordMetadata.
     bindr (throw_if_with_error (Error_copy (snd r))) (\<lambda>_. Inr recordMetadata))"

text \<open>The wait on the condition variable, while the polling thread, if there is one, serves at most
  \<open>n\<close> polls; \<open>None\<close> means that it is still waiting.\<close>

primrec await_delivery ::
  "'k rdkafka \<Rightarrow> 'u \<Rightarrow> nat \<Rightarrow> ('k, 'u) KafkaProducer \<Rightarrow>
   (RecordMetadata res \<times> ('k, 'u) KafkaProducer) option res" where
  "await_delivery rd deliveryCb 0 p =
     Inr (map_option (\<lambda>r. (syncSend_return r, p)) (delivery_result deliveryCb p))"
| "await_delivery rd deliveryCb (Suc n) p =
     (case delivery_result deliveryCb p of
        Some r \<Rightarrow> Inr (Some (syncSend_return r, p))
      | None \<Rightarrow> if kc_pollThread p then bindr (pollCallbacks rd 10 p) (await_delivery rd deliveryCb n)
                else Inr None)"

definition syncSend ::
  "'k rdkafka \<Rightarrow> mem \<Rightarrow> ConstBuffer ProducerRecord \<Rightarrow> 'u \<Rightarrow> nat \<Rightarrow> ('k, 'u) KafkaProducer \<Rightarrow>
   (RecordMetadata res \<times> ('k, 'u) KafkaProducer) option res" where
  "syncSend rd M r deliveryCb n p =
     bindr (send rd M r deliveryCb NoCopyRecordValue Block p) (\<lambda>(result, p).
       case result of
         Inl e \<Rightarrow> Inr (Some (Inl e, p))
       | Inr _ \<Rightarrow> await_delivery rd deliveryCb n p)"

section \<open>Transactions\<close>

text \<open>\<open>static_cast<int>(timeout.count())\<close>, without the bound of \<open>convertMsDurationToInt\<close>.\<close>

definition timeout_cast :: "int \<Rightarrow> int" where
  "timeout_cast ms = sint (word_of_int ms :: 32 word)"

text \<open>Each call gives an error object or null.\<close>

record ('k, 'g) rdkafka_transactions =
  tx_init :: "'k \<Rightarrow> int \<Rightarrow> rd_kafka_error option \<times> 'k"
  tx_begin :: "'k \<Rightarrow> rd_kafka_error option \<times> 'k"
  tx_commit :: "'k \<Rightarrow> int \<Rightarrow> rd_kafka_error option \<times> 'k"
  tx_abort :: "'k \<Rightarrow> int \<Rightarrow> rd_kafka_error option \<times> 'k"
  tx_send_offsets :: "'k \<Rightarrow> rd_kafka_topic_partition list \<Rightarrow> 'g \<Rightarrow> int \<Rightarrow> rd_kafka_error option \<times> 'k"

definition transaction_call ::
  "('k \<Rightarrow> rd_kafka_error option \<times> 'k) \<Rightarrow> ('k, 'u) KafkaProducer \<Rightarrow>
   (unit res \<times> ('k, 'u) KafkaProducer) res" where
  "transaction_call f p =
     bindr (handle_of p) (\<lambda>k.
     let (e, k) = f k
     in Inr (throw_if_with_error (Error_rich e), p\<lparr>kc_rk := Some k\<rparr>))"

definition initTransactions where
  "initTransactions tx timeout = transaction_call (\<lambda>k. tx_init tx k (timeout_cast timeout))"

definition beginTransaction where
  "beginTransaction tx = transaction_call (tx_begin tx)"

definition commitTransaction where
  "commitTransaction tx timeout = transaction_call (\<lambda>k. tx_commit tx k (timeout_cast timeout))"

definition abortTransaction where
  "abortTransaction tx timeout = transaction_call (\<lambda>k. tx_abort tx k (timeout_cast timeout))"

definition sendOffsetsToTransaction where
  "sendOffsetsToTransaction tx tpos groupMetadata timeout =
     transaction_call (\<lambda>k. tx_send_offsets tx k (createRkTopicPartitionList tpos) groupMetadata
       (timeout_cast timeout))"

section \<open>Lemmas\<close>

text \<open>What a delivery report means for the caller.\<close>

lemma syncSend_return_report:
  "syncSend_return (new_RecordMetadata m i, Error_code (rm_err m)) =
     (if rm_err m = 0
      then RecordMetadata_copy (new_RecordMetadata m i)
      else throw_error (Error_copy (Error_code (rm_err m))))"
proof -
  obtain c where "RecordMetadata_copy (new_RecordMetadata m i) = Inr c"
    by (simp add: RecordMetadata_copy_def new_RecordMetadata_def md_defs)
  then show ?thesis
    by (simp add: syncSend_return_def throw_if_with_error_def Error_bool_def throw_error_def)
qed

text \<open>More polls do not change a result.\<close>

lemma await_more:
  "await_delivery rd cb n p = Inr (Some x) \<Longrightarrow> await_delivery rd cb (n + k) p = Inr (Some x)"
proof (induction n arbitrary: p)
  case 0
  then show ?case by (cases k) auto
next
  case (Suc n)
  show ?case
  proof (cases "delivery_result cb p")
    case None
    then show ?thesis using Suc by (auto simp: bindr_eq_Inr split: if_splits)
  qed (use Suc.prems in simp)
qed

text \<open>Without a polling thread (\<open>EventsPollingOption::Manual\<close>) the caller waits for a report that
  nobody can deliver: \<open>syncSend\<close> never returns once the record is accepted.\<close>

lemma syncSend_manual_blocks:
  assumes "send rd M r cb NoCopyRecordValue Block p = Inr (Inr (), p')"
    and "\<not> kc_pollThread p'" and "delivery_result cb p' = None"
  shows "syncSend rd M r cb n p = Inr None"
  using assms by (cases n) (simp_all add: syncSend_def)

text \<open>The time-outs: an infinite one is the -1 that librdkafka takes for infinite, other large ones
  wrap around.\<close>

lemma timeout_cast_values:
  "timeout_cast InfiniteTimeout = - 1" "timeout_cast 4294967296 = 0" "timeout_cast 2147483648 = - 2147483648"
  by (simp_all add: timeout_cast_def InfiniteTimeout_def)

lemma timeout_cast_id: "0 \<le> ms \<Longrightarrow> ms \<le> 2147483647 \<Longrightarrow> timeout_cast ms = ms"
  by (simp add: timeout_cast_def sint_sbintrunc' signed_take_bit_int_eq_self)

text \<open>An error of a transaction reaches the caller with its code and its fatal and retriable flags,
  but never as one that requires the transaction to be aborted.\<close>

lemma transaction_flags:
  "Error_isFatal (Error_rich (Some r)) = rke_is_fatal r"
  "Error_isRetriable (Error_rich (Some r)) = Some (rke_is_retriable r)"
  by (simp_all add: Error_defs)

lemma transaction_error:
  assumes "transaction_call f p = Inr (Inl x, p')" and "kc_rk p = Some k"
  shows "\<exists>e k' err. f k = (Some e, k') \<and> rke_code e \<noteq> 0 \<and> x = Throw (Kafka_exception err) \<and>
    Error_value err = rke_code e \<and> Error_isFatal err = rke_is_fatal e \<and>
    Error_isRetriable err = Some (rke_is_retriable e) \<and> \<not> Error_transactionRequiresAbort err"
proof -
  obtain e k' where f: "f k = (e, k')" by (cases "f k")
  have x: "throw_if_with_error (Error_rich e) = Inl x"
    using assms f by (auto simp: transaction_call_def handle_of_def)
  then obtain r where r: "e = Some r" "rke_code r \<noteq> 0"
    by (cases e) (auto simp: throw_if_with_error_def Error_bool_def split: if_splits)
  then have "x = Throw (Kafka_exception (Error_copy (Error_rich (Some r))))"
    using x by (simp add: throw_if_with_error_def throw_error_def Error_bool_def)
  then show ?thesis using f r Error_copy_loses(1) by (auto simp: transaction_flags)
qed

end
