(* ===== verification/Logs_Handler.thy ===== *)
theory Logs_Handler
  imports Cfg_Handler
begin

text \<open>
  \<open>src/utils/logs_handler.{h,cc}\<close>: which sinks the two loggers get. spdlog is external: whether
  a sink can be built is an argument, and its registry is the map of the loggers by name,
  in which \<open>register_logger\<close> throws on a name it already has (as documented).
\<close>

datatype sink = Syslog_sink string int | Console_sink

record logger =
  lg_sinks :: "sink list"
  lg_level :: string

type_synonym registry = "string \<rightharpoonup> logger"

definition register_logger :: "string \<Rightarrow> logger \<Rightarrow> registry \<Rightarrow> registry res" where
  "register_logger name l reg =
     (if reg name = None then Inr (reg(name \<mapsto> l)) else Inl (Throw Spdlog_error))"

text \<open>\<open>LOG_USER\<close> of \<open>syslog.h\<close>, already shifted.\<close>

definition LOG_USER :: int where "LOG_USER = 8"

text \<open>The results are the return value and the registry; a sink that cannot be built makes
  the function return false before anything is registered.\<close>

definition set_boot_spdlog_sinks :: "bool \<Rightarrow> bool \<Rightarrow> registry \<Rightarrow> (bool \<times> registry) res" where
  "set_boot_spdlog_sinks syslog_ok console_ok reg =
     (if \<not> syslog_ok \<or> \<not> console_ok then Inr (False, reg)
      else bindr (register_logger ''multi-logger-boot''
                    \<lparr>lg_sinks = [Syslog_sink ''mdt-dialout-collector'' LOG_USER, Console_sink],
                     lg_level = ''debug''\<rparr> reg) (\<lambda>reg. Inr (True, reg)))"

definition new_LogsHandler :: "bool \<Rightarrow> bool \<Rightarrow> registry \<Rightarrow> registry res" where
  "new_LogsHandler syslog_ok console_ok reg =
     bindr (set_boot_spdlog_sinks syslog_ok console_ok reg) (\<lambda>(ok, reg).
       if ok then Inr reg else Inl (Exit 1))"

definition facility_codes :: "(string \<times> int) list" where
  "facility_codes =
     [(''LOG_DAEMON'', 3), (''LOG_USER'', 8), (''LOG_LOCAL0'', 16), (''LOG_LOCAL1'', 17),
      (''LOG_LOCAL2'', 18), (''LOG_LOCAL3'', 19), (''LOG_LOCAL4'', 20), (''LOG_LOCAL5'', 21),
      (''LOG_LOCAL6'', 22), (''LOG_LOCAL7'', 23)]"

text \<open>\<open>std::map::operator[]\<close>: an absent name yields 0.\<close>

definition facility_code :: "string \<Rightarrow> int" where
  "facility_code name = (case map_of facility_codes name of Some c \<Rightarrow> c | None \<Rightarrow> 0)"

definition set_spdlog_sinks :: "bool \<Rightarrow> bool \<Rightarrow> params \<Rightarrow> registry \<Rightarrow> (bool \<times> registry) res" where
  "set_spdlog_sinks syslog_ok console_ok cfg reg =
     bindr (map_at cfg ''spdlog_level'') (\<lambda>level.
     bindr (map_at cfg ''syslog'') (\<lambda>syslog.
     bindr (if syslog = ''true'' then
              bindr (map_at cfg ''syslog_ident'') (\<lambda>ident.
              bindr (map_at cfg ''syslog_facility'') (\<lambda>facility.
                Inr [Syslog_sink ident (facility_code facility * 8)]))
            else Inr []) (\<lambda>sinks.
     if syslog = ''true'' \<and> \<not> syslog_ok then Inr (False, reg) else
     bindr (map_at cfg ''console_log'') (\<lambda>console.
     if console = ''true'' \<and> \<not> console_ok then Inr (False, reg)
     else bindr (register_logger ''multi-logger''
                   \<lparr>lg_sinks = sinks @ (if console = ''true'' then [Console_sink] else []),
                    lg_level = level\<rparr> reg) (\<lambda>reg. Inr (True, reg))))))"

section \<open>Properties\<close>

text \<open>The facility codes of RFC 5424, as the comment in the code announces them.\<close>

definition rfc5424_code :: "string \<Rightarrow> int" where
  "rfc5424_code name =
     (if name = ''LOG_USER'' then 1 else if name = ''LOG_DAEMON'' then 3
      else if name = ''LOG_LOCAL0'' then 16 else if name = ''LOG_LOCAL1'' then 17
      else if name = ''LOG_LOCAL2'' then 18 else if name = ''LOG_LOCAL3'' then 19
      else if name = ''LOG_LOCAL4'' then 20 else if name = ''LOG_LOCAL5'' then 21
      else if name = ''LOG_LOCAL6'' then 22 else if name = ''LOG_LOCAL7'' then 23 else 0)"

text \<open>Of the facilities the configuration accepts, every one is sent to syslog under its RFC
  5424 code except \<open>LOG_USER\<close>: its entry is already the shifted value, so the shift by
  three bits turns user messages into facility 8 (uucp).\<close>

theorem facility_codes_rfc5424:
  "(facility_code n * 8 = rfc5424_code n * 8) = (n \<noteq> ''LOG_USER'')"
  by (simp add: facility_code_def facility_codes_def rfc5424_code_def)

lemma logs_keys_present:
  assumes "lookup_logs_parameters read_file path = Inr (Some p)"
  shows "\<exists>lv sy id f co. p ''spdlog_level'' = Some lv \<and> p ''syslog'' = Some sy \<and>
    p ''syslog_ident'' = Some id \<and> p ''syslog_facility'' = Some f \<and> p ''console_log'' = Some co"
proof -
  obtain cfg p1 sy where c: "LoadOptional cfg ''syslog'' ''false'' Map.empty = Some p1"
    "p1 ''syslog'' = Some sy" and r:
    "(let rest = (\<lambda>p.
                step (LoadOptional cfg ''console_log'' ''true'') p (\<lambda>p.
                step (LoadOptionalEnum cfg ''spdlog_level'' ''info''
                        [''debug'', ''info'', ''warn'', ''error'', ''off'']) p done_ok))
          in if sy = ''true'' then
               step (LoadOptionalEnum cfg ''syslog_facility'' ''LOG_USER''
                       [''LOG_DAEMON'', ''LOG_USER'', ''LOG_LOCAL0'', ''LOG_LOCAL1'', ''LOG_LOCAL2'',
                        ''LOG_LOCAL3'', ''LOG_LOCAL4'', ''LOG_LOCAL5'', ''LOG_LOCAL6'', ''LOG_LOCAL7'']) p1 (\<lambda>p.
               step (LoadOptional cfg ''syslog_ident'' ''mdt-dialout-collector'') p rest)
             else
               rest (emplace (emplace p1 ''syslog_facility'' ''NONE'') ''syslog_ident'' ''NONE'')) = Inr (Some p)"
    using assms unfolding lookup_logs_parameters_def by (elim readE stepE atE) (rule that; assumption)
  have "\<exists>p3. {''syslog'', ''syslog_facility'', ''syslog_ident''} \<subseteq> dom p3 \<and>
      step (LoadOptional cfg ''console_log'' ''true'') p3 (\<lambda>p.
                step (LoadOptionalEnum cfg ''spdlog_level'' ''info''
                        [''debug'', ''info'', ''warn'', ''error'', ''off'']) p done_ok) = Inr (Some p)"
  proof (cases "sy = ''true''")
    case True
    then obtain p2 p3 where s: "LoadOptionalEnum cfg ''syslog_facility'' ''LOG_USER''
                       [''LOG_DAEMON'', ''LOG_USER'', ''LOG_LOCAL0'', ''LOG_LOCAL1'', ''LOG_LOCAL2'',
                        ''LOG_LOCAL3'', ''LOG_LOCAL4'', ''LOG_LOCAL5'', ''LOG_LOCAL6'', ''LOG_LOCAL7''] p1 = Some p2"
      "LoadOptional cfg ''syslog_ident'' ''mdt-dialout-collector'' p2 = Some p3"
      "step (LoadOptional cfg ''console_log'' ''true'') p3 (\<lambda>p.
                step (LoadOptionalEnum cfg ''spdlog_level'' ''info''
                        [''debug'', ''info'', ''warn'', ''error'', ''off'']) p done_ok) = Inr (Some p)"
      using r by (auto simp: step_Inr)
    have "dom p3 = {''syslog_ident'', ''syslog_facility'', ''syslog''}"
      using optional.adds [OF c(1)] enum.adds [OF s(1)] optional.adds [OF s(2)] by simp
    then show ?thesis using s(3) by (intro exI [of _ p3]) simp
  next
    case False
    then show ?thesis using r optional.adds [OF c(1)]
      by (intro exI [of _ "emplace (emplace p1 ''syslog_facility'' ''NONE'') ''syslog_ident'' ''NONE''"]) simp
  qed
  then obtain p3 p4 where p3: "{''syslog'', ''syslog_facility'', ''syslog_ident''} \<subseteq> dom p3"
    "LoadOptional cfg ''console_log'' ''true'' p3 = Some p4"
    "LoadOptionalEnum cfg ''spdlog_level'' ''info'' [''debug'', ''info'', ''warn'', ''error'', ''off''] p4
       = Some p"
    by (elim exE conjE stepE doneE) simp
  have "{''syslog'', ''syslog_facility'', ''syslog_ident'', ''console_log'', ''spdlog_level''} \<subseteq> dom p"
    using p3(1) optional.adds [OF p3(2)] enum.adds [OF p3(3)] by simp
  then show ?thesis by (simp add: domIff)
qed

text \<open>After a successful lookup the log sinks are set up without an exception as long as
  "multi-logger" is not registered yet; a second set-up in the same process always throws.\<close>

theorem set_spdlog_sinks_once:
  assumes "lookup_logs_parameters read_file path = Inr (Some p)" and "reg ''multi-logger'' = None"
  shows "\<exists>reg'. set_spdlog_sinks True True p reg = Inr (True, reg') \<and>
    set_spdlog_sinks True True p reg' = Inl (Throw Spdlog_error)"
  using logs_keys_present [OF assms(1)] assms(2)
  by (elim exE conjE) (simp add: set_spdlog_sinks_def register_logger_def)

lemma sample_logs: "\<exists>p. lookup_logs_parameters (\<lambda>_. Some Map.empty) ''f'' = Inr (Some p)"
  by (simp add: lookup_logs_parameters_def set_parameters_def step_def done_ok_def LoadOptional_def
      LoadOptionalEnum_def ReadStringSetting_def)

theorem set_spdlog_sinks_once_witness:
  "\<exists>p reg'. set_spdlog_sinks True True p Map.empty = Inr (True, reg') \<and>
     set_spdlog_sinks True True p reg' = Inl (Throw Spdlog_error)"
proof -
  obtain p where p: "lookup_logs_parameters (\<lambda>_. Some Map.empty) ''f'' = Inr (Some p)"
    using sample_logs by blast
  show ?thesis by (rule exI, rule set_spdlog_sinks_once [OF p refl])
qed

end
