(* ===== verification/Server_Lifecycle.thy ===== *)
theory Server_Lifecycle
  imports Cfg_Handler
begin

text \<open>
  The life of a \<open>Srv\<close> in \<open>src/core/mdt_dialout_core.cc\<close>: credentials and socket set-up, the
  four \<open>Bind\<close> functions, the registry \<open>g_active_servers\<close>, \<open>Srv::Shutdown\<close> and
  \<open>initiate_shutdown\<close>. Worker threads and threads that call \<open>initiate_shutdown\<close> interleave:
  \<open>pstep\<close> is one step of one of them. \<open>Shutdown\<close> is one step, since nothing else can
  happen to the server between its two calls: its loop only ends once the queue is shut.
  The lemmas say which pointers of the registry are alive, when a shutdown reaches every
  server, and when it does not.
\<close>

section \<open>Setting up a server\<close>

datatype credentials = InsecureServerCredentials | SslServerCredentials string string

text \<open>\<open>read_file\<close> is the file system: the content of a readable file.\<close>

definition slurp :: "(string \<rightharpoonup> string) \<Rightarrow> string \<Rightarrow> string res" where
  "slurp read_file path = (case read_file path of None \<Rightarrow> Inl Abort | Some s \<Rightarrow> Inr s)"

definition make_server_credentials :: "(string \<rightharpoonup> string) \<Rightarrow> params \<Rightarrow> credentials res" where
  "make_server_credentials read_file main_cfg =
     bindr (map_at main_cfg ''enable_tls'') (\<lambda>tls.
       if tls \<noteq> ''true'' then Inr InsecureServerCredentials
       else
         bindr (map_at main_cfg ''tls_key_path'') (\<lambda>key_path.
         bindr (slurp read_file key_path) (\<lambda>key.
         bindr (map_at main_cfg ''tls_cert_path'') (\<lambda>cert_path.
         bindr (slurp read_file cert_path) (\<lambda>cert.
           Inr (SslServerCredentials key cert))))))"

text \<open>The hook gRPC calls on every listening socket. \<open>so_type\<close> is what \<open>getsockopt(SO_TYPE)\<close>
  yields, \<open>bindtodevice\<close> whether \<open>setsockopt(SO_BINDTODEVICE)\<close> accepts the interface.\<close>

definition bindtodevice_socket_mutator ::
  "int option \<Rightarrow> (string \<Rightarrow> bool) \<Rightarrow> params \<Rightarrow> bool res" where
  "bindtodevice_socket_mutator so_type bindtodevice main_cfg =
     bindr (map_at main_cfg ''iface'') (\<lambda>iface.
     bindr (map_at main_cfg ''so_bindtodevice_check'') (\<lambda>sbc.
       if so_type = None then Inl Abort
       else if sbc = ''true'' \<and> \<not> bindtodevice (c_str iface) then Inl Abort
       else Inr True))"

text \<open>What \<open>log_socket_options\<close> prints about the type, and the order on mutators.\<close>

definition socket_type_str :: "int \<Rightarrow> string" where
  "socket_type_str type =
     (if type = 1 then ''SOCK_STREAM (TCP)''
      else if type = 2 then ''SOCK_DGRAM (UDP)''
      else if type = 3 then ''SOCK_RAW (Raw)'' else ''Unknown Type'')"

definition custom_socket_compare :: "nat \<Rightarrow> nat \<Rightarrow> int" where
  "custom_socket_compare a b = (if a < b then -1 else if a > b then 1 else 0)"

section \<open>The server object\<close>

datatype Vendor = Unset | Cisco | Juniper | Nokia | Huawei

text \<open>Each vendor has a server and a completion queue pointer of its own: null, or up, or shut
  down.\<close>

record Srv =
  active_vendor :: Vendor
  shutdown_done :: bool
  srv_server :: "Vendor \<rightharpoonup> bool"
  srv_cq :: "Vendor \<rightharpoonup> bool"

definition new_Srv :: Srv where
  "new_Srv = \<lparr>active_vendor = Unset, shutdown_done = False, srv_server = Map.empty, srv_cq = Map.empty\<rparr>"

definition shut :: "Vendor \<Rightarrow> (Vendor \<rightharpoonup> bool) \<Rightarrow> (Vendor \<rightharpoonup> bool)" where
  "shut v p = (case p v of None \<Rightarrow> p | Some _ \<Rightarrow> p(v \<mapsto> False))"

definition Srv_Shutdown :: "Srv \<Rightarrow> Srv" where
  "Srv_Shutdown s =
     (if shutdown_done s then s
      else let s = s\<lparr>shutdown_done := True\<rparr>; v = active_vendor s
           in if v = Unset then s
              else s\<lparr>srv_server := shut v (srv_server s), srv_cq := shut v (srv_cq s)\<rparr>)"

section \<open>Registry\<close>

text \<open>A server is known by the number of its worker, which stands for its address.\<close>

definition register_server :: "nat \<Rightarrow> nat list \<Rightarrow> nat list" where
  "register_server srv g = g @ [srv]"

definition unregister_server :: "nat \<Rightarrow> nat list \<Rightarrow> nat list" where
  "unregister_server srv g = remove1 srv g"

definition initiate_shutdown :: "nat list \<Rightarrow> (nat \<Rightarrow> Srv) \<Rightarrow> (nat \<Rightarrow> Srv)" where
  "initiate_shutdown g srvs = fold (\<lambda>s m. m(s := Srv_Shutdown (m s))) g srvs"

text \<open>The part of a \<open>Bind\<close> function before it registers: the builder with its listening port
  and credentials, the queue, the start. What \<open>BuildAndStart\<close> does when the port cannot be
  bound is outside the model: here it starts.\<close>

record listener =
  li_address :: string
  li_credentials :: credentials

definition build_and_start ::
  "Vendor \<Rightarrow> (string \<rightharpoonup> string) \<Rightarrow> params \<Rightarrow> string \<Rightarrow> Srv \<Rightarrow> (listener \<times> Srv) res" where
  "build_and_start v read_file main_cfg srv_socket s =
     bindr (make_server_credentials read_file main_cfg) (\<lambda>cred.
       Inr (\<lparr>li_address = srv_socket, li_credentials = cred\<rparr>,
            s\<lparr>active_vendor := v, srv_cq := (srv_cq s)(v \<mapsto> True), srv_server := (srv_server s)(v \<mapsto> True)\<rparr>))"

text \<open>A \<open>Bind\<close> function run by worker \<open>i\<close> alone; \<open>fsm\<close> is its \<open>FsmCtrl\<close>, which acts on the
  server while it is registered.\<close>

definition CiscoBind where
  "CiscoBind read_file main_cfg fsm i cisco_srv_socket s g =
     bindr (build_and_start Cisco read_file main_cfg cisco_srv_socket s) (\<lambda>(l, s).
     bindr (fsm l (s, register_server i g)) (\<lambda>(s, g). Inr (s, unregister_server i g)))"

definition JuniperBind where
  "JuniperBind read_file main_cfg fsm i juniper_srv_socket s g =
     bindr (build_and_start Juniper read_file main_cfg juniper_srv_socket s) (\<lambda>(l, s).
     bindr (fsm l (s, register_server i g)) (\<lambda>(s, g). Inr (s, unregister_server i g)))"

definition NokiaBind where
  "NokiaBind read_file main_cfg fsm i nokia_srv_socket s g =
     bindr (build_and_start Nokia read_file main_cfg nokia_srv_socket s) (\<lambda>(l, s).
     bindr (fsm l (s, register_server i g)) (\<lambda>(s, g). Inr (s, unregister_server i g)))"

definition HuaweiBind where
  "HuaweiBind read_file main_cfg fsm i huawei_srv_socket s g =
     bindr (build_and_start Huawei read_file main_cfg huawei_srv_socket s) (\<lambda>(l, s).
     bindr (fsm l (s, register_server i g)) (\<lambda>(s, g). Inr (s, unregister_server i g)))"

section \<open>Threads\<close>

text \<open>Where a worker is in \<open>VendorThread\<close>: its \<open>Srv\<close> constructed; built and started;
  registered and in \<open>FsmCtrl\<close>; out of \<open>FsmCtrl\<close>; unregistered; destroyed.\<close>

datatype phase = Constructed | Built | Registered | Stopped | Unregistered | Destroyed

record worker =
  wk_vendor :: Vendor
  wk_phase :: phase
  wk_srv :: Srv

text \<open>A thread in \<open>initiate_shutdown\<close>: not there yet, working through its snapshot, back.\<close>

datatype caller = Waiting | Shutting "nat list" | Returned

record process =
  workers :: "nat \<rightharpoonup> worker"
  g_active_servers :: "nat list"
  callers :: "nat \<rightharpoonup> caller"

definition set_worker :: "nat \<Rightarrow> worker \<Rightarrow> process \<Rightarrow> process" where
  "set_worker i w s = s\<lparr>workers := (workers s)(i \<mapsto> w)\<rparr>"

definition started :: "worker \<Rightarrow> Srv" where
  "started w = (let s = wk_srv w; v = wk_vendor w in
     s\<lparr>active_vendor := v, srv_cq := (srv_cq s)(v \<mapsto> True), srv_server := (srv_server s)(v \<mapsto> True)\<rparr>)"

text \<open>The build step does to the server what the first part of a \<open>Bind\<close> function does.\<close>

lemma started_build_and_start:
  "build_and_start (wk_vendor w) read_file main_cfg srv_socket (wk_srv w) = Inr (l, s) \<Longrightarrow>
   s = started w \<and> li_address l = srv_socket"
  by (auto simp: build_and_start_def started_def bindr_eq_Inr Let_def)

inductive pstep :: "process \<Rightarrow> process \<Rightarrow> bool" where
  build: "workers s i = Some w \<Longrightarrow> wk_phase w = Constructed \<Longrightarrow>
    pstep s (set_worker i (w\<lparr>wk_phase := Built, wk_srv := started w\<rparr>) s)"
| enter: "workers s i = Some w \<Longrightarrow> wk_phase w = Built \<Longrightarrow>
    pstep s (set_worker i (w\<lparr>wk_phase := Registered\<rparr>)
      (s\<lparr>g_active_servers := register_server i (g_active_servers s)\<rparr>))"
| stop: "workers s i = Some w \<Longrightarrow> wk_phase w = Registered \<Longrightarrow> srv_cq (wk_srv w) (wk_vendor w) = Some False \<Longrightarrow>
    pstep s (set_worker i (w\<lparr>wk_phase := Stopped\<rparr>) s)"
| leave: "workers s i = Some w \<Longrightarrow> wk_phase w = Stopped \<Longrightarrow>
    pstep s (set_worker i (w\<lparr>wk_phase := Unregistered\<rparr>)
      (s\<lparr>g_active_servers := unregister_server i (g_active_servers s)\<rparr>))"
| destroy: "workers s i = Some w \<Longrightarrow> wk_phase w = Unregistered \<Longrightarrow>
    pstep s (set_worker i (w\<lparr>wk_phase := Destroyed, wk_srv := Srv_Shutdown (wk_srv w)\<rparr>) s)"
| snapshot: "callers s c = Some Waiting \<Longrightarrow>
    pstep s (s\<lparr>callers := (callers s)(c \<mapsto> Shutting (g_active_servers s))\<rparr>)"
| shut_one: "callers s c = Some (Shutting (i # is)) \<Longrightarrow> workers s i = Some w \<Longrightarrow> wk_phase w \<noteq> Destroyed \<Longrightarrow>
    pstep s (set_worker i (w\<lparr>wk_srv := Srv_Shutdown (wk_srv w)\<rparr>)
      (s\<lparr>callers := (callers s)(c \<mapsto> Shutting is)\<rparr>))"
| return: "callers s c = Some (Shutting []) \<Longrightarrow>
    pstep s (s\<lparr>callers := (callers s)(c \<mapsto> Returned)\<rparr>)"

inductive_cases pstepE: "pstep s s'"

definition starting :: "process \<Rightarrow> bool" where
  "starting s = ((\<forall>i w. workers s i = Some w \<longrightarrow> wk_phase w = Constructed \<and> wk_srv w = new_Srv \<and>
       wk_vendor w \<noteq> Unset) \<and>
     g_active_servers s = [] \<and> (\<forall>c x. callers s c = Some x \<longrightarrow> x = Waiting))"

text \<open>The next call of some shutdown is on a destroyed server.\<close>

definition dangling :: "process \<Rightarrow> bool" where
  "dangling s = (\<exists>c i is w. callers s c = Some (Shutting (i # is)) \<and> workers s i = Some w \<and>
     wk_phase w = Destroyed)"

section \<open>Invariant\<close>

definition worker_ok :: "worker \<Rightarrow> bool" where
  "worker_ok w =
     (wk_vendor w \<noteq> Unset \<and>
      (wk_phase w = Constructed \<longrightarrow> wk_srv w = new_Srv) \<and>
      (wk_phase w \<noteq> Constructed \<longrightarrow> active_vendor (wk_srv w) = wk_vendor w \<and>
         srv_cq (wk_srv w) (wk_vendor w) = Some (\<not> shutdown_done (wk_srv w))) \<and>
      (wk_phase w = Built \<longrightarrow> \<not> shutdown_done (wk_srv w)) \<and>
      (wk_phase w \<in> {Stopped, Unregistered, Destroyed} \<longrightarrow> shutdown_done (wk_srv w)))"

text \<open>The registry holds exactly the servers between their two registry calls; a snapshot only
  holds servers that were registered once.\<close>

definition proc_ok :: "process \<Rightarrow> bool" where
  "proc_ok s =
     ((\<forall>i w. workers s i = Some w \<longrightarrow> worker_ok w) \<and>
      distinct (g_active_servers s) \<and>
      (\<forall>i. i \<in> set (g_active_servers s) \<longleftrightarrow>
         (\<exists>w. workers s i = Some w \<and> wk_phase w \<in> {Registered, Stopped})) \<and>
      (\<forall>c is i. callers s c = Some (Shutting is) \<longrightarrow> i \<in> set is \<longrightarrow>
         (\<exists>w. workers s i = Some w \<and> wk_phase w \<notin> {Constructed, Built})))"

lemma worker_ok_shutdown:
  "worker_ok w \<Longrightarrow> wk_phase w \<notin> {Constructed, Built} \<Longrightarrow> worker_ok (w\<lparr>wk_srv := Srv_Shutdown (wk_srv w)\<rparr>)"
  by (auto simp: worker_ok_def Srv_Shutdown_def shut_def Let_def)

lemma shutdown_closes:
  "worker_ok w \<Longrightarrow> wk_phase w \<notin> {Constructed, Built} \<Longrightarrow> shutdown_done (Srv_Shutdown (wk_srv w))"
  by (auto simp: Srv_Shutdown_def Let_def)

lemma proc_ok_set:
  assumes "proc_ok s" and "workers s i = Some w" and "worker_ok w'"
    and "(wk_phase w \<in> {Constructed, Built}) \<or> (wk_phase w' \<notin> {Constructed, Built})"
    and "(wk_phase w \<in> {Registered, Stopped}) = (wk_phase w' \<in> {Registered, Stopped})"
  shows "proc_ok (set_worker i w' s)"
proof -
  have "i \<in> set (g_active_servers s) \<longleftrightarrow> wk_phase w' \<in> {Registered, Stopped}"
    using assms(1,2,5) by (auto simp: proc_ok_def)
  then show ?thesis
    using assms unfolding proc_ok_def set_worker_def
    by (auto split: if_splits) (metis option.inject)+
qed

lemma proc_ok_init: "starting s \<Longrightarrow> proc_ok s"
  by (fastforce simp: starting_def proc_ok_def worker_ok_def)

lemma proc_ok_step:
  assumes "pstep s s'" and "proc_ok s"
  shows "proc_ok s'"
  using assms
proof (induction rule: pstep.induct)
  case (build s i w)
  then have "worker_ok (w\<lparr>wk_phase := Built, wk_srv := started w\<rparr>)"
    by (auto simp: proc_ok_def worker_ok_def started_def new_Srv_def Let_def)
  then show ?case using build by (intro proc_ok_set) auto
next
  case (enter s i w)
  then have "worker_ok (w\<lparr>wk_phase := Registered\<rparr>)" "i \<notin> set (g_active_servers s)"
    by (auto simp: proc_ok_def worker_ok_def)
  then show ?case using enter
    by (auto simp: proc_ok_def set_worker_def register_server_def split: if_splits)
next
  case (stop s i w)
  then have "worker_ok (w\<lparr>wk_phase := Stopped\<rparr>)"
    by (auto simp: proc_ok_def worker_ok_def)
  then show ?case using stop by (intro proc_ok_set) auto
next
  case (leave s i w)
  then have "worker_ok (w\<lparr>wk_phase := Unregistered\<rparr>)"
    by (auto simp: proc_ok_def worker_ok_def)
  then show ?case using leave
    by (auto simp: proc_ok_def set_worker_def unregister_server_def split: if_splits)
next
  case (destroy s i w)
  then have "worker_ok (w\<lparr>wk_phase := Destroyed, wk_srv := Srv_Shutdown (wk_srv w)\<rparr>)"
    by (auto simp: proc_ok_def worker_ok_def Srv_Shutdown_def)
  then show ?case using destroy by (intro proc_ok_set) auto
next
  case (snapshot s c)
  then show ?case by (auto simp: proc_ok_def split: if_splits)
next
  case (shut_one s c i "is" w)
  then have w: "worker_ok w" "wk_phase w \<notin> {Constructed, Built}"
    by (auto simp: proc_ok_def) (metis list.set_intros(1) option.inject)+
  have "proc_ok (s\<lparr>callers := (callers s)(c \<mapsto> Shutting is)\<rparr>)"
    using shut_one by (auto simp: proc_ok_def split: if_splits)
  then show ?case
    using worker_ok_shutdown [OF w] w(2) shut_one by (intro proc_ok_set) auto
next
  case (return s c)
  then show ?case by (auto simp: proc_ok_def split: if_splits)
qed

lemma proc_ok_steps: "pstep\<^sup>*\<^sup>* s s' \<Longrightarrow> proc_ok s \<Longrightarrow> proc_ok s'"
  by (induction rule: rtranclp_induct) (auto intro: proc_ok_step)

section \<open>One shutdown\<close>

definition single_ok :: "nat \<Rightarrow> process \<Rightarrow> bool" where
  "single_ok c s =
     (dom (callers s) \<subseteq> {c} \<and>
      (callers s c = Some Waiting \<longrightarrow> (\<forall>i w. workers s i = Some w \<longrightarrow> \<not> shutdown_done (wk_srv w))) \<and>
      (\<forall>is. callers s c = Some (Shutting is) \<longrightarrow> distinct is \<and>
         (\<forall>i\<in>set is. \<exists>w. workers s i = Some w \<and> wk_phase w = Registered \<and>
            \<not> shutdown_done (wk_srv w))))"

lemma single_ok_init: "starting s \<Longrightarrow> dom (callers s) = {c} \<Longrightarrow> single_ok c s"
  by (fastforce simp: starting_def single_ok_def new_Srv_def)

text \<open>A step of a worker that leaves the flag alone, or that is not in the snapshot.\<close>

lemma single_ok_set:
  assumes "single_ok c s" and "workers s i = Some w"
    and "wk_phase w = Registered \<longrightarrow> wk_phase w' = Registered \<or> shutdown_done (wk_srv w)"
    and "shutdown_done (wk_srv w') \<longrightarrow> shutdown_done (wk_srv w)"
  shows "single_ok c (set_worker i w' s)"
  using assms unfolding single_ok_def set_worker_def by (auto split: if_splits) fastforce+

lemma single_ok_step:
  assumes "pstep s s'" and "proc_ok s" and "single_ok c s"
  shows "single_ok c s'"
  using assms
proof (induction rule: pstep.induct)
  case (build s i w)
  then show ?case
    by (intro single_ok_set) (auto simp: proc_ok_def worker_ok_def started_def new_Srv_def Let_def)
next
  case (enter s i w)
  have "single_ok c (set_worker i (w\<lparr>wk_phase := Registered\<rparr>) s)"
    using enter by (intro single_ok_set) auto
  then show ?case by (simp add: single_ok_def set_worker_def)
next
  case (stop s i w)
  then have "shutdown_done (wk_srv w)" by (auto simp: proc_ok_def worker_ok_def)
  then show ?case using stop by (intro single_ok_set) auto
next
  case (leave s i w)
  have "single_ok c (set_worker i (w\<lparr>wk_phase := Unregistered\<rparr>) s)"
    using leave by (intro single_ok_set) auto
  then show ?case by (simp add: single_ok_def set_worker_def)
next
  case (destroy s i w)
  then have "shutdown_done (wk_srv w)" by (auto simp: proc_ok_def worker_ok_def)
  then show ?case using destroy by (intro single_ok_set) auto
next
  case (snapshot s d)
  then have d: "d = c" by (auto simp: single_ok_def)
  have "\<exists>w. workers s i = Some w \<and> wk_phase w = Registered \<and> \<not> shutdown_done (wk_srv w)"
    if "i \<in> set (g_active_servers s)" for i
    using that snapshot d by (fastforce simp: single_ok_def proc_ok_def worker_ok_def)
  then show ?case using snapshot d by (auto simp: single_ok_def proc_ok_def)
next
  case (shut_one s d i "is" w)
  then have d: "d = c" by (auto simp: single_ok_def)
  have "distinct (i # is)" "\<forall>j\<in>set is. \<exists>w. workers s j = Some w \<and> wk_phase w = Registered \<and>
      \<not> shutdown_done (wk_srv w)"
    using shut_one d unfolding single_ok_def by (auto simp: dom_def) 
  then show ?case using shut_one(5) d by (auto simp: single_ok_def set_worker_def)
next
  case (return s d)
  then show ?case by (auto simp: single_ok_def split: if_splits)
qed

lemma single_ok_steps:
  assumes "pstep\<^sup>*\<^sup>* s0 s" and "starting s0" and "dom (callers s0) = {c}"
  shows "proc_ok s \<and> single_ok c s"
  using assms
  by (induction rule: rtranclp_induct)
    (auto intro: proc_ok_step single_ok_step proc_ok_init single_ok_init)

lemma single_ok_not_dangling: "single_ok c s \<Longrightarrow> \<not> dangling s"
  by (fastforce simp: single_ok_def dangling_def)

text \<open>From a state where every server is registered on, a server is shut or still to be shut.\<close>

definition reached :: "nat \<Rightarrow> process \<Rightarrow> bool" where
  "reached c s =
     (\<forall>i w. workers s i = Some w \<longrightarrow> wk_phase w \<notin> {Constructed, Built} \<and>
        (shutdown_done (wk_srv w) \<or>
         (case callers s c of
            Some Waiting \<Rightarrow> wk_phase w = Registered
          | Some (Shutting is) \<Rightarrow> i \<in> set is
          | _ \<Rightarrow> False)))"

lemma reached_step:
  assumes "pstep s s'" and "proc_ok s" and "reached c s"
  shows "reached c s'"
  using assms
proof (induction rule: pstep.induct)
  case (stop s i w)
  then have "shutdown_done (wk_srv w)" by (auto simp: proc_ok_def worker_ok_def)
  then show ?case using stop by (auto simp: reached_def set_worker_def)
next
  case (leave s i w)
  then have "shutdown_done (wk_srv w)" by (auto simp: proc_ok_def worker_ok_def)
  then show ?case using leave by (auto simp: reached_def set_worker_def)
next
  case (destroy s i w)
  then have "shutdown_done (wk_srv w)" by (auto simp: proc_ok_def worker_ok_def)
  then show ?case using destroy by (auto simp: reached_def set_worker_def Srv_Shutdown_def)
next
  case (snapshot s d)
  then show ?case by (fastforce simp: reached_def proc_ok_def)
next
  case (shut_one s d i "is" w)
  then have "worker_ok w" "wk_phase w \<notin> {Constructed, Built}"
    by (auto simp: proc_ok_def reached_def)
  then have "shutdown_done (Srv_Shutdown (wk_srv w))" by (rule shutdown_closes)
  then show ?case using shut_one by (fastforce simp: reached_def set_worker_def)
next
  case (return s d)
  then show ?case by (fastforce simp: reached_def)
qed (auto simp: reached_def set_worker_def)

lemma reached_steps:
  assumes "pstep\<^sup>*\<^sup>* s s'" and "proc_ok s" and "reached c s"
  shows "proc_ok s' \<and> reached c s'"
  using assms by (induction rule: rtranclp_induct) (auto intro: proc_ok_step reached_step)

text \<open>A server that registers after the last shutdown took its snapshot.\<close>

definition late :: "nat \<Rightarrow> process \<Rightarrow> bool" where
  "late i s = ((\<forall>c x. callers s c = Some x \<longrightarrow> x = Returned) \<and>
     (\<exists>w. workers s i = Some w \<and> wk_phase w \<in> {Constructed, Built, Registered} \<and>
        \<not> shutdown_done (wk_srv w)))"

lemma late_step:
  assumes "pstep s s'" and "proc_ok s" and "late i s"
  shows "late i s'"
  using assms
proof (induction rule: pstep.induct)
  case (stop s j w)
  then have "shutdown_done (wk_srv w)" by (auto simp: proc_ok_def worker_ok_def)
  then show ?case using stop by (auto simp: late_def set_worker_def)
next
  case (build s j w)
  then have "\<not> shutdown_done (wk_srv w)" by (auto simp: proc_ok_def worker_ok_def new_Srv_def)
  then show ?case using build by (auto simp: late_def set_worker_def started_def Let_def)
qed (fastforce simp: late_def set_worker_def)+

lemma late_steps:
  assumes "pstep\<^sup>*\<^sup>* s s'" and "proc_ok s" and "late i s"
  shows "late i s'"
proof -
  have "proc_ok s' \<and> late i s'"
    using assms by (induction rule: rtranclp_induct) (auto intro: proc_ok_step late_step)
  then show ?thesis ..
qed

text \<open>\<open>Shutdown\<close> is idempotent, and an undisturbed caller does what \<open>initiate_shutdown\<close> does.\<close>

lemma Srv_Shutdown_idem: "Srv_Shutdown (Srv_Shutdown s) = Srv_Shutdown s"
  by (simp add: Srv_Shutdown_def Let_def)

lemma initiate_shutdown_Cons:
  "initiate_shutdown (i # is) f = initiate_shutdown is (f(i := Srv_Shutdown (f i)))"
  by (simp add: initiate_shutdown_def)

lemma caller_alone:
  assumes "callers s c = Some (Shutting is)"
    and "\<forall>i\<in>set is. \<exists>w. workers s i = Some w \<and> wk_phase w \<noteq> Destroyed"
    and "\<forall>i w. workers s i = Some w \<longrightarrow> f i = wk_srv w"
  shows "\<exists>s'. pstep\<^sup>*\<^sup>* s s' \<and> callers s' c = Some Returned \<and>
    (\<forall>i w. workers s' i = Some w \<longrightarrow> wk_srv w = initiate_shutdown is f i)"
  using assms
proof (induction "is" arbitrary: s f)
  case Nil
  have "pstep s (s\<lparr>callers := (callers s)(c \<mapsto> Returned)\<rparr>)" by (rule pstep.return [OF Nil(1)])
  then show ?case using Nil(3) by (auto simp: initiate_shutdown_def intro!: exI [of _
        "s\<lparr>callers := (callers s)(c \<mapsto> Returned)\<rparr>"])
next
  case (Cons i "is")
  obtain w where w: "workers s i = Some w" "wk_phase w \<noteq> Destroyed" using Cons.prems(2) by auto
  let ?s = "set_worker i (w\<lparr>wk_srv := Srv_Shutdown (wk_srv w)\<rparr>)
    (s\<lparr>callers := (callers s)(c \<mapsto> Shutting is)\<rparr>)"
  have step: "pstep s ?s" by (rule pstep.shut_one [OF Cons.prems(1) w])
  have a: "callers ?s c = Some (Shutting is)" by (simp add: set_worker_def)
  have b: "\<forall>j\<in>set is. \<exists>w. workers ?s j = Some w \<and> wk_phase w \<noteq> Destroyed"
    using Cons.prems(2) w by (auto simp: set_worker_def)
  have d: "\<forall>j w. workers ?s j = Some w \<longrightarrow> (f(i := Srv_Shutdown (f i))) j = wk_srv w"
    using Cons.prems(3) w by (auto simp: set_worker_def)
  obtain s' where "pstep\<^sup>*\<^sup>* ?s s'" "callers s' c = Some Returned"
    "\<forall>j w. workers s' j = Some w \<longrightarrow> wk_srv w = initiate_shutdown is (f(i := Srv_Shutdown (f i))) j"
    using Cons.IH [OF a b d] by (elim exE conjE) (rule that)
  then show ?case using step
    by (auto simp: initiate_shutdown_Cons intro: converse_rtranclp_into_rtranclp)
qed

section \<open>Properties\<close>

definition worker0 :: "phase \<Rightarrow> worker" where
  "worker0 p = \<lparr>wk_vendor = Cisco, wk_phase = p, wk_srv = new_Srv\<rparr>"

definition process0 :: "nat set \<Rightarrow> process" where
  "process0 cs = \<lparr>workers = [0 \<mapsto> worker0 Constructed], g_active_servers = [],
     callers = (\<lambda>c. if c \<in> cs then Some Waiting else None)\<rparr>"

lemma process0_starting: "starting (process0 cs)" "dom (callers (process0 cs)) = cs"
  by (auto simp: starting_def process0_def worker0_def dom_def split: if_splits)

text \<open>C23. With one thread that calls \<open>initiate_shutdown\<close> (as in the daemon), however it
  interleaves with the workers, the registry holds each running server once and nothing
  else, every pointer in it is to a live object, and \<open>Shutdown\<close> is never called on a
  destroyed server.\<close>

theorem single_shutdown_safe:
  assumes "starting s0" and "dom (callers s0) = {c}" and "pstep\<^sup>*\<^sup>* s0 s"
  shows "\<not> dangling s \<and> distinct (g_active_servers s) \<and>
    (\<forall>i. i \<in> set (g_active_servers s) \<longleftrightarrow>
       (\<exists>w. workers s i = Some w \<and> wk_phase w \<in> {Registered, Stopped}))"
proof -
  have "proc_ok s" "single_ok c s" using single_ok_steps [OF assms(3,1,2)] by simp_all
  then show ?thesis using single_ok_not_dangling [of c s] by (simp add: proc_ok_def)
qed

lemma single_shutdown_safe_witness:
  "\<exists>s. pstep\<^sup>*\<^sup>* (process0 {7}) s \<and> wk_phase (the (workers s 0)) = Built \<and> \<not> dangling s"
proof -
  let ?s = "set_worker 0 ((worker0 Constructed)\<lparr>wk_phase := Built, wk_srv := started (worker0 Constructed)\<rparr>)
    (process0 {7})"
  have "workers (process0 {7}) 0 = Some (worker0 Constructed)" "wk_phase (worker0 Constructed) = Constructed"
    by (simp_all add: process0_def worker0_def)
  then have r: "pstep\<^sup>*\<^sup>* (process0 {7}) ?s" by (intro r_into_rtranclp pstep.build)
  moreover have "\<not> dangling ?s" using single_shutdown_safe [OF process0_starting r] by (rule conjunct1)
  ultimately show ?thesis by (intro exI [of _ ?s]) (simp add: set_worker_def)
qed

text \<open>If every server is registered when \<open>initiate_shutdown\<close> is called, then once it has
  returned every server has been shut down and its completion queue closed, so every
  worker's loop ends.\<close>

theorem shutdown_reaches_registered:
  assumes "starting s0" and "pstep\<^sup>*\<^sup>* s0 s" and "callers s c = Some Waiting"
    and "\<forall>i w. workers s i = Some w \<longrightarrow> wk_phase w = Registered"
    and "pstep\<^sup>*\<^sup>* s s'" and "callers s' c = Some Returned" and "workers s' i = Some w"
  shows "shutdown_done (wk_srv w) \<and> srv_cq (wk_srv w) (wk_vendor w) = Some False"
proof -
  have ok: "proc_ok s" by (rule proc_ok_steps [OF assms(2) proc_ok_init [OF assms(1)]])
  have "reached c s" using assms(3,4) by (simp add: reached_def)
  then have "proc_ok s'" "reached c s'" using reached_steps [OF assms(5) ok] by simp_all
  then show ?thesis using assms(6,7) by (auto simp: reached_def proc_ok_def worker_ok_def)
qed

lemma process0_registers:
  "\<exists>s. pstep\<^sup>*\<^sup>* (process0 cs) s \<and> callers s = callers (process0 cs) \<and> g_active_servers s = [0] \<and>
     (\<exists>w. workers s = [0 \<mapsto> w] \<and> wk_phase w = Registered \<and> \<not> shutdown_done (wk_srv w))"
proof -
  let ?w = "(worker0 Constructed)\<lparr>wk_phase := Built, wk_srv := started (worker0 Constructed)\<rparr>"
  let ?s = "set_worker 0 ?w (process0 cs)"
  let ?t = "set_worker 0 (?w\<lparr>wk_phase := Registered\<rparr>) (?s\<lparr>g_active_servers := register_server 0 (g_active_servers ?s)\<rparr>)"
  have "workers (process0 cs) 0 = Some (worker0 Constructed)" "wk_phase (worker0 Constructed) = Constructed"
    by (simp_all add: process0_def worker0_def)
  then have "pstep (process0 cs) ?s" by (rule pstep.build)
  moreover have "pstep ?s ?t" by (rule pstep.enter) (simp_all add: set_worker_def)
  ultimately have "pstep\<^sup>*\<^sup>* (process0 cs) ?t" by (simp add: converse_rtranclp_into_rtranclp)
  then show ?thesis
    by (intro exI [of _ ?t]) (auto simp: set_worker_def process0_def register_server_def worker0_def
        started_def new_Srv_def Let_def)
qed

lemma process0_shuts:
  assumes "callers s c = Some Waiting" and "g_active_servers s = [0]"
    and "workers s = [0 \<mapsto> w]" and "wk_phase w = Registered"
  shows "\<exists>s'. pstep\<^sup>*\<^sup>* s s' \<and> callers s' = (callers s)(c \<mapsto> Returned) \<and>
    workers s' = [0 \<mapsto> w\<lparr>wk_srv := Srv_Shutdown (wk_srv w)\<rparr>]"
proof -
  let ?a = "s\<lparr>callers := (callers s)(c \<mapsto> Shutting (g_active_servers s))\<rparr>"
  let ?b = "set_worker 0 (w\<lparr>wk_srv := Srv_Shutdown (wk_srv w)\<rparr>)
    (?a\<lparr>callers := (callers ?a)(c \<mapsto> Shutting [])\<rparr>)"
  let ?c = "?b\<lparr>callers := (callers ?b)(c \<mapsto> Returned)\<rparr>"
  have "pstep s ?a" by (rule pstep.snapshot [OF assms(1)])
  moreover have "pstep ?a ?b" by (rule pstep.shut_one) (simp_all add: assms)
  moreover have "pstep ?b ?c" by (rule pstep.return) (simp add: set_worker_def)
  ultimately have "pstep\<^sup>*\<^sup>* s ?c" by (simp add: converse_rtranclp_into_rtranclp)
  then show ?thesis by (intro exI [of _ ?c]) (simp add: set_worker_def assms)
qed

lemma shutdown_reaches_registered_witness:
  "\<exists>s w. pstep\<^sup>*\<^sup>* (process0 {7}) s \<and> workers s 0 = Some w \<and> shutdown_done (wk_srv w) \<and>
     srv_cq (wk_srv w) (wk_vendor w) = Some False"
proof -
  obtain s w where s: "pstep\<^sup>*\<^sup>* (process0 {7}) s" "callers s = callers (process0 {7})"
    "g_active_servers s = [0]" "workers s = [0 \<mapsto> w]" "wk_phase w = Registered"
    using process0_registers [of "{7}"] by auto
  have c: "callers s 7 = Some Waiting" using s(2) by (simp add: process0_def)
  obtain s' where s': "pstep\<^sup>*\<^sup>* s s'" "callers s' = (callers s)(7 \<mapsto> Returned)"
    "workers s' = [0 \<mapsto> w\<lparr>wk_srv := Srv_Shutdown (wk_srv w)\<rparr>]"
    using process0_shuts [OF c s(3-5)] by auto
  have all: "\<forall>i w. workers s i = Some w \<longrightarrow> wk_phase w = Registered" using s(4,5) by auto
  have r: "callers s' 7 = Some Returned" and w: "workers s' 0 = Some (w\<lparr>wk_srv := Srv_Shutdown (wk_srv w)\<rparr>)"
    using s'(2,3) by simp_all
  show ?thesis
    using shutdown_reaches_registered [OF process0_starting(1) s(1) c all s'(1) r w]
      rtranclp_trans [OF s(1) s'(1)] w by blast
qed

text \<open>A server that registers after every shutdown took its snapshot is never shut down:
  its worker stays in its loop in every state the process can reach, so the process
  never ends.\<close>

theorem late_server_never_stops:
  assumes "starting s0" and "pstep\<^sup>*\<^sup>* s0 s"
    and "\<forall>c x. callers s c = Some x \<longrightarrow> x = Returned"
    and "workers s i = Some w" and "wk_phase w \<in> {Constructed, Built}"
    and "pstep\<^sup>*\<^sup>* s s'"
  shows "\<exists>w'. workers s' i = Some w' \<and> wk_phase w' \<in> {Constructed, Built, Registered} \<and>
    \<not> shutdown_done (wk_srv w')"
proof -
  have ok: "proc_ok s" by (rule proc_ok_steps [OF assms(2) proc_ok_init [OF assms(1)]])
  then have "\<not> shutdown_done (wk_srv w)"
    using assms(4,5) by (auto simp: proc_ok_def worker_ok_def new_Srv_def)
  then have "late i s" using assms(3-5) by (auto simp: late_def)
  from late_steps [OF assms(6) ok this] show ?thesis by (simp add: late_def)
qed

lemma process0_empty_shutdown:
  "pstep\<^sup>*\<^sup>* (process0 {7}) ((process0 {7})\<lparr>callers := [7 \<mapsto> Returned]\<rparr>)"
proof -
  let ?a = "(process0 {7})\<lparr>callers := (callers (process0 {7}))(7 \<mapsto> Shutting (g_active_servers (process0 {7})))\<rparr>"
  have "pstep (process0 {7}) ?a" by (rule pstep.snapshot) (simp add: process0_def)
  moreover have "pstep ?a (?a\<lparr>callers := (callers ?a)(7 \<mapsto> Returned)\<rparr>)"
    by (rule pstep.return) (simp add: process0_def)
  moreover have "?a\<lparr>callers := (callers ?a)(7 \<mapsto> Returned)\<rparr> = (process0 {7})\<lparr>callers := [7 \<mapsto> Returned]\<rparr>"
    by (auto simp: process0_def fun_eq_iff)
  ultimately show ?thesis by (metis r_into_rtranclp rtranclp.rtrancl_into_rtrancl)
qed

definition late0 :: process where
  "late0 = (process0 {7})\<lparr>callers := [7 \<mapsto> Returned]\<rparr>"

definition late1 :: process where
  "late1 = set_worker 0 ((worker0 Constructed)\<lparr>wk_phase := Built, wk_srv := started (worker0 Constructed)\<rparr>) late0"

theorem late_server_never_stops_witness:
  "pstep late0 late1 \<and> (\<exists>w'. workers late1 0 = Some w' \<and> wk_phase w' \<in> {Constructed, Built, Registered} \<and>
    \<not> shutdown_done (wk_srv w'))"
proof -
  have w: "workers late0 0 = Some (worker0 Constructed)"
    "wk_phase (worker0 Constructed) \<in> {Constructed, Built}"
    by (simp_all add: late0_def process0_def worker0_def)
  have c: "\<forall>c x. callers late0 c = Some x \<longrightarrow> x = Returned"
    by (simp add: late0_def)
  have p: "pstep late0 late1"
    unfolding late1_def using w(1) by (rule pstep.build) (simp add: worker0_def)
  show ?thesis
    using p late_server_never_stops [OF process0_starting(1) process0_empty_shutdown [folded late0_def] c w
        r_into_rtranclp [where r = pstep, OF p]]
    by blast
qed

lemma shut_worker_ends:
  assumes "workers s = [0 \<mapsto> w]" and "wk_phase w = Registered"
    and "srv_cq (wk_srv w) (wk_vendor w) = Some False"
  shows "\<exists>s'. pstep\<^sup>*\<^sup>* s s' \<and> callers s' = callers s \<and>
    (\<exists>w'. workers s' 0 = Some w' \<and> wk_phase w' = Destroyed)"
proof -
  let ?a = "set_worker 0 (w\<lparr>wk_phase := Stopped\<rparr>) s"
  let ?b = "set_worker 0 (w\<lparr>wk_phase := Unregistered\<rparr>)
    (?a\<lparr>g_active_servers := unregister_server 0 (g_active_servers ?a)\<rparr>)"
  let ?c = "set_worker 0 (w\<lparr>wk_phase := Destroyed, wk_srv := Srv_Shutdown (wk_srv w)\<rparr>) ?b"
  have "pstep s ?a" by (rule pstep.stop) (simp_all add: assms)
  moreover have "pstep ?a ?b"
    using pstep.leave [of ?a 0 "w\<lparr>wk_phase := Stopped\<rparr>"] by (simp add: set_worker_def)
  moreover have "pstep ?b ?c"
    using pstep.destroy [of ?b 0 "w\<lparr>wk_phase := Unregistered\<rparr>"] by (simp add: set_worker_def)
  ultimately have "pstep\<^sup>*\<^sup>* s ?c" by (simp add: converse_rtranclp_into_rtranclp)
  then show ?thesis by (intro exI [of _ ?c]) (simp add: set_worker_def)
qed

text \<open>\<open>stop_grpc_dialout_collector\<close> is documented as safe to call at any point, but two
  threads that shut down at the same time can call \<open>Shutdown\<close> on a destroyed server: the
  snapshot of one outlives the server the other one stopped.\<close>

theorem two_shutdowns_dangle:
  "\<exists>s0 s. starting s0 \<and> dom (callers s0) = {7, 8} \<and> pstep\<^sup>*\<^sup>* s0 s \<and> dangling s"
proof -
  obtain s w where s: "pstep\<^sup>*\<^sup>* (process0 {7, 8}) s" "callers s = callers (process0 {7, 8})"
    "g_active_servers s = [0]" "workers s = [0 \<mapsto> w]" "wk_phase w = Registered"
    using process0_registers [of "{7, 8}"] by auto
  let ?a = "s\<lparr>callers := (callers s)(8 \<mapsto> Shutting (g_active_servers s))\<rparr>"
  have a: "pstep s ?a" by (rule pstep.snapshot) (simp add: s(2) process0_def)
  have "callers ?a 7 = Some Waiting" "g_active_servers ?a = [0]" "workers ?a = [0 \<mapsto> w]"
    using s by (simp_all add: process0_def)
  then obtain b where b: "pstep\<^sup>*\<^sup>* ?a b" "callers b = (callers ?a)(7 \<mapsto> Returned)"
    "workers b = [0 \<mapsto> w\<lparr>wk_srv := Srv_Shutdown (wk_srv w)\<rparr>]"
    using process0_shuts [of ?a 7 w] s(5) by auto
  have sb: "pstep\<^sup>*\<^sup>* (process0 {7, 8}) b"
    using s(1) a b(1) by (meson rtranclp.rtrancl_into_rtrancl rtranclp_trans)
  have "worker_ok (w\<lparr>wk_srv := Srv_Shutdown (wk_srv w)\<rparr>)"
    using proc_ok_steps [OF sb proc_ok_init [OF process0_starting(1)]] b(3) by (simp add: proc_ok_def)
  moreover have "proc_ok s" by (rule proc_ok_steps [OF s(1) proc_ok_init [OF process0_starting(1)]])
  then have "shutdown_done (Srv_Shutdown (wk_srv w))"
    using s(4,5) by (intro shutdown_closes) (auto simp: proc_ok_def)
  ultimately have "srv_cq (wk_srv (w\<lparr>wk_srv := Srv_Shutdown (wk_srv w)\<rparr>)) (wk_vendor w) = Some False"
    using s(5) by (auto simp: worker_ok_def)
  then obtain d where d: "pstep\<^sup>*\<^sup>* b d" "callers d = callers b"
    "\<exists>w'. workers d 0 = Some w' \<and> wk_phase w' = Destroyed"
    using shut_worker_ends [OF b(3)] s(5) by auto
  have "callers d 8 = Some (Shutting [0])" using d(2) b(2) s(3) by simp
  then have "dangling d" using d(3) by (auto simp: dangling_def)
  then show ?thesis using process0_starting [of "{7, 8}"] rtranclp_trans [OF sb d(1)] by blast
qed

end
