(* ===== verification/Csv.thy ===== *)
theory Csv
  imports Cpp_Strings
begin

text \<open>
  The document class of \<open>src/include/csv/rapidcsv.h\<close>, the CSV reader the label maps are loaded
  with: its parameters, its table of cells, the column, row and cell operations by index
  and by name. Cells are strings; \<open>ToVal\<close> and \<open>ToStr\<close> stand for the element type's
  converter. The label positions \<open>mColumnNameIdx\<close> and \<open>mRowNameIdx\<close> are \<open>-1\<close> or an index. Indices
  and positions keep their machine widths. Memory is not exhausted: a table grows to any size.
  Reading and writing text is in theory Csv_Text.
\<close>

section \<open>Data\<close>

record LabelParams =
  mColumnNameIdx :: int
  mRowNameIdx :: int

record SeparatorParams =
  mSeparator :: char
  mTrim :: bool
  mHasCR :: bool
  mQuotedLinebreaks :: bool
  mAutoQuote :: bool

record LineReaderParams =
  mSkipCommentLines :: bool
  mCommentPrefix :: char
  mSkipEmptyLines :: bool

record ConverterParams =
  mHasDefaultConverter :: bool
  mDefaultInteger :: int

record Document =
  mPath :: string
  mLabelParams :: LabelParams
  mSeparatorParams :: SeparatorParams
  mConverterParams :: ConverterParams
  mLineReaderParams :: LineReaderParams
  mData :: "string list list"
  mColumnNames :: "string \<rightharpoonup> nat"
  mRowNames :: "string \<rightharpoonup> nat"

text \<open>The default arguments of the constructors.\<close>

definition new_LabelParams :: LabelParams where
  "new_LabelParams = \<lparr>mColumnNameIdx = 0, mRowNameIdx = -1\<rparr>"

definition new_SeparatorParams :: "char \<Rightarrow> SeparatorParams" where
  "new_SeparatorParams sep = \<lparr>mSeparator = sep, mTrim = False, mHasCR = False,
     mQuotedLinebreaks = False, mAutoQuote = True\<rparr>"

definition new_LineReaderParams :: LineReaderParams where
  "new_LineReaderParams = \<lparr>mSkipCommentLines = False, mCommentPrefix = CHR ''#'', mSkipEmptyLines = False\<rparr>"

definition new_ConverterParams :: ConverterParams where
  "new_ConverterParams = \<lparr>mHasDefaultConverter = False, mDefaultInteger = 0\<rparr>"

section \<open>Converters\<close>

text \<open>The specialisations for \<open>std::string\<close>, and \<open>ToVal\<close> for \<open>int\<close>.\<close>

definition ToStr_string :: "string \<Rightarrow> string" where
  "ToStr_string pVal = pVal"

definition ToVal_string :: "string \<Rightarrow> string res" where
  "ToVal_string pStr = Inr pStr"

text \<open>The handler around the conversions: the default value when there is one.\<close>

definition or_default :: "ConverterParams \<Rightarrow> int res \<Rightarrow> int res" where
  "or_default p m =
     (case m of
        Inr n \<Rightarrow> Inr n
      | Inl e \<Rightarrow> if \<not> mHasDefaultConverter p then Inl e
                 else Inr (sint (word_of_int (mDefaultInteger p) :: 32 word)))"

definition ToVal_int :: "ConverterParams \<Rightarrow> string \<Rightarrow> int res" where
  "ToVal_int p pStr = or_default p (stoi pStr)"

section \<open>Sizes and names\<close>

definition col_off :: "Document \<Rightarrow> int" where
  "col_off d = mRowNameIdx (mLabelParams d) + 1"

definition row_off :: "Document \<Rightarrow> int" where
  "row_off d = mColumnNameIdx (mLabelParams d) + 1"

text \<open>Positions in the table are \<open>size_t\<close> or \<open>ssize_t\<close>: the sum of an index and a label offset is
  taken modulo \<open>2 ^ 64\<close>, and an \<open>ssize_t\<close> is negative from \<open>2 ^ 63\<close> on (a negative one that
  reaches \<open>at()\<close> is converted back). \<open>to_int\<close> is \<open>static_cast<int>\<close> of a size.\<close>

definition size_t :: "int \<Rightarrow> nat" where
  "size_t k = nat (k mod 2 ^ 64)"

definition ssize_t :: "nat \<Rightarrow> int" where
  "ssize_t n = (if n < 2 ^ 63 then int n else int n - 2 ^ 64)"

definition to_int :: "nat \<Rightarrow> int" where
  "to_int n = sint (word_of_int (int n) :: 32 word)"

text \<open>Below the width nothing wraps.\<close>

lemma size_t_small [simp]: "0 \<le> k \<Longrightarrow> k < 2 ^ 64 \<Longrightarrow> size_t k = nat k"
  by (simp add: size_t_def)

lemma ssize_t_small [simp]: "n < 2 ^ 63 \<Longrightarrow> ssize_t n = int n"
  by (simp add: ssize_t_def)

lemma to_int_small [simp]: "n < 2 ^ 31 \<Longrightarrow> to_int n = int n"
  by (simp add: to_int_def signed_of_int signed_of_nat signed_take_bit_int_eq_self)

definition columnIdx :: "Document \<Rightarrow> nat \<Rightarrow> nat" where
  "columnIdx d pColumnIdx = size_t (int pColumnIdx + col_off d)"

definition rowIdx :: "Document \<Rightarrow> nat \<Rightarrow> nat" where
  "rowIdx d pRowIdx = size_t (int pRowIdx + row_off d)"

definition GetDataRowCount :: "Document \<Rightarrow> nat" where
  "GetDataRowCount d = length (mData d)"

definition data_columns :: "string list list \<Rightarrow> nat" where
  "data_columns data = (case data of [] \<Rightarrow> 0 | row # _ \<Rightarrow> length row)"

definition GetDataColumnCount :: "Document \<Rightarrow> nat" where
  "GetDataColumnCount d = data_columns (mData d)"

definition GetColumnCount :: "Document \<Rightarrow> nat" where
  "GetColumnCount d = nat (int (GetDataColumnCount d) - col_off d)"

definition GetRowCount :: "Document \<Rightarrow> nat" where
  "GetRowCount d = nat (int (GetDataRowCount d) - row_off d)"

fun number :: "nat \<Rightarrow> string list \<Rightarrow> (string \<rightharpoonup> nat) \<Rightarrow> (string \<rightharpoonup> nat)" where
  "number i [] m = m"
| "number i (x # xs) m = number (Suc i) xs (m(x \<mapsto> i))"

definition UpdateColumnNames :: "Document \<Rightarrow> Document" where
  "UpdateColumnNames d = d\<lparr>mColumnNames :=
     (let c = mColumnNameIdx (mLabelParams d) in
      if c \<ge> 0 \<and> int (length (mData d)) > c then number 0 (mData d ! nat c) Map.empty else Map.empty)\<rparr>"

text \<open>The counter only advances on rows long enough to have a name.\<close>

definition UpdateRowNames :: "Document \<Rightarrow> Document" where
  "UpdateRowNames d = d\<lparr>mRowNames :=
     (let r = mRowNameIdx (mLabelParams d) in
      if r \<ge> 0 \<and> int (length (mData d)) > mColumnNameIdx (mLabelParams d) + 1
      then number 0 (map (\<lambda>row. row ! nat r) (filter (\<lambda>row. int (length row) > r) (mData d))) Map.empty
      else Map.empty)\<rparr>"

definition GetColumnIdx :: "Document \<Rightarrow> string \<Rightarrow> int" where
  "GetColumnIdx d pColumnName =
     (if mColumnNameIdx (mLabelParams d) \<ge> 0 then
        case mColumnNames d pColumnName of Some i \<Rightarrow> int i - col_off d | None \<Rightarrow> -1
      else -1)"

definition GetRowIdx :: "Document \<Rightarrow> string \<Rightarrow> int" where
  "GetRowIdx d pRowName =
     (if mRowNameIdx (mLabelParams d) \<ge> 0 then
        case mRowNames d pRowName of Some i \<Rightarrow> int i - row_off d | None \<Rightarrow> -1
      else -1)"

text \<open>The overloads by name: an unknown name throws.\<close>

definition by_name :: "int \<Rightarrow> (nat \<Rightarrow> 'a res) \<Rightarrow> 'a res" where
  "by_name idx f = (if idx < 0 then Inl (Throw Out_of_range) else f (nat idx))"

definition Clear :: "Document \<Rightarrow> Document" where
  "Clear d = d\<lparr>mData := [], mColumnNames := Map.empty, mRowNames := Map.empty\<rparr>"

section \<open>Growing the table\<close>

text \<open>Rows of the width of the first one are appended until there are \<open>n\<close>.\<close>

definition add_rows :: "nat \<Rightarrow> nat \<Rightarrow> string list list \<Rightarrow> string list list" where
  "add_rows w n data = data @ replicate (n - length data) (replicate w [])"

definition put_cell :: "nat \<Rightarrow> nat \<Rightarrow> string \<Rightarrow> string list list \<Rightarrow> string list list res" where
  "put_cell r c s data =
     bindr (vec_at data r) (\<lambda>row. bindr (vec_put row c s) (\<lambda>row. Inr (data[r := row])))"

section \<open>Columns\<close>

definition GetColumn :: "(string \<Rightarrow> 'a res) \<Rightarrow> Document \<Rightarrow> nat \<Rightarrow> 'a list res" where
  "GetColumn ToVal d pColumnIdx =
     mapM (\<lambda>row. if ssize_t (columnIdx d pColumnIdx) < int (length row)
                 then bindr (vec_at row (columnIdx d pColumnIdx)) ToVal
                 else Inl (Throw Out_of_range)) (drop (nat (row_off d)) (mData d))"

definition GetColumn_conv :: "(string \<Rightarrow> 'a res) \<Rightarrow> Document \<Rightarrow> nat \<Rightarrow> 'a list res" where
  "GetColumn_conv pToVal d pColumnIdx =
     mapM (\<lambda>row. bindr (vec_at row (columnIdx d pColumnIdx)) pToVal)
       (drop (nat (row_off d)) (mData d))"

definition GetColumn_name :: "(string \<Rightarrow> 'a res) \<Rightarrow> Document \<Rightarrow> string \<Rightarrow> 'a list res" where
  "GetColumn_name ToVal d pColumnName = by_name (GetColumnIdx d pColumnName) (GetColumn ToVal d)"

definition SetColumn :: "('a \<Rightarrow> string) \<Rightarrow> nat \<Rightarrow> 'a list \<Rightarrow> Document \<Rightarrow> Document res" where
  "SetColumn ToStr pColumnIdx pColumn d =
     (let data = add_rows (GetDataColumnCount d) (nat (int (length pColumn) + row_off d)) (mData d);
          c = columnIdx d pColumnIdx;
          data = (if size_t (int c + 1) > data_columns data
                  then map (resize [] (size_t (int c + 1 + col_off d))) data else data)
      in bindr (foldM (\<lambda>(i, x) data. put_cell (nat (int i + row_off d)) c (ToStr x) data)
                  (enumerate 0 pColumn) data) (\<lambda>data. Inr (d\<lparr>mData := data\<rparr>)))"

definition SetColumn_name :: "('a \<Rightarrow> string) \<Rightarrow> string \<Rightarrow> 'a list \<Rightarrow> Document \<Rightarrow> Document res" where
  "SetColumn_name ToStr pColumnName pColumn d =
     by_name (GetColumnIdx d pColumnName) (\<lambda>i. SetColumn ToStr i pColumn d)"

definition RemoveColumn :: "nat \<Rightarrow> Document \<Rightarrow> Document res" where
  "RemoveColumn pColumnIdx d =
     bindr (mapM (\<lambda>row. vec_erase row (columnIdx d pColumnIdx)) (mData d)) (\<lambda>data.
       Inr (UpdateColumnNames (d\<lparr>mData := data\<rparr>)))"

definition RemoveColumn_name :: "string \<Rightarrow> Document \<Rightarrow> Document res" where
  "RemoveColumn_name pColumnName d =
     by_name (GetColumnIdx d pColumnName) (\<lambda>i. RemoveColumn i d)"

definition SetColumnName :: "nat \<Rightarrow> string \<Rightarrow> Document \<Rightarrow> Document res" where
  "SetColumnName pColumnIdx pColumnName d =
     (let c = columnIdx d pColumnIdx; r = mColumnNameIdx (mLabelParams d) in
      if r < 0 then Inl (Throw Out_of_range)
      else let data = (if r \<ge> to_int (length (mData d)) then resize [] (nat r + 1) (mData d) else mData d)
           in bindr (vec_index data (nat r)) (\<lambda>row.
              let row = (if ssize_t c \<ge> to_int (length row) then resize [] (size_t (ssize_t c + 1)) row else row)
              in bindr (vec_put row c pColumnName) (\<lambda>row.
                   Inr (d\<lparr>mColumnNames := (mColumnNames d)(pColumnName \<mapsto> c),
                          mData := data[nat r := row]\<rparr>))))"

definition InsertColumn :: "('a \<Rightarrow> string) \<Rightarrow> nat \<Rightarrow> 'a list \<Rightarrow> string \<Rightarrow> Document \<Rightarrow> Document res" where
  "InsertColumn ToStr pColumnIdx pColumn pColumnName d =
     (let column = (if pColumn = [] then replicate (GetDataRowCount d) []
                    else replicate (nat (row_off d)) [] @ map ToStr pColumn);
          data = add_rows (max (nat (row_off d)) (GetDataColumnCount d)) (length column) (mData d)
      in bindr (mapM (\<lambda>(i, row). bindr (vec_at column i) (vec_insert row (columnIdx d pColumnIdx)))
                  (enumerate 0 data)) (\<lambda>data.
         bindr (if pColumnName = [] then Inr (d\<lparr>mData := data\<rparr>)
                else SetColumnName pColumnIdx pColumnName (d\<lparr>mData := data\<rparr>)) (\<lambda>d.
           Inr (UpdateColumnNames d))))"

section \<open>Rows\<close>

definition GetRow :: "(string \<Rightarrow> 'a res) \<Rightarrow> Document \<Rightarrow> nat \<Rightarrow> 'a list res" where
  "GetRow ToVal d pRowIdx =
     bindr (vec_at (mData d) (rowIdx d pRowIdx)) (\<lambda>row. mapM ToVal (drop (nat (col_off d)) row))"

definition GetRow_name :: "(string \<Rightarrow> 'a res) \<Rightarrow> Document \<Rightarrow> string \<Rightarrow> 'a list res" where
  "GetRow_name ToVal d pRowName = by_name (GetRowIdx d pRowName) (GetRow ToVal d)"

definition SetRow :: "('a \<Rightarrow> string) \<Rightarrow> nat \<Rightarrow> 'a list \<Rightarrow> Document \<Rightarrow> Document res" where
  "SetRow ToStr pRowIdx pRow d =
     (let r = rowIdx d pRowIdx;
          data = add_rows (GetDataColumnCount d) (size_t (int r + 1)) (mData d);
          data = (if length pRow > data_columns data
                  then map (resize [] (nat (int (length pRow) + col_off d))) data else data)
      in bindr (foldM (\<lambda>(i, x) data. put_cell r (nat (int i + col_off d)) (ToStr x) data)
                  (enumerate 0 pRow) data) (\<lambda>data. Inr (d\<lparr>mData := data\<rparr>)))"

definition SetRow_name :: "('a \<Rightarrow> string) \<Rightarrow> string \<Rightarrow> 'a list \<Rightarrow> Document \<Rightarrow> Document res" where
  "SetRow_name ToStr pRowName pRow d = by_name (GetRowIdx d pRowName) (\<lambda>i. SetRow ToStr i pRow d)"

definition RemoveRow :: "nat \<Rightarrow> Document \<Rightarrow> Document res" where
  "RemoveRow pRowIdx d =
     bindr (vec_erase (mData d) (rowIdx d pRowIdx)) (\<lambda>data. Inr (UpdateRowNames (d\<lparr>mData := data\<rparr>)))"

definition RemoveRow_name :: "string \<Rightarrow> Document \<Rightarrow> Document res" where
  "RemoveRow_name pRowName d = by_name (GetRowIdx d pRowName) (\<lambda>i. RemoveRow i d)"

definition SetRowName :: "nat \<Rightarrow> string \<Rightarrow> Document \<Rightarrow> Document res" where
  "SetRowName pRowIdx pRowName d =
     (let r = rowIdx d pRowIdx; c = mRowNameIdx (mLabelParams d) in
      if c < 0 then Inl (Throw Out_of_range)
      else let data = (if ssize_t r \<ge> to_int (length (mData d)) then resize [] (size_t (ssize_t r + 1)) (mData d)
                       else mData d)
           in bindr (vec_index data r) (\<lambda>row.
              let row = (if c \<ge> to_int (length row) then resize [] (nat c + 1) row else row)
              in bindr (vec_put row (nat c) pRowName) (\<lambda>row.
                   Inr (d\<lparr>mRowNames := (mRowNames d)(pRowName \<mapsto> r), mData := data[r := row]\<rparr>))))"

definition InsertRow :: "('a \<Rightarrow> string) \<Rightarrow> nat \<Rightarrow> 'a list \<Rightarrow> string \<Rightarrow> Document \<Rightarrow> Document res" where
  "InsertRow ToStr pRowIdx pRow pRowName d =
     (let r = rowIdx d pRowIdx;
          row = (if pRow = [] then replicate (GetDataColumnCount d) []
                 else replicate (nat (col_off d)) [] @ map ToStr pRow);
          data = add_rows (GetDataColumnCount d) r (mData d)
      in bindr (vec_insert data r row) (\<lambda>data.
         bindr (if pRowName = [] then Inr (d\<lparr>mData := data\<rparr>)
                else SetRowName pRowIdx pRowName (d\<lparr>mData := data\<rparr>)) (\<lambda>d.
           Inr (UpdateRowNames d))))"

section \<open>Cells and names\<close>

definition GetCell :: "(string \<Rightarrow> 'a res) \<Rightarrow> Document \<Rightarrow> nat \<Rightarrow> nat \<Rightarrow> 'a res" where
  "GetCell ToVal d pColumnIdx pRowIdx =
     bindr (vec_at (mData d) (rowIdx d pRowIdx)) (\<lambda>row.
     bindr (vec_at row (columnIdx d pColumnIdx)) ToVal)"

definition GetCell_names :: "(string \<Rightarrow> 'a res) \<Rightarrow> Document \<Rightarrow> string \<Rightarrow> string \<Rightarrow> 'a res" where
  "GetCell_names ToVal d pColumnName pRowName =
     by_name (GetColumnIdx d pColumnName) (\<lambda>c.
     by_name (GetRowIdx d pRowName) (\<lambda>r. GetCell ToVal d c r))"

definition GetCell_column_name :: "(string \<Rightarrow> 'a res) \<Rightarrow> Document \<Rightarrow> string \<Rightarrow> nat \<Rightarrow> 'a res" where
  "GetCell_column_name ToVal d pColumnName pRowIdx =
     by_name (GetColumnIdx d pColumnName) (\<lambda>c. GetCell ToVal d c pRowIdx)"

definition GetCell_row_name :: "(string \<Rightarrow> 'a res) \<Rightarrow> Document \<Rightarrow> nat \<Rightarrow> string \<Rightarrow> 'a res" where
  "GetCell_row_name ToVal d pColumnIdx pRowName =
     by_name (GetRowIdx d pRowName) (\<lambda>r. GetCell ToVal d pColumnIdx r)"

definition SetCell :: "('a \<Rightarrow> string) \<Rightarrow> nat \<Rightarrow> nat \<Rightarrow> 'a \<Rightarrow> Document \<Rightarrow> Document res" where
  "SetCell ToStr pColumnIdx pRowIdx pCell d =
     (let c = columnIdx d pColumnIdx; r = rowIdx d pRowIdx;
          data = add_rows (GetDataColumnCount d) (size_t (int r + 1)) (mData d);
          data = (if size_t (int c + 1) > data_columns data
                  then map (resize [] (size_t (int c + 1))) data else data)
      in bindr (put_cell r c (ToStr pCell) data) (\<lambda>data. Inr (d\<lparr>mData := data\<rparr>)))"

definition SetCell_names :: "('a \<Rightarrow> string) \<Rightarrow> string \<Rightarrow> string \<Rightarrow> 'a \<Rightarrow> Document \<Rightarrow> Document res" where
  "SetCell_names ToStr pColumnName pRowName pCell d =
     by_name (GetColumnIdx d pColumnName) (\<lambda>c.
     by_name (GetRowIdx d pRowName) (\<lambda>r. SetCell ToStr c r pCell d))"

text \<open>The index of a name to read is an \<open>ssize_t\<close>.\<close>

definition GetColumnName :: "Document \<Rightarrow> int \<Rightarrow> string res" where
  "GetColumnName d pColumnIdx =
     (let r = mColumnNameIdx (mLabelParams d) in
      if r < 0 then Inl (Throw Out_of_range)
      else bindr (vec_at (mData d) (nat r)) (\<lambda>row. vec_at row (size_t (pColumnIdx + col_off d))))"

definition GetColumnNames :: "Document \<Rightarrow> string list res" where
  "GetColumnNames d =
     (let r = mColumnNameIdx (mLabelParams d) in
      if r \<ge> 0 then
        bindr (vec_at (mData d) (nat r)) (\<lambda>row.
          if nat (col_off d) \<le> length row then Inr (drop (nat (col_off d)) row)
          else Inl (Undefined Index_out_of_bounds))
      else Inr [])"

definition GetRowName :: "Document \<Rightarrow> int \<Rightarrow> string res" where
  "GetRowName d pRowIdx =
     (let c = mRowNameIdx (mLabelParams d) in
      if c < 0 then Inl (Throw Out_of_range)
      else bindr (vec_at (mData d) (size_t (pRowIdx + row_off d))) (\<lambda>row. vec_at row (nat c)))"

definition GetRowNames :: "Document \<Rightarrow> string list res" where
  "GetRowNames d =
     (let c = mRowNameIdx (mLabelParams d) in
      if c \<ge> 0 then mapM (\<lambda>row. vec_at row (nat c)) (drop (nat (row_off d)) (mData d))
      else Inr [])"

end
