(* ===== verification/Csv_Text.thy ===== *)
theory Csv_Text
  imports Csv
begin

text \<open>
  Reading and writing CSV text, from \<open>src/include/csv/rapidcsv.h\<close>: the byte automaton of
  \<open>ParseCsv\<close> with its 64 KiB read loop, \<open>ReadCsv\<close>, \<open>WriteCsv\<close>, and the constructors,
  \<open>Load\<close> and \<open>Save\<close> on top of them. A stream is the list of its bytes; a file system is
  the contents of the files that can be opened. The build does not define
  \<open>HAS_CODECVT\<close>, so the UTF-16 branches are not compiled. Line breaks are counted without a
  bound (the source's \<open>int\<close> counters hold for fewer than \<open>2 ^ 31\<close> of them).
\<close>

section \<open>Replacing text\<close>

fun str_find_str :: "string \<Rightarrow> string \<Rightarrow> nat option" where
  "str_find_str t [] = (if t = [] then Some 0 else None)"
| "str_find_str t (x # xs) =
     (if prefix t (x # xs) then Some 0 else map_option Suc (str_find_str t xs))"

text \<open>\<open>pStr.find(pSearch, pos)\<close>.\<close>

definition find_from :: "string \<Rightarrow> string \<Rightarrow> nat \<Rightarrow> nat option" where
  "find_from pStr pSearch pos = map_option (\<lambda>i. pos + i) (str_find_str pSearch (drop pos pStr))"

lemma str_find_str_Some:
  "str_find_str t s = Some i \<Longrightarrow> prefix t (drop i s) \<and> i + length t \<le> length s"
proof (induction t s arbitrary: i rule: str_find_str.induct)
  case (2 t x xs)
  show ?case
  proof (cases "prefix t (x # xs)")
    case True
    then show ?thesis using 2(2) prefix_length_le [OF True] by simp
  next
    case False
    then obtain j where "str_find_str t xs = Some j" "i = Suc j" using 2(2) by auto
    then show ?thesis using 2(1) False by auto
  qed
qed (auto split: if_splits)

text \<open>The loop of \<open>ReplaceString\<close> from position \<open>pos\<close>; with an empty search string it never
  ends, which is \<open>None\<close>.\<close>

function replace_from :: "string \<Rightarrow> string \<Rightarrow> nat \<Rightarrow> string \<Rightarrow> string option" where
  "replace_from pSearch pReplace pos pStr =
     (if pSearch = [] then None
      else case find_from pStr pSearch pos of
        None \<Rightarrow> Some pStr
      | Some q \<Rightarrow> replace_from pSearch pReplace (q + length pReplace)
                   (take q pStr @ pReplace @ drop (q + length pSearch) pStr))"
  by pat_completeness auto

termination
proof (relation "measure (\<lambda>(pSearch, pReplace, pos, pStr). length pStr - pos)")
  fix pSearch pReplace pStr :: string and pos q :: nat
  assume "pSearch \<noteq> []" and f: "find_from pStr pSearch pos = Some q"
  then have "length pSearch > 0" by simp
  moreover have "pos \<le> q \<and> q + length pSearch \<le> length pStr"
  proof -
    obtain i where i: "str_find_str pSearch (drop pos pStr) = Some i" "q = pos + i"
      using f by (auto simp: find_from_def)
    have "i + length pSearch \<le> length pStr - pos" using str_find_str_Some [OF i(1)] by simp
    then show ?thesis using i(2) \<open>length pSearch > 0\<close> by linarith
  qed
  ultimately show "((pSearch, pReplace, q + length pReplace,
      take q pStr @ pReplace @ drop (q + length pSearch) pStr), pSearch, pReplace, pos, pStr)
      \<in> measure (\<lambda>(pSearch, pReplace, pos, pStr). length pStr - pos)"
    by (cases pSearch) auto
qed simp

declare replace_from.simps [simp del]

definition ReplaceString :: "string \<Rightarrow> string \<Rightarrow> string \<Rightarrow> string option" where
  "ReplaceString pStr pSearch pReplace = replace_from pSearch pReplace 0 pStr"

text \<open>What the loop computes, without positions.\<close>

function replaced :: "string \<Rightarrow> string \<Rightarrow> string \<Rightarrow> string" where
  "replaced t r s =
     (if t = [] \<or> s = [] then s
      else if prefix t s then r @ replaced t r (drop (length t) s)
      else hd s # replaced t r (tl s))"
  by pat_completeness auto

termination
  by (relation "measure (\<lambda>(t, r, s). length s)") auto

declare replaced.simps [simp del]

lemma replaced_Nil [simp]: "replaced t r [] = []"
  by (simp add: replaced.simps)

lemma replaced_skip: "str_find_str t s = None \<Longrightarrow> replaced t r s = s"
proof (induction t s rule: str_find_str.induct)
  case (2 t x xs)
  then show ?case by (subst replaced.simps) (auto split: if_splits)
qed (simp add: replaced.simps)

lemma replaced_hit:
  "t \<noteq> [] \<Longrightarrow> str_find_str t s = Some i \<Longrightarrow>
   replaced t r s = take i s @ r @ replaced t r (drop (i + length t) s)"
proof (induction t s arbitrary: i rule: str_find_str.induct)
  case (2 t x xs)
  show ?case
  proof (cases "prefix t (x # xs)")
    case True
    then show ?thesis using 2(2,3) by (subst replaced.simps) auto
  next
    case False
    then obtain j where "str_find_str t xs = Some j" "i = Suc j" using 2(3) by auto
    then show ?thesis using 2(1,2) False by (subst replaced.simps) auto
  qed
qed simp

lemma replace_from_replaced:
  "t \<noteq> [] \<Longrightarrow> replace_from t r (length d) (d @ s) = Some (d @ replaced t r s)"
proof (induction s arbitrary: d rule: length_induct)
  case (1 s)
  show ?case
  proof (cases "str_find_str t s")
    case None
    then show ?thesis using 1(2) by (simp add: replace_from.simps find_from_def replaced_skip)
  next
    case (Some i)
    have le: "i + length t \<le> length s" using str_find_str_Some [OF Some] by simp
    then have lt: "length (drop (i + length t) s) < length s" using 1(2) by (cases t) auto
    have "replace_from t r (length d) (d @ s) =
        replace_from t r (length (d @ take i s @ r)) ((d @ take i s @ r) @ drop (i + length t) s)"
      using 1(2) Some le
      by (subst replace_from.simps) (simp add: find_from_def add.assoc)
    also have "\<dots> = Some ((d @ take i s @ r) @ replaced t r (drop (i + length t) s))"
      using 1(1) lt 1(2) by blast
    finally show ?thesis using replaced_hit [OF 1(2) Some] by simp
  qed
qed

lemma ReplaceString_returns: "pSearch \<noteq> [] \<Longrightarrow> ReplaceString s pSearch r = Some (replaced pSearch r s)"
  using replace_from_replaced [of pSearch r "[]" s] by (simp add: ReplaceString_def)

section \<open>Cells\<close>

definition Trim :: "SeparatorParams \<Rightarrow> string \<Rightarrow> string" where
  "Trim p pStr =
     (if mTrim p then rev (dropWhile is_space (rev (dropWhile is_space pStr))) else pStr)"

definition Unquote :: "SeparatorParams \<Rightarrow> string \<Rightarrow> string" where
  "Unquote p pStr =
     (if mAutoQuote p \<and> length pStr \<ge> 2 \<and> hd pStr = CHR 0x22 \<and> last pStr = CHR 0x22
      then the (ReplaceString (take (length pStr - 2) (drop 1 pStr))
                  [CHR 0x22, CHR 0x22] [CHR 0x22])
      else pStr)"

section \<open>Reading\<close>

text \<open>The local variables of \<open>ParseCsv\<close>; \<open>rd_data\<close> is what has been pushed to \<open>mData\<close>.\<close>

record reader =
  rd_data :: "string list list"
  rd_row :: "string list"
  rd_cell :: string
  rd_quoted :: bool
  rd_cr :: nat
  rd_lf :: nat

definition push_cell :: "SeparatorParams \<Rightarrow> reader \<Rightarrow> string list" where
  "push_cell p s = rd_row s @ [Unquote p (Trim p (rd_cell s))]"

text \<open>The body of the \<open>for\<close> loop, on one byte.\<close>

definition parse_byte :: "SeparatorParams \<Rightarrow> LineReaderParams \<Rightarrow> char \<Rightarrow> reader \<Rightarrow> reader" where
  "parse_byte p l c s =
     (if c = CHR 0x22 then
        s\<lparr>rd_quoted := (if rd_cell s = [] \<or> hd (rd_cell s) = CHR 0x22 then \<not> rd_quoted s
                         else rd_quoted s),
          rd_cell := rd_cell s @ [c]\<rparr>
      else if c = mSeparator p then
        (if \<not> rd_quoted s then s\<lparr>rd_row := push_cell p s, rd_cell := []\<rparr>
         else s\<lparr>rd_cell := rd_cell s @ [c]\<rparr>)
      else if c = CHR 0x0D then
        (if mQuotedLinebreaks p \<and> rd_quoted s then s\<lparr>rd_cell := rd_cell s @ [c]\<rparr>
         else s\<lparr>rd_cr := rd_cr s + 1\<rparr>)
      else if c = CHR 0x0A then
        (if mQuotedLinebreaks p \<and> rd_quoted s then s\<lparr>rd_cell := rd_cell s @ [c]\<rparr>
         else let s = s\<lparr>rd_lf := rd_lf s + 1\<rparr> in
           if mSkipEmptyLines l \<and> rd_row s = [] \<and> rd_cell s = [] then s
           else let row = push_cell p s;
                    comment = (mSkipCommentLines l \<and> hd row \<noteq> [] \<and>
                               hd (hd row) = mCommentPrefix l)
                in s\<lparr>rd_data := (if comment then rd_data s else rd_data s @ [row]),
                     rd_cell := [], rd_row := [], rd_quoted := False\<rparr>)
      else s\<lparr>rd_cell := rd_cell s @ [c]\<rparr>)"

text \<open>The \<open>while\<close> loop: at most \<open>bufLength\<close> bytes per read, until \<open>p_FileLength\<close> bytes have
  been parsed or the stream ends.\<close>

definition bufLength :: nat where
  "bufLength = 64 * 1024"

function read_loop ::
  "SeparatorParams \<Rightarrow> LineReaderParams \<Rightarrow> string \<Rightarrow> nat \<Rightarrow> reader \<Rightarrow> reader" where
  "read_loop p l stream p_FileLength s =
     (if p_FileLength > 0 then
        let toReadLength = min p_FileLength bufLength;
            buffer = take toReadLength stream;
            readLength = length buffer
        in if readLength = 0 then s
           else read_loop p l (drop readLength stream) (p_FileLength - readLength)
                  (fold (parse_byte p l) buffer s)
      else s)"
  by pat_completeness auto

termination
  by (relation "measure (\<lambda>(p, l, stream, n, s). n)") auto

declare read_loop.simps [simp del]

definition new_reader :: reader where
  "new_reader = \<lparr>rd_data = [], rd_row = [], rd_cell = [], rd_quoted = False, rd_cr = 0, rd_lf = 0\<rparr>"

definition ParseCsv :: "string \<Rightarrow> nat \<Rightarrow> Document \<Rightarrow> Document" where
  "ParseCsv pStream p_FileLength d =
     (let p = mSeparatorParams d;
          s = read_loop p (mLineReaderParams d) pStream p_FileLength (new_reader\<lparr>rd_data := mData d\<rparr>);
          data = (if rd_cell s \<noteq> [] \<or> rd_row s \<noteq> [] then rd_data s @ [push_cell p s] else rd_data s);
          d = d\<lparr>mData := data, mSeparatorParams := p\<lparr>mHasCR := (rd_cr s > rd_lf s div 2)\<rparr>\<rparr>
      in UpdateRowNames (UpdateColumnNames d))"

definition bomU8 :: string where
  "bomU8 = [CHR 0xEF, CHR 0xBB, CHR 0xBF]"

definition ReadCsv :: "string \<Rightarrow> Document \<Rightarrow> Document" where
  "ReadCsv pStream d =
     (let d = Clear d; n = length pStream in
      if n \<ge> 3 \<and> take 3 pStream = bomU8 then ParseCsv (drop 3 pStream) (n - 3) d
      else ParseCsv pStream n d)"

text \<open>The overload that opens \<open>mPath\<close>: the stream's exception mask makes a failed open throw.\<close>

definition ReadCsv_path :: "(string \<Rightarrow> string option) \<Rightarrow> Document \<Rightarrow> Document res" where
  "ReadCsv_path read_file d =
     (case read_file (mPath d) of
        None \<Rightarrow> Inl (Throw Io_failure)
      | Some text \<Rightarrow> Inr (ReadCsv text d))"

definition new_Document ::
  "(string \<Rightarrow> string option) \<Rightarrow> string \<Rightarrow> LabelParams \<Rightarrow> SeparatorParams \<Rightarrow> ConverterParams \<Rightarrow>
   LineReaderParams \<Rightarrow> Document res" where
  "new_Document read_file pPath pLabel pSep pConv pLine =
     (let d = \<lparr>mPath = pPath, mLabelParams = pLabel, mSeparatorParams = pSep,
               mConverterParams = pConv, mLineReaderParams = pLine,
               mData = [], mColumnNames = Map.empty, mRowNames = Map.empty\<rparr>
      in if mPath d \<noteq> [] then ReadCsv_path read_file d else Inr d)"

definition new_Document_stream ::
  "string \<Rightarrow> LabelParams \<Rightarrow> SeparatorParams \<Rightarrow> ConverterParams \<Rightarrow> LineReaderParams \<Rightarrow> Document" where
  "new_Document_stream pStream pLabel pSep pConv pLine =
     ReadCsv pStream \<lparr>mPath = [], mLabelParams = pLabel, mSeparatorParams = pSep,
       mConverterParams = pConv, mLineReaderParams = pLine,
       mData = [], mColumnNames = Map.empty, mRowNames = Map.empty\<rparr>"

definition Load ::
  "(string \<Rightarrow> string option) \<Rightarrow> string \<Rightarrow> LabelParams \<Rightarrow> SeparatorParams \<Rightarrow> ConverterParams \<Rightarrow>
   LineReaderParams \<Rightarrow> Document \<Rightarrow> Document res" where
  "Load read_file pPath pLabel pSep pConv pLine d =
     ReadCsv_path read_file (d\<lparr>mPath := pPath, mLabelParams := pLabel, mSeparatorParams := pSep,
       mConverterParams := pConv, mLineReaderParams := pLine\<rparr>)"

definition Load_stream ::
  "string \<Rightarrow> LabelParams \<Rightarrow> SeparatorParams \<Rightarrow> ConverterParams \<Rightarrow> LineReaderParams \<Rightarrow>
   Document \<Rightarrow> Document" where
  "Load_stream pStream pLabel pSep pConv pLine d =
     ReadCsv pStream (d\<lparr>mPath := [], mLabelParams := pLabel, mSeparatorParams := pSep,
       mConverterParams := pConv, mLineReaderParams := pLine\<rparr>)"

section \<open>Writing\<close>

definition write_cell :: "SeparatorParams \<Rightarrow> string \<Rightarrow> string" where
  "write_cell p c =
     (if mAutoQuote p \<and> (mSeparator p \<in> set c \<or> CHR '' '' \<in> set c)
      then CHR 0x22 # the (ReplaceString c [CHR 0x22] [CHR 0x22, CHR 0x22]) @ [CHR 0x22]
      else c)"

fun write_cells :: "SeparatorParams \<Rightarrow> string list \<Rightarrow> string" where
  "write_cells p [] = []"
| "write_cells p (c # cs) = write_cell p c @ (if cs \<noteq> [] then [mSeparator p] else []) @ write_cells p cs"

definition linebreak :: "SeparatorParams \<Rightarrow> string" where
  "linebreak p = (if mHasCR p then [CHR 0x0D, CHR 0x0A] else [CHR 0x0A])"

definition WriteCsv :: "Document \<Rightarrow> string" where
  "WriteCsv d =
     concat (map (\<lambda>row. write_cells (mSeparatorParams d) row @ linebreak (mSeparatorParams d)) (mData d))"

text \<open>\<open>Save\<close> creates or truncates the file; \<open>can_create\<close> says which paths the system lets it.\<close>

definition Save ::
  "(string \<Rightarrow> bool) \<Rightarrow> string \<Rightarrow> Document \<Rightarrow> (string \<rightharpoonup> string) \<Rightarrow> (Document \<times> (string \<rightharpoonup> string)) res" where
  "Save can_create pPath d files =
     (let d = (if pPath \<noteq> [] then d\<lparr>mPath := pPath\<rparr> else d) in
      if can_create (mPath d) then Inr (d, files(mPath d \<mapsto> WriteCsv d))
      else Inl (Throw Io_failure))"

section \<open>The read loop is one pass\<close>

text \<open>Cutting the input into buffers does not show: the automaton state is carried over.\<close>

lemma read_loop_fold: "read_loop p l stream (length stream) s = fold (parse_byte p l) stream s"
proof (induction stream arbitrary: s rule: length_induct)
  case (1 xs)
  show ?case
  proof (cases "xs = []")
    case True
    then show ?thesis by (simp add: read_loop.simps)
  next
    case False
    define n where "n = min (length xs) bufLength"
    have n: "0 < n" "n \<le> length xs" using False by (auto simp: n_def bufLength_def)
    have "read_loop p l xs (length xs) s =
        read_loop p l (drop n xs) (length (drop n xs)) (fold (parse_byte p l) (take n xs) s)"
      using n False by (subst read_loop.simps) (simp add: Let_def flip: n_def)
    also have "\<dots> = fold (parse_byte p l) (drop n xs) (fold (parse_byte p l) (take n xs) s)"
      using 1 n False by (metis drop_eq_Nil length_drop diff_less length_greater_0_conv)
    also have "\<dots> = fold (parse_byte p l) (take n xs @ drop n xs) s" by (simp only: fold_append o_apply)
    finally show ?thesis by simp
  qed
qed

section \<open>What is written is read back\<close>

definition escaped :: "string \<Rightarrow> string" where
  "escaped c = concat (map (\<lambda>x. if x = CHR 0x22 then [x, x] else [x]) c)"

lemma escaped_simps [simp]:
  "escaped [] = []"
  "escaped (x # c) = (if x = CHR 0x22 then [x, x] else [x]) @ escaped c"
  by (simp_all add: escaped_def)

lemma replaced_escapes: "replaced [CHR 0x22] [CHR 0x22, CHR 0x22] c = escaped c"
proof (induction c)
  case (Cons x c)
  then show ?case by (subst replaced.simps) auto
qed simp

lemma replaced_unescapes: "replaced [CHR 0x22, CHR 0x22] [CHR 0x22] (escaped c) = c"
proof (induction c)
  case (Cons x c)
  then show ?case by (subst replaced.simps) auto
qed simp

definition quotes :: "SeparatorParams \<Rightarrow> string \<Rightarrow> bool" where
  "quotes p c = (mSeparator p \<in> set c \<or> CHR '' '' \<in> set c)"

lemma write_cell_quoted:
  "mAutoQuote p \<Longrightarrow> quotes p c \<Longrightarrow> write_cell p c = CHR 0x22 # escaped c @ [CHR 0x22]"
  by (simp add: write_cell_def quotes_def ReplaceString_returns replaced_escapes)

lemma write_cell_plain: "\<not> quotes p c \<Longrightarrow> write_cell p c = c"
  by (simp add: write_cell_def quotes_def)

text \<open>The separators and cells for which the text form is unambiguous.\<close>

definition plain_format :: "SeparatorParams \<Rightarrow> bool" where
  "plain_format p = (mAutoQuote p \<and> \<not> mTrim p \<and>
     mSeparator p \<notin> {CHR 0x22, CHR 0x0A, CHR 0x0D})"

definition cell_ok :: "SeparatorParams \<Rightarrow> string \<Rightarrow> bool" where
  "cell_ok p c = (CHR 0x0A \<notin> set c \<and> CHR 0x0D \<notin> set c \<and>
     (quotes p c \<or> c = [] \<or> hd c \<noteq> CHR 0x22))"

lemma Unquote_write_cell:
  assumes "plain_format p" and "cell_ok p c"
  shows "Unquote p (Trim p (write_cell p c)) = c"
proof (cases "quotes p c")
  case True
  then show ?thesis using assms
    by (simp add: write_cell_quoted plain_format_def Trim_def Unquote_def ReplaceString_returns
        replaced_unescapes)
next
  case False
  then show ?thesis using assms
    by (auto simp: write_cell_plain plain_format_def Trim_def Unquote_def cell_ok_def)
qed

abbreviation at_row :: "string list list \<Rightarrow> string list \<Rightarrow> string \<Rightarrow> bool \<Rightarrow> nat \<Rightarrow> nat \<Rightarrow> reader" where
  "at_row D r c b m n \<equiv>
     \<lparr>rd_data = D, rd_row = r, rd_cell = c, rd_quoted = b, rd_cr = m, rd_lf = n\<rparr>"

lemma parse_escaped:
  assumes "CHR 0x0A \<notin> set c" and "CHR 0x0D \<notin> set c"
  shows "fold (parse_byte p l) (escaped c) (at_row D r (CHR 0x22 # x) True m n) =
    at_row D r (CHR 0x22 # x @ escaped c) True m n"
  using assms by (induction c arbitrary: x) (auto simp: parse_byte_def)

lemma parse_plain:
  assumes "mSeparator p \<notin> set c" "CHR 0x0A \<notin> set c" "CHR 0x0D \<notin> set c"
    and "x @ c = [] \<or> hd (x @ c) \<noteq> CHR 0x22"
  shows "fold (parse_byte p l) c (at_row D r x False m n) = at_row D r (x @ c) False m n"
  using assms
proof (induction c arbitrary: x)
  case (Cons a c)
  have "parse_byte p l a (at_row D r x False m n) = at_row D r (x @ [a]) False m n"
    using Cons.prems by (cases x) (auto simp: parse_byte_def)
  then show ?case using Cons.IH [of "x @ [a]"] Cons.prems by simp
qed simp

lemma parse_write_cell:
  assumes "plain_format p" and "cell_ok p c"
  shows "fold (parse_byte p l) (write_cell p c) (at_row D r [] False m n) =
    at_row D r (write_cell p c) False m n"
proof (cases "quotes p c")
  case True
  have "fold (parse_byte p l) (escaped c) (at_row D r [CHR 0x22] True m n) =
      at_row D r (CHR 0x22 # escaped c) True m n"
    using parse_escaped [of c p l D r "[]" m n] assms by (simp add: cell_ok_def)
  moreover have "parse_byte p l (CHR 0x22) (at_row D r [] False m n) = at_row D r [CHR 0x22] True m n"
    and "parse_byte p l (CHR 0x22) (at_row D r (CHR 0x22 # escaped c) True m n) =
      at_row D r (CHR 0x22 # escaped c @ [CHR 0x22]) False m n"
    by (simp_all add: parse_byte_def)
  ultimately show ?thesis using True assms by (simp add: write_cell_quoted plain_format_def)
next
  case False
  then show ?thesis
    using parse_plain [of p c "[]"] assms by (simp add: write_cell_plain cell_ok_def quotes_def)
qed

lemma parse_linebreak:
  assumes "plain_format p" and "\<not> mSkipCommentLines l" and "\<not> (mSkipEmptyLines l \<and> r = [] \<and> x = [])"
  shows "fold (parse_byte p l) (linebreak p) (at_row D r x False m n) =
    at_row (D @ [r @ [Unquote p (Trim p x)]]) [] [] False (if mHasCR p then m + 1 else m) (n + 1)"
  using assms by (auto simp: linebreak_def parse_byte_def push_cell_def plain_format_def Let_def)

lemma parse_row:
  assumes "plain_format p" and "\<not> mSkipCommentLines l" and "\<not> mSkipEmptyLines l"
    and "cs \<noteq> []" and "\<forall>c \<in> set cs. cell_ok p c"
  shows "fold (parse_byte p l) (write_cells p cs @ linebreak p) (at_row D r [] False m n) =
    at_row (D @ [r @ cs]) [] [] False (if mHasCR p then m + 1 else m) (n + 1)"
  using assms(4,5)
proof (induction cs arbitrary: r)
  case (Cons c cs)
  have c: "cell_ok p c" using Cons.prems by simp
  show ?case
  proof (cases "cs = []")
    case True
    then show ?thesis
      by (simp add: parse_write_cell [OF assms(1) c] parse_linebreak [OF assms(1,2)] assms(3)
          Unquote_write_cell [OF assms(1) c])
  next
    case False
    have "parse_byte p l (mSeparator p) (at_row D r (write_cell p c) False m n) =
        at_row D (r @ [c]) [] False m n"
      using assms(1) Unquote_write_cell [OF assms(1) c]
      by (simp add: parse_byte_def push_cell_def plain_format_def)
    then show ?thesis
      using Cons.IH [OF False, of "r @ [c]"] Cons.prems False
      by (simp add: parse_write_cell [OF assms(1) c])
  qed
qed simp

lemma parse_rows:
  assumes "plain_format p" and "\<not> mSkipCommentLines l" and "\<not> mSkipEmptyLines l"
    and "\<forall>cs \<in> set rows. cs \<noteq> [] \<and> (\<forall>c \<in> set cs. cell_ok p c)"
  shows "fold (parse_byte p l) (concat (map (\<lambda>cs. write_cells p cs @ linebreak p) rows))
      (at_row D [] [] False m n) =
    at_row (D @ rows) [] [] False (if mHasCR p then m + length rows else m) (n + length rows)"
  using assms(4)
proof (induction rows arbitrary: D m n)
  case (Cons cs rows)
  have "fold (parse_byte p l) (write_cells p cs @ linebreak p) (at_row D [] [] False m n) =
      at_row (D @ [cs]) [] [] False (if mHasCR p then m + 1 else m) (n + 1)"
    using parse_row [OF assms(1-3), of cs D "[]"] Cons.prems by simp
  moreover have "concat (map (\<lambda>cs. write_cells p cs @ linebreak p) (cs # rows)) =
      (write_cells p cs @ linebreak p) @ concat (map (\<lambda>cs. write_cells p cs @ linebreak p) rows)"
    by simp
  ultimately show ?case using Cons.IH [of "D @ [cs]"] Cons.prems
    by (simp only: fold_append o_apply) simp
qed simp

definition doc_ok :: "Document \<Rightarrow> bool" where
  "doc_ok d = (plain_format (mSeparatorParams d) \<and>
     \<not> mSkipCommentLines (mLineReaderParams d) \<and> \<not> mSkipEmptyLines (mLineReaderParams d) \<and>
     mData d \<noteq> [] \<and>
     (\<forall>row \<in> set (mData d). row \<noteq> [] \<and> (\<forall>c \<in> set row. cell_ok (mSeparatorParams d) c)) \<and>
     take 3 (WriteCsv d) \<noteq> bomU8)"

lemma written_is_read_back:
  assumes "doc_ok d"
  shows "ReadCsv (WriteCsv d) d = UpdateRowNames (UpdateColumnNames d)"
proof -
  define p l where "p = mSeparatorParams d" and "l = mLineReaderParams d"
  have ok: "plain_format p" "\<not> mSkipCommentLines l" "\<not> mSkipEmptyLines l" "mData d \<noteq> []"
    "\<forall>row \<in> set (mData d). row \<noteq> [] \<and> (\<forall>c \<in> set row. cell_ok p c)"
    using assms by (simp_all add: doc_ok_def p_def l_def)
  have "read_loop p l (WriteCsv d) (length (WriteCsv d)) new_reader =
      at_row (mData d) [] [] False (if mHasCR p then length (mData d) else 0) (length (mData d))"
    unfolding read_loop_fold new_reader_def WriteCsv_def
    using parse_rows [OF ok(1-3,5), of "[]" 0 0] by (simp flip: p_def)
  moreover have "(if mHasCR p then length (mData d) else 0) > length (mData d) div 2 \<longleftrightarrow> mHasCR p"
    using ok(4) by simp
  ultimately show ?thesis
    using assms
    by (cases d) (simp add: doc_ok_def ReadCsv_def ParseCsv_def Clear_def p_def l_def new_reader_def
        Let_def UpdateColumnNames_def UpdateRowNames_def)
qed

lemma read_rows:
  "mData (ReadCsv input d) =
     (let p = mSeparatorParams d;
          body = (if take 3 input = bomU8 then drop 3 input else input);
          s = fold (parse_byte p (mLineReaderParams d)) body new_reader
      in rd_data s @ (if rd_cell s \<noteq> [] \<or> rd_row s \<noteq> [] then [push_cell p s] else []))"
proof -
  have "take 3 input = bomU8 \<Longrightarrow> length input \<ge> 3"
    by (cases "length input \<ge> 3") (auto simp: bomU8_def dest: arg_cong [of _ _ length])
  then show ?thesis
    using read_loop_fold [where stream = input] read_loop_fold [where stream = "drop 3 input"]
    by (simp add: ReadCsv_def ParseCsv_def Let_def Clear_def UpdateRowNames_def UpdateColumnNames_def
        new_reader_def)
qed

lemma read_label_params [simp]: "mLabelParams (ReadCsv input d) = mLabelParams d"
  by (simp add: ReadCsv_def ParseCsv_def Let_def Clear_def UpdateRowNames_def UpdateColumnNames_def)

text \<open>C22. Writing a document and reading the text back gives the document, for tables of
  non-empty rows, default line handling and any separator other than a quote or a line break:
  cells may hold separators, blanks, quotes; only line breaks, and a leading quote in a cell
  that is not quoted for another reason, are excluded, and the text must not begin with the
  byte order mark. The \<open>\r\n\<close> setting is recognised again and the label indexes are rebuilt.\<close>

theorem ReadCsv_WriteCsv:
  assumes "doc_ok d"
  shows "ReadCsv (WriteCsv d) d = UpdateRowNames (UpdateColumnNames d)"
  using assms by (rule written_is_read_back)

definition sample_document :: Document where
  "sample_document = \<lparr>mPath = [], mLabelParams = \<lparr>mColumnNameIdx = 0, mRowNameIdx = -1\<rparr>,
     mSeparatorParams = new_SeparatorParams (CHR '',''), mConverterParams = new_ConverterParams,
     mLineReaderParams = new_LineReaderParams,
     mData = [[''ip'', ''n,id''], [''1::2'', CHR 0x22 # ''a b'', ''p'' @ [CHR 0x22]], [[]]],
     mColumnNames = Map.empty, mRowNames = Map.empty\<rparr>"

lemma sample_document_ok: "doc_ok sample_document"
  by (simp add: doc_ok_def sample_document_def plain_format_def new_SeparatorParams_def
      new_LineReaderParams_def cell_ok_def quotes_def WriteCsv_def write_cell_def bomU8_def)

theorem ReadCsv_WriteCsv_witness:
  "mData (ReadCsv (WriteCsv sample_document) sample_document) =
     [[''ip'', ''n,id''], [''1::2'', CHR 0x22 # ''a b'', ''p'' @ [CHR 0x22]], [[]]]"
  using ReadCsv_WriteCsv [OF sample_document_ok]
  by (simp add: UpdateRowNames_def UpdateColumnNames_def sample_document_def)

text \<open>The 64 KiB buffering of the read loop does not show: whatever the length of the text,
  the table is the one a single pass of the byte automaton over all of it gives, followed by the
  handling of a last line without a line break.\<close>

theorem ReadCsv_one_pass:
  "mData (ReadCsv input d) =
     (let p = mSeparatorParams d;
          body = (if take 3 input = bomU8 then drop 3 input else input);
          s = fold (parse_byte p (mLineReaderParams d)) body new_reader
      in rd_data s @ (if rd_cell s \<noteq> [] \<or> rd_row s \<noteq> [] then [push_cell p s] else []))"
  by (rule read_rows)

end
