(* ===== verification/Csv_Table.thy ===== *)
theory Csv_Table
  imports Csv
begin

text \<open>
  Laws of the table operations of \<open>src/include/csv/rapidcsv.h\<close>, for documents whose rows have
  one width: what is read back after writing a cell, a row or a column, that inserting and
  removing a row or a column cancel, and two inputs on which the operations do not do what their
  documentation says.
\<close>

section \<open>Rectangular tables\<close>

definition rectangular :: "string list list \<Rightarrow> bool" where
  "rectangular data = (\<forall>row\<in>set data. length row = data_columns data)"

definition labels_ok :: "Document \<Rightarrow> bool" where
  "labels_ok d = (- 1 \<le> mColumnNameIdx (mLabelParams d) \<and> - 1 \<le> mRowNameIdx (mLabelParams d))"

definition in_table :: "Document \<Rightarrow> nat \<Rightarrow> nat \<Rightarrow> bool" where
  "in_table d c r = (rowIdx d r < length (mData d) \<and> columnIdx d c < GetDataColumnCount d)"

text \<open>Adding an offset maps different indices to different positions, whether or not the sum wraps.\<close>

lemma size_t_less: "size_t k < 2 ^ 64"
proof -
  have "nat (k mod 2 ^ 64) < nat (2 ^ 64)"
    by (rule iffD2 [OF nat_mono_iff]) simp_all
  then show ?thesis by (simp add: size_t_def nat_power_eq)
qed

lemma size_t_eq: "size_t k = size_t l \<longleftrightarrow> k mod 2 ^ 64 = l mod 2 ^ 64"
  by (simp add: size_t_def eq_nat_nat_iff)

lemma size_t_inj:
  assumes "a < 2 ^ 64" and "b < 2 ^ 64"
  shows "size_t (int a + k) = size_t (int b + k) \<longleftrightarrow> a = b"
proof -
  have "size_t (int a + k) = size_t (int b + k) \<longleftrightarrow> int a mod 2 ^ 64 = int b mod 2 ^ 64"
    unfolding size_t_eq by (simp add: mod_eq_dvd_iff)
  also have "\<dots> \<longleftrightarrow> a = b" using assms by simp
  finally show ?thesis .
qed

lemma idx_less: "rowIdx d r < 2 ^ 64" "columnIdx d c < 2 ^ 64"
  by (simp_all add: rowIdx_def columnIdx_def size_t_less del: power_numeral)

lemma idx_inj:
  "r' < 2 ^ 64 \<Longrightarrow> r < 2 ^ 64 \<Longrightarrow> rowIdx d r' = rowIdx d r \<longleftrightarrow> r' = r"
  "c' < 2 ^ 64 \<Longrightarrow> c < 2 ^ 64 \<Longrightarrow> columnIdx d c' = columnIdx d c \<longleftrightarrow> c' = c"
  by (simp_all only: rowIdx_def columnIdx_def size_t_inj)

lemma size_t_Suc: "size_t (int n + 1) = (if n + 1 = 2 ^ 64 then 0 else n + 1)" if "n < 2 ^ 64"
  using that by (simp add: size_t_def) linarith

lemma idx_simps [simp]:
  "rowIdx (d\<lparr>mData := x\<rparr>) = rowIdx d" "columnIdx (d\<lparr>mData := x\<rparr>) = columnIdx d"
  "rowIdx (d\<lparr>mRowNames := n\<rparr>) = rowIdx d" "columnIdx (d\<lparr>mColumnNames := n\<rparr>) = columnIdx d"
  "row_off (d\<lparr>mData := x\<rparr>) = row_off d" "col_off (d\<lparr>mData := x\<rparr>) = col_off d"
  by (simp_all add: rowIdx_def columnIdx_def row_off_def col_off_def fun_eq_iff)

lemma rectangular_nth: "rectangular data \<Longrightarrow> i < length data \<Longrightarrow> length (data ! i) = data_columns data"
  by (auto simp: rectangular_def)

lemma data_columns_nth: "0 < length data \<Longrightarrow> data_columns data = length (data ! 0)"
  by (cases data) (simp_all add: data_columns_def)

lemma rectangularI:
  assumes "\<And>i. i < length data \<Longrightarrow> length (data ! i) = n"
  shows "rectangular data"
  unfolding rectangular_def
proof
  fix row assume "row \<in> set data"
  then obtain i where i: "i < length data" "row = data ! i" by (auto simp: in_set_conv_nth)
  then show "length row = data_columns data"
    using assms [of i] assms [of 0] data_columns_nth [of data] by force
qed

lemma GetCell_rectangular:
  assumes "rectangular (mData d)"
  shows "GetCell ToVal d c r =
    (if in_table d c r then ToVal (mData d ! rowIdx d r ! columnIdx d c) else Inl (Throw Out_of_range))"
  using rectangular_nth [OF assms, of "rowIdx d r"]
  by (auto simp: GetCell_def in_table_def vec_at_def GetDataColumnCount_def)

text \<open>Growing to a number of rows and columns.\<close>

definition grown :: "nat \<Rightarrow> nat \<Rightarrow> string list list \<Rightarrow> string list list" where
  "grown n w data =
     (let data = add_rows (data_columns data) n data
      in if w > data_columns data then map (resize [] w) data else data)"

lemma data_columns_add_rows [simp]: "data_columns (add_rows (data_columns data) n data) = data_columns data"
proof (cases data)
  case Nil
  then show ?thesis by (cases n) (simp_all add: add_rows_def data_columns_def)
qed (simp add: add_rows_def data_columns_def)

lemma grown_shape:
  assumes "rectangular data"
  shows "length (grown n w data) = max (length data) n"
    and "i < max (length data) n \<Longrightarrow> length (grown n w data ! i) = max (data_columns data) w"
    and "i < max (length data) n \<Longrightarrow> j < max (data_columns data) w \<Longrightarrow>
      grown n w data ! i ! j = (if i < length data \<and> j < data_columns data then data ! i ! j else [])"
proof -
  let ?d = "add_rows (data_columns data) n data"
  have l: "length ?d = max (length data) n" by (simp add: add_rows_def)
  have e: "length (?d ! i) = data_columns data" "j < data_columns data \<Longrightarrow>
      ?d ! i ! j = (if i < length data then data ! i ! j else [])" if "i < max (length data) n" for i j
    using that rectangular_nth [OF assms] by (auto simp: add_rows_def nth_append)
  show "length (grown n w data) = max (length data) n" using l by (simp add: grown_def Let_def)
  show "length (grown n w data ! i) = max (data_columns data) w" if "i < max (length data) n"
    using that e l by (simp add: grown_def Let_def)
  show "grown n w data ! i ! j = (if i < length data \<and> j < data_columns data then data ! i ! j else [])"
    if "i < max (length data) n" "j < max (data_columns data) w"
    using that e l by (auto simp: grown_def nth_resize Let_def)
qed

section \<open>Cells\<close>

lemma put_cell_ok:
  "r < length data \<Longrightarrow> c < length (data ! r) \<Longrightarrow>
   put_cell r c s data = Inr (data[r := (data ! r)[c := s]])"
  by (simp add: put_cell_def)

text \<open>The largest \<open>size_t\<close>, where adding one wraps to zero and nothing grows.\<close>

definition at_size_max :: "Document \<Rightarrow> nat \<Rightarrow> nat \<Rightarrow> bool" where
  "at_size_max d c r = (columnIdx d c + 1 = 2 ^ 64 \<or> rowIdx d r + 1 = 2 ^ 64)"

lemma next_position:
  assumes "\<not> at_size_max d c r"
  shows "size_t (int (columnIdx d c) + 1) = columnIdx d c + 1" "size_t (int (rowIdx d r) + 1) = rowIdx d r + 1"
  using assms size_t_Suc [OF idx_less(1) [of d r]] size_t_Suc [OF idx_less(2) [of d c]]
  by (simp_all add: at_size_max_def)

lemma SetCell_data:
  assumes "rectangular (mData d)" and "\<not> at_size_max d c r"
  shows "SetCell ToStr c r x d =
    (let data = grown (rowIdx d r + 1) (columnIdx d c + 1) (mData d)
     in Inr (d\<lparr>mData := data[rowIdx d r := (data ! rowIdx d r)[columnIdx d c := ToStr x]]\<rparr>))"
proof -
  let ?data = "grown (rowIdx d r + 1) (columnIdx d c + 1) (mData d)"
  have "SetCell ToStr c r x d = bindr (put_cell (rowIdx d r) (columnIdx d c) (ToStr x) ?data)
      (\<lambda>data. Inr (d\<lparr>mData := data\<rparr>))"
    by (simp add: SetCell_def grown_def Let_def GetDataColumnCount_def next_position [OF assms(2)])
  also have "put_cell (rowIdx d r) (columnIdx d c) (ToStr x) ?data =
      Inr (?data[rowIdx d r := (?data ! rowIdx d r)[columnIdx d c := ToStr x]])"
    by (rule put_cell_ok) (simp_all add: grown_shape [OF assms(1)])
  finally show ?thesis by (simp only: Let_def bindr_Inr)
qed

lemma SetCell_reads:
  assumes "rectangular (mData d)" and "\<not> at_size_max d c r" and "c < 2 ^ 64" and "r < 2 ^ 64"
  shows "\<exists>d'. SetCell ToStr c r x d = Inr d' \<and> rectangular (mData d') \<and> mLabelParams d' = mLabelParams d \<and>
    (\<forall>c' < 2 ^ 64. \<forall>r' < 2 ^ 64. GetCell ToVal d' c' r' =
       (if c' = c \<and> r' = r then ToVal (ToStr x)
        else if in_table d c' r' then GetCell ToVal d c' r'
        else if rowIdx d r' < max (length (mData d)) (rowIdx d r + 1) \<and>
                columnIdx d c' < max (GetDataColumnCount d) (columnIdx d c + 1) then ToVal []
        else Inl (Throw Out_of_range)))"
proof -
  let ?R = "rowIdx d r" and ?C = "columnIdx d c"
  let ?data = "grown (?R + 1) (?C + 1) (mData d)"
  define new where "new = ?data[?R := (?data ! ?R)[?C := ToStr x]]"
  note g = grown_shape [OF assms(1), where n = "?R + 1" and w = "?C + 1"]
  have w: "length (new ! i) = max (data_columns (mData d)) (?C + 1)" if "i < length new" for i
    using that g(1) g(2) [where i = i] g(2) [where i = ?R] by (auto simp: nth_list_update new_def)
  have rect: "rectangular new" by (rule rectangularI [OF w])
  have cols: "data_columns new = max (data_columns (mData d)) (?C + 1)"
  proof -
    have "0 < length new" using g(1) by (simp add: new_def)
    from data_columns_nth [OF this] w [OF this] show ?thesis by simp
  qed
  let ?d = "d\<lparr>mData := new\<rparr>"
  have inj: "rowIdx d r' = ?R \<longleftrightarrow> r' = r" "columnIdx d c' = ?C \<longleftrightarrow> c' = c"
    if "c' < 2 ^ 64" "r' < 2 ^ 64" for c' r'
    by (rule idx_inj(1) [OF that(2) assms(4)], rule idx_inj(2) [OF that(1) assms(3)])
  have cell: "new ! rowIdx d r' ! columnIdx d c' =
      (if c' = c \<and> r' = r then ToStr x else if in_table d c' r' then mData d ! rowIdx d r' ! columnIdx d c' else [])"
    if "rowIdx d r' < max (length (mData d)) (?R + 1)"
      "columnIdx d c' < max (data_columns (mData d)) (?C + 1)" "c' < 2 ^ 64" "r' < 2 ^ 64" for c' r'
    using that(1,2) g(1) g(2) [where i = ?R] g(3) [OF that(1,2)] inj [OF that(3,4)]
    by (auto simp: nth_list_update in_table_def GetDataColumnCount_def new_def)
  have "GetCell ToVal ?d c' r' =
       (if c' = c \<and> r' = r then ToVal (ToStr x)
        else if in_table d c' r' then GetCell ToVal d c' r'
        else if rowIdx d r' < max (length (mData d)) (?R + 1) \<and>
                columnIdx d c' < max (GetDataColumnCount d) (?C + 1) then ToVal []
        else Inl (Throw Out_of_range))" if "c' < 2 ^ 64" "r' < 2 ^ 64" for c' r'
  proof -
    have t: "in_table ?d c' r' \<longleftrightarrow> rowIdx d r' < max (length (mData d)) (?R + 1) \<and>
        columnIdx d c' < max (GetDataColumnCount d) (?C + 1)"
      using g(1) cols by (simp add: in_table_def GetDataColumnCount_def) (simp add: new_def)
    have r: "GetCell ToVal ?d c' r' = (if in_table ?d c' r'
        then ToVal (new ! rowIdx d r' ! columnIdx d c') else Inl (Throw Out_of_range))"
      using GetCell_rectangular [of ?d ToVal c' r'] rect by simp
    show ?thesis
    proof (cases "in_table ?d c' r'")
      case True
      then show ?thesis
        using t cell [OF _ _ that] GetCell_rectangular [OF assms(1), of ToVal c' r']
        by (simp add: r GetDataColumnCount_def)
    next
      case False
      then have "\<not> in_table d c' r'" "\<not> (c' = c \<and> r' = r)" using t by (auto simp: in_table_def)
      then show ?thesis using False t r by (simp split del: if_split) auto
    qed
  qed
  then show ?thesis using rect SetCell_data [OF assms(1,2), of ToStr x]
    by (intro exI [of _ ?d]) (simp add: Let_def new_def)
qed

text \<open>At the largest position nothing grows, and the assignment is out of range.\<close>

lemma SetCell_size_max:
  assumes "at_size_max d c r" and "length (mData d) < 2 ^ 63" and "\<forall>row \<in> set (mData d). length row < 2 ^ 63"
  shows "SetCell ToStr c r x d = Inl (Throw Out_of_range)"
proof -
  let ?R = "rowIdx d r" and ?C = "columnIdx d c"
  have cols: "data_columns (mData d) < 2 ^ 63"
    using assms(3) by (cases "mData d") (simp_all add: data_columns_def)
  have out: "put_cell ?R ?C s data = Inl (Throw Out_of_range)"
    if "length data \<le> ?R \<or> (\<forall>row \<in> set data. length row \<le> ?C)" for s data
    using that by (auto simp: put_cell_def vec_at_def vec_put_def not_less [symmetric])
  show ?thesis
  proof (cases "?R + 1 = 2 ^ 64")
    case True
    then have "size_t (int ?R + 1) = 0" using size_t_Suc [OF idx_less(1) [of d r]] by (simp only: if_True simp_thms)
    moreover have "length (mData d) \<le> ?R" using True assms(2) by simp
    ultimately show ?thesis by (simp add: SetCell_def Let_def add_rows_def out)
  next
    case False
    then have C: "?C + 1 = 2 ^ 64" using assms(1) by (simp add: at_size_max_def)
    then have "size_t (int ?C + 1) = 0" using size_t_Suc [OF idx_less(2) [of d c]] by (simp only: if_True simp_thms)
    moreover have "\<forall>row \<in> set (add_rows (data_columns (mData d)) n (mData d)). length row \<le> ?C" for n
      using C cols assms(3) by (fastforce simp: add_rows_def)
    ultimately show ?thesis by (simp add: SetCell_def Let_def GetDataColumnCount_def out)
  qed
qed

text \<open>Without one width: only the first row decides whether the table is widened, so a short row
  stays short and writing into it throws.\<close>

lemma SetCell_short_row:
  assumes "\<not> at_size_max d c r" and "rowIdx d r < length (mData d)"
    and "length (mData d ! rowIdx d r) \<le> columnIdx d c" and "columnIdx d c < GetDataColumnCount d"
  shows "SetCell ToStr c r x d = Inl (Throw Out_of_range)"
  using assms by (simp add: SetCell_def Let_def next_position [OF assms(1)] add_rows_def put_cell_def
      vec_put_def nth_append GetDataColumnCount_def)

section \<open>Columns and rows\<close>

text \<open>The loops that put a list of cells into one column, or into one row.\<close>

lemma put_column:
  assumes "\<And>i. i < length data \<Longrightarrow> c < length (data ! i)" and "k + n + length xs \<le> length data"
  shows "foldM (\<lambda>(i, x) data. put_cell (i + k) c (f x) data) (enumerate n xs) data =
    Inr (map (\<lambda>i. if n + k \<le> i \<and> i < n + k + length xs then (data ! i)[c := f (xs ! (i - (n + k)))]
              else data ! i) [0..<length data])"
  using assms
proof (induction xs arbitrary: n data)
  case Nil
  have "data = map (\<lambda>i. if n + k \<le> i \<and> i < n + k then z i else data ! i) [0..<length data]" for z
    by (rule nth_equalityI) auto
  then show ?case by simp
next
  case (Cons x xs)
  let ?data = "data[n + k := (data ! (n + k))[c := f x]]"
  have p: "put_cell (n + k) c (f x) data = Inr ?data"
    using Cons.prems by (intro put_cell_ok) simp_all
  have "foldM (\<lambda>(i, x) data. put_cell (i + k) c (f x) data) (enumerate (Suc n) xs) ?data =
    Inr (map (\<lambda>i. if Suc n + k \<le> i \<and> i < Suc n + k + length xs
      then (?data ! i)[c := f (xs ! (i - (Suc n + k)))] else ?data ! i) [0..<length ?data])"
    by (rule Cons.IH) (use Cons.prems in \<open>auto simp: nth_list_update\<close>)
  also have "\<dots> = Inr (map (\<lambda>i. if n + k \<le> i \<and> i < n + k + length (x # xs)
      then (data ! i)[c := f ((x # xs) ! (i - (n + k)))] else data ! i) [0..<length data])"
    by (rule arg_cong [where f = Inr], rule nth_equalityI)
      (auto simp: nth_Cons' nth_list_update not_le le_less_Suc_eq)
  finally show ?case using p by (simp add: enumerate_Suc_eq)
qed

lemma mapM_cong: "(\<And>x. x \<in> set xs \<Longrightarrow> f x = g x) \<Longrightarrow> mapM f xs = mapM g xs"
  by (induction xs) auto

lemma mapM_map: "mapM f (map g xs) = mapM (\<lambda>x. f (g x)) xs"
  by (induction xs) auto

text \<open>A column that covers every data row is read back as it was written.\<close>

lemma SetColumn_GetColumn_ok:
  assumes "labels_ok d" and "rectangular (mData d)"
    and "length (mData d) \<le> length xs + nat (row_off d)"
    and "columnIdx d c + 1 + nat (col_off d) < 2 ^ 63"
  shows "\<exists>d'. SetColumn ToStr c xs d = Inr d' \<and> GetColumn ToVal d' c = mapM (\<lambda>x. ToVal (ToStr x)) xs"
proof -
  let ?k = "nat (row_off d)" and ?C = "columnIdx d c"
  define w where "w = (if ?C + 1 > data_columns (mData d) then nat (int (?C + 1) + col_off d)
    else data_columns (mData d))"
  define data where "data = grown (length xs + ?k) w (mData d)"
  note g = grown_shape [OF assms(2), where n = "length xs + ?k" and w = w, folded data_def]
  have off: "0 \<le> row_off d" "0 \<le> col_off d" using assms(1) by (simp_all add: labels_ok_def row_off_def col_off_def)
  have w: "?C < max (data_columns (mData d)) w" using off(2) by (auto simp: w_def)
  have i: "nat (int i + row_off d) = i + ?k" for i using off(1) by (simp add: nat_add_distrib)
  have d: "SetColumn ToStr c xs d = bindr (foldM (\<lambda>(i, x) data. put_cell (i + ?k) ?C (ToStr x) data)
      (enumerate 0 xs) data) (\<lambda>data. Inr (d\<lparr>mData := data\<rparr>))"
    using off(2) assms(4) by (auto simp: SetColumn_def Let_def data_def grown_def w_def i GetDataColumnCount_def
        nat_add_distrib off(1) add.commute)
  let ?new = "map (\<lambda>i. if ?k \<le> i \<and> i < ?k + length xs then (data ! i)[?C := ToStr (xs ! (i - ?k))]
    else data ! i) [0..<length data]"
  have len: "length data = length xs + ?k" using g(1) assms(3) by simp
  have f: "foldM (\<lambda>(i, x) data. put_cell (i + ?k) ?C (ToStr x) data) (enumerate 0 xs) data = Inr ?new"
    using put_column [of data ?C ?k 0 xs ToStr] g(1,2) w len by simp
  let ?d = "d\<lparr>mData := ?new\<rparr>"
  have rows: "drop ?k ?new = map (\<lambda>j. (data ! (j + ?k))[?C := ToStr (xs ! j)]) [0..<length xs]"
    by (rule nth_equalityI) (auto simp: len add.commute)
  have C: "ssize_t ?C = int ?C" using assms(4) by (intro ssize_t_small) simp
  have "mapM (\<lambda>row. if ?C < length row then bindr (vec_at row ?C) ToVal else Inl (Throw Out_of_range)) (drop ?k ?new)
      = mapM (\<lambda>j. ToVal (ToStr (xs ! j))) [0..<length xs]"
    unfolding rows mapM_map by (rule mapM_cong) (use g(1,2) w len in auto)
  also have "\<dots> = mapM (\<lambda>x. ToVal (ToStr x)) xs"
    using mapM_map [of "\<lambda>x. ToVal (ToStr x)" "nth xs" "[0..<length xs]"] by (simp add: map_nth)
  also note new = calculation
  have "GetColumn ToVal (d\<lparr>mData := data'\<rparr>) c = mapM (\<lambda>row. if ?C < length row then bindr (vec_at row ?C) ToVal
      else Inl (Throw Out_of_range)) (drop ?k data')" for data'
    by (simp add: GetColumn_def C cong: if_cong)
  then have "GetColumn ToVal ?d c = mapM (\<lambda>x. ToVal (ToStr x)) xs" using new by (simp only:)
  then show ?thesis using d f by simp
qed

section \<open>Inserting and removing\<close>

lemma erase_insert [simp]: "i \<le> length xs \<Longrightarrow> vec_erase (take i xs @ v # drop i xs) i = Inr xs"
  by (simp add: vec_erase_def)

lemma SetRowName_data:
  assumes "0 \<le> mRowNameIdx (mLabelParams d)" and "rowIdx d r < length (mData d)"
    and "length (mData d) < 2 ^ 31" and "\<forall>row \<in> set (mData d). length row < 2 ^ 31"
  shows "\<exists>row names. SetRowName r name d = Inr (d\<lparr>mRowNames := names, mData := (mData d)[rowIdx d r := row]\<rparr>)"
proof -
  let ?row = "mData d ! rowIdx d r" and ?c = "mRowNameIdx (mLabelParams d)"
  have "length ?row < 2 ^ 31" using assms(2,4) by simp
  then have n: "to_int (length ?row) = int (length ?row)" by simp
  have "rowIdx d r < 2 ^ 63" using assms(2,3) by simp
  then have r: "\<not> to_int (length (mData d)) \<le> ssize_t (rowIdx d r)" using assms(2,3) by simp
  show ?thesis
  proof (cases "?c \<ge> int (length ?row)")
    case True
    then show ?thesis using assms(1,2) r by (simp add: SetRowName_def Let_def n) blast
  next
    case False
    then have "nat ?c < length ?row" using assms(1) by linarith
    then show ?thesis using False assms(1,2) r by (simp add: SetRowName_def Let_def n) blast
  qed
qed

lemma names_recomputed:
  "UpdateRowNames (d\<lparr>mRowNames := n\<rparr>) = UpdateRowNames d"
  "UpdateColumnNames (d\<lparr>mColumnNames := n\<rparr>) = UpdateColumnNames d"
  by (cases d; simp add: UpdateRowNames_def UpdateColumnNames_def cong: if_cong)+

lemma RemoveRow_InsertRow:
  assumes "labels_ok d" and "rowIdx d r \<le> length (mData d)"
    and "name = [] \<or> 0 \<le> mRowNameIdx (mLabelParams d) \<and> length (mData d) + 1 < 2 ^ 31 \<and>
      (\<forall>row \<in> set (mData d). length row < 2 ^ 31) \<and> length xs + nat (col_off d) < 2 ^ 31"
  shows "bindr (InsertRow ToStr r xs name d) (RemoveRow r) = Inr (UpdateRowNames d)"
proof -
  let ?R = "rowIdx d r"
  obtain row where ins: "InsertRow ToStr r xs name d =
      bindr (if name = [] then Inr (d\<lparr>mData := take ?R (mData d) @ row # drop ?R (mData d)\<rparr>)
             else SetRowName r name (d\<lparr>mData := take ?R (mData d) @ row # drop ?R (mData d)\<rparr>))
        (\<lambda>d. Inr (UpdateRowNames d))"
    and len: "length row = (if xs = [] then GetDataColumnCount d else nat (col_off d) + length xs)"
    using assms(2) by (auto simp: InsertRow_def Let_def add_rows_def vec_insert_def)
  let ?d = "d\<lparr>mData := take ?R (mData d) @ row # drop ?R (mData d)\<rparr>"
  have e: "RemoveRow r (UpdateRowNames (d\<lparr>mRowNames := n, mData := take ?R (mData d) @ v # drop ?R (mData d)\<rparr>))
      = Inr (UpdateRowNames d)" for n v
  proof -
    let ?x = "d\<lparr>mRowNames := n, mData := take ?R (mData d) @ v # drop ?R (mData d)\<rparr>"
    obtain m where m: "UpdateRowNames ?x = ?x\<lparr>mRowNames := m\<rparr>" by (simp add: UpdateRowNames_def)
    show ?thesis using assms(2) unfolding m
      by (simp add: RemoveRow_def) (simp add: names_recomputed)
  qed
  show ?thesis
  proof (cases "name = []")
    case True
    then show ?thesis using ins e [where n = "mRowNames d" and v = row] by simp
  next
    case False
    then have small: "\<forall>row \<in> set (mData d). length row < 2 ^ 31"
      "length (mData d) + 1 < 2 ^ 31" "length xs + nat (col_off d) < 2 ^ 31" using assms(3) by auto
    have "GetDataColumnCount d < 2 ^ 31"
      using small(1) by (cases "mData d") (simp_all add: GetDataColumnCount_def data_columns_def)
    then have "length row < 2 ^ 31" using len small(3) by (simp split: if_splits)
    then have rows: "\<forall>row \<in> set (mData ?d). length row < 2 ^ 31"
      using small(1) by (auto dest: in_set_takeD in_set_dropD)
    have R: "rowIdx ?d r < length (mData ?d)" "length (mData ?d) < 2 ^ 31" using small(2) assms(2) by simp_all
    have "0 \<le> mRowNameIdx (mLabelParams ?d)" using assms(3) False by simp
    from SetRowName_data [OF this R rows, of name]
    obtain row' names where "SetRowName r name ?d =
        Inr (?d\<lparr>mRowNames := names, mData := (mData ?d)[?R := row']\<rparr>)"
      by (simp only: idx_simps) blast
    moreover have "(mData ?d)[?R := row'] = take ?R (mData d) @ row' # drop ?R (mData d)"
      using assms(2) by (simp add: list_update_append)
    ultimately show ?thesis using ins e [where n = names and v = row'] False by simp
  qed
qed

text \<open>The same for columns of a rectangular table.\<close>

lemma erase_column:
  assumes "\<And>i. i < length data \<Longrightarrow> C \<le> length (data ! i)"
  shows "mapM (\<lambda>row. vec_erase row C)
    (map (\<lambda>i. take C (data ! i) @ v i # drop C (data ! i)) [0..<length data]) = Inr data"
proof -
  have "mapM (\<lambda>i. vec_erase (take C (data ! i) @ v i # drop C (data ! i)) C) [0..<length data] =
      Inr (map (\<lambda>i. data ! i) [0..<length data])"
    by (rule mapM_Inr) (use assms in auto)
  then show ?thesis by (simp add: mapM_map map_nth)
qed

lemma InsertColumn_data:
  assumes "labels_ok d" and "\<And>i. i < length (mData d) \<Longrightarrow> columnIdx d c \<le> length (mData d ! i)"
    and "xs = [] \<or> length xs + nat (row_off d) = length (mData d)"
    and "name = [] \<or> 0 \<le> mColumnNameIdx (mLabelParams d) \<and> mColumnNameIdx (mLabelParams d) < int (length (mData d)) \<and>
      length (mData d) < 2 ^ 31 \<and> length (mData d ! nat (mColumnNameIdx (mLabelParams d))) + 1 < 2 ^ 31"
  shows "\<exists>v names. InsertColumn ToStr c xs name d = Inr (UpdateColumnNames (d\<lparr>mColumnNames := names,
    mData := map (\<lambda>i. take (columnIdx d c) (mData d ! i) @ v i # drop (columnIdx d c) (mData d ! i))
      [0..<length (mData d)]\<rparr>))"
proof -
  let ?C = "columnIdx d c" and ?n = "length (mData d)"
  let ?ins = "\<lambda>v. map (\<lambda>i. take ?C (mData d ! i) @ v i # drop ?C (mData d ! i)) [0..<?n]"
  define column where "column = (if xs = [] then replicate (GetDataRowCount d) []
    else replicate (nat (row_off d)) [] @ map ToStr xs)"
  have len: "length column = ?n" using assms(3) by (auto simp: column_def GetDataRowCount_def)
  have "mapM (\<lambda>(i, row). bindr (vec_at column i) (vec_insert row ?C)) (enumerate 0 (mData d)) =
      Inr (map (\<lambda>(i, row). take ?C row @ column ! i # drop ?C row) (enumerate 0 (mData d)))"
    by (rule mapM_Inr) (use len assms(2) in \<open>auto simp: in_set_enumerate_eq vec_insert_def\<close>)
  also have "map (\<lambda>(i, row). take ?C row @ column ! i # drop ?C row) (enumerate 0 (mData d)) = ?ins (nth column)"
    by (rule nth_equalityI) (simp_all add: nth_enumerate_eq)
  finally have "mapM (\<lambda>(i, row). bindr (vec_at column i) (vec_insert row ?C)) (enumerate 0 (mData d)) =
      Inr (?ins (nth column))" .
  then have ins: "InsertColumn ToStr c xs name d =
      bindr (if name = [] then Inr (d\<lparr>mData := ?ins (nth column)\<rparr>)
             else SetColumnName c name (d\<lparr>mData := ?ins (nth column)\<rparr>)) (\<lambda>d. Inr (UpdateColumnNames d))"
    using len by (simp add: InsertColumn_def Let_def add_rows_def column_def [symmetric])
  show ?thesis
  proof (cases "name = []")
    case True
    have "d\<lparr>mColumnNames := mColumnNames d, mData := x\<rparr> = d\<lparr>mData := x\<rparr>" for x by simp
    then show ?thesis using ins True by (intro exI [of _ "nth column"] exI [of _ "mColumnNames d"]) simp
  next
    case False
    let ?r = "nat (mColumnNameIdx (mLabelParams d))"
    let ?v = "\<lambda>i. if i = ?r then name else column ! i"
    have r: "?r < ?n" "0 \<le> mColumnNameIdx (mLabelParams d)" using assms(4) False by auto
    have C: "?C \<le> length (mData d ! ?r)" by (rule assms(2) [OF r(1)])
    have small: "length (mData d) < 2 ^ 31" "length (mData d ! ?r) + 1 < 2 ^ 31" using assms(4) False by auto
    then have m: "to_int ?n = int ?n" "to_int (Suc (length (mData d ! ?r))) = 1 + int (length (mData d ! ?r))"
      "ssize_t ?C = int ?C"
      using C by simp_all
    have "(?ins (nth column))[?r := (?ins (nth column) ! ?r)[?C := name]] = ?ins ?v"
      by (rule nth_equalityI) (use r C in \<open>auto simp: nth_list_update list_update_append\<close>)
    then have "SetColumnName c name (d\<lparr>mData := ?ins (nth column)\<rparr>) =
        Inr (d\<lparr>mColumnNames := (mColumnNames d)(name \<mapsto> ?C), mData := ?ins ?v\<rparr>)"
      using r C assms(4) False by (simp add: SetColumnName_def Let_def m)
    then show ?thesis using ins False by auto
  qed
qed

lemma RemoveColumn_InsertColumn:
  assumes "labels_ok d" and "\<And>i. i < length (mData d) \<Longrightarrow> columnIdx d c \<le> length (mData d ! i)"
    and "xs = [] \<or> length xs + nat (row_off d) = length (mData d)"
    and "name = [] \<or> 0 \<le> mColumnNameIdx (mLabelParams d) \<and> mColumnNameIdx (mLabelParams d) < int (length (mData d)) \<and>
      length (mData d) < 2 ^ 31 \<and> length (mData d ! nat (mColumnNameIdx (mLabelParams d))) + 1 < 2 ^ 31"
  shows "bindr (InsertColumn ToStr c xs name d) (RemoveColumn c) = Inr (UpdateColumnNames d)"
proof -
  obtain v names where i: "InsertColumn ToStr c xs name d = Inr (UpdateColumnNames (d\<lparr>mColumnNames := names,
    mData := map (\<lambda>i. take (columnIdx d c) (mData d ! i) @ v i # drop (columnIdx d c) (mData d ! i))
      [0..<length (mData d)]\<rparr>))" (is "_ = Inr (UpdateColumnNames ?x)")
    using InsertColumn_data [OF assms] by blast
  obtain m where m: "UpdateColumnNames ?x = ?x\<lparr>mColumnNames := m\<rparr>" by (simp add: UpdateColumnNames_def)
  show ?thesis using erase_column [of "mData d" "columnIdx d c" v] assms(2)
    unfolding i m by (simp add: RemoveColumn_def names_recomputed)
qed

section \<open>Rows of values\<close>

lemma put_row:
  assumes "r < length data"
  shows "foldM (\<lambda>(i, x) data. put_cell r (i + k) (f x) data) (enumerate n xs) data =
    (if xs = [] then Inr data
     else if n + k + length xs \<le> length (data ! r)
     then Inr (data[r := take (n + k) (data ! r) @ map f xs @ drop (n + k + length xs) (data ! r)])
     else Inl (Throw Out_of_range))"
  using assms
proof (induction xs arbitrary: n data)
  case (Cons x xs)
  show ?case
  proof (cases "n + k < length (data ! r)")
    case True
    let ?data = "data[r := (data ! r)[n + k := f x]]"
    have p: "put_cell r (n + k) (f x) data = Inr ?data" by (rule put_cell_ok [OF Cons.prems True])
    have "take (Suc (n + k)) ((data ! r)[n + k := f x]) = take (n + k) (data ! r) @ [f x]"
      using True by (simp add: take_Suc_conv_app_nth)
    moreover have "drop (Suc (n + k)) ((data ! r)[n + k := f x]) = drop (Suc (n + k)) (data ! r)"
      by (simp add: drop_update_cancel)
    ultimately have "xs = [] \<Longrightarrow> (data ! r)[n + k := f x] = take (n + k) (data ! r) @ f x # drop (Suc (n + k)) (data ! r)"
      by (metis append_Cons append_Nil append_assoc append_take_drop_id)
    then show ?thesis
      using p Cons.IH [of ?data "Suc n"] Cons.prems True
      by (auto simp: enumerate_Suc_eq take_Suc_conv_app_nth)
  next
    case False
    then show ?thesis using Cons.prems by (simp add: put_cell_def vec_put_def)
  qed
qed simp

lemma row_put:
  assumes "k + length ys \<le> length row" and "j < length row"
  shows "(take k row @ ys @ drop (k + length ys) row) ! j =
    (if k \<le> j \<and> j < k + length ys then ys ! (j - k) else row ! j)"
  using assms by (auto simp: nth_append min_def)

text \<open>Which positions of a row are its values: the sum with the label offset may wrap, but then it
  falls into the label columns.\<close>

lemma value_position:
  assumes "labels_ok d" and "n + nat (col_off d) < 2 ^ 64" and "c < 2 ^ 64"
  shows "nat (col_off d) \<le> columnIdx d c \<and> columnIdx d c < nat (col_off d) + n \<longleftrightarrow> c < n"
    and "c < n \<Longrightarrow> columnIdx d c - nat (col_off d) = c"
proof -
  let ?k = "nat (col_off d)"
  have k: "col_off d = int ?k" using assms(1) by (simp add: labels_ok_def col_off_def)
  have c: "columnIdx d c = (if c + ?k < 2 ^ 64 then c + ?k else c + ?k - 2 ^ 64)"
  proof -
    have "int c + col_off d = int (c + ?k)" using k by simp
    then have "columnIdx d c = (c + ?k) mod 2 ^ 64"
      by (simp add: columnIdx_def size_t_def nat_mod_as_int del: of_nat_add)
    also have "\<dots> = (if c + ?k < 2 ^ 64 then c + ?k else c + ?k - 2 ^ 64)"
      using assms(2,3) by (simp add: mod_if)
    finally show ?thesis .
  qed
  show "?k \<le> columnIdx d c \<and> columnIdx d c < ?k + n \<longleftrightarrow> c < n"
    using assms(2,3) unfolding c by auto
  show "columnIdx d c - ?k = c" if "c < n" using assms(2) that unfolding c by simp
qed

text \<open>The row is widened when the values alone do not fit, not when the values and the row label do
  not: then \<open>SetRow\<close> throws.\<close>

definition row_width :: "Document \<Rightarrow> nat \<Rightarrow> nat" where
  "row_width d n = (if n > GetDataColumnCount d then n + nat (col_off d) else GetDataColumnCount d)"

lemma SetRow_cases:
  assumes "labels_ok d" and "rectangular (mData d)" and "rowIdx d r + 1 \<noteq> 2 ^ 64" and "r < 2 ^ 64"
    and "length xs + nat (col_off d) < 2 ^ 64"
  shows "if xs \<noteq> [] \<and> length xs \<le> GetDataColumnCount d \<and>
            GetDataColumnCount d < length xs + nat (col_off d)
    then SetRow ToStr r xs d = Inl (Throw Out_of_range)
    else \<exists>d'. SetRow ToStr r xs d = Inr d' \<and>
      (\<exists>rest. GetRow ToVal_string d' r = Inr (map ToStr xs @ rest)) \<and>
      (\<forall>c' < 2 ^ 64. \<forall>r' < 2 ^ 64. GetCell ToVal d' c' r' =
         (if r' = r \<and> c' < length xs then ToVal (ToStr (xs ! c'))
          else if in_table d c' r' then GetCell ToVal d c' r'
          else if rowIdx d r' < max (length (mData d)) (rowIdx d r + 1) \<and>
                  columnIdx d c' < row_width d (length xs) then ToVal []
          else Inl (Throw Out_of_range)))"
proof -
  let ?k = "nat (col_off d)" and ?R = "rowIdx d r" and ?w = "data_columns (mData d)"
  define w where "w = row_width d (length xs)"
  define data where "data = grown (?R + 1) w (mData d)"
  have w: "?w \<le> w" by (simp add: w_def row_width_def GetDataColumnCount_def)
  note g = grown_shape [OF assms(2), where n = "?R + 1" and w = w, folded data_def]
  have off: "0 \<le> col_off d" using assms(1) by (simp add: labels_ok_def col_off_def)
  have i: "nat (int i + col_off d) = i + ?k" for i using off by (simp add: nat_add_distrib)
  have R: "?R < length data" using g(1) by simp
  have len: "length (data ! i) = w" if "i < length data" for i
    using g(1) g(2) [where i = i] that w by simp
  have next_row: "size_t (int ?R + 1) = ?R + 1"
    using size_t_Suc [OF idx_less(1) [of d r]] assms(3) by simp
  have "SetRow ToStr r xs d = bindr (foldM (\<lambda>(i, x) data. put_cell ?R (i + ?k) (ToStr x) data)
      (enumerate 0 xs) data) (\<lambda>data. Inr (d\<lparr>mData := data\<rparr>))"
    using off by (auto simp: SetRow_def Let_def data_def grown_def w_def row_width_def i GetDataColumnCount_def next_row)
  moreover define new where "new = data[?R := take ?k (data ! ?R) @ map ToStr xs @ drop (?k + length xs) (data ! ?R)]"
  ultimately have s: "SetRow ToStr r xs d = (if xs = [] then Inr (d\<lparr>mData := data\<rparr>)
     else if ?k + length xs \<le> w then Inr (d\<lparr>mData := new\<rparr>) else Inl (Throw Out_of_range))"
    using put_row [OF R, of ?k ToStr 0 xs] len [OF R] by simp
  show ?thesis
  proof (cases "xs \<noteq> [] \<and> length xs \<le> GetDataColumnCount d \<and> GetDataColumnCount d < length xs + ?k")
    case True
    then show ?thesis using s by (simp add: w_def row_width_def)
  next
    case False
    then have fits: "xs = [] \<or> ?k + length xs \<le> w" by (auto simp: w_def row_width_def)
    define rows where "rows = (if xs = [] then data else new)"
    have s': "SetRow ToStr r xs d = Inr (d\<lparr>mData := rows\<rparr>)" using s fits by (auto simp: rows_def)
    have new: "length new = length data" "i \<noteq> ?R \<Longrightarrow> new ! i = data ! i"
      "?k + length xs \<le> w \<Longrightarrow> new ! ?R = take ?k (data ! ?R) @ map ToStr xs @ drop (?k + length xs) (data ! ?R)" for i
      using R by (simp_all add: new_def)
    have cell: "rows ! i ! j = (if i = ?R \<and> ?k \<le> j \<and> j < ?k + length xs then ToStr (xs ! (j - ?k)) else data ! i ! j)"
      if "i < length data" "j < w" for i j
    proof (cases "i = ?R \<and> xs \<noteq> []")
      case True
      then show ?thesis
        using fits that(2) new row_put [of ?k "map ToStr xs" "data ! ?R" j] len [OF R] by (auto simp: rows_def)
    next
      case False
      then show ?thesis using new by (auto simp: rows_def)
    qed
    have width: "length (rows ! i) = w" if "i < length data" for i
      using fits that new len by (cases "i = ?R") (auto simp: rows_def)
    have shape: "length rows = length data" "rectangular rows" "data_columns rows = w"
    proof -
      show l: "length rows = length data" using new by (simp add: rows_def)
      then show "rectangular rows" by (intro rectangularI [where n = w] width) simp
      show "data_columns rows = w" using data_columns_nth [of rows] width [of 0] l R by fastforce
    qed
    let ?d = "d\<lparr>mData := rows\<rparr>"
    have "GetRow ToVal_string ?d r = Inr (drop ?k (rows ! ?R))"
      using R shape(1) mapM_Inr [of "drop ?k (rows ! ?R)" ToVal_string "\<lambda>x. x"] by (simp add: GetRow_def ToVal_string_def)
    moreover have "\<exists>rest. drop ?k (rows ! ?R) = map ToStr xs @ rest"
      using fits new len [OF R] by (cases "xs = []") (auto simp: rows_def)
    ultimately have row: "\<exists>rest. GetRow ToVal_string ?d r = Inr (map ToStr xs @ rest)" by auto
    have "GetCell ToVal ?d c' r' =
        (if r' = r \<and> c' < length xs then ToVal (ToStr (xs ! c'))
         else if in_table d c' r' then GetCell ToVal d c' r'
         else if rowIdx d r' < max (length (mData d)) (?R + 1) \<and> columnIdx d c' < w then ToVal []
         else Inl (Throw Out_of_range))" if "c' < 2 ^ 64" "r' < 2 ^ 64" for c' r'
    proof -
      note v = value_position [OF assms(1,5) that(1)]
      have t: "in_table ?d c' r' \<longleftrightarrow> rowIdx d r' < length data \<and> columnIdx d c' < w"
        using shape by (simp add: in_table_def GetDataColumnCount_def)
      have old: "in_table d c' r' \<Longrightarrow> in_table ?d c' r'"
        using t g(1) w by (auto simp: in_table_def GetDataColumnCount_def)
      have val: "r' = r \<Longrightarrow> c' < length xs \<Longrightarrow> in_table ?d c' r'"
        using t R v fits by auto
      have rd: "GetCell ToVal ?d c' r' = (if in_table ?d c' r'
          then ToVal (rows ! rowIdx d r' ! columnIdx d c') else Inl (Throw Out_of_range))"
        using GetCell_rectangular [of ?d ToVal c' r'] shape(2) by simp
      show ?thesis
      proof (cases "in_table ?d c' r'")
        case True
        then have in_data: "rowIdx d r' < length data" "columnIdx d c' < w" using t by auto
        have "rows ! rowIdx d r' ! columnIdx d c' = (if r' = r \<and> c' < length xs then ToStr (xs ! c')
            else if in_table d c' r' then mData d ! rowIdx d r' ! columnIdx d c' else [])"
          using cell [OF in_data] v idx_inj(1) [OF that(2) assms(4)] in_data g(1)
            g(3) [of "rowIdx d r'" "columnIdx d c'"] w
          by (auto simp: in_table_def GetDataColumnCount_def)
        then show ?thesis
          using True t g(1) GetCell_rectangular [OF assms(2), of ToVal c' r'] by (simp add: rd)
      next
        case f: False
        then show ?thesis using old val t g(1) by (simp add: rd split del: if_split) auto
      qed
    qed
    then show ?thesis using False row s' by (simp only: if_False w_def) blast
  qed
qed

lemma SetRow_size_max:
  assumes "rowIdx d r + 1 = 2 ^ 64" and "length (mData d) < 2 ^ 63"
  shows "SetRow ToStr r xs d = (if xs = [] then Inr d else Inl (Throw Out_of_range))"
proof -
  have "size_t (int (rowIdx d r) + 1) = 0"
    using size_t_Suc [OF idx_less(1) [of d r]] assms(1) by (simp only: if_True simp_thms)
  moreover have "length (mData d) \<le> rowIdx d r" using assms by simp
  ultimately show ?thesis
    by (cases xs) (simp_all add: SetRow_def Let_def add_rows_def put_cell_def vec_at_def enumerate_Suc_eq)
qed

text \<open>On a row shorter than the first one, \<open>SetRow\<close> throws too.\<close>

lemma SetRow_short_row:
  assumes "labels_ok d" and "rowIdx d r + 1 \<noteq> 2 ^ 64" and "rowIdx d r < length (mData d)" and "xs \<noteq> []"
    and "length xs \<le> GetDataColumnCount d" and "length (mData d ! rowIdx d r) < length xs + nat (col_off d)"
  shows "SetRow ToStr r xs d = Inl (Throw Out_of_range)"
proof -
  have off: "nat (int i + col_off d) = i + nat (col_off d)" for i
    using assms(1) by (simp add: labels_ok_def col_off_def nat_add_distrib)
  have "size_t (int (rowIdx d r) + 1) = rowIdx d r + 1"
    using size_t_Suc [OF idx_less(1) [of d r]] assms(2) by simp
  then show ?thesis
    using assms(3-6) put_row [OF assms(3), of "nat (col_off d)" ToStr 0 xs]
    by (simp add: SetRow_def Let_def add_rows_def off GetDataColumnCount_def)
qed

section \<open>Properties\<close>

text \<open>A sample document: a label row and a label column around one cell.\<close>

definition sample_table :: Document where
  "sample_table = \<lparr>mPath = [], mLabelParams = \<lparr>mColumnNameIdx = 0, mRowNameIdx = 0\<rparr>,
     mSeparatorParams = new_SeparatorParams (CHR '',''), mConverterParams = new_ConverterParams,
     mLineReaderParams = new_LineReaderParams, mData = [[''k'', ''a''], [''x'', ''1'']],
     mColumnNames = [''k'' \<mapsto> 0, ''a'' \<mapsto> 1], mRowNames = Map.empty\<rparr>"

lemma sample_table_ok:
  "labels_ok sample_table" "rectangular (mData sample_table)" "GetDataColumnCount sample_table = 2"
  "col_off sample_table = 1" "row_off sample_table = 1" "length (mData sample_table) = 2"
  "r + 1 < 2 ^ 64 \<Longrightarrow> rowIdx sample_table r = r + 1" "c + 1 < 2 ^ 64 \<Longrightarrow> columnIdx sample_table c = c + 1"
  by (simp_all add: sample_table_def labels_ok_def rectangular_def data_columns_def GetDataColumnCount_def
      col_off_def row_off_def rowIdx_def columnIdx_def nat_add_distrib)

text \<open>An index one below zero, as \<open>size_t\<close>, reads the label row; on rows of different lengths a
  cell and a row are refused that a table of one width would take.\<close>

lemma GetCell_label_row: "GetCell ToVal_string sample_table 0 (2 ^ 64 - 1) = Inr ''a''"
  by (simp add: GetCell_def sample_table_def rowIdx_def columnIdx_def row_off_def col_off_def size_t_def
      vec_at_def ToVal_string_def)

definition ragged_table :: Document where
  "ragged_table = sample_table\<lparr>mLabelParams := \<lparr>mColumnNameIdx = -1, mRowNameIdx = -1\<rparr>,
     mData := [[''a'', ''b'', ''c''], [''d'']]\<rparr>"

lemma ragged_table_refuses:
  "SetCell ToStr_string 2 1 ''z'' ragged_table = Inl (Throw Out_of_range)"
  "SetRow ToStr_string 1 [''x'', ''y'', ''z''] ragged_table = Inl (Throw Out_of_range)"
  by (simp_all add: ragged_table_def SetCell_short_row SetRow_short_row at_size_max_def rowIdx_def columnIdx_def
      row_off_def col_off_def labels_ok_def GetDataColumnCount_def data_columns_def)

text \<open>C24. Writing a cell of a document whose rows have one width (sizes below \<open>2 ^ 63\<close>, any \<open>size_t\<close>
  indices): the cell is read back as it was written, every other cell of the table before is
  unchanged, the rows and columns up to the new cell are added with empty cells, and any other
  address throws. The position of a cell is its index plus the label offset modulo \<open>2 ^ 64\<close>, in
  writing and in reading alike; only when a position is the largest \<open>size_t\<close> the call itself throws.
  (On rows of different lengths a short row is not widened and the call throws, see
  \<open>SetCell_short_row\<close>.)\<close>

theorem SetCell_GetCell:
  assumes "rectangular (mData d)" and "length (mData d) < 2 ^ 63" and "GetDataColumnCount d < 2 ^ 63"
    and "c < 2 ^ 64" and "r < 2 ^ 64"
  shows "if columnIdx d c + 1 = 2 ^ 64 \<or> rowIdx d r + 1 = 2 ^ 64
    then SetCell ToStr c r x d = Inl (Throw Out_of_range)
    else \<exists>d'. SetCell ToStr c r x d = Inr d' \<and> rectangular (mData d') \<and> mLabelParams d' = mLabelParams d \<and>
      (\<forall>c' < 2 ^ 64. \<forall>r' < 2 ^ 64. GetCell ToVal d' c' r' =
         (if c' = c \<and> r' = r then ToVal (ToStr x)
          else if in_table d c' r' then GetCell ToVal d c' r'
          else if rowIdx d r' < max (length (mData d)) (rowIdx d r + 1) \<and>
                  columnIdx d c' < max (GetDataColumnCount d) (columnIdx d c + 1) then ToVal []
          else Inl (Throw Out_of_range)))"
proof -
  have "\<forall>row \<in> set (mData d). length row < 2 ^ 63"
    using assms(1,3) by (simp add: rectangular_def GetDataColumnCount_def)
  note rows = this
  show ?thesis
  proof (cases "at_size_max d c r")
    case True
    then show ?thesis using SetCell_size_max [OF True assms(2) rows, of ToStr x] by (simp add: at_size_max_def)
  next
    case False
    then show ?thesis using SetCell_reads [OF assms(1) False assms(4,5), of ToStr x ToVal]
      unfolding at_size_max_def by (simp only: if_False simp_thms)
  qed
qed

theorem SetCell_GetCell_witness:
  "\<exists>d'. SetCell ToStr_string 1 0 ''z'' sample_table = Inr d' \<and>
     GetCell ToVal_string d' 1 0 = Inr ''z'' \<and> GetCell ToVal_string d' 0 0 = Inr ''1'' \<and>
     GetCell ToVal_string d' 0 (2 ^ 64 - 1) = Inr ''a''"
proof -
  have c: "GetCell ToVal_string sample_table 0 0 = Inr ''1''" "in_table sample_table 0 0"
    "in_table sample_table 0 (2 ^ 64 - 1)"
    by (simp_all add: GetCell_def in_table_def sample_table_ok sample_table_def ToVal_string_def size_t_def
        rowIdx_def columnIdx_def row_off_def col_off_def data_columns_def GetDataColumnCount_def)
  have "columnIdx sample_table 1 + 1 \<noteq> 2 ^ 64" "rowIdx sample_table 0 + 1 \<noteq> 2 ^ 64" by (simp_all add: sample_table_ok)
  then obtain d' where d': "SetCell ToStr_string 1 0 ''z'' sample_table = Inr d'"
    "\<forall>c' < 2 ^ 64. \<forall>r' < 2 ^ 64. GetCell ToVal_string d' c' r' =
       (if c' = 1 \<and> r' = 0 then ToVal_string (ToStr_string ''z'')
        else if in_table sample_table c' r' then GetCell ToVal_string sample_table c' r'
        else if rowIdx sample_table r' < max (length (mData sample_table)) (rowIdx sample_table 0 + 1) \<and>
                columnIdx sample_table c' < max (GetDataColumnCount sample_table) (columnIdx sample_table 1 + 1)
             then ToVal_string []
        else Inl (Throw Out_of_range))"
    using SetCell_GetCell [OF sample_table_ok(2), where ToStr = ToStr_string and c = 1 and r = 0 and
      x = "''z''" and ToVal = ToVal_string] by (auto simp: sample_table_ok)
  have "GetCell ToVal_string d' 1 0 = Inr ''z''" "GetCell ToVal_string d' 0 0 = Inr ''1''"
    "GetCell ToVal_string d' 0 (2 ^ 64 - 1) = Inr ''a''"
    using d'(2) c GetCell_label_row by (simp_all add: ToVal_string_def ToStr_string_def)
  then show ?thesis using d'(1) by blast
qed

text \<open>Inserting and removing cancel: removing the row, or the column, that was just inserted gives
  back the table (with its name index recomputed), with or without a name and with given or
  default values, for every position up to one past the end.\<close>

theorem insert_remove_cancel:
  assumes "labels_ok d"
    and "rowIdx d r \<le> length (mData d)" 
    and "rname = [] \<or> 0 \<le> mRowNameIdx (mLabelParams d) \<and> length (mData d) + 1 < 2 ^ 31 \<and>
      (\<forall>row \<in> set (mData d). length row < 2 ^ 31) \<and> length ys + nat (col_off d) < 2 ^ 31"
    and "\<And>i. i < length (mData d) \<Longrightarrow> columnIdx d c \<le> length (mData d ! i)"
    and "xs = [] \<or> length xs + nat (row_off d) = length (mData d)"
    and "cname = [] \<or> 0 \<le> mColumnNameIdx (mLabelParams d) \<and> mColumnNameIdx (mLabelParams d) < int (length (mData d)) \<and>
      length (mData d) < 2 ^ 31 \<and> length (mData d ! nat (mColumnNameIdx (mLabelParams d))) + 1 < 2 ^ 31"
  shows "bindr (InsertRow ToStr r ys rname d) (RemoveRow r) = Inr (UpdateRowNames d) \<and>
    bindr (InsertColumn ToStr c xs cname d) (RemoveColumn c) = Inr (UpdateColumnNames d)"
  using RemoveRow_InsertRow [OF assms(1-3)] RemoveColumn_InsertColumn [OF assms(1,4-6)] by blast

theorem insert_remove_cancel_witness:
  "bindr (InsertRow ToStr_string 1 [''2''] ''y'' sample_table) (RemoveRow 1) = Inr (UpdateRowNames sample_table) \<and>
   bindr (InsertColumn ToStr_string 0 [''0''] ''b'' sample_table) (RemoveColumn 0) =
     Inr (UpdateColumnNames sample_table)"
proof (rule insert_remove_cancel [OF sample_table_ok(1)])
  have rows: "i = 0 \<or> i = 1" if "i < length (mData sample_table)" for i
    using that by (auto simp: sample_table_def)
  show "columnIdx sample_table 0 \<le> length (mData sample_table ! i)" if "i < length (mData sample_table)" for i
    using rows [OF that] by (auto simp: sample_table_ok) (simp_all add: sample_table_def)
qed (simp_all add: sample_table_ok, simp_all add: sample_table_def)

text \<open>A column that covers every row is read back as it was written, at a position that is an
  \<open>ssize_t\<close> also after the label offset is added once more.\<close>

theorem SetColumn_GetColumn:
  assumes "labels_ok d" and "rectangular (mData d)"
    and "length (mData d) \<le> length xs + nat (row_off d)"
    and "columnIdx d c + 1 + nat (col_off d) < 2 ^ 63"
  shows "\<exists>d'. SetColumn ToStr c xs d = Inr d' \<and> GetColumn ToVal d' c = mapM (\<lambda>x. ToVal (ToStr x)) xs"
  using SetColumn_GetColumn_ok [OF assms] .

text \<open>C27. Writing a row of a document whose rows have one width, for any \<open>size_t\<close> row index whose
  position is not the largest one: the values are read back, every other cell is unchanged, and the
  cells added by growing are empty. The call throws std::out_of_range exactly for the non-empty rows
  that fit the table without the label columns but not with them, because the code compares the
  number of values alone with the number of columns. At the largest position nothing grows: a
  non-empty row throws, and the empty one changes nothing. (On rows of different lengths a row
  that is longer than the one it replaces throws as well, see \<open>SetRow_short_row\<close>.)\<close>

theorem SetRow_GetRow:
  assumes "labels_ok d" and "rectangular (mData d)" and "length (mData d) < 2 ^ 63"
    and "r < 2 ^ 64" and "length xs + nat (col_off d) < 2 ^ 64"
  shows "if rowIdx d r + 1 = 2 ^ 64 \<and> xs \<noteq> [] \<or>
            xs \<noteq> [] \<and> length xs \<le> GetDataColumnCount d \<and> GetDataColumnCount d < length xs + nat (col_off d)
    then SetRow ToStr r xs d = Inl (Throw Out_of_range)
    else if rowIdx d r + 1 = 2 ^ 64 then SetRow ToStr r xs d = Inr d
    else \<exists>d'. SetRow ToStr r xs d = Inr d' \<and>
      (\<exists>rest. GetRow ToVal_string d' r = Inr (map ToStr xs @ rest)) \<and>
      (\<forall>c' < 2 ^ 64. \<forall>r' < 2 ^ 64. GetCell ToVal d' c' r' =
         (if r' = r \<and> c' < length xs then ToVal (ToStr (xs ! c'))
          else if in_table d c' r' then GetCell ToVal d c' r'
          else if rowIdx d r' < max (length (mData d)) (rowIdx d r + 1) \<and>
                  columnIdx d c' < row_width d (length xs) then ToVal []
          else Inl (Throw Out_of_range)))"
proof (cases "rowIdx d r + 1 = 2 ^ 64")
  case True
  then show ?thesis using SetRow_size_max [OF True assms(3), of ToStr xs] by auto
next
  case False
  show ?thesis using SetRow_cases [OF assms(1,2) False assms(4,5), of ToStr ToVal] False
    by (simp only: simp_thms if_False)
qed

theorem SetRow_GetRow_witness:
  "SetRow ToStr_string 0 [''u'', ''v''] sample_table = Inl (Throw Out_of_range) \<and>
   (\<exists>d' rest. SetRow ToStr_string 0 [''u''] sample_table = Inr d' \<and>
      GetRow ToVal_string d' 0 = Inr ([''u''] @ rest))"
  using SetRow_GetRow [OF sample_table_ok(1,2), of 0 "[''u'', ''v'']" ToStr_string ToVal_string]
    SetRow_GetRow [OF sample_table_ok(1,2), of 0 "[''u'']" ToStr_string ToVal_string]
  by (auto simp: sample_table_ok ToStr_string_def)

end
