(* ===== verification/Label_Map.thy ===== *)
theory Label_Map
  imports Csv_Text Data_Manipulation
begin

text \<open>
  The loaders of the label map in \<open>src/mdt_dialout_collector.cc\<close>: \<open>LoadLabelMap\<close> (CSV),
  \<open>LoadLabelMapPreTagStyle\<close> (pmacct pre-tag map) and \<open>ReloadLabelMaps\<close>, which the SIGUSR1
  watcher runs. \<open>read_file\<close> is the file system. Each loader clears the map first, so its result
  does not depend on the old one. Positions in a pre-tag map line are kept at the source's widths:
  \<open>size_t\<close> is \<open>64 word\<close>, \<open>unsigned\<close> is \<open>32 word\<close>, \<open>npos\<close> is \<open>-1\<close>.
\<close>

section \<open>The CSV loader\<close>

text \<open>\<open>catch (std::exception &)\<close> around reading the file: every exception ends the process.\<close>

definition or_exit :: "'a res \<Rightarrow> 'a res" where
  "or_exit m = (case m of Inl (Throw e) \<Rightarrow> Inl (Exit 1) | _ \<Rightarrow> m)"

lemma or_exit_simps [simp]:
  "or_exit (Inr x) = Inr x"
  "or_exit (Inl (Throw e)) = Inl (Exit 1)"
  "or_exit (Inl (Undefined u)) = Inl (Undefined u)"
  by (simp_all add: or_exit_def)

text \<open>The loop that fills the map from the three vectors, \<open>n\<close> entries. The vector \<open>vtmp\<close> is declared
  once, outside the loop: each round appends two elements to it, copies it into the map and
  clears it.\<close>

definition fill_row ::
  "string list \<Rightarrow> string list \<Rightarrow> string list \<Rightarrow> nat \<Rightarrow> string list \<times> label_map \<Rightarrow>
   (string list \<times> label_map) res" where
  "fill_row ipaddrs nid pid idx = (\<lambda>(vtmp, lm).
     bindr (vec_index nid idx) (\<lambda>n. let vtmp = vtmp @ [n] in
     bindr (vec_index pid idx) (\<lambda>p. let vtmp = vtmp @ [p] in
     bindr (vec_index ipaddrs idx) (\<lambda>ip. let lm = lm(ip \<mapsto> vtmp); vtmp = [] in Inr (vtmp, lm)))))"

definition fill_label_map ::
  "nat \<Rightarrow> string list \<Rightarrow> string list \<Rightarrow> string list \<Rightarrow> label_map res" where
  "fill_label_map n ipaddrs nid pid =
     bindr (foldM (fill_row ipaddrs nid pid) [0..<n] ([], Map.empty)) (\<lambda>(vtmp, lm). Inr lm)"

definition no_labels :: LabelParams where
  "no_labels = \<lparr>mColumnNameIdx = -1, mRowNameIdx = -1\<rparr>"

text \<open>The part under the handler, and the loader.\<close>

definition csv_columns ::
  "(string \<Rightarrow> string option) \<Rightarrow> string \<Rightarrow> (string list \<times> string list \<times> string list) res" where
  "csv_columns read_file label_map_csv_path = or_exit
     (bindr (new_Document read_file label_map_csv_path no_labels (new_SeparatorParams (CHR '',''))
               new_ConverterParams new_LineReaderParams) (\<lambda>label_map_doc.
      bindr (GetColumn ToVal_string label_map_doc 0) (\<lambda>ipaddrs.
      bindr (GetColumn ToVal_string label_map_doc 1) (\<lambda>nid.
      bindr (GetColumn ToVal_string label_map_doc 2) (\<lambda>pid. Inr (ipaddrs, nid, pid))))))"

definition LoadLabelMap :: "(string \<Rightarrow> string option) \<Rightarrow> string \<Rightarrow> label_map res" where
  "LoadLabelMap read_file label_map_csv_path =
     bindr (csv_columns read_file label_map_csv_path) (\<lambda>(ipaddrs, nid, pid).
       fill_label_map (length ipaddrs) ipaddrs nid pid)"

section \<open>The pre-tag map loader\<close>

definition npos_or :: "nat option \<Rightarrow> 64 word" where
  "npos_or i = (case i of Some i \<Rightarrow> of_nat i | None \<Rightarrow> -1)"

text \<open>\<open>s.substr(start_delim, (stop_delim - start_delim))\<close> with both delimiters \<open>unsigned\<close>.\<close>

definition between :: "string \<Rightarrow> 32 word \<Rightarrow> 32 word \<Rightarrow> string res" where
  "between s start_delim stop_delim = substr s (unat start_delim) (unat (stop_delim - start_delim))"

text \<open>The \<open>while\<close> loop over the \<open>%\<close>-separated label: the second token is the node id, what is
  left after the last separator the platform id.\<close>

function label_tokens :: "int \<Rightarrow> string list \<Rightarrow> string \<Rightarrow> string list \<times> string" where
  "label_tokens counter nid lab =
     (case str_find (CHR ''%'') lab of
        None \<Rightarrow> (nid, lab)
      | Some pos \<Rightarrow> label_tokens (counter + 1) (if counter = 1 then nid @ [take pos lab] else nid)
                     (drop (pos + 1) lab))"
  by pat_completeness auto

termination
  by (relation "measure (\<lambda>(counter, nid, lab). length lab)") (auto dest: str_find_SomeD)

declare label_tokens.simps [simp del]

definition ptm_row ::
  "string list \<Rightarrow> string list \<Rightarrow> nat \<Rightarrow> string list \<times> string list \<times> string list \<Rightarrow>
   (string list \<times> string list \<times> string list) res" where
  "ptm_row labels ips idx = (\<lambda>(ipaddrs, nid, pid).
     bindr (vec_at ips idx) (\<lambda>addr.
     bindr (between addr (ucast (npos_or (str_find (CHR ''='') addr) + 1))
              (ucast (npos_or (str_rfind (CHR ''/'') addr)))) (\<lambda>ipaddr.
     bindr (vec_at labels idx) (\<lambda>lab.
     bindr (between lab (ucast (npos_or (str_find (CHR ''='') lab) + 1)) (of_nat (length lab)))
       (\<lambda>lab. let (nid, rest) = label_tokens 0 nid lab
               in Inr (ipaddrs @ [ipaddr], nid, pid @ [rest]))))))"

definition ptm_columns :: "string list \<Rightarrow> string list \<Rightarrow> label_map res" where
  "ptm_columns labels ips =
     bindr (foldM (ptm_row labels ips) [0..<length ips] ([], [], [])) (\<lambda>(ipaddrs, nid, pid).
       fill_label_map (length ips) ipaddrs nid pid)"

definition ptm_document ::
  "(string \<Rightarrow> string option) \<Rightarrow> string \<Rightarrow> (string list \<times> string list) res" where
  "ptm_document read_file label_map_ptm_path = or_exit
     (bindr (new_Document read_file label_map_ptm_path no_labels (new_SeparatorParams (CHR '' ''))
               new_ConverterParams new_LineReaderParams) (\<lambda>label_map_doc.
      bindr (RemoveRow (GetRowCount label_map_doc) label_map_doc) (\<lambda>label_map_doc.
      bindr (GetColumn ToVal_string label_map_doc 0) (\<lambda>labels.
      bindr (GetColumn ToVal_string label_map_doc 1) (\<lambda>ips. Inr (labels, ips))))))"

definition LoadLabelMapPreTagStyle :: "(string \<Rightarrow> string option) \<Rightarrow> string \<Rightarrow> label_map res" where
  "LoadLabelMapPreTagStyle read_file label_map_ptm_path =
     bindr (ptm_document read_file label_map_ptm_path) (\<lambda>(labels, ips). ptm_columns labels ips)"

section \<open>Reloading\<close>

text \<open>The parameters are those of \<open>data_manipulation_cfg_parameters\<close>; both loaders may run, and
  then the second replaces the first's entries.\<close>

definition ReloadLabelMaps ::
  "(string \<Rightarrow> string option) \<Rightarrow> (string \<rightharpoonup> string) \<Rightarrow> label_map \<Rightarrow> label_map res" where
  "ReloadLabelMaps read_file dm_cfg lm =
     bindr (map_at dm_cfg ''enable_label_encode_as_map'') (\<lambda>csv.
     bindr (if csv = ''true''
            then bindr (map_at dm_cfg ''label_map_csv_path'') (LoadLabelMap read_file)
            else Inr lm) (\<lambda>lm.
     bindr (map_at dm_cfg ''enable_label_encode_as_map_ptm'') (\<lambda>ptm.
       if ptm = ''true''
       then bindr (map_at dm_cfg ''label_map_ptm_path'') (LoadLabelMapPreTagStyle read_file)
       else Inr lm)))"

section \<open>Filling the map\<close>

text \<open>Later entries replace earlier ones; a vector that is too short is read out of bounds.\<close>

lemma fill_steps:
  assumes "n + k \<le> length ipaddrs" "n + k \<le> length nid" "n + k \<le> length pid"
  shows "foldM (fill_row ipaddrs nid pid) [n..<n + k] ([], lm) =
    Inr ([], lm ++ map_of (rev (map (\<lambda>i. (ipaddrs ! i, [nid ! i, pid ! i])) [n..<n + k])))"
  using assms
proof (induction k)
  case (Suc k)
  then show ?case by (simp add: foldM_append fill_row_def fun_eq_iff map_add_def)
qed simp

lemma fill_label_map_complete:
  assumes "length ipaddrs = n" "length nid = n" "length pid = n"
  shows "fill_label_map n ipaddrs nid pid =
    Inr (map_of (rev (map (\<lambda>i. (ipaddrs ! i, [nid ! i, pid ! i])) [0..<n])))"
  using fill_steps [of 0 n ipaddrs nid pid Map.empty] assms by (simp add: fill_label_map_def)

lemma fill_label_map_short:
  assumes "length ipaddrs = n" "length pid = n" and "length nid < n"
  shows "fill_label_map n ipaddrs nid pid = Inl (Undefined Index_out_of_bounds)"
proof -
  have "[0..<n] = [0..<length nid] @ [length nid..<n]"
    using upt_add_eq_append [of 0 "length nid" "n - length nid"] assms(3) by simp
  then have "[0..<n] = [0..<0 + length nid] @ length nid # [Suc (length nid)..<n]"
    using assms(3) by (simp only: upt_conv_Cons add_0)
  then show ?thesis
    using fill_steps [of 0 "length nid" ipaddrs nid pid Map.empty] assms
    unfolding fill_label_map_def
    by (simp only: foldM_append) (simp add: fill_row_def vec_index_def)
qed

text \<open>Between two rounds \<open>vtmp\<close> is empty, so every entry has two fields.\<close>

lemma fill_label_map_pairs:
  assumes "fill_label_map n ipaddrs nid pid = Inr lm" and "lm ip = Some e"
  shows "length e = 2"
proof -
  obtain v where "foldM (fill_row ipaddrs nid pid) [0..<n] ([], Map.empty) = Inr (v, lm)"
    using assms(1) by (auto simp: fill_label_map_def bindr_eq_Inr)
  then have "(\<lambda>(v, lm). v = [] \<and> (\<forall>e \<in> ran lm. length e = 2)) (v, lm)"
    by (rule foldM_invariant)
      (fastforce simp: fill_row_def bindr_eq_Inr Let_def ran_def split: if_splits prod.splits)+
  then show ?thesis using assms(2) by (auto simp: ran_def)
qed

section \<open>Results of the CSV loader\<close>

definition csv_rows :: "char \<Rightarrow> string \<Rightarrow> string list list" where
  "csv_rows sep input =
     (let s = fold (parse_byte (new_SeparatorParams sep) new_LineReaderParams)
                (if take 3 input = bomU8 then drop 3 input else input) new_reader
      in rd_data s @ (if rd_cell s \<noteq> [] \<or> rd_row s \<noteq> []
                      then [push_cell (new_SeparatorParams sep) s] else []))"

lemma new_Document_rows:
  "new_Document read_file path no_labels (new_SeparatorParams sep) new_ConverterParams
     new_LineReaderParams = Inr d \<Longrightarrow>
   mLabelParams d = no_labels \<and>
   mData d = (if path = [] then [] else csv_rows sep (the (read_file path)))"
  by (auto simp: new_Document_def ReadCsv_path_def csv_rows_def Let_def read_rows read_label_params
      split: if_splits option.splits)

lemma new_Document_fails:
  "new_Document read_file path no_labels p c l = Inl e \<longleftrightarrow>
   path \<noteq> [] \<and> read_file path = None \<and> e = Throw Io_failure"
  by (auto simp: new_Document_def ReadCsv_path_def Let_def split: option.splits)

lemma new_Document_opens:
  "new_Document read_file path no_labels p c l = Inr d \<Longrightarrow> path = [] \<or> read_file path \<noteq> None"
  by (auto simp: new_Document_def ReadCsv_path_def Let_def split: option.splits if_splits)

lemma GetColumn_rows:
  assumes "mLabelParams d = no_labels" and "c < 2 ^ 63"
  shows "GetColumn ToVal_string d c =
    (if list_ex (\<lambda>row. length row \<le> c) (mData d) then Inl (Throw Out_of_range)
     else Inr (map (\<lambda>row. row ! c) (mData d)))"
  (is "?L = ?R")
proof -
  have c: "columnIdx d c = c" "ssize_t c = int c" "nat (row_off d) = 0"
    using assms by (simp_all add: columnIdx_def size_t_def ssize_t_def col_off_def row_off_def no_labels_def)
  have L: "?L = mapM (\<lambda>row. if c < length row then Inr (row ! c) else Inl (Throw Out_of_range)) (mData d)"
    unfolding GetColumn_def c ToVal_string_def by (rule arg_cong2 [where f = mapM]) (auto simp: vec_at_def)
  show "?L = ?R"
  proof (cases "list_ex (\<lambda>row. length row \<le> c) (mData d)")
    case True
    then obtain row where row: "row \<in> set (mData d)" "length row \<le> c" by (auto simp: list_ex_iff)
    have "mapM (\<lambda>row. if c < length row then Inr (row ! c) else Inl (Throw Out_of_range)) (mData d)
        = Inl (Throw Out_of_range)"
      by (rule mapM_Inl [OF row(1)]) (use row(2) in auto)
    then show ?thesis using True L by simp
  next
    case False
    then have "\<forall>row \<in> set (mData d). c < length row" by (auto simp: list_ex_iff)
    then have "mapM (\<lambda>row. if c < length row then Inr (row ! c) else Inl (Throw Out_of_range)) (mData d)
        = Inr (map (\<lambda>row. row ! c) (mData d))"
      by (intro mapM_Inr) auto
    then show ?thesis using False L by simp
  qed
qed

lemma short_rows:
  "list_ex (\<lambda>row. length row \<le> 0) rows \<or> list_ex (\<lambda>row. length row \<le> 1) rows \<or>
   list_ex (\<lambda>row. length row \<le> 2) rows \<longleftrightarrow> list_ex (\<lambda>row. length row < 3) rows"
  by (induction rows) auto

lemma LoadLabelMap_rows:
  "LoadLabelMap read_file path =
     (if path = [] then Inr Map.empty
      else case read_file path of
        None \<Rightarrow> Inl (Exit 1)
      | Some input \<Rightarrow>
          (let rows = csv_rows (CHR '','') input in
           if list_ex (\<lambda>row. length row < 3) rows then Inl (Exit 1)
           else Inr (map_of (rev (map (\<lambda>row. (row ! 0, [row ! 1, row ! 2])) rows)))))"
proof (cases "new_Document read_file path no_labels (new_SeparatorParams (CHR '','')) new_ConverterParams
     new_LineReaderParams")
  case (Inl e)
  then have "path \<noteq> []" "read_file path = None" "e = Throw Io_failure"
    by (simp_all add: new_Document_fails)
  then show ?thesis by (simp add: LoadLabelMap_def csv_columns_def Inl)
next
  case (Inr d)
  note d = new_Document_rows [OF Inr]
  have short: "list_ex (\<lambda>row. length row \<le> 0) (mData d) \<or> list_ex (\<lambda>row. length row \<le> 1) (mData d) \<or>
      list_ex (\<lambda>row. length row \<le> 2) (mData d) \<longleftrightarrow> list_ex (\<lambda>row. length row < 3) (mData d)"
    by (rule short_rows)
  have "LoadLabelMap read_file path =
      (if list_ex (\<lambda>row. length row < 3) (mData d) then Inl (Exit 1)
       else Inr (map_of (rev (map (\<lambda>row. (row ! 0, [row ! 1, row ! 2])) (mData d)))))"
  proof (cases "list_ex (\<lambda>row. length row < 3) (mData d)")
    case True
    then show ?thesis
      using short by (auto simp: LoadLabelMap_def csv_columns_def Inr GetColumn_rows [OF conjunct1 [OF d]])
  next
    case False
    define f where "f = (\<lambda>row :: string list. (row ! 0, [row ! 1, row ! 2]))"
    have "map (\<lambda>i. (map (\<lambda>row. row ! 0) (mData d) ! i,
        [map (\<lambda>row. row ! 1) (mData d) ! i, map (\<lambda>row. row ! 2) (mData d) ! i])) [0..<length (mData d)]
        = map f (mData d)"
      by (rule nth_equalityI) (auto simp: f_def)
    then show ?thesis
      using False short by (simp add: LoadLabelMap_def csv_columns_def Inr GetColumn_rows [OF conjunct1 [OF d]]
          fill_label_map_complete f_def)
  qed
  then show ?thesis
    using new_Document_opens [OF Inr] d
    by (auto simp: Let_def split: option.splits)
qed

lemma LoadLabelMapPreTagStyle_never_returns:
  assumes "\<And>input. read_file path = Some input \<Longrightarrow> length (csv_rows (CHR '' '') input) < 2 ^ 64"
  shows "LoadLabelMapPreTagStyle read_file path =
     (if path \<noteq> [] \<and> read_file path = None then Inl (Exit 1) else Inl (Undefined Erase_at_end))"
proof (cases "new_Document read_file path no_labels (new_SeparatorParams (CHR '' '')) new_ConverterParams
     new_LineReaderParams")
  case (Inl e)
  then have "path \<noteq> []" "read_file path = None" "e = Throw Io_failure"
    by (simp_all add: new_Document_fails)
  then show ?thesis by (simp add: LoadLabelMapPreTagStyle_def ptm_document_def Inl)
next
  case (Inr d)
  have "rowIdx d (GetRowCount d) = length (mData d)"
    using new_Document_rows [OF Inr] new_Document_opens [OF Inr] assms
    by (auto simp: rowIdx_def GetRowCount_def row_off_def GetDataRowCount_def no_labels_def)
  then have "RemoveRow (GetRowCount d) d = Inl (Undefined Erase_at_end)"
    by (simp add: RemoveRow_def vec_erase_def)
  moreover have "\<not> (path \<noteq> [] \<and> read_file path = None)"
    using new_Document_opens [OF Inr] by simp
  ultimately show ?thesis by (simp add: LoadLabelMapPreTagStyle_def ptm_document_def Inr)
qed

section \<open>What the pre-tag columns give\<close>

text \<open>The substrings the delimiters select, without machine arithmetic.\<close>

definition start_of :: "string \<Rightarrow> nat" where
  "start_of s = (case str_find (CHR ''='') s of Some i \<Rightarrow> Suc i | None \<Rightarrow> 0)"

definition ptm_ip :: "string \<Rightarrow> string" where
  "ptm_ip s = (case str_rfind (CHR ''/'') s of
     Some j \<Rightarrow> if start_of s \<le> j then take (j - start_of s) (drop (start_of s) s) else drop (start_of s) s
   | None \<Rightarrow> drop (start_of s) s)"

definition ptm_label :: "string \<Rightarrow> string" where
  "ptm_label s = drop (start_of s) s"

lemma start_of_le: "start_of s \<le> length s"
  by (auto simp: start_of_def dest: str_find_SomeD split: option.splits)

lemma unat_narrow: "n < 2 ^ 32 \<Longrightarrow> unat (ucast (of_nat n :: 64 word) :: 32 word) = n"
  by (simp add: unsigned_of_nat take_bit_nat_eq_self)

lemma unat_npos: "unat (ucast (-1 :: 64 word) :: 32 word) = 2 ^ 32 - 1"
  by (simp add: unsigned_ucast_eq unsigned_minus_1_eq_mask mask_eq_exp_minus_1 take_bit_eq_mod)

lemma unat_start:
  assumes "length s < 2 ^ 32 - 1"
  shows "unat (ucast (npos_or (str_find (CHR ''='') s) + 1) :: 32 word) = start_of s"
proof (cases "str_find (CHR ''='') s")
  case None
  then show ?thesis by (simp add: npos_or_def start_of_def)
next
  case (Some i)
  then have "i < 2 ^ 32 - 1" using str_find_SomeD [OF Some] assms by linarith
  then have "unat (ucast (of_nat (Suc i) :: 64 word) :: 32 word) = Suc i"
    by (intro unat_narrow) simp
  moreover have "npos_or (Some i) + 1 = of_nat (Suc i)" by (simp add: npos_or_def)
  ultimately show ?thesis using Some by (simp only: start_of_def option.simps)
qed

lemma between_stop:
  assumes "length s < 2 ^ 32 - 1" and "unat b = start_of s"
  shows "between s b stop =
    Inr (if start_of s \<le> unat stop then take (unat stop - start_of s) (drop (start_of s) s)
         else drop (start_of s) s)"
proof (cases "start_of s \<le> unat stop")
  case True
  then have "unat (stop - b) = unat stop - start_of s"
    using assms(2) by (simp add: unat_sub word_le_nat_alt)
  then show ?thesis using True assms(2) start_of_le [of s] by (simp add: between_def substr_le)
next
  case False
  then have "stop < b" using assms(2) by (simp add: word_less_nat_alt)
  then have "unat (stop - b) = 2 ^ 32 + unat stop - unat b"
    by (simp add: unat_sub_if' word_le_nat_alt word_less_nat_alt)
  then have "length s \<le> start_of s + unat (stop - b)" using assms False by simp
  then show ?thesis using False assms(2) start_of_le [of s] by (simp add: between_def substr_le)
qed

lemma between_address:
  assumes "length s < 2 ^ 32 - 1"
  shows "between s (ucast (npos_or (str_find (CHR ''='') s) + 1))
    (ucast (npos_or (str_rfind (CHR ''/'') s))) = Inr (ptm_ip s)"
proof -
  have "unat (ucast (npos_or (str_rfind (CHR ''/'') s)) :: 32 word) =
      (case str_rfind (CHR ''/'') s of Some j \<Rightarrow> j | None \<Rightarrow> 2 ^ 32 - 1)"
  proof (cases "str_rfind (CHR ''/'') s")
    case None
    then show ?thesis using unat_npos by (simp add: npos_or_def)
  next
    case (Some j)
    then have "j < 2 ^ 32 - 1" using str_rfind_SomeD [OF Some] assms by linarith
    then have "unat (ucast (of_nat j :: 64 word) :: 32 word) = j" by (intro unat_narrow) simp
    then show ?thesis using Some by (simp only: npos_or_def option.simps)
  qed
  then show ?thesis
    using between_stop [OF assms unat_start [OF assms]] assms start_of_le [of s]
    by (auto simp: ptm_ip_def split: option.splits)
qed

lemma between_label:
  assumes "length s < 2 ^ 32 - 1"
  shows "between s (ucast (npos_or (str_find (CHR ''='') s) + 1)) (of_nat (length s)) = Inr (ptm_label s)"
proof -
  have "unat (of_nat (length s) :: 32 word) = length s"
    using assms by (simp add: unsigned_of_nat take_bit_nat_eq_self)
  then show ?thesis
    using between_stop [OF assms unat_start [OF assms]] start_of_le [of s] by (simp add: ptm_label_def)
qed

text \<open>The second and the last of the \<open>%\<close>-separated tokens.\<close>

definition node_of :: "string \<Rightarrow> string option" where
  "node_of lab = (case str_find (CHR ''%'') lab of
     None \<Rightarrow> None
   | Some i \<Rightarrow> map_option (\<lambda>j. take j (drop (Suc i) lab)) (str_find (CHR ''%'') (drop (Suc i) lab)))"

definition plat_of :: "string \<Rightarrow> string" where
  "plat_of lab = (case str_rfind (CHR ''%'') lab of None \<Rightarrow> lab | Some j \<Rightarrow> drop (Suc j) lab)"

lemma str_rfind_cat:
  "str_rfind c (s @ t) =
     (case str_rfind c t of Some j \<Rightarrow> Some (length s + j) | None \<Rightarrow> str_rfind c s)"
  by (induction s) (auto split: option.splits)

lemma plat_of_step:
  assumes "str_find (CHR ''%'') lab = Some i"
  shows "plat_of lab = plat_of (drop (Suc i) lab)"
proof -
  have lab: "lab = (take i lab @ [CHR ''%'']) @ drop (Suc i) lab"
    using str_find_split [OF assms] by simp
  have i: "i < length lab" using str_find_SomeD [OF assms] by simp
  have "str_rfind (CHR ''%'') lab = (case str_rfind (CHR ''%'') (drop (Suc i) lab) of
      Some j \<Rightarrow> Some (Suc i + j) | None \<Rightarrow> Some i)"
    using i by (subst lab, subst str_rfind_cat) (simp add: str_rfind_append split: option.splits)
  then show ?thesis by (simp add: plat_of_def add.commute split: option.splits)
qed

lemma label_tokens_plat: "snd (label_tokens c nid lab) = plat_of lab"
proof (induction c nid lab rule: label_tokens.induct)
  case (1 c nid lab)
  show ?case
  proof (cases "str_find (CHR ''%'') lab")
    case None
    then have "str_rfind (CHR ''%'') lab = None" by (simp add: str_find_None str_rfind_None)
    then show ?thesis using None by (simp add: label_tokens.simps plat_of_def)
  next
    case (Some i)
    then show ?thesis using 1 by (subst label_tokens.simps) (simp add: plat_of_step [OF Some])
  qed
qed

lemma label_tokens_later: "c \<ge> 2 \<Longrightarrow> fst (label_tokens c nid lab) = nid"
proof (induction c nid lab rule: label_tokens.induct)
  case (1 c nid lab)
  then show ?case by (subst label_tokens.simps) (auto split: option.splits)
qed

definition nodes :: "string \<Rightarrow> string list" where
  "nodes lab = (case node_of lab of None \<Rightarrow> [] | Some n \<Rightarrow> [n])"

lemma label_tokens_nodes: "label_tokens 0 nid lab = (nid @ nodes lab, plat_of lab)"
proof -
  have one: "fst (label_tokens 1 nid t) =
      nid @ (case str_find (CHR ''%'') t of None \<Rightarrow> [] | Some j \<Rightarrow> [take j t])" for t
    by (subst label_tokens.simps) (simp add: label_tokens_later split: option.splits)
  have "fst (label_tokens 0 nid lab) = nid @ nodes lab"
    by (subst label_tokens.simps) (simp add: one nodes_def node_of_def split: option.splits)
  then show ?thesis using label_tokens_plat [of 0 nid lab] by (metis prod.collapse)
qed

lemma ptm_rows_loop:
  assumes "length labels = length ips" and "k \<le> length ips"
    and "\<forall>s \<in> set labels \<union> set ips. length s < 2 ^ 32 - 1"
  shows "foldM (ptm_row labels ips) [0..<k] ([], [], []) =
    Inr (map ptm_ip (take k ips), concat (map (\<lambda>l. nodes (ptm_label l)) (take k labels)),
         map (\<lambda>l. plat_of (ptm_label l)) (take k labels))"
  using assms(2)
proof (induction k)
  case (Suc k)
  have "length (ips ! k) < 2 ^ 32 - 1" "length (labels ! k) < 2 ^ 32 - 1"
    using assms(1,3) Suc.prems by simp_all
  then show ?case using Suc assms(1)
    by (simp add: foldM_append ptm_row_def between_address between_label label_tokens_nodes
        take_Suc_conv_app_nth)
qed simp

lemma concat_nodes_length:
  "length (concat (map (\<lambda>l. nodes (ptm_label l)) labels)) =
     length (filter (\<lambda>l. node_of (ptm_label l) \<noteq> None) labels)"
  by (induction labels) (auto simp: nodes_def split: option.splits)

lemma concat_nodes_complete:
  "list_all (\<lambda>l. node_of (ptm_label l) \<noteq> None) labels \<Longrightarrow>
   concat (map (\<lambda>l. nodes (ptm_label l)) labels) = map (\<lambda>l. the (node_of (ptm_label l))) labels"
  by (induction labels) (auto simp: nodes_def)

definition ptm_entry :: "string \<times> string \<Rightarrow> string \<times> string list" where
  "ptm_entry = (\<lambda>(ip, l). (ptm_ip ip, [the (node_of (ptm_label l)), plat_of (ptm_label l)]))"

lemma ptm_columns_result:
  assumes "length labels = length ips"
    and "\<forall>s \<in> set labels \<union> set ips. length s < 2 ^ 32 - 1"
  shows "ptm_columns labels ips =
    (if list_all (\<lambda>l. node_of (ptm_label l) \<noteq> None) labels
     then Inr (map_of (rev (map ptm_entry (zip ips labels))))
     else Inl (Undefined Index_out_of_bounds))"
proof (cases "list_all (\<lambda>l. node_of (ptm_label l) \<noteq> None) labels")
  case True
  have "map (\<lambda>i. (map ptm_ip ips ! i, [map (\<lambda>l. the (node_of (ptm_label l))) labels ! i,
      map (\<lambda>l. plat_of (ptm_label l)) labels ! i])) [0..<length ips] = map ptm_entry (zip ips labels)"
    by (rule nth_equalityI) (use assms(1) in \<open>auto simp: ptm_entry_def\<close>)
  then show ?thesis
    using True assms(1) ptm_rows_loop [OF assms(1) order_refl assms(2)]
    by (simp add: ptm_columns_def concat_nodes_complete fill_label_map_complete)
next
  case False
  then have "length (filter (\<lambda>l. node_of (ptm_label l) \<noteq> None) labels) < length labels"
    by (auto simp: list_all_iff intro!: length_filter_less)
  then show ?thesis
    using False assms(1) ptm_rows_loop [OF assms(1) order_refl assms(2)]
    by (simp add: ptm_columns_def fill_label_map_short concat_nodes_length)
qed

section \<open>The loaders as one interface\<close>

text \<open>What \<open>ReloadLabelMaps\<close>, \<open>main\<close> and the message handlers need of a loader: every entry
  it returns has a node id and a platform id.\<close>

definition two_fields :: "label_map \<Rightarrow> bool" where
  "two_fields lm = (\<forall>ip e. lm ip = Some e \<longrightarrow> length e = 2)"

locale label_loader =
  fixes load :: "(string \<Rightarrow> string option) \<Rightarrow> string \<Rightarrow> label_map res"
  assumes load_pairs: "load read_file path = Inr lm \<Longrightarrow> two_fields lm"
begin

lemma reload_step:
  assumes "two_fields lm"
    and "(if v = ''true'' then bindr (map_at cfg k) (load read_file) else Inr lm) = Inr lm'"
  shows "two_fields lm'"
  using assms load_pairs by (auto simp: bindr_eq_Inr split: if_splits)

end

lemma fill_two_fields: "fill_label_map n ipaddrs nid pid = Inr lm \<Longrightarrow> two_fields lm"
  using fill_label_map_pairs by (simp add: two_fields_def)

interpretation csv_loader: label_loader LoadLabelMap
  by unfold_locales (auto simp: LoadLabelMap_def csv_columns_def bindr_eq_Inr intro: fill_two_fields)

interpretation ptm_loader: label_loader LoadLabelMapPreTagStyle
  by unfold_locales (auto simp: LoadLabelMapPreTagStyle_def ptm_document_def ptm_columns_def bindr_eq_Inr
      intro: fill_two_fields)

lemma two_fields_entry_ok: "two_fields lm \<Longrightarrow> label_entry_ok lm ip"
  by (auto simp: two_fields_def label_entry_ok_def split: option.splits)

lemma two_fields_empty [simp]: "two_fields Map.empty"
  by (simp add: two_fields_def)

lemma reload_two_fields:
  assumes "two_fields lm" and "ReloadLabelMaps read_file dm_cfg lm = Inr lm'"
  shows "two_fields lm'"
proof -
  obtain v w m where csv: "(if v = ''true'' then bindr (map_at dm_cfg ''label_map_csv_path'') (LoadLabelMap read_file)
      else Inr lm) = Inr m"
    and ptm: "(if w = ''true'' then bindr (map_at dm_cfg ''label_map_ptm_path'')
        (LoadLabelMapPreTagStyle read_file) else Inr m) = Inr lm'"
    using assms(2) by (auto simp only: ReloadLabelMaps_def bindr_eq_Inr)
  have "two_fields m" using assms(1) csv by (rule csv_loader.reload_step)
  then show ?thesis using ptm by (rule ptm_loader.reload_step)
qed

section \<open>Properties\<close>

definition sample_csv :: string where
  "sample_csv = ''10.0.0.1,n1,p1'' @ [CHR 0x0A] @ ''10.0.0.2,n2,p2'' @ [CHR 0x0A]"

definition sample_fs :: "string \<Rightarrow> string option" where
  "sample_fs path = (if path = ''labels.csv'' then Some sample_csv else None)"

definition sample_label_cfg :: "string \<rightharpoonup> string" where
  "sample_label_cfg = [''enable_label_encode_as_map'' \<mapsto> ''true'', ''label_map_csv_path'' \<mapsto> ''labels.csv'',
     ''enable_label_encode_as_map_ptm'' \<mapsto> ''false'']"

lemma sample_csv_rows:
  "csv_rows (CHR '','') sample_csv = [[''10.0.0.1'', ''n1'', ''p1''], [''10.0.0.2'', ''n2'', ''p2'']]"
  by code_simp

text \<open>C29. What a reload of the CSV label map leaves, whatever the map held before: an unreadable
  file or a row with fewer than three columns ends the process; otherwise the map has exactly one
  entry for every address of the first column, the node id and the platform id of the second and
  third column of the last row with that address. So after a reload that returns every entry has
  two fields and the envelope's \<open>at(0)\<close> and \<open>at(1)\<close> never throw. (The pre-tag loader is off; with
  it on no reload returns, see \<open>LoadLabelMapPreTagStyle_erases_end\<close>.)\<close>

theorem ReloadLabelMaps_entries:
  assumes "dm_cfg ''enable_label_encode_as_map'' = Some ''true''"
    and "dm_cfg ''label_map_csv_path'' = Some path"
    and "dm_cfg ''enable_label_encode_as_map_ptm'' = Some ptm" and "ptm \<noteq> ''true''"
  shows "ReloadLabelMaps read_file dm_cfg lm =
      (if path = [] then Inr Map.empty
       else case read_file path of
         None \<Rightarrow> Inl (Exit 1)
       | Some input \<Rightarrow>
           (let rows = csv_rows (CHR '','') input in
            if list_ex (\<lambda>row. length row < 3) rows then Inl (Exit 1)
            else Inr (map_of (rev (map (\<lambda>row. (row ! 0, [row ! 1, row ! 2])) rows))))) \<and>
    (\<forall>lm' ip. ReloadLabelMaps read_file dm_cfg lm = Inr lm' \<longrightarrow> two_fields lm' \<and> label_entry_ok lm' ip)"
proof -
  have r: "ReloadLabelMaps read_file dm_cfg lm = LoadLabelMap read_file path"
    using assms by (simp add: ReloadLabelMaps_def map_at_def bindr_right)
  show ?thesis unfolding r using csv_loader.load_pairs two_fields_entry_ok LoadLabelMap_rows by blast
qed

theorem ReloadLabelMaps_entries_witness:
  "ReloadLabelMaps sample_fs sample_label_cfg Map.empty =
     Inr [''10.0.0.1'' \<mapsto> [''n1'', ''p1''], ''10.0.0.2'' \<mapsto> [''n2'', ''p2'']] \<and>
   label_entry_ok [''10.0.0.1'' \<mapsto> [''n1'', ''p1''], ''10.0.0.2'' \<mapsto> [''n2'', ''p2'']] ''10.0.0.1''"
  using ReloadLabelMaps_entries [of sample_label_cfg "''labels.csv''" "''false''" sample_fs Map.empty]
  by (simp add: sample_label_cfg_def sample_fs_def sample_csv_rows fun_upd_twist)

text \<open>What loading a CSV label map gives: the file must be readable and every row must have
  three columns, else the process exits; otherwise each row maps its address to node id and
  platform id, the last row winning when an address is repeated. On SIGUSR1 this means that a
  malformed file ends a running daemon.\<close>

theorem LoadLabelMap_result:
  "LoadLabelMap read_file path =
     (if path = [] then Inr Map.empty
      else case read_file path of
        None \<Rightarrow> Inl (Exit 1)
      | Some input \<Rightarrow>
          (let rows = csv_rows (CHR '','') input in
           if list_ex (\<lambda>row. length row < 3) rows then Inl (Exit 1)
           else Inr (map_of (rev (map (\<lambda>row. (row ! 0, [row ! 1, row ! 2])) rows)))))"
  by (rule LoadLabelMap_rows)

text \<open>The pre-tag map loader never returns a map: the row it removes to drop the trailing
  sentinel is the one at \<open>GetRowCount()\<close>, one past the last, so for every file that can be opened
  the call erases the end iterator, which is undefined; a file that cannot be opened exits.\<close>

theorem LoadLabelMapPreTagStyle_erases_end:
  assumes "\<And>input. read_file path = Some input \<Longrightarrow> length (csv_rows (CHR '' '') input) < 2 ^ 64"
  shows "LoadLabelMapPreTagStyle read_file path =
     (if path \<noteq> [] \<and> read_file path = None then Inl (Exit 1) else Inl (Undefined Erase_at_end))"
  by (rule LoadLabelMapPreTagStyle_never_returns [OF assms])

definition label_column :: "string \<times> string \<times> string \<times> string \<Rightarrow> string" where
  "label_column = (\<lambda>(ip, plen, n, p). ''set_label=nkey%'' @ n @ ''%pkey%'' @ p)"

definition ip_column :: "string \<times> string \<times> string \<times> string \<Rightarrow> string" where
  "ip_column = (\<lambda>(ip, plen, n, p). ''ip='' @ ip @ ''/'' @ plen)"

lemma ptm_label_column:
  assumes "CHR ''%'' \<notin> set n" "CHR ''%'' \<notin> set p"
  shows "node_of (ptm_label (label_column (ip, plen, n, p))) = Some n"
    and "plat_of (ptm_label (label_column (ip, plen, n, p))) = p"
proof -
  have l: "ptm_label (label_column (ip, plen, n, p)) = ''nkey'' @ CHR ''%'' # (n @ CHR ''%'' # (''pkey'' @ CHR ''%'' # p))"
    by (simp add: ptm_label_def label_column_def start_of_def)
  have "str_find (CHR ''%'') (''nkey'' @ CHR ''%'' # (n @ CHR ''%'' # (''pkey'' @ CHR ''%'' # p))) = Some 4"
    by simp
  then show "node_of (ptm_label (label_column (ip, plen, n, p))) = Some n"
    unfolding l node_of_def using str_find_append [OF assms(1)] by simp
  have "str_rfind (CHR ''%'') ((''nkey'' @ CHR ''%'' # (n @ CHR ''%'' # ''pkey'')) @ CHR ''%'' # p) =
      Some (length (''nkey'' @ CHR ''%'' # (n @ CHR ''%'' # ''pkey'')))"
    by (rule str_rfind_append [OF assms(2)])
  then show "plat_of (ptm_label (label_column (ip, plen, n, p))) = p"
    unfolding l plat_of_def by simp
qed

lemma ptm_ip_column:
  assumes "CHR ''/'' \<notin> set plen"
  shows "ptm_ip (ip_column (ip, plen, n, p)) = ip"
  using str_rfind_append [OF assms, of "''ip='' @ ip"]
  by (simp add: ptm_ip_def ip_column_def start_of_def)

text \<open>The columns of a well-formed pre-tag map, lines
  \<open>set_label=nkey%<node>%pkey%<platform> ip=<address>/<prefix length>\<close> below 4 GiB, give exactly
  the map from address to node id and platform id; the address may itself be an IPv6 one.\<close>

theorem ptm_columns_wellformed:
  assumes "\<forall>(ip, plen, n, p) \<in> set es. CHR ''/'' \<notin> set plen \<and> CHR ''%'' \<notin> set n \<and> CHR ''%'' \<notin> set p"
    and "\<forall>e \<in> set es. length (label_column e) < 2 ^ 32 - 1 \<and> length (ip_column e) < 2 ^ 32 - 1"
  shows "ptm_columns (map label_column es) (map ip_column es) =
    Inr (map_of (rev (map (\<lambda>(ip, plen, n, p). (ip, [n, p])) es)))"
proof -
  have e: "ptm_entry (ip_column e, label_column e) = (\<lambda>(ip, plen, n, p). (ip, [n, p])) e"
    "node_of (ptm_label (label_column e)) \<noteq> None" if "e \<in> set es" for e
    using assms(1) that by (auto simp: ptm_entry_def ptm_label_column ptm_ip_column)
  have "map ptm_entry (zip (map ip_column es) (map label_column es)) = map (\<lambda>(ip, plen, n, p). (ip, [n, p])) es"
    by (rule nth_equalityI) (simp_all add: e)
  moreover have "list_all (\<lambda>l. node_of (ptm_label l) \<noteq> None) (map label_column es)"
    using e(2) by (auto simp: list_all_iff)
  ultimately show ?thesis
    using assms(2) by (subst ptm_columns_result) auto
qed

definition sample_es :: "(string \<times> string \<times> string \<times> string) list" where
  "sample_es = [(''2001::1'', ''128'', ''n1'', ''p1''), (''10.0.0.1'', ''32'', ''n2'', ''p2'')]"

theorem ptm_columns_wellformed_witness:
  "ptm_columns [''set_label=nkey%n1%pkey%p1'', ''set_label=nkey%n2%pkey%p2'']
     [''ip=2001::1/128'', ''ip=10.0.0.1/32''] =
   Inr [''2001::1'' \<mapsto> [''n1'', ''p1''], ''10.0.0.1'' \<mapsto> [''n2'', ''p2'']]"
  using ptm_columns_wellformed [of sample_es]
  by (simp add: sample_es_def label_column_def ip_column_def)

text \<open>A label with fewer than two percent signs in any row of a pre-tag map makes the loader
  read past the end of the node vector, which got one element too few.\<close>

theorem ptm_columns_short_label:
  assumes "length labels = length ips"
    and "\<forall>s \<in> set labels \<union> set ips. length s < 2 ^ 32 - 1"
    and "lab \<in> set labels" and "node_of (ptm_label lab) = None"
  shows "ptm_columns labels ips = Inl (Undefined Index_out_of_bounds)"
  using ptm_columns_result [OF assms(1,2)] assms(3,4) by (auto simp: list_all_iff)

theorem ptm_columns_short_label_witness:
  "ptm_columns [''set_label=nkey%n1'', ''set_label=nkey%n2%pkey%p2''] [''ip=10.0.0.1/32'', ''ip=10.0.0.2/32'']
     = Inl (Undefined Index_out_of_bounds)"
  by (rule ptm_columns_short_label [where lab = "''set_label=nkey%n1''"])
    (simp_all add: node_of_def ptm_label_def start_of_def)

end
