(* ===== verification/Startup.thy ===== *)
theory Startup
  imports Label_Map Logs_Handler Server_Lifecycle Zmq_Delivery
begin

text \<open>
  \<open>src/mdt_dialout_collector.cc\<close>, the daemon: options, configuration, PID file, label maps,
  the worker threads of the four vendors, the ZeroMQ poller thread and the signal watcher.
  What the host decides is the record \<open>host\<close>; threads are started here and run in theories
  Core and Server_Lifecycle. Log messages are left out, but a logger that was never registered
  is a null pointer where the code uses it unchecked.
\<close>

section \<open>Host and globals\<close>

text \<open>The configuration files libconfig parses, which paths exist, whether the syslog and the
  console sink can be built, the readable text files, which files can be created, the process
  id, the error of binding the ZeroMQ socket if any, and whether \<open>pipe()\<close> works.\<close>

record host =
  ho_cfg :: "string \<Rightarrow> libconfig option"
  ho_exists :: "string \<Rightarrow> bool"
  ho_syslog :: bool
  ho_console :: bool
  ho_text :: "string \<Rightarrow> string option"
  ho_create :: "string \<Rightarrow> bool"
  ho_pid :: nat
  ho_zmq_bind :: "string \<Rightarrow> int option"
  ho_pipe :: bool

record globals =
  g_registry :: registry
  logs_cfg_parameters :: params
  g_cfg :: cfg

text \<open>\<open>spdlog::get(name)->...\<close>.\<close>

definition use_logger :: "string \<Rightarrow> globals \<Rightarrow> unit res" where
  "use_logger name g =
     (if g_registry g name = None then Inl (Undefined Null_dereference) else Inr ())"

section \<open>Configuration\<close>

text \<open>The loggers, then the five lookups in order, each stored in its global map when it
  succeeds. The constructor of \<open>MainCfgHandler\<close> is the first to use the configured logger.
  The result tells whether all succeeded.\<close>

definition load_configuration :: "host \<Rightarrow> string \<Rightarrow> string \<Rightarrow> globals \<Rightarrow> (bool \<times> globals) res" where
  "load_configuration H cfg_path zmq_uri g =
     bindr (new_LogsHandler (ho_syslog H) (ho_console H) (g_registry g)) (\<lambda>reg.
     let g = g\<lparr>g_registry := reg\<rparr> in
     bindr (lookup_logs_parameters (ho_cfg H) cfg_path) (\<lambda>r. case r of None \<Rightarrow> Inr (False, g) | Some p \<Rightarrow>
     let g = g\<lparr>logs_cfg_parameters := p\<rparr> in
     bindr (set_spdlog_sinks (ho_syslog H) (ho_console H) p (g_registry g)) (\<lambda>(_, reg).
     let g = g\<lparr>g_registry := reg\<rparr> in
     bindr (use_logger ''multi-logger'' g) (\<lambda>_.
     bindr (lookup_main_parameters (ho_cfg H) (ho_exists H) cfg_path) (\<lambda>r.
       case r of None \<Rightarrow> Inr (False, g) | Some p \<Rightarrow>
     let g = g\<lparr>g_cfg := (g_cfg g)\<lparr>main_cfg_parameters := p\<rparr>\<rparr> in
     bindr (lookup_data_manipulation_parameters (ho_cfg H) (ho_exists H) cfg_path) (\<lambda>r.
       case r of None \<Rightarrow> Inr (False, g) | Some p \<Rightarrow>
     let g = g\<lparr>g_cfg := (g_cfg g)\<lparr>data_manipulation_cfg_parameters := p\<rparr>\<rparr> in
     bindr (lookup_kafka_parameters (ho_cfg H) (main_cfg_parameters (g_cfg g)) cfg_path) (\<lambda>r.
       case r of None \<Rightarrow> Inr (False, g) | Some p \<Rightarrow>
     let g = g\<lparr>g_cfg := (g_cfg g)\<lparr>kafka_delivery_cfg_parameters := p\<rparr>\<rparr> in
     bindr (lookup_zmq_parameters (main_cfg_parameters (g_cfg g)) zmq_uri Map.empty) (\<lambda>r.
       case r of None \<Rightarrow> Inr (False, g) | Some p \<Rightarrow>
     Inr (True, g\<lparr>g_cfg := (g_cfg g)\<lparr>zmq_delivery_cfg_parameters := p\<rparr>\<rparr>)))))))))"

section \<open>Workers\<close>

text \<open>A worker is the thread of \<open>VendorThread\<close> with its argument. \<open>fsm v l\<close> is the \<open>FsmCtrl\<close>
  of vendor \<open>v\<close> on listener \<open>l\<close>; worker \<open>i\<close> constructs its own \<open>Srv\<close>.\<close>

definition VendorThread where
  "VendorThread read_file main_cfg fsm i socket_str g =
     bindr (map_at main_cfg socket_str) (\<lambda>srv_socket.
       if contains socket_str ''cisco'' then
         bindr (CiscoBind read_file main_cfg (fsm Cisco) i srv_socket new_Srv g) (\<lambda>(_, g). Inr g)
       else if contains socket_str ''juniper'' then
         bindr (JuniperBind read_file main_cfg (fsm Juniper) i srv_socket new_Srv g) (\<lambda>(_, g). Inr g)
       else if contains socket_str ''nokia'' then
         bindr (NokiaBind read_file main_cfg (fsm Nokia) i srv_socket new_Srv g) (\<lambda>(_, g). Inr g)
       else if contains socket_str ''huawei'' then
         bindr (HuaweiBind read_file main_cfg (fsm Huawei) i srv_socket new_Srv g) (\<lambda>(_, g). Inr g)
       else Inr g)"

definition worker_limits :: "params \<Rightarrow> string \<Rightarrow> string \<Rightarrow> (int \<times> int) res" where
  "worker_limits main_cfg replies_str workers_str =
     bindr (map_at main_cfg replies_str) (\<lambda>r. bindr (stoi r) (\<lambda>n.
     bindr (map_at main_cfg workers_str) (\<lambda>w. bindr (stoi w) (\<lambda>m. Inr (n, m)))))"

definition LoadThreads :: "params \<Rightarrow> string list \<Rightarrow> string \<Rightarrow> string \<Rightarrow> string \<Rightarrow> string list res" where
  "LoadThreads main_cfg workers_vec socket_str replies_str workers_str =
     bindr (map_at main_cfg socket_str) (\<lambda>socket.
       if socket = [] then Inr workers_vec
       else bindr (or_exit (worker_limits main_cfg replies_str workers_str)) (\<lambda>(n_replies, n_workers).
         if n_replies < 0 \<or> n_replies > 1000 then Inl (Exit 1)
         else if n_workers < 1 \<or> n_workers > 5 then Inl (Exit 1)
         else Inr (workers_vec @ replicate (nat n_workers) socket_str)))"

section \<open>The daemon\<close>

definition DumpCorePid ::
  "(string \<Rightarrow> bool) \<Rightarrow> nat \<Rightarrow> string \<Rightarrow> (string \<rightharpoonup> string) \<Rightarrow> bool \<times> (string \<rightharpoonup> string)" where
  "DumpCorePid can_create core_pid core_pid_path files =
     (if \<not> can_create core_pid_path then (False, files)
      else (True, files(core_pid_path \<mapsto> dec_of_nat core_pid)))"

definition ReadVersionFromFile :: "(string \<Rightarrow> string option) \<Rightarrow> string \<Rightarrow> string" where
  "ReadVersionFromFile read_file filePath =
     (case read_file filePath of Some s \<Rightarrow> takeWhile (\<lambda>c. c \<noteq> CHR 0x0A) s | None \<Rightarrow> ''UNKNOWN'')"

text \<open>What \<open>getopt\<close> yields, one value per option.\<close>

datatype getopt = Opt_f string | Opt_V | Opt_other

fun parse_options :: "getopt list \<Rightarrow> string \<times> bool \<times> bool \<Rightarrow> (string \<times> bool \<times> bool) option" where
  "parse_options [] s = Some s"
| "parse_options (Opt_f path # opts) (_, _, v) = parse_options opts (path, True, v)"
| "parse_options (Opt_V # opts) (path, f, _) = parse_options opts (path, f, True)"
| "parse_options (Opt_other # opts) _ = None"

text \<open>A daemon whose threads were all started.\<close>

record daemon =
  d_globals :: globals
  d_label_map :: label_map
  d_files :: "string \<rightharpoonup> string"
  d_cisco :: "string list"
  d_juniper :: "string list"
  d_nokia :: "string list"
  d_huawei :: "string list"

datatype outcome = Finished int string | Running daemon

definition usage :: string where
  "usage = ''Usage: mdt_dialout_collector [-f cfg_path] | [-V]'' @ [CHR 0x0A]"

definition default_cfg_path :: string where
  "default_cfg_path = ''/etc/opt/mdt-dialout-collector/mdt_dialout_collector.conf''"

text \<open>\<open>main\<close> after the options. Returning after a failed \<open>pipe()\<close> destroys the poller's
  \<open>std::thread\<close> while it is joinable, which calls \<open>std::terminate\<close>.\<close>

definition run_daemon :: "host \<Rightarrow> string \<Rightarrow> globals \<Rightarrow> outcome res" where
  "run_daemon H cfg_path g =
     bindr (load_configuration H cfg_path [] g) (\<lambda>(ok, g).
     if \<not> ok then Inl (Exit 1) else
     let main_cfg = main_cfg_parameters (g_cfg g) in
     bindr (map_at main_cfg ''core_pid_folder'') (\<lambda>core_pid_folder.
     bindr (map_at main_cfg ''writer_id'') (\<lambda>core_pid_file.
     let (ok, files) = DumpCorePid (ho_create H) (ho_pid H) (core_pid_folder @ ''/'' @ core_pid_file) Map.empty in
     if \<not> ok then Inr (Finished 1 []) else
     bindr (ReloadLabelMaps (ho_text H) (data_manipulation_cfg_parameters (g_cfg g)) Map.empty) (\<lambda>lm.
     bindr (mapM (map_at main_cfg)
              [''socket_cisco'', ''socket_juniper'', ''socket_nokia'', ''socket_huawei'']) (\<lambda>sockets.
     if list_all (\<lambda>s. s = []) sockets then Inr (Finished 1 []) else
     bindr (map_at (zmq_delivery_cfg_parameters (g_cfg g)) ''zmq_uri'') (\<lambda>uri.
     case ho_zmq_bind H uri of Some e \<Rightarrow> Inl (Throw (Zmq_error e)) | None \<Rightarrow>
     if \<not> ho_pipe H then Inl Abort else
     bindr (LoadThreads main_cfg [] ''socket_cisco'' ''replies_cisco'' ''cisco_workers'') (\<lambda>cisco.
     bindr (LoadThreads main_cfg [] ''socket_juniper'' ''replies_juniper'' ''juniper_workers'') (\<lambda>juniper.
     bindr (LoadThreads main_cfg [] ''socket_nokia'' ''replies_nokia'' ''nokia_workers'') (\<lambda>nokia.
     bindr (LoadThreads main_cfg [] ''socket_huawei'' ''replies_huawei'' ''huawei_workers'') (\<lambda>huawei.
       Inr (Running \<lparr>d_globals = g, d_label_map = lm, d_files = files, d_cisco = cisco,
              d_juniper = juniper, d_nokia = nokia, d_huawei = huawei\<rparr>)))))))))))"

definition main_program :: "host \<Rightarrow> nat \<Rightarrow> getopt list \<Rightarrow> globals \<Rightarrow> outcome res" where
  "main_program H argc opts g =
     (case parse_options opts ([], False, False) of
        None \<Rightarrow> Inr (Finished 1 usage)
      | Some (cfg_path, f, v) \<Rightarrow>
          let cfg_path = (if cfg_path = [] then default_cfg_path else cfg_path) in
          if (f \<and> v) \<or> argc > 3 then Inr (Finished 1 usage)
          else if v \<and> argc = 2 then
            Inr (Finished 0 (''gRPC dial-out collector, mdt-dialout-collector '' @
              ReadVersionFromFile (ho_text H) ''../VERSION'' @ [CHR 0x0A]))
          else if v \<and> argc > 2 then Inr (Finished 1 usage)
          else run_daemon H cfg_path g)"

section \<open>Service threads\<close>

definition SIGUSR1 :: nat where
  "SIGUSR1 = 10"

text \<open>The signal watcher on the bytes it reads from the pipe; the pipe is closed at the end of
  the list. The result is the label map and whether it shut the servers and the ZeroMQ context
  down.\<close>

fun signal_watcher ::
  "(string \<Rightarrow> string option) \<Rightarrow> params \<Rightarrow> nat list \<Rightarrow> label_map \<Rightarrow> (label_map \<times> bool) res" where
  "signal_watcher read_file dm_cfg [] lm = Inr (lm, False)"
| "signal_watcher read_file dm_cfg (sig # sigs) lm =
     (if sig = SIGUSR1
      then bindr (ReloadLabelMaps read_file dm_cfg lm) (signal_watcher read_file dm_cfg sigs)
      else Inr (lm, True))"

text \<open>The poller thread loops until \<open>ZmqPoller\<close> throws a \<open>zmq::error_t\<close>; any other exception
  leaves the thread function. \<open>None\<close> is a loop that never ends.\<close>

definition is_zmq_error :: "error \<Rightarrow> bool" where
  "is_zmq_error e = (case e of Throw (Zmq_error _) \<Rightarrow> True | _ \<Rightarrow> False)"

partial_function (option) ZmqSingleThreadPoller ::
  "int \<Rightarrow> ('q \<Rightarrow> 'q recv_result) \<Rightarrow> string \<Rightarrow> string list \<Rightarrow> heap \<Rightarrow> 'q \<Rightarrow>
   (string list \<times> heap \<times> 'q) res option" where
  "ZmqSingleThreadPoller eterm recv uri out h q =
     (case ZmqPoller eterm recv uri h q of
        Inr (ls, h', q') \<Rightarrow> ZmqSingleThreadPoller eterm recv uri (out @ ls) h' q'
      | Inl e \<Rightarrow> Some (if is_zmq_error e then Inr (out, h, q) else Inl e))"

section \<open>Configuration and workers\<close>

lemma load_configurationD:
  assumes "load_configuration H path uri g = Inr (True, g')"
  shows "lookup_logs_parameters (ho_cfg H) path = Inr (Some (logs_cfg_parameters g'))"
    and "lookup_main_parameters (ho_cfg H) (ho_exists H) path = Inr (Some (main_cfg_parameters (g_cfg g')))"
    and "lookup_data_manipulation_parameters (ho_cfg H) (ho_exists H) path
      = Inr (Some (data_manipulation_cfg_parameters (g_cfg g')))"
    and "lookup_kafka_parameters (ho_cfg H) (main_cfg_parameters (g_cfg g')) path
      = Inr (Some (kafka_delivery_cfg_parameters (g_cfg g')))"
    and "lookup_zmq_parameters (main_cfg_parameters (g_cfg g')) uri Map.empty
      = Inr (Some (zmq_delivery_cfg_parameters (g_cfg g')))"
  using assms
  by (auto simp: load_configuration_def bindr_eq_Inr Let_def split: option.splits prod.splits)

lemma worker_limits_Inr:
  "worker_limits cfg r w = Inr (n, m) \<longleftrightarrow>
     (\<exists>rs ws. cfg r = Some rs \<and> stoi rs = Inr n \<and> cfg w = Some ws \<and> stoi ws = Inr m)"
  by (auto simp: worker_limits_def bindr_eq_Inr)

lemma worker_limits_throws: "worker_limits cfg r w = Inl e \<Longrightarrow> \<exists>x. e = Throw x"
  by (auto simp: worker_limits_def bindr_eq_Inl stoi_def Let_def split: if_splits)

lemma LoadThreadsD:
  assumes "LoadThreads cfg ws s r w = Inr ws'"
  obtains addr n where "cfg s = Some addr" "ws' = ws @ replicate n s" "n \<le> 5"
    "addr = [] \<longleftrightarrow> n = 0"
    "addr \<noteq> [] \<Longrightarrow> \<exists>rs k. cfg r = Some rs \<and> stoi rs = Inr k \<and> 0 \<le> k \<and> k \<le> 1000"
proof -
  obtain addr where addr: "cfg s = Some addr" using assms by (auto simp: LoadThreads_def bindr_eq_Inr)
  show thesis
  proof (cases "addr = []")
    case True
    then show thesis using that [of addr 0] addr assms by (simp add: LoadThreads_def)
  next
    case False
    then obtain k m where km: "or_exit (worker_limits cfg r w) = Inr (k, m)"
      and b: "0 \<le> k" "k \<le> 1000" "1 \<le> m" "m \<le> 5" "ws' = ws @ replicate (nat m) s"
      using assms addr by (auto simp: LoadThreads_def bindr_eq_Inr split: if_splits)
    have "worker_limits cfg r w = Inr (k, m)"
      using km worker_limits_throws [of cfg r w] by (cases "worker_limits cfg r w") auto
    then have "\<exists>rs k. cfg r = Some rs \<and> stoi rs = Inr k \<and> 0 \<le> k \<and> k \<le> 1000"
      using b by (auto simp: worker_limits_Inr)
    then show thesis using that [of addr "nat m"] addr b False by simp
  qed
qed

lemma limits_present:
  assumes "lookup_main_parameters rf fe path = Inr (Some p)" and "v \<in> set vendors"
    and "p (vk_socket v) \<noteq> Some []"
  shows "\<exists>rs ws. p (vk_replies v) = Some rs \<and> p (vk_workers v) = Some ws"
proof -
  have "vk_replies v \<in> dom p" "vk_workers v \<in> dom p"
    using lookup_main_contract(1) [OF assms(1)] assms(2,3) by (auto simp: limit_keys_def)
  then show ?thesis by blast
qed

lemma socket_present:
  "lookup_main_parameters rf fe path = Inr (Some p) \<Longrightarrow> v \<in> set vendors \<Longrightarrow> \<exists>a. p (vk_socket v) = Some a"
  using lookup_main_contract(1) [of rf fe path p] by (metis UnCI domD imageI)

section \<open>A running daemon\<close>

definition daemon_workers :: "daemon \<Rightarrow> string list" where
  "daemon_workers d = d_cisco d @ d_juniper d @ d_nokia d @ d_huawei d"

lemma run_daemonD:
  assumes "run_daemon H path g = Inr (Running d)"
  shows "load_configuration H path [] g = Inr (True, d_globals d)"
    and "\<exists>folder file. main_cfg_parameters (g_cfg (d_globals d)) ''core_pid_folder'' = Some folder \<and>
      main_cfg_parameters (g_cfg (d_globals d)) ''writer_id'' = Some file \<and>
      d_files d (folder @ ''/'' @ file) = Some (dec_of_nat (ho_pid H))"
    and "ReloadLabelMaps (ho_text H) (data_manipulation_cfg_parameters (g_cfg (d_globals d))) Map.empty
      = Inr (d_label_map d)"
    and "\<exists>c j n h. main_cfg_parameters (g_cfg (d_globals d)) ''socket_cisco'' = Some c \<and>
      main_cfg_parameters (g_cfg (d_globals d)) ''socket_juniper'' = Some j \<and>
      main_cfg_parameters (g_cfg (d_globals d)) ''socket_nokia'' = Some n \<and>
      main_cfg_parameters (g_cfg (d_globals d)) ''socket_huawei'' = Some h \<and>
      \<not> (c = [] \<and> j = [] \<and> n = [] \<and> h = [])"
    and "LoadThreads (main_cfg_parameters (g_cfg (d_globals d))) [] ''socket_cisco'' ''replies_cisco''
      ''cisco_workers'' = Inr (d_cisco d)"
    and "LoadThreads (main_cfg_parameters (g_cfg (d_globals d))) [] ''socket_juniper'' ''replies_juniper''
      ''juniper_workers'' = Inr (d_juniper d)"
    and "LoadThreads (main_cfg_parameters (g_cfg (d_globals d))) [] ''socket_nokia'' ''replies_nokia''
      ''nokia_workers'' = Inr (d_nokia d)"
    and "LoadThreads (main_cfg_parameters (g_cfg (d_globals d))) [] ''socket_huawei'' ''replies_huawei''
      ''huawei_workers'' = Inr (d_huawei d)"
  using assms
  by (auto simp: run_daemon_def bindr_eq_Inr Let_def DumpCorePid_def split: if_splits option.splits)

lemma started_threads:
  assumes "LoadThreads cfg [] s r w = Inr ts" and "cfg s = Some a"
  shows "length ts \<le> 5" and "ts = [] \<longleftrightarrow> a = []" and "\<forall>t \<in> set ts. t = s \<and> a \<noteq> []"
  using assms by (auto elim!: LoadThreadsD)

text \<open>C25. When the daemon gets to run, between one and twenty workers were started, each for a
  socket that is configured and not empty; the PID file holds the process id; the configuration
  maps are those of a successful lookup; and every entry of the label map has its two fields.\<close>

theorem run_daemon_running:
  assumes "run_daemon H path g = Inr (Running d)"
  shows "1 \<le> length (daemon_workers d) \<and> length (daemon_workers d) \<le> 20 \<and>
    list_all (\<lambda>t. \<exists>addr. main_cfg_parameters (g_cfg (d_globals d)) t = Some addr \<and> addr \<noteq> [])
      (daemon_workers d) \<and>
    (\<exists>folder file. main_cfg_parameters (g_cfg (d_globals d)) ''core_pid_folder'' = Some folder \<and>
       main_cfg_parameters (g_cfg (d_globals d)) ''writer_id'' = Some file \<and>
       d_files d (folder @ ''/'' @ file) = Some (dec_of_nat (ho_pid H))) \<and>
    load_configuration H path [] g = Inr (True, d_globals d) \<and>
    two_fields (d_label_map d)"
proof -
  note d = run_daemonD [OF assms]
  obtain c j n h where s: "main_cfg_parameters (g_cfg (d_globals d)) ''socket_cisco'' = Some c"
    "main_cfg_parameters (g_cfg (d_globals d)) ''socket_juniper'' = Some j"
    "main_cfg_parameters (g_cfg (d_globals d)) ''socket_nokia'' = Some n"
    "main_cfg_parameters (g_cfg (d_globals d)) ''socket_huawei'' = Some h"
    "\<not> (c = [] \<and> j = [] \<and> n = [] \<and> h = [])"
    using d(4) by blast
  note c = started_threads [OF d(5) s(1)] and j = started_threads [OF d(6) s(2)]
    and n = started_threads [OF d(7) s(3)] and h = started_threads [OF d(8) s(4)]
  have "daemon_workers d \<noteq> []" using s(5) c(2) j(2) n(2) h(2) by (auto simp: daemon_workers_def)
  then have "1 \<le> length (daemon_workers d)" by (cases "daemon_workers d") auto
  moreover have "length (daemon_workers d) \<le> 20"
    using c(1) j(1) n(1) h(1) by (simp add: daemon_workers_def)
  moreover have "list_all (\<lambda>t. \<exists>addr. main_cfg_parameters (g_cfg (d_globals d)) t = Some addr \<and> addr \<noteq> [])
      (daemon_workers d)"
    using c(3) j(3) n(3) h(3) s by (auto simp: daemon_workers_def list_all_iff)
  moreover have "two_fields (d_label_map d)" using reload_two_fields [OF two_fields_empty d(3)] .
  ultimately show ?thesis using d(1,2) by blast
qed

definition sample_host :: host where
  "sample_host = \<lparr>ho_cfg = (\<lambda>_. Some [''iface'' \<mapsto> Str ''eth0'', ''socket_cisco'' \<mapsto> Str ''0.0.0.0:10007'',
       ''cisco_workers'' \<mapsto> Str ''2'', ''topic'' \<mapsto> Str ''t'', ''bootstrap_servers'' \<mapsto> Str ''s'',
       ''security_protocol'' \<mapsto> Str ''plaintext'']),
     ho_exists = (\<lambda>_. True), ho_syslog = True, ho_console = True, ho_text = (\<lambda>_. None),
     ho_create = (\<lambda>_. True), ho_pid = 42, ho_zmq_bind = (\<lambda>_. None), ho_pipe = True\<rparr>"

definition no_cfg :: cfg where
  "no_cfg = \<lparr>main_cfg_parameters = Map.empty, data_manipulation_cfg_parameters = Map.empty,
     kafka_delivery_cfg_parameters = Map.empty, zmq_delivery_cfg_parameters = Map.empty\<rparr>"

definition boot :: globals where
  "boot = \<lparr>g_registry = Map.empty, logs_cfg_parameters = Map.empty, g_cfg = no_cfg\<rparr>"

lemma sample_host_main: "\<exists>p. lookup_main_parameters (ho_cfg sample_host) (ho_exists sample_host) ''f'' = Inr (Some p) \<and>
    p ''socket_cisco'' = Some ''0.0.0.0:10007'' \<and> p ''cisco_workers'' = Some ''2'' \<and>
    p ''replies_cisco'' = Some ''0'' \<and> p ''socket_juniper'' = Some [] \<and> p ''socket_nokia'' = Some [] \<and>
    p ''socket_huawei'' = Some [] \<and> p ''core_pid_folder'' = Some ''/var/run/'' \<and>
    p ''writer_id'' = Some ''mdt-dialout-collector'' \<and> p ''data_delivery_method'' = Some ''kafka''"
  by (simp add: lookup_main_parameters_def set_parameters_def sample_host_def step_def done_ok_def
      LoadOptional_def LoadOptionalPath_def LoadMandatory_def LoadOptionalEnum_def ReadStringSetting_def
      load_tls_def load_socket_def load_limits_def vendors_def emplace_same)

lemma sample_host_dm: "\<exists>p. lookup_data_manipulation_parameters (ho_cfg sample_host) (ho_exists sample_host) ''f''
    = Inr (Some p) \<and> p ''enable_label_encode_as_map'' = Some ''false'' \<and>
    p ''enable_label_encode_as_map_ptm'' = Some ''false''"
  by (simp add: lookup_data_manipulation_parameters_def set_parameters_def sample_host_def step_def
      done_ok_def LoadOptional_def ReadStringSetting_def)

lemma sample_host_kafka: "m ''data_delivery_method'' = Some ''kafka'' \<Longrightarrow>
    \<exists>p. lookup_kafka_parameters (ho_cfg sample_host) m ''f'' = Inr (Some p) \<and> p ''log_level'' = Some ''6''"
  by (simp add: lookup_kafka_parameters_def set_parameters_def sample_host_def step_def done_ok_def
      load_kafka_only_def LoadMandatory_def LoadOptionalEnum_def LoadOptional_def ReadStringSetting_def
      no_ssl_def Let_def emplace_same)

lemma sample_host_logs: "\<exists>p. lookup_logs_parameters (ho_cfg sample_host) ''f'' = Inr (Some p) \<and>
    (\<forall>reg. reg ''multi-logger'' = None \<longrightarrow>
       (\<exists>l. set_spdlog_sinks True True p reg = Inr (True, reg(''multi-logger'' \<mapsto> l))))"
  by (simp add: lookup_logs_parameters_def set_parameters_def sample_host_def step_def done_ok_def
      LoadOptional_def LoadOptionalEnum_def ReadStringSetting_def set_spdlog_sinks_def register_logger_def
      emplace_same) blast

lemma sample_load: "\<exists>g. load_configuration sample_host ''f'' [] boot = Inr (True, g)"
proof -
  obtain l where l: "lookup_logs_parameters (ho_cfg sample_host) ''f'' = Inr (Some l)"
    "\<And>reg. reg ''multi-logger'' = None \<Longrightarrow>
       \<exists>lg. set_spdlog_sinks True True l reg = Inr (True, reg(''multi-logger'' \<mapsto> lg))"
    using sample_host_logs by blast
  obtain m where m: "lookup_main_parameters (ho_cfg sample_host) (ho_exists sample_host) ''f'' = Inr (Some m)"
    "m ''data_delivery_method'' = Some ''kafka''"
    using sample_host_main by blast
  obtain dm where dm: "lookup_data_manipulation_parameters (ho_cfg sample_host) (ho_exists sample_host) ''f''
      = Inr (Some dm)"
    using sample_host_dm by blast
  obtain k where k: "lookup_kafka_parameters (ho_cfg sample_host) m ''f'' = Inr (Some k)"
    using sample_host_kafka [of m] m(2) by blast
  define reg where "reg = [''multi-logger-boot'' \<mapsto>
    \<lparr>lg_sinks = [Syslog_sink ''mdt-dialout-collector'' LOG_USER, Console_sink], lg_level = ''debug''\<rparr>]"
  have reg: "new_LogsHandler True True Map.empty = Inr reg"
    by (simp add: new_LogsHandler_def set_boot_spdlog_sinks_def register_logger_def reg_def)
  have "reg ''multi-logger'' = None" by (simp add: reg_def)
  then obtain lg where
    sinks: "set_spdlog_sinks True True l reg = Inr (True, reg(''multi-logger'' \<mapsto> lg))"
    using l(2) by blast
  have host: "ho_syslog sample_host = True" "ho_console sample_host = True"
    by (simp_all add: sample_host_def)
  show ?thesis
    unfolding load_configuration_def host
    by (simp add: boot_def Let_def reg l(1) sinks use_logger_def m dm k lookup_zmq_parameters_def done_ok_def)
qed

lemma sample_running: "\<exists>d. run_daemon sample_host ''f'' boot = Inr (Running d) \<and>
    d_cisco d = [''socket_cisco'', ''socket_cisco''] \<and> d_juniper d = [] \<and> d_nokia d = [] \<and> d_huawei d = []"
proof -
  obtain g where g: "load_configuration sample_host ''f'' [] boot = Inr (True, g)" using sample_load by blast
  note G = load_configurationD [OF g]
  let ?m = "main_cfg_parameters (g_cfg g)"
  have m: "?m ''socket_cisco'' = Some ''0.0.0.0:10007''" "?m ''cisco_workers'' = Some ''2''"
    "?m ''replies_cisco'' = Some ''0''" "?m ''socket_juniper'' = Some []" "?m ''socket_nokia'' = Some []"
    "?m ''socket_huawei'' = Some []" "?m ''core_pid_folder'' = Some ''/var/run/''"
    "?m ''writer_id'' = Some ''mdt-dialout-collector''" "?m ''data_delivery_method'' = Some ''kafka''"
    using sample_host_main G(2) by auto
  have dm: "data_manipulation_cfg_parameters (g_cfg g) ''enable_label_encode_as_map'' = Some ''false''"
    "data_manipulation_cfg_parameters (g_cfg g) ''enable_label_encode_as_map_ptm'' = Some ''false''"
    using sample_host_dm G(3) by auto
  have z: "zmq_delivery_cfg_parameters (g_cfg g) ''zmq_uri'' = Some ''ipc:///tmp/dummy.sock''"
    using G(5) [symmetric] m(9) by (simp add: lookup_zmq_parameters_def done_ok_def)
  have stoi: "stoi ''0'' = Inr 0" "stoi ''2'' = Inr 2" by code_simp+
  have host: "ho_create sample_host = (\<lambda>_. True)" "ho_zmq_bind sample_host = (\<lambda>_. None)"
    "ho_pipe sample_host = True" by (simp_all add: sample_host_def)
  have cisco: "LoadThreads ?m [] ''socket_cisco'' ''replies_cisco'' ''cisco_workers''
      = Inr [''socket_cisco'', ''socket_cisco'']"
    by (simp add: LoadThreads_def m worker_limits_def stoi numeral_2_eq_2)
  have rest: "LoadThreads ?m [] ''socket_juniper'' ''replies_juniper'' ''juniper_workers'' = Inr []"
    "LoadThreads ?m [] ''socket_nokia'' ''replies_nokia'' ''nokia_workers'' = Inr []"
    "LoadThreads ?m [] ''socket_huawei'' ''replies_huawei'' ''huawei_workers'' = Inr []"
    by (simp_all add: LoadThreads_def m)
  show ?thesis
    unfolding run_daemon_def
    by (simp add: g Let_def m dm z host DumpCorePid_def ReloadLabelMaps_def cisco rest)
qed

theorem run_daemon_running_witness:
  "\<exists>d. run_daemon sample_host ''f'' boot = Inr (Running d) \<and>
     length (daemon_workers d) \<le> 20 \<and> two_fields (d_label_map d)"
proof -
  obtain d where d: "run_daemon sample_host ''f'' boot = Inr (Running d)" using sample_running by blast
  show ?thesis using d run_daemon_running [OF d] by blast
qed

section \<open>Worker limits\<close>

text \<open>On an accepted configuration \<open>LoadThreads\<close> never throws: a vendor without a socket gets
  no worker; one with a socket gets the configured number when the replies are a number from 0 to
  1000 and the workers one from 1 to 5, and ends the process otherwise. The message for the
  replies says that they start at 10.\<close>

theorem LoadThreads_result:
  assumes "lookup_main_parameters read_file fs_exists path = Inr (Some p)" and "v \<in> set vendors"
  shows "LoadThreads p ws (vk_socket v) (vk_replies v) (vk_workers v) =
    (if p (vk_socket v) = Some [] then Inr ws
     else case (stoi (the (p (vk_replies v))), stoi (the (p (vk_workers v)))) of
       (Inr r, Inr n) \<Rightarrow> if 0 \<le> r \<and> r \<le> 1000 \<and> 1 \<le> n \<and> n \<le> 5
                         then Inr (ws @ replicate (nat n) (vk_socket v)) else Inl (Exit 1)
     | _ \<Rightarrow> Inl (Exit 1))"
proof (cases "p (vk_socket v) = Some []")
  case True
  then show ?thesis by (simp add: LoadThreads_def)
next
  case False
  obtain a where a: "p (vk_socket v) = Some a" "a \<noteq> []"
    using socket_present [OF assms] False by auto
  obtain rs wk where l: "p (vk_replies v) = Some rs" "p (vk_workers v) = Some wk"
    using limits_present [OF assms False] by blast
  have throws: "\<exists>x. e = Throw x" if "stoi s = Inl e" for s e
    using that by (auto simp: stoi_def Let_def split: if_splits)
  show ?thesis
    using False a l throws [of rs] throws [of wk]
    by (auto simp: LoadThreads_def worker_limits_def split: sum.splits)
qed

theorem LoadThreads_result_witness:
  "\<exists>p. p ''cisco_workers'' = Some ''2'' \<and>
     LoadThreads p [] ''socket_cisco'' ''replies_cisco'' ''cisco_workers'' = Inr [''socket_cisco'', ''socket_cisco'']"
proof -
  obtain p where p: "lookup_main_parameters (ho_cfg sample_host) (ho_exists sample_host) ''f'' = Inr (Some p)"
    "p ''socket_cisco'' = Some ''0.0.0.0:10007''" "p ''cisco_workers'' = Some ''2''"
    "p ''replies_cisco'' = Some ''0''"
    using sample_host_main by blast
  have stoi: "stoi ''0'' = Inr 0" "stoi ''2'' = Inr 2" by code_simp+
  show ?thesis
    using LoadThreads_result [OF p(1), of "hd vendors" "[]"] p stoi
    by (intro exI [of _ p]) (simp add: vendors_def numeral_2_eq_2)
qed

section \<open>The service threads\<close>

lemma ReloadLabelMaps_again:
  "ReloadLabelMaps read_file dm_cfg lm = Inr lm' \<Longrightarrow> ReloadLabelMaps read_file dm_cfg lm' = Inr lm'"
proof -
  assume r: "ReloadLabelMaps read_file dm_cfg lm = Inr lm'"
  obtain v w m where k: "map_at dm_cfg ''enable_label_encode_as_map'' = Inr v"
      "map_at dm_cfg ''enable_label_encode_as_map_ptm'' = Inr w"
    and csv: "(if v = ''true'' then bindr (map_at dm_cfg ''label_map_csv_path'') (LoadLabelMap read_file)
      else Inr lm) = Inr m"
    and ptm: "(if w = ''true'' then bindr (map_at dm_cfg ''label_map_ptm_path'')
        (LoadLabelMapPreTagStyle read_file) else Inr m) = Inr lm'"
    using r by (auto simp only: ReloadLabelMaps_def bindr_eq_Inr)
  show ?thesis
    using csv ptm
    by (cases "v = ''true''"; cases "w = ''true''")
      (simp_all only: ReloadLabelMaps_def k bindr_Inr bindr_right if_True if_False sum.inject simp_thms)
qed

text \<open>The signal watcher: any number of SIGUSR1 reloads the label map to what one reload of the
  files gives, without stopping anything, and the first other signal shuts the daemon down with
  the label map as it is. A reload that fails ends the process before any later signal is seen.\<close>

theorem signal_watcher_result:
  "signal_watcher read_file dm_cfg sigs lm =
     (if sigs \<noteq> [] \<and> hd sigs = SIGUSR1
      then bindr (ReloadLabelMaps read_file dm_cfg lm) (\<lambda>lm. Inr (lm, list_ex (\<lambda>s. s \<noteq> SIGUSR1) sigs))
      else Inr (lm, sigs \<noteq> []))"
proof (induction sigs arbitrary: lm)
  case (Cons sig sigs)
  show ?case
  proof (cases "sig = SIGUSR1")
    case True
    show ?thesis
    proof (cases "ReloadLabelMaps read_file dm_cfg lm")
      case (Inl e)
      then show ?thesis using True by simp
    next
      case (Inr b)
      have "signal_watcher read_file dm_cfg sigs b = Inr (b, list_ex (\<lambda>s. s \<noteq> SIGUSR1) sigs)"
        using Cons.IH [of b] ReloadLabelMaps_again [OF Inr] by (cases sigs) (simp_all split: if_splits)
      then show ?thesis using True Inr by simp
    qed
  qed simp
qed simp

text \<open>What a blocking socket answers until its context is shut down: \<open>gives recv q n q'\<close> says that
  successive receives from \<open>q\<close> give \<open>n\<close> payloads, and perhaps empty messages between them, and
  lead to \<open>q'\<close>. After the shutdown every receive fails with \<open>ETERM\<close>, whether or not messages are
  left in the queue; the shutdown may come at any moment, so \<open>n\<close> is any number.\<close>

inductive gives :: "('q \<Rightarrow> 'q recv_result) \<Rightarrow> 'q \<Rightarrow> nat \<Rightarrow> 'q \<Rightarrow> bool"
  for recv :: "'q \<Rightarrow> 'q recv_result" where
  no_more: "gives recv q 0 q"
| payload: "recv q = Received p q1 \<Longrightarrow> gives recv q1 n q' \<Longrightarrow> gives recv q (Suc n) q'"
| empty_message: "recv q = Received_empty q1 \<Longrightarrow> gives recv q1 n q' \<Longrightarrow> gives recv q n q'"

context zmq_socket
begin

lemma poll_received:
  assumes "own h (inflight q)" and "holds h (inflight q) ms" and "recv q = Received p q'"
  shows "\<exists>m ms' h'. ms = m # ms' \<and> ZmqPoller eterm recv uri h q = Inr ([pull_line uri m], h', q') \<and>
    own h' (inflight q') \<and> holds h' (inflight q') ms'"
proof -
  have q: "inflight q = p # inflight q'" by (rule received [OF assms(3)])
  obtain m ms' where m: "ms = m # ms'" "read_payload p h = Inr m" "holds h (inflight q') ms'"
    using assms(2) by (auto simp: q holds_def list_all2_Cons1)
  obtain h2 where h2: "free_grpc_payload p h = Inr h2" "own h2 (remove1 p (p # inflight q'))"
    "\<forall>x\<in>set (p # inflight q') - {p}. read_payload x h2 = read_payload x h"
    using own_free [of h "p # inflight q'" p] assms(1) q by (metis list.set_intros(1))
  have "p \<notin> set (inflight q')" using own_parts(3) [OF assms(1)] by (simp add: q)
  then have "\<forall>x\<in>set (inflight q'). read_payload x h2 = read_payload x h" using h2(3) by auto
  then have "holds h2 (inflight q') ms'" using m(3) holds_cong by blast
  then show ?thesis using assms(3) m(1,2) h2(1,2) by (auto simp: ZmqPoller_def)
qed

lemma poller_run:
  assumes "gives recv q n q'" and "recv q' = Recv_error eterm" and "own h (inflight q)" and "holds h (inflight q) ms"
  shows "\<exists>h'. ZmqSingleThreadPoller eterm recv uri out h q =
      Some (Inr (out @ map (pull_line uri) (take n ms), h', q')) \<and> n \<le> length ms \<and>
      own h' (inflight q') \<and> holds h' (inflight q') (drop n ms)"
  using assms
proof (induction arbitrary: h ms out rule: gives.induct)
  case (no_more q)
  then show ?case
    by (subst ZmqSingleThreadPoller.simps) (simp add: ZmqPoller_def is_zmq_error_def)
next
  case (payload q p q1 n q')
  obtain m ms' h1 where s: "ms = m # ms'" "ZmqPoller eterm recv uri h q = Inr ([pull_line uri m], h1, q1)"
    "own h1 (inflight q1)" "holds h1 (inflight q1) ms'"
    using poll_received [OF payload(5,6,1)] by metis
  then show ?case
    using payload.IH [OF payload(4) s(3,4), of "out @ [pull_line uri m]"]
    by (subst ZmqSingleThreadPoller.simps) simp
next
  case (empty_message q q1 n q')
  have "own h (inflight q1)" "holds h (inflight q1) ms"
    using empty_message(5,6) received_empty [OF empty_message(1)] by simp_all
  then show ?case
    using empty_message.IH [OF empty_message(4), of h ms out] empty_message(1)
    by (subst ZmqSingleThreadPoller.simps) (simp add: ZmqPoller_def)
qed

end

text \<open>A bounded queue whose context is shut down after some number of receives.\<close>

definition cut_send :: "nat \<Rightarrow> nat \<times> addr list \<Rightarrow> addr \<Rightarrow> (nat \<times> addr list) send_result" where
  "cut_send hwm q p = (if length (snd q) < hwm then Sent (fst q, snd q @ [p]) else Send_again)"

definition cut_recv :: "int \<Rightarrow> nat \<times> addr list \<Rightarrow> (nat \<times> addr list) recv_result" where
  "cut_recv eterm q = (case q of (Suc n, p # ps) \<Rightarrow> Received p (n, ps) | _ \<Rightarrow> Recv_error eterm)"

interpretation cut: zmq_socket "cut_send hwm" "cut_recv eterm" snd
  by unfold_locales (auto simp: cut_send_def cut_recv_def split: if_splits list.splits nat.splits prod.splits)

text \<open>C31. The poller thread ends when its context is shut down: of the messages \<open>ms\<close> in its
  socket, it prints those it received before the shutdown, each once and in the order they were
  sent, and frees exactly their payloads; then it returns. The messages that the shutdown
  overtook are not printed; they are still in the socket with their payloads.\<close>

theorem ZmqSingleThreadPoller_ends:
  assumes "zmq_socket send recv inflight" and "own h (inflight q)" and "holds h (inflight q) ms"
    and "gives recv q n q'" and "recv q' = Recv_error eterm"
  shows "\<exists>h'. ZmqSingleThreadPoller eterm recv uri [] h q =
      Some (Inr (map (pull_line uri) (take n ms), h', q')) \<and> n \<le> length ms \<and>
      own h' (inflight q') \<and> holds h' (inflight q') (drop n ms)"
  using zmq_socket.poller_run [OF assms(1,4,5,2,3), of uri "[]"] by simp

theorem ZmqSingleThreadPoller_ends_witness:
  "\<exists>h p. (\<exists>h'. ZmqSingleThreadPoller 156384765 (cut_recv 156384765) ''u'' [] h (1, [p]) =
        Some (Inr ([pull_line ''u'' [[], [], [], [], [], ''ab'']], h', (0, []))) \<and> own h' []) \<and>
     (\<exists>h'. ZmqSingleThreadPoller 156384765 (cut_recv 156384765) ''u'' [] h (0, [p]) =
        Some (Inr ([], h', (0, [p]))) \<and> own h' [p])"
proof -
  obtain p h where i: "InitGrpcPayload (\<lambda>_. True) [] [] [] [] [] (''ab'' @ CHR 0x00 # ''cd'') empty_heap
      = Inr (p, h)"
    using init_sample_run by blast
  then have o: "own h [p]" and "read_payload p h = Inr [[], [], [], [], [], ''ab'']"
    using InitGrpcPayload_run [OF own_empty, of "\<lambda>_. True" "[]" "[]" "[]" "[]" "[]" "''ab'' @ CHR 0x00 # ''cd''"]
    by (auto simp: c_str_def)
  then have ms: "holds h [p] [[[], [], [], [], [], ''ab'']]" by (simp add: holds_def)
  have g: "gives (cut_recv e) (1, [p]) 1 (0, [])" "gives (cut_recv e) (0, [p]) 0 (0, [p])" for e
    using payload [of "cut_recv e" "(1, [p])" p "(0, [])" 0 "(0, [])"]
      no_more [of "cut_recv e" "(0, [])"] no_more [of "cut_recv e" "(0, [p])"] by (simp_all add: cut_recv_def)
  note ends = ZmqSingleThreadPoller_ends [OF cut.zmq_socket_axioms, where eterm = 156384765 and uri = "''u''"]
  have "\<exists>h'. ZmqSingleThreadPoller 156384765 (cut_recv 156384765) ''u'' [] h (1, [p]) =
        Some (Inr ([pull_line ''u'' [[], [], [], [], [], ''ab'']], h', (0, []))) \<and> own h' []"
    using ends [OF _ _ g(1), of h "[[[], [], [], [], [], ''ab'']]"] o ms by (simp add: cut_recv_def) blast
  moreover have "\<exists>h'. ZmqSingleThreadPoller 156384765 (cut_recv 156384765) ''u'' [] h (0, [p]) =
        Some (Inr ([], h', (0, [p]))) \<and> own h' [p]"
    using ends [OF _ _ g(2), of h "[[[], [], [], [], [], ''ab'']]"] o ms by (simp add: cut_recv_def) blast
  ultimately show ?thesis by blast
qed

section \<open>Limits of a running daemon\<close>

lemma lookup_main_writer:
  assumes "lookup_main_parameters rf fe path = Inr (Some p)"
  shows "\<exists>w. p ''writer_id'' = Some w"
proof -
  have "''writer_id'' \<in> main_keys" by (simp add: main_keys_def)
  then have "''writer_id'' \<in> dom p" unfolding lookup_main_contract(1) [OF assms] by (intro UnI1)
  then show ?thesis by blast
qed

lemma started_limits:
  assumes "LoadThreads cfg [] s r w = Inr ts" and "t \<in> set ts"
  shows "t = s \<and> (\<exists>rs k. cfg r = Some rs \<and> stoi rs = Inr k \<and> 0 \<le> k \<and> k \<le> 1000)"
  using assms by (elim LoadThreadsD) auto

lemma worker_replies:
  assumes "run_daemon H path g = Inr (Running d)" and "v \<in> set vendors"
    and "vk_socket v \<in> set (daemon_workers d)"
  shows "\<exists>rs k. main_cfg_parameters (g_cfg (d_globals d)) (vk_replies v) = Some rs \<and> stoi rs = Inr k \<and>
    0 \<le> k \<and> k \<le> 1000"
proof -
  note r = run_daemonD(5-8) [OF assms(1)]
  have "vk_socket v \<in> set (d_cisco d) \<or> vk_socket v \<in> set (d_juniper d) \<or>
      vk_socket v \<in> set (d_nokia d) \<or> vk_socket v \<in> set (d_huawei d)"
    using assms(3) by (auto simp: daemon_workers_def)
  then show ?thesis
    using started_limits [OF r(1)] started_limits [OF r(2)] started_limits [OF r(3)]
      started_limits [OF r(4)] assms(2)
    by (elim disjE) (fastforce simp: vendors_def)+
qed

end
