(* ===== verification/Label_Reload.thy ===== *)
theory Label_Reload
  imports Startup Core
begin

text \<open>
  Reloading the label map while messages are handled: \<open>ReloadLabelMaps\<close> of
  \<open>src/mdt_dialout_collector.cc\<close> on the signal watcher's thread, against the \<open>HandleMessage\<close>
  functions of \<open>src/core/mdt_dialout_core.cc\<close> on the workers' threads. The map is shared and is
  written in place, one entry at a time; \<open>label_map_mutex\<close> is held exclusively for the reload
  and shared for the whole of a \<open>HandleMessage\<close>. The relation \<open>reload_step\<close> interleaves
  the single writes, the locking and the handlers. The lemmas show that a reload is one step for
  the messages: each is labelled from the complete map of a finished reload, in order.
\<close>

section \<open>The writes of a reload\<close>

datatype map_op = Clear_map | Set_label string "string list"

fun apply_op :: "map_op \<Rightarrow> label_map \<Rightarrow> label_map" where
  "apply_op Clear_map lm = Map.empty"
| "apply_op (Set_label address v) lm = lm(address \<mapsto> v)"

text \<open>The writes of a loader, in order, and the error that ends it, if any.\<close>

type_synonym writes = "map_op list \<times> error option"

definition then_writes :: "writes \<Rightarrow> writes \<Rightarrow> writes" where
  "then_writes a b = (case snd a of None \<Rightarrow> (fst a @ fst b, snd b) | Some e \<Rightarrow> a)"

text \<open>The loop, with the vector \<open>vtmp\<close> that is shared by its rounds.\<close>

fun fill_writes :: "string list \<Rightarrow> string list \<Rightarrow> string list \<Rightarrow> string list \<Rightarrow> nat list \<Rightarrow> writes" where
  "fill_writes ipaddrs nid pid vtmp [] = ([], None)"
| "fill_writes ipaddrs nid pid vtmp (idx # idxs) =
     (case bindr (vec_index nid idx) (\<lambda>n. let vtmp = vtmp @ [n] in
           bindr (vec_index pid idx) (\<lambda>p. let vtmp = vtmp @ [p] in
           bindr (vec_index ipaddrs idx) (\<lambda>ip. Inr (Set_label ip vtmp, [])))) of
        Inl e \<Rightarrow> ([], Some e)
      | Inr (op, vtmp) \<Rightarrow> then_writes ([op], None) (fill_writes ipaddrs nid pid vtmp idxs))"

definition LoadLabelMap_writes :: "(string \<Rightarrow> string option) \<Rightarrow> string \<Rightarrow> writes" where
  "LoadLabelMap_writes read_file path =
     then_writes ([Clear_map], None)
       (case csv_columns read_file path of
          Inl e \<Rightarrow> ([], Some e)
        | Inr (ipaddrs, nid, pid) \<Rightarrow> fill_writes ipaddrs nid pid [] [0..<length ipaddrs])"

definition LoadLabelMapPreTagStyle_writes :: "(string \<Rightarrow> string option) \<Rightarrow> string \<Rightarrow> writes" where
  "LoadLabelMapPreTagStyle_writes read_file path =
     then_writes ([Clear_map], None)
       (case bindr (ptm_document read_file path) (\<lambda>(labels, ips).
               bindr (foldM (ptm_row labels ips) [0..<length ips] ([], [], [])) (\<lambda>cols. Inr (ips, cols))) of
          Inl e \<Rightarrow> ([], Some e)
        | Inr (ips, ipaddrs, nid, pid) \<Rightarrow> fill_writes ipaddrs nid pid [] [0..<length ips])"

definition when_enabled ::
  "(string \<rightharpoonup> string) \<Rightarrow> string \<Rightarrow> string \<Rightarrow> (string \<Rightarrow> writes) \<Rightarrow> writes" where
  "when_enabled dm_cfg switch key loader =
     (case bindr (map_at dm_cfg switch) (\<lambda>v.
             if v = ''true'' then bindr (map_at dm_cfg key) (\<lambda>path. Inr (Some path)) else Inr None) of
        Inl e \<Rightarrow> ([], Some e)
      | Inr None \<Rightarrow> ([], None)
      | Inr (Some path) \<Rightarrow> loader path)"

definition ReloadLabelMaps_writes ::
  "(string \<Rightarrow> string option) \<Rightarrow> (string \<rightharpoonup> string) \<Rightarrow> writes" where
  "ReloadLabelMaps_writes read_file dm_cfg =
     then_writes
       (when_enabled dm_cfg ''enable_label_encode_as_map'' ''label_map_csv_path''
          (LoadLabelMap_writes read_file))
       (when_enabled dm_cfg ''enable_label_encode_as_map_ptm'' ''label_map_ptm_path''
          (LoadLabelMapPreTagStyle_writes read_file))"

text \<open>Performing the writes gives what the functions of Label_Map give.\<close>

definition outcome :: "writes \<Rightarrow> label_map \<Rightarrow> label_map res" where
  "outcome ws lm = (case snd ws of None \<Rightarrow> Inr (fold apply_op (fst ws) lm) | Some e \<Rightarrow> Inl e)"

lemma outcome_simps [simp]:
  "outcome (ops, None) lm = Inr (fold apply_op ops lm)"
  "outcome (ops, Some e) lm = Inl e"
  by (simp_all add: outcome_def)

lemma outcome_then [simp]: "outcome (then_writes a b) lm = bindr (outcome a lm) (outcome b)"
  by (simp add: outcome_def then_writes_def split: option.splits)

lemma fill_writes_outcome:
  "outcome (fill_writes ipaddrs nid pid vtmp idxs) lm =
     bindr (foldM (fill_row ipaddrs nid pid) idxs (vtmp, lm)) (\<lambda>(vtmp, lm). Inr lm)"
  by (induction idxs arbitrary: vtmp lm) (auto simp: fill_row_def vec_index_def)

lemma LoadLabelMap_writes_outcome:
  "outcome (LoadLabelMap_writes read_file path) lm = LoadLabelMap read_file path"
  by (cases "csv_columns read_file path")
    (auto simp: LoadLabelMap_writes_def LoadLabelMap_def fill_label_map_def fill_writes_outcome)

lemma LoadLabelMapPreTagStyle_writes_outcome:
  "outcome (LoadLabelMapPreTagStyle_writes read_file path) lm = LoadLabelMapPreTagStyle read_file path"
proof -
  have "bindr (ptm_document read_file path) (\<lambda>(labels, ips). ptm_columns labels ips) =
    bindr (bindr (ptm_document read_file path) (\<lambda>(labels, ips).
      bindr (foldM (ptm_row labels ips) [0..<length ips] ([], [], [])) (\<lambda>cols. Inr (ips, cols))))
     (\<lambda>(ips, ipaddrs, nid, pid). fill_label_map (length ips) ipaddrs nid pid)"
    by (auto simp: bindr_assoc ptm_columns_def split_def intro!: bindr_cong)
  then show ?thesis
    by (auto simp: LoadLabelMapPreTagStyle_writes_def LoadLabelMapPreTagStyle_def fill_label_map_def
        fill_writes_outcome split: sum.splits prod.splits)
qed

lemma ReloadLabelMaps_writes_outcome:
  "outcome (ReloadLabelMaps_writes read_file dm_cfg) lm = ReloadLabelMaps read_file dm_cfg lm"
proof -
  have w: "outcome (when_enabled dm_cfg switch key load_writes) lm =
      bindr (map_at dm_cfg switch) (\<lambda>v. if v = ''true'' then bindr (map_at dm_cfg key) loader else Inr lm)"
    if "\<And>path lm. outcome (load_writes path) lm = loader path" for switch key load_writes loader lm
    using that by (cases "dm_cfg switch"; cases "dm_cfg key") (auto simp: when_enabled_def)
  show ?thesis
    by (auto simp: ReloadLabelMaps_writes_def ReloadLabelMaps_def bindr_assoc
        w [OF LoadLabelMap_writes_outcome] w [OF LoadLabelMapPreTagStyle_writes_outcome]
        intro!: bindr_cong)
qed

section \<open>Threads\<close>

text \<open>Where the signal watcher is: waiting at the pipe, waiting for the exclusive lock, writing
  with the lock held, or past the loop. \<open>Ended\<close> is the end of the process.\<close>

datatype watcher =
    Watching
  | Locking
  | Writing writes
  | Stopping
  | Ended error

text \<open>\<open>sh_inside\<close> are the workers in a \<open>HandleMessage\<close>, each with its message; they hold the lock
  shared. \<open>sh_world\<close> is what the context of a worker points to, with the shared map left out of
  account. \<open>sh_count\<close> counts the finished reloads and \<open>sh_handled\<close> lists what a worker has
  handled, each message with the map its handler used.\<close>

record ('m, 'p, 'q) shared =
  sh_map :: label_map
  sh_pipe :: "nat list"
  sh_watcher :: watcher
  sh_inside :: "nat \<rightharpoonup> 'm"
  sh_world :: "nat \<Rightarrow> ('p, 'q) objects"
  sh_count :: nat
  sh_handled :: "nat \<Rightarrow> ('m \<times> label_map) list"

definition alive :: "watcher \<Rightarrow> bool" where
  "alive w = (case w of Ended _ \<Rightarrow> False | _ \<Rightarrow> True)"

definition holds_exclusive :: "watcher \<Rightarrow> bool" where
  "holds_exclusive w = (case w of Writing _ \<Rightarrow> True | _ \<Rightarrow> False)"

text \<open>\<open>files k\<close> is the file system when reload \<open>k\<close> reads it. A handler sees the map through its
  context's pointer. A reload that fails ends the process, with the lock still held.\<close>

inductive reload_step ::
  "(nat \<Rightarrow> 'm \<Rightarrow> ('p, 'q) objects \<Rightarrow> ('p, 'q) objects res) \<Rightarrow> (nat \<Rightarrow> string \<Rightarrow> string option) \<Rightarrow>
   (string \<rightharpoonup> string) \<Rightarrow> ('m, 'p, 'q) shared \<Rightarrow> ('m, 'p, 'q) shared \<Rightarrow> bool"
  for handle files dm_cfg where
  signal: "alive (sh_watcher s) \<Longrightarrow> reload_step handle files dm_cfg s (s\<lparr>sh_pipe := sh_pipe s @ [sig]\<rparr>)"
| watch: "sh_watcher s = Watching \<Longrightarrow> sh_pipe s = sig # rest \<Longrightarrow>
    reload_step handle files dm_cfg s
      (s\<lparr>sh_pipe := rest, sh_watcher := (if sig = SIGUSR1 then Locking else Stopping)\<rparr>)"
| lock: "sh_watcher s = Locking \<Longrightarrow> sh_inside s = Map.empty \<Longrightarrow>
    reload_step handle files dm_cfg s
      (s\<lparr>sh_watcher := Writing (ReloadLabelMaps_writes (files (sh_count s)) dm_cfg)\<rparr>)"
| overwrite: "sh_watcher s = Writing (op # ops, e) \<Longrightarrow>
    reload_step handle files dm_cfg s
      (s\<lparr>sh_map := apply_op op (sh_map s), sh_watcher := Writing (ops, e)\<rparr>)"
| unlock: "sh_watcher s = Writing ([], None) \<Longrightarrow>
    reload_step handle files dm_cfg s (s\<lparr>sh_watcher := Watching, sh_count := Suc (sh_count s)\<rparr>)"
| fails: "sh_watcher s = Writing ([], Some e) \<Longrightarrow>
    reload_step handle files dm_cfg s (s\<lparr>sh_watcher := Ended e\<rparr>)"
| enter: "sh_inside s i = None \<Longrightarrow> alive (sh_watcher s) \<Longrightarrow> \<not> holds_exclusive (sh_watcher s) \<Longrightarrow>
    reload_step handle files dm_cfg s (s\<lparr>sh_inside := (sh_inside s)(i \<mapsto> m)\<rparr>)"
| leave: "sh_inside s i = Some m \<Longrightarrow> alive (sh_watcher s) \<Longrightarrow>
    handle i m ((sh_world s i)\<lparr>o_label_map := sh_map s\<rparr>) = Inr w \<Longrightarrow>
    reload_step handle files dm_cfg s
      (s\<lparr>sh_inside := (sh_inside s)(i := None), sh_world := (sh_world s)(i := w),
        sh_handled := (sh_handled s)(i := sh_handled s i @ [(m, sh_map s)])\<rparr>)"

definition all_started :: "label_map \<Rightarrow> (nat \<Rightarrow> ('p, 'q) objects) \<Rightarrow> ('m, 'p, 'q) shared" where
  "all_started lm w = \<lparr>sh_map = lm, sh_pipe = [], sh_watcher = Watching, sh_inside = Map.empty,
     sh_world = w, sh_count = 0, sh_handled = (\<lambda>_. [])\<rparr>"

text \<open>The map after a number of reloads, each in one step.\<close>

primrec reloaded ::
  "(nat \<Rightarrow> string \<Rightarrow> string option) \<Rightarrow> (string \<rightharpoonup> string) \<Rightarrow> label_map \<Rightarrow> nat \<Rightarrow> label_map res" where
  "reloaded files dm_cfg lm 0 = Inr lm"
| "reloaded files dm_cfg lm (Suc n) = bindr (reloaded files dm_cfg lm n) (ReloadLabelMaps (files n) dm_cfg)"

section \<open>A reload is one step\<close>

text \<open>Readers and the writer exclude each other, and the map is the one of the last finished
  reload except while the lock is held exclusively, when the writes still to come complete it.\<close>

fun watcher_ok :: "(nat \<Rightarrow> label_map res) \<Rightarrow> ('m, 'p, 'q) shared \<Rightarrow> watcher \<Rightarrow> bool" where
  "watcher_ok f s (Writing ws) = (sh_inside s = Map.empty \<and> outcome ws (sh_map s) = f (Suc (sh_count s)))"
| "watcher_ok f s (Ended e) = (f (Suc (sh_count s)) = Inl e)"
| "watcher_ok f s _ = (f (sh_count s) = Inr (sh_map s))"

text \<open>The messages a worker has handled, with their maps: the maps are those of finished reloads,
  in order, and the worker's objects are what handling them one after the other gives.\<close>

definition of_reloads :: "(nat \<Rightarrow> label_map res) \<Rightarrow> nat \<Rightarrow> label_map list \<Rightarrow> bool" where
  "of_reloads f n lms =
     (\<exists>ks. sorted ks \<and> (\<forall>k\<in>set ks. k \<le> n) \<and> map f ks = map Inr lms)"

definition reload_ok where
  "reload_ok handle f w0 s =
     (watcher_ok f s (sh_watcher s) \<and>
      (\<forall>i. of_reloads f (sh_count s) (map snd (sh_handled s i)) \<and>
           foldM (handle_with (handle i)) (sh_handled s i) (w0 i) = Inr (sh_world s i)))"

lemma of_reloads_Nil [simp]: "of_reloads f n []"
  by (auto simp: of_reloads_def intro: exI [of _ "[]"])

lemma of_reloads_Suc: "of_reloads f n lms \<Longrightarrow> of_reloads f (Suc n) lms"
  by (force simp: of_reloads_def)

lemma of_reloads_snoc:
  assumes "of_reloads f n lms" and "f n = Inr lm"
  shows "of_reloads f n (lms @ [lm])"
proof -
  obtain ks where "sorted ks" "\<forall>k\<in>set ks. k \<le> n" "map f ks = map Inr lms"
    using assms(1) by (auto simp: of_reloads_def)
  then show ?thesis
    using assms(2) unfolding of_reloads_def by (intro exI [of _ "ks @ [n]"]) (auto simp: sorted_append)
qed

lemma reload_ok_start: "reload_ok handle (reloaded files dm_cfg lm) w0 (all_started lm w0)"
  by (simp add: reload_ok_def all_started_def)

lemma reload_ok_step:
  assumes "reload_step handle files dm_cfg s s'"
    and "reload_ok handle (reloaded files dm_cfg lm) w0 s"
  shows "reload_ok handle (reloaded files dm_cfg lm) w0 s'"
  using assms(1)
proof cases
  case (signal sig)
  then show ?thesis using assms(2) by (cases "sh_watcher s") (auto simp: reload_ok_def)
next
  case (watch sig rest)
  then show ?thesis using assms(2) by (auto simp: reload_ok_def)
next
  case lock
  then show ?thesis using assms(2) by (auto simp: reload_ok_def ReloadLabelMaps_writes_outcome)
next
  case (overwrite op ops e)
  then show ?thesis using assms(2) by (cases e) (auto simp: reload_ok_def)
next
  case unlock
  then show ?thesis using assms(2) by (auto simp: reload_ok_def intro: of_reloads_Suc)
next
  case (fails e)
  then show ?thesis using assms(2) by (auto simp: reload_ok_def)
next
  case (enter i m)
  then show ?thesis using assms(2)
    by (cases "sh_watcher s") (auto simp: reload_ok_def holds_exclusive_def alive_def)
next
  case (leave i m w)
  let ?f = "reloaded files dm_cfg lm"
  have c: "?f (sh_count s) = Inr (sh_map s)"
    using leave assms(2) by (cases "sh_watcher s") (auto simp: reload_ok_def alive_def)
  have "of_reloads ?f (sh_count s) (map snd (sh_handled s i) @ [sh_map s])"
    using assms(2) c by (auto simp: reload_ok_def intro: of_reloads_snoc)
  moreover have "foldM (handle_with (handle i)) (sh_handled s i @ [(m, sh_map s)]) (w0 i) = Inr w"
    using assms(2) leave(4) by (simp add: reload_ok_def foldM_append handle_with_def)
  moreover have "watcher_ok ?f s' (sh_watcher s')"
    using leave assms(2) by (cases "sh_watcher s") (auto simp: reload_ok_def alive_def)
  ultimately show ?thesis using assms(2) leave(1) by (auto simp: reload_ok_def)
qed

lemma reload_ok_steps:
  assumes "(reload_step handle files dm_cfg)\<^sup>*\<^sup>* (all_started lm w0) s"
  shows "reload_ok handle (reloaded files dm_cfg lm) w0 s"
  using assms by (induction rule: rtranclp_induct) (auto intro: reload_ok_start reload_ok_step)

text \<open>While a worker is in a handler the map does not change.\<close>

lemma map_stable:
  assumes "reload_step handle files dm_cfg s s'" and "reload_ok handle f w0 s" and "sh_inside s i \<noteq> None"
  shows "sh_map s' = sh_map s"
  using assms by cases (auto simp: reload_ok_def)

text \<open>A signal watcher that waits for the lock looks at no signal before the handlers are done.\<close>

lemma locking_waits:
  assumes "reload_step handle files dm_cfg s s'" and "sh_watcher s = Locking" and "sh_inside s i \<noteq> None"
  shows "sh_watcher s' = Locking"
  using assms by cases auto

text \<open>A reload can finish: the steps from the signal to the unlock.\<close>

lemma write_out:
  "sh_watcher s = Writing (ops, None) \<Longrightarrow>
   (reload_step handle files dm_cfg)\<^sup>*\<^sup>* s
     (s\<lparr>sh_map := fold apply_op ops (sh_map s), sh_watcher := Writing ([], None)\<rparr>)"
proof (induction ops arbitrary: s)
  case Nil
  then have "s\<lparr>sh_watcher := Writing ([], None)\<rparr> = s" by (cases s) simp
  then show ?case by simp
next
  case (Cons op ops)
  let ?s = "s\<lparr>sh_map := apply_op op (sh_map s), sh_watcher := Writing (ops, None)\<rparr>"
  have "reload_step handle files dm_cfg s ?s" by (rule reload_step.overwrite [OF Cons.prems])
  moreover have "(reload_step handle files dm_cfg)\<^sup>*\<^sup>* ?s
      (?s\<lparr>sh_map := fold apply_op ops (sh_map ?s), sh_watcher := Writing ([], None)\<rparr>)"
    by (rule Cons.IH) simp
  ultimately show ?case by (simp add: converse_rtranclp_into_rtranclp)
qed

lemma reload_runs:
  assumes "sh_watcher s = Watching" and "sh_inside s = Map.empty"
    and "ReloadLabelMaps (files (sh_count s)) dm_cfg (sh_map s) = Inr lm"
  shows "(reload_step handle files dm_cfg)\<^sup>*\<^sup>* (s\<lparr>sh_pipe := SIGUSR1 # rest\<rparr>)
    (s\<lparr>sh_pipe := rest, sh_map := lm, sh_count := Suc (sh_count s)\<rparr>)"
proof -
  let ?R = "reload_step handle files dm_cfg" and ?s1 = "s\<lparr>sh_pipe := rest, sh_watcher := Locking\<rparr>"
  obtain ops where ops: "ReloadLabelMaps_writes (files (sh_count s)) dm_cfg = (ops, None)"
    "lm = fold apply_op ops (sh_map s)"
    using assms(3) ReloadLabelMaps_writes_outcome [of "files (sh_count s)" dm_cfg "sh_map s"]
    by (cases "ReloadLabelMaps_writes (files (sh_count s)) dm_cfg") (auto simp: outcome_def split: option.splits)
  let ?s2 = "s\<lparr>sh_pipe := rest, sh_watcher := Writing (ops, None)\<rparr>"
  let ?s3 = "s\<lparr>sh_pipe := rest, sh_map := lm, sh_watcher := Writing ([], None)\<rparr>"
  have "?R (s\<lparr>sh_pipe := SIGUSR1 # rest\<rparr>) ?s1"
    using reload_step.watch [of "s\<lparr>sh_pipe := SIGUSR1 # rest\<rparr>" SIGUSR1 rest handle files dm_cfg] assms(1) by simp
  moreover have "?R ?s1 ?s2"
    using reload_step.lock [of ?s1 handle files dm_cfg] assms(2) ops(1) by simp
  moreover have "?R\<^sup>*\<^sup>* ?s2 ?s3" using write_out [of ?s2 ops handle files dm_cfg] ops(2) by simp
  moreover have "?R ?s3 (s\<lparr>sh_pipe := rest, sh_map := lm, sh_count := Suc (sh_count s)\<rparr>)"
    using reload_step.unlock [of ?s3 handle files dm_cfg] assms(1) by (cases s) simp
  ultimately show ?thesis
    by (meson converse_rtranclp_into_rtranclp rtranclp.rtrancl_into_rtrancl)
qed

section \<open>A sample run\<close>

text \<open>The daemon starts with an empty map, reloads, and then a worker handles a message.\<close>

definition sample_handle where
  "sample_handle = (\<lambda>i :: nat. Cisco_HandleMessage sample_env sample_json (\<lambda>_. []) (sample_cisco_ctx Kafka))"

definition sample_start :: "(MdtDialoutArgs message, string ProducerRecord list, addr list) shared" where
  "sample_start = all_started Map.empty (\<lambda>_. sample_objects)"

definition sample_labels :: label_map where
  "sample_labels = [''10.0.0.1'' \<mapsto> [''n1'', ''p1''], ''10.0.0.2'' \<mapsto> [''n2'', ''p2'']]"

lemma sample_reload: "ReloadLabelMaps sample_fs sample_label_cfg lm = Inr sample_labels"
  by (simp add: ReloadLabelMaps_def LoadLabelMap_rows sample_label_cfg_def sample_fs_def
      sample_csv_rows Let_def fun_upd_twist sample_labels_def)

lemma sample_reload_run:
  "\<exists>s. (reload_step sample_handle (\<lambda>_. sample_fs) sample_label_cfg)\<^sup>*\<^sup>* sample_start s \<and>
     sh_handled s 0 = [(sample_message sample_cisco, sample_labels)]"
proof -
  let ?R = "reload_step sample_handle (\<lambda>_. sample_fs) sample_label_cfg"
  let ?m = "sample_message sample_cisco"
  let ?s1 = "sample_start\<lparr>sh_map := sample_labels, sh_count := 1\<rparr>"
  let ?s2 = "?s1\<lparr>sh_inside := [0 \<mapsto> ?m]\<rparr>"
  have 1: "?R sample_start (sample_start\<lparr>sh_pipe := [SIGUSR1]\<rparr>)"
    using reload_step.signal [of sample_start sample_handle "\<lambda>_. sample_fs" sample_label_cfg SIGUSR1]
    by (simp add: sample_start_def all_started_def alive_def)
  have 2: "?R\<^sup>*\<^sup>* (sample_start\<lparr>sh_pipe := [SIGUSR1]\<rparr>) ?s1"
    using reload_runs [of sample_start "\<lambda>_. sample_fs" sample_label_cfg sample_labels sample_handle "[]"]
      sample_reload by (simp add: sample_start_def all_started_def)
  have 3: "?R ?s1 ?s2"
    using reload_step.enter [of ?s1 0 sample_handle "\<lambda>_. sample_fs" sample_label_cfg ?m]
    by (simp add: sample_start_def all_started_def alive_def holds_exclusive_def)
  have l: "label_entry_ok sample_labels a" for a
    by (auto simp: label_entry_ok_def sample_labels_def)
  have "\<exists>w. sample_handle 0 ?m (sample_objects\<lparr>o_label_map := sample_labels\<rparr>) = Inr w"
    unfolding sample_handle_def
    by (rule cisco.kafka_returns [OF sample_env_ok(1) _ _ sample_peer _ sample_parse])
      (simp_all add: sample_request sample_cisco_payload sample_sel stoi_5678 sample_sends l)
  then obtain w where w: "sample_handle 0 ?m (sample_objects\<lparr>o_label_map := sample_labels\<rparr>) = Inr w"
    by blast
  have "\<exists>s. ?R ?s2 s \<and> sh_handled s 0 = [(?m, sample_labels)]"
    using reload_step.leave [of ?s2 0 ?m sample_handle w "\<lambda>_. sample_fs" sample_label_cfg] w
    by (auto simp: sample_start_def all_started_def alive_def)
  then show ?thesis using 1 2 3
    by (meson converse_rtranclp_into_rtranclp rtranclp.rtrancl_into_rtrancl)
qed

section \<open>Properties\<close>

text \<open>C5. Reloading is atomic for the messages, although the map is cleared and refilled in place:
  however reloads, signals and the handlers of all workers interleave, each message a worker has
  handled was handled with the complete map of a finished reload (or of the start), the reloads
  in order, with the same result as if the map had been replaced between two messages, and the
  map does not change while a worker is in a handler.\<close>

theorem messages_see_whole_maps:
  assumes "(reload_step handle files dm_cfg)\<^sup>*\<^sup>* (all_started lm w) s"
  shows "of_reloads (reloaded files dm_cfg lm) (sh_count s) (map snd (sh_handled s i)) \<and>
    foldM (handle_with (handle i)) (sh_handled s i) (w i) = Inr (sh_world s i) \<and>
    (\<forall>s'. sh_inside s i \<noteq> None \<and> reload_step handle files dm_cfg s s' \<longrightarrow> sh_map s' = sh_map s)"
  using reload_ok_steps [OF assms] map_stable by (fastforce simp: reload_ok_def)

theorem messages_see_whole_maps_witness:
  "\<exists>s. (reload_step sample_handle (\<lambda>_. sample_fs) sample_label_cfg)\<^sup>*\<^sup>* sample_start s \<and>
     sh_handled s 0 = [(sample_message sample_cisco, sample_labels)] \<and>
     of_reloads (reloaded (\<lambda>_. sample_fs) sample_label_cfg Map.empty) (sh_count s) [sample_labels]"
proof -
  obtain s where s: "(reload_step sample_handle (\<lambda>_. sample_fs) sample_label_cfg)\<^sup>*\<^sup>* sample_start s"
    "sh_handled s 0 = [(sample_message sample_cisco, sample_labels)]"
    using sample_reload_run by blast
  have "of_reloads (reloaded (\<lambda>_. sample_fs) sample_label_cfg Map.empty) (sh_count s)
      (map snd (sh_handled s 0))"
    using messages_see_whole_maps [OF s(1) [unfolded sample_start_def]] by blast
  then show ?thesis using s by auto
qed

text \<open>C6. What a worker in Kafka mode publishes while the label map is reloaded under it: one record
  per message with a body, in order and consecutively numbered, the label of each taken from the
  map of one finished reload, and from no earlier reload than the record before. This holds for
  the handler of any vendor.\<close>

theorem reloads_label_records:
  assumes "(reload_step handle files dm_cfg)\<^sup>*\<^sup>* (all_started lm w) s"
    and "vendor_stream (handle i) E ctx payload"
    and "json_lib (e_json E)" and "prints (e_json E)" and "cx_delivery ctx = Kafka"
    and "o_kafka_producer (w i) = Some p"
  shows "\<exists>rs p'. o_kafka_producer (sh_world s i) = Some p' \<and> sends (e_send E) rs p = Inr p' \<and>
    labelled_published E ctx (o_kafka_delivery (w i))
      (dm_sequence_number (o_data_manipulation (w i))) (labelled_bodies payload (sh_handled s i)) rs \<and>
    of_reloads (reloaded files dm_cfg lm) (sh_count s) (map snd (sh_handled s i))"
proof -
  have "of_reloads (reloaded files dm_cfg lm) (sh_count s) (map snd (sh_handled s i))"
    and "foldM (handle_with (handle i)) (sh_handled s i) (w i) = Inr (sh_world s i)"
    using reload_ok_steps [OF assms(1)] by (auto simp: reload_ok_def)
  then show ?thesis using vendor_stream.publishes_with [OF assms(2-5) _ assms(6)] by blast
qed

theorem reloads_label_records_witness:
  "\<exists>s r. (reload_step sample_handle (\<lambda>_. sample_fs) sample_label_cfg)\<^sup>*\<^sup>* sample_start s \<and>
     published sample_env (sample_cisco_ctx Kafka) sample_labels sample_kd 1
       (sample_message sample_cisco, ''{}'') r"
proof -
  obtain s where s: "(reload_step sample_handle (\<lambda>_. sample_fs) sample_label_cfg)\<^sup>*\<^sup>* sample_start s"
    "sh_handled s 0 = [(sample_message sample_cisco, sample_labels)]"
    using sample_reload_run by blast
  have v: "vendor_stream (sample_handle 0) sample_env (sample_cisco_ctx Kafka)
      (cisco_payload sample_env sample_json (\<lambda>_. []) (sample_cisco_ctx Kafka))"
    unfolding sample_handle_def by (rule cisco.vendor_stream_axioms)
  obtain rs where "labelled_published sample_env (sample_cisco_ctx Kafka) sample_kd 0
      [((sample_message sample_cisco, ''{}''), sample_labels)] rs"
    using reloads_label_records [OF s(1) [unfolded sample_start_def] v sample_env_ok(1,2), of "[]"] s(2)
    by (auto simp: sample_sel sample_objects_def labelled_bodies_def bodies_def sample_request
        sample_cisco_payload new_DataManipulation_def)
  then show ?thesis using s(1) by (auto simp: labelled_published_def)
qed

end
