(* ===== verification/Bridge.thy ===== *)
theory Bridge
  imports Startup
begin

text \<open>
  \<open>src/bridge/grpc_collector_bridge.{h,cc}\<close>, the C interface a host process (pmacct) embeds the
  collector with: the options it reads back, starting and stopping. The payload functions of
  the same file are in theory Zmq_Delivery. \<open>Options\<close> is a block of pointers on the
  heap of theory Zmq_Delivery; a failed \<open>pthread_create\<close> is a thread number for which \<open>create\<close>
  does not hold.
\<close>

section \<open>Options\<close>

record Options =
  op_writer_id :: addr
  op_iface :: addr
  op_ipv4_socket_cisco :: addr
  op_ipv4_socket_juniper :: addr
  op_ipv4_socket_nokia :: addr
  op_ipv4_socket_huawei :: addr
  op_cisco_workers :: addr
  op_juniper_workers :: addr
  op_nokia_workers :: addr
  op_huawei_workers :: addr
  op_replies_cisco :: addr
  op_replies_juniper :: addr
  op_replies_nokia :: addr
  op_replies_huawei :: addr
  op_syslog :: addr
  op_syslog_facility :: addr
  op_syslog_ident :: addr
  op_console_log :: addr
  op_spdlog_level :: addr
  op_enable_cisco_gpbkv2json :: addr
  op_enable_cisco_message_to_json_string :: addr
  op_enable_label_encode_as_map :: addr
  op_enable_label_encode_as_map_ptm :: addr

text \<open>The heap with the blocks of type \<open>Options\<close>; their addresses are counted separately.\<close>

record options_heap =
  oh_heap :: heap
  oh_next :: addr
  oh_opts :: "addr \<rightharpoonup> Options"

text \<open>The keys in the order they are read, from the three maps.\<close>

definition main_option_keys :: "string list" where
  "main_option_keys =
     [''writer_id'', ''iface'', ''socket_cisco'', ''socket_juniper'', ''socket_nokia'', ''socket_huawei'',
      ''cisco_workers'', ''juniper_workers'', ''nokia_workers'', ''huawei_workers'',
      ''replies_cisco'', ''replies_juniper'', ''replies_nokia'', ''replies_huawei'']"

definition logs_option_keys :: "string list" where
  "logs_option_keys = [''syslog'', ''syslog_facility'', ''syslog_ident'', ''console_log'', ''spdlog_level'']"

definition dm_option_keys :: "string list" where
  "dm_option_keys = [''enable_cisco_gpbkv2json'', ''enable_cisco_message_to_json_string'',
     ''enable_label_encode_as_map'', ''enable_label_encode_as_map_ptm'']"

definition option_values :: "globals \<Rightarrow> string list res" where
  "option_values g =
     bindr (mapM (map_at (main_cfg_parameters (g_cfg g))) main_option_keys) (\<lambda>ms.
     bindr (mapM (map_at (logs_cfg_parameters g)) logs_option_keys) (\<lambda>ls.
     bindr (mapM (map_at (data_manipulation_cfg_parameters (g_cfg g))) dm_option_keys) (\<lambda>ds.
       Inr (ms @ ls @ ds))))"

definition options_of :: "addr list \<Rightarrow> Options" where
  "options_of as = \<lparr>op_writer_id = as ! 0, op_iface = as ! 1, op_ipv4_socket_cisco = as ! 2,
     op_ipv4_socket_juniper = as ! 3, op_ipv4_socket_nokia = as ! 4, op_ipv4_socket_huawei = as ! 5,
     op_cisco_workers = as ! 6, op_juniper_workers = as ! 7, op_nokia_workers = as ! 8,
     op_huawei_workers = as ! 9, op_replies_cisco = as ! 10, op_replies_juniper = as ! 11,
     op_replies_nokia = as ! 12, op_replies_huawei = as ! 13, op_syslog = as ! 14,
     op_syslog_facility = as ! 15, op_syslog_ident = as ! 16, op_console_log = as ! 17,
     op_spdlog_level = as ! 18, op_enable_cisco_gpbkv2json = as ! 19,
     op_enable_cisco_message_to_json_string = as ! 20, op_enable_label_encode_as_map = as ! 21,
     op_enable_label_encode_as_map_ptm = as ! 22\<rparr>"

text \<open>\<open>strndup(s.c_str(), s.size())\<close> stops at a NUL. The block returned by \<open>malloc\<close> is written
  without a check: when it is null that is undefined. The duplicates are made in the order of
  the keys, so a missing key throws after earlier ones were allocated, and those are lost.\<close>

definition InitOptions ::
  "bool \<Rightarrow> (addr \<Rightarrow> bool) \<Rightarrow> globals \<Rightarrow> options_heap \<Rightarrow> (addr \<times> options_heap) res" where
  "InitOptions malloc_ok avail g oh =
     bindr (map_at (main_cfg_parameters (g_cfg g)) ''writer_id'') (\<lambda>_.
     if \<not> malloc_ok then Inl (Undefined Null_dereference)
     else bindr (option_values g) (\<lambda>vs.
       let (as, h) = strndups avail (map c_str vs) (oh_heap oh); p = oh_next oh
       in Inr (p, \<lparr>oh_heap = h, oh_next = Suc p, oh_opts = (oh_opts oh)(p \<mapsto> options_of as)\<rparr>)))"

definition option_fields :: "Options \<Rightarrow> addr list" where
  "option_fields o1 = [op_writer_id o1, op_iface o1, op_ipv4_socket_cisco o1, op_ipv4_socket_juniper o1,
     op_ipv4_socket_nokia o1, op_ipv4_socket_huawei o1, op_cisco_workers o1, op_juniper_workers o1,
     op_nokia_workers o1, op_huawei_workers o1, op_replies_cisco o1, op_replies_juniper o1,
     op_replies_nokia o1, op_replies_huawei o1, op_syslog o1, op_syslog_facility o1, op_syslog_ident o1,
     op_console_log o1, op_spdlog_level o1, op_enable_cisco_gpbkv2json o1,
     op_enable_cisco_message_to_json_string o1, op_enable_label_encode_as_map o1,
     op_enable_label_encode_as_map_ptm o1]"

definition FreeOptions :: "addr \<Rightarrow> options_heap \<Rightarrow> options_heap res" where
  "FreeOptions p oh =
     (case oh_opts oh p of
        None \<Rightarrow> Inl (Undefined Use_after_free)
      | Some opts \<Rightarrow> bindr (foldM free_str (option_fields opts) (oh_heap oh)) (\<lambda>h.
          Inr (oh\<lparr>oh_heap := h, oh_opts := (oh_opts oh)(p := None)\<rparr>)))"

section \<open>Starting and stopping\<close>

record bridge =
  b_globals :: globals
  b_next :: nat
  g_active_workers :: "(nat \<times> string) list"

definition MAX_WORKERS :: nat where
  "MAX_WORKERS = 5"

definition LoadOptions :: "host \<Rightarrow> string \<Rightarrow> string \<Rightarrow> globals \<Rightarrow> (int \<times> globals) res" where
  "LoadOptions H cfg_path zmq_uri g =
     bindr (load_configuration H (c_str cfg_path) (c_str zmq_uri) g) (\<lambda>(ok, g).
       Inr (if ok then 1 else 0, g))"

text \<open>One round of the thread loop: the handle goes into the array and, when the thread was
  created, into the list of active workers. A worker is its thread number and its socket key.\<close>

definition start_worker ::
  "(nat \<Rightarrow> bool) \<Rightarrow> string \<Rightarrow> nat \<Rightarrow> nat list \<times> bridge \<Rightarrow> (nat list \<times> bridge) res" where
  "start_worker create socket_str w = (\<lambda>(workers_vec, b).
     if w \<ge> length workers_vec then Inl (Undefined Index_out_of_bounds)
     else let t = b_next b; b = b\<lparr>b_next := Suc t\<rparr>
          in if \<not> create t then Inr (workers_vec, b)
             else Inr (workers_vec[w := t],
                       b\<lparr>g_active_workers := g_active_workers b @ [(t, socket_str)]\<rparr>))"

text \<open>Unlike the daemon's, a vendor whose limits are not acceptable is skipped.\<close>

definition bridge_LoadThreads ::
  "(nat \<Rightarrow> bool) \<Rightarrow> nat list \<Rightarrow> string \<Rightarrow> string \<Rightarrow> string \<Rightarrow> bridge \<Rightarrow> (nat list \<times> bridge) res" where
  "bridge_LoadThreads create workers_vec socket_str replies_str workers_str b =
     (let main_cfg = main_cfg_parameters (g_cfg (b_globals b)) in
      bindr (map_at main_cfg socket_str) (\<lambda>socket.
        if socket = [] then Inr (workers_vec, b)
        else case worker_limits main_cfg replies_str workers_str of
          Inl e \<Rightarrow> (case e of Throw _ \<Rightarrow> Inr (workers_vec, b) | _ \<Rightarrow> Inl e)
        | Inr (n_replies, n_workers) \<Rightarrow>
            if n_replies < 0 \<or> n_replies > 1000 then Inr (workers_vec, b)
            else if n_workers < 1 \<or> n_workers > 5 then Inr (workers_vec, b)
            else foldM (start_worker create socket_str) [0..<nat n_workers] (workers_vec, b)))"

text \<open>A thread runs \<open>VendorThread\<close>; \<open>strstr\<close> on its argument decides the vendor as \<open>find\<close> does
  in the daemon's.\<close>

definition bridge_VendorThread where
  "bridge_VendorThread read_file main_cfg fsm i socket_str g =
     bindr (map_at main_cfg socket_str) (\<lambda>srv_socket.
       if contains socket_str ''cisco'' then
         bindr (CiscoBind read_file main_cfg (fsm Cisco) i srv_socket new_Srv g) (\<lambda>(_, g). Inr g)
       else if contains socket_str ''juniper'' then
         bindr (JuniperBind read_file main_cfg (fsm Juniper) i srv_socket new_Srv g) (\<lambda>(_, g). Inr g)
       else if contains socket_str ''nokia'' then
         bindr (NokiaBind read_file main_cfg (fsm Nokia) i srv_socket new_Srv g) (\<lambda>(_, g). Inr g)
       else if contains socket_str ''huawei'' then
         bindr (HuaweiBind read_file main_cfg (fsm Huawei) i srv_socket new_Srv g) (\<lambda>(_, g). Inr g)
       else Inr g)"

definition start_grpc_dialout_collector ::
  "host \<Rightarrow> (nat \<Rightarrow> bool) \<Rightarrow> string \<Rightarrow> string \<Rightarrow> bridge \<Rightarrow> bridge res" where
  "start_grpc_dialout_collector H create cfg_path zmq_uri b =
     bindr (LoadOptions H cfg_path zmq_uri (b_globals b)) (\<lambda>(r, g).
     let b = b\<lparr>b_globals := g\<rparr> in
     if r = 0 then bindr (use_logger ''multi-logger'' g) (\<lambda>_. Inr b)
     else
     bindr (mapM (map_at (main_cfg_parameters (g_cfg g)))
              [''socket_cisco'', ''socket_juniper'', ''socket_nokia'', ''socket_huawei'']) (\<lambda>sockets.
     if list_all (\<lambda>s. s = []) sockets then Inr b
     else
     let new_vec = replicate MAX_WORKERS 0 in
     bindr (bridge_LoadThreads create new_vec ''socket_cisco'' ''replies_cisco'' ''cisco_workers'' b) (\<lambda>(_, b).
     bindr (bridge_LoadThreads create new_vec ''socket_juniper'' ''replies_juniper'' ''juniper_workers'' b) (\<lambda>(_, b).
     bindr (bridge_LoadThreads create new_vec ''socket_nokia'' ''replies_nokia'' ''nokia_workers'' b) (\<lambda>(_, b).
     bindr (bridge_LoadThreads create new_vec ''socket_huawei'' ''replies_huawei'' ''huawei_workers'' b) (\<lambda>(_, b).
       Inr b))))))"

text \<open>The result, the servers after the shutdown, the threads joined in order, the bridge.\<close>

definition stop_grpc_dialout_collector ::
  "nat list \<Rightarrow> (nat \<Rightarrow> Srv) \<Rightarrow> bridge \<Rightarrow> int \<times> (nat \<Rightarrow> Srv) \<times> nat list \<times> bridge" where
  "stop_grpc_dialout_collector g_servers srvs b =
     (let srvs = initiate_shutdown g_servers srvs;
          snapshot = g_active_workers b;
          b = b\<lparr>g_active_workers := []\<rparr>
      in (1, srvs, map fst snapshot, b))"

section \<open>Options are released whole\<close>

lemma option_fields_of: "length as = 23 \<Longrightarrow> option_fields (options_of as) = as"
  by (rule nth_equalityI) (auto simp: option_fields_def options_of_def less_Suc_eq eval_nat_numeral)

lemma option_values_length: "option_values g = Inr vs \<Longrightarrow> length vs = 23"
  by (auto simp: option_values_def bindr_eq_Inr main_option_keys_def logs_option_keys_def
      dm_option_keys_def dest!: mapM_length)

text \<open>Freeing distinct live strings, nulls among them, removes exactly these.\<close>

lemma free_all:
  assumes "\<forall>a \<in> set as. a = 0 \<or> a \<in> dom (h_str h)" and "distinct (filter (\<lambda>a. a \<noteq> 0) as)"
    and "h_str h 0 = None"
  shows "foldM free_str as h = Inr (h\<lparr>h_str := h_str h |` (- set as)\<rparr>)"
  using assms
proof (induction as arbitrary: h)
  case Nil
  then show ?case by (simp add: restrict_map_def)
next
  case (Cons a as)
  show ?case
  proof (cases "a = 0")
    case True
    have "h_str h |` (- insert 0 (set as)) = h_str h |` (- set as)"
      using Cons.prems(3) by (auto simp: restrict_map_def fun_eq_iff)
    moreover have "free_str a h = Inr h" using True by (simp add: free_str_def)
    ultimately show ?thesis using True Cons by simp
  next
    case False
    then obtain s where s: "h_str h a = Some s" using Cons.prems(1) by auto
    let ?h = "h\<lparr>h_str := (h_str h)(a := None)\<rparr>"
    have "foldM free_str as ?h = Inr (?h\<lparr>h_str := h_str ?h |` (- set as)\<rparr>)"
      using Cons.prems False by (intro Cons.IH) auto
    moreover have "h_str ?h |` (- set as) = h_str h |` (- set (a # as))"
      by (auto simp: restrict_map_def fun_eq_iff)
    moreover have "free_str a h = Inr ?h" using s False by (simp add: free_str_def)
    ultimately show ?thesis by simp
  qed
qed

lemma InitOptions_Inr:
  assumes "InitOptions m avail g oh = Inr (p, oh')"
  obtains vs as h where "option_values g = Inr vs" "strndups avail (map c_str vs) (oh_heap oh) = (as, h)"
    "p = oh_next oh" "oh' = \<lparr>oh_heap = h, oh_next = Suc p, oh_opts = (oh_opts oh)(p \<mapsto> options_of as)\<rparr>"
proof -
  obtain vs where vs: "option_values g = Inr vs"
    and r: "(let (as, h) = strndups avail (map c_str vs) (oh_heap oh); p = oh_next oh
       in Inr (p, \<lparr>oh_heap = h, oh_next = Suc p, oh_opts = (oh_opts oh)(p \<mapsto> options_of as)\<rparr>))
      = (Inr (p, oh') :: (addr \<times> options_heap) res)"
    using assms by (auto simp only: InitOptions_def bindr_eq_Inr split: if_splits)
  obtain as h where as: "strndups avail (map c_str vs) (oh_heap oh) = (as, h)" by fastforce
  have "p = oh_next oh"
    "oh' = \<lparr>oh_heap = h, oh_next = Suc p, oh_opts = (oh_opts oh)(p \<mapsto> options_of as)\<rparr>"
    using r by (auto simp: as Let_def)
  then show thesis by (rule that [OF vs as])
qed

text \<open>C21. The options are handed out and released whole: each field of the block is null or a
  fresh copy of the configured value up to its first NUL, and \<open>FreeOptions\<close> on that block frees
  every string once and the block, leaving the heap as it was before \<open>InitOptions\<close>.\<close>

theorem FreeOptions_InitOptions:
  assumes "str_heap_ok (oh_heap oh)" and "oh_opts oh (oh_next oh) = None"
    and "InitOptions m avail g oh = Inr (p, oh')"
  shows "\<exists>vs opts oh''. option_values g = Inr vs \<and> oh_opts oh' p = Some opts \<and>
    list_all2 (\<lambda>v a. a = 0 \<or> (a \<notin> dom (h_str (oh_heap oh)) \<and> h_str (oh_heap oh') a = Some (c_str v)))
      vs (option_fields opts) \<and>
    FreeOptions p oh' = Inr oh'' \<and> h_str (oh_heap oh'') = h_str (oh_heap oh) \<and> oh_opts oh'' = oh_opts oh"
proof -
  obtain vs as h where v: "option_values g = Inr vs" "strndups avail (map c_str vs) (oh_heap oh) = (as, h)"
    "p = oh_next oh" "oh' = \<lparr>oh_heap = h, oh_next = Suc p, oh_opts = (oh_opts oh)(p \<mapsto> options_of as)\<rparr>"
    by (rule InitOptions_Inr [OF assms(3)])
  note s = strndups_ok [OF v(2) assms(1)]
  have len: "length as = 23" using s(1) option_values_length [OF v(1)] by simp
  have old: "a \<notin> set as" if "a \<in> dom (h_str (oh_heap oh))" for a
  proof -
    have "a \<noteq> 0" "a < h_next (oh_heap oh)"
      using that assms(1) by (auto simp: str_heap_ok_def domIff intro: ccontr)
    then show ?thesis using s(8) by auto
  qed
  have fields: "list_all2 (\<lambda>v a. a = 0 \<or> (a \<notin> dom (h_str (oh_heap oh)) \<and> h_str h a = Some (c_str v))) vs as"
    unfolding list_all2_conv_all_nth
  proof (intro conjI allI impI)
    show "length vs = length as" using s(1) by simp
    fix i assume "i < length vs"
    then have "as ! i = 0 \<or> h_str h (as ! i) = Some (c_str (vs ! i))" and "as ! i \<in> set as"
      using s(1) list_all2_nthD [OF s(9), of i] by simp_all
    then show "as ! i = 0 \<or> as ! i \<notin> dom (h_str (oh_heap oh)) \<and> h_str h (as ! i) = Some (c_str (vs ! i))"
      using old by blast
  qed
  have "foldM free_str as h = Inr (h\<lparr>h_str := h_str h |` (- set as)\<rparr>)"
    using s(4,5,7) by (intro free_all) (auto simp: str_heap_ok_def)
  moreover have "h_str h |` (- set as) = h_str (oh_heap oh)"
  proof
    fix a
    show "(h_str h |` (- set as)) a = h_str (oh_heap oh) a"
      using s(5,6) old by (cases "a \<in> dom (h_str (oh_heap oh))") (auto simp: restrict_map_def domIff)
  qed
  ultimately show ?thesis
    using v fields assms(2) by (simp add: FreeOptions_def option_fields_of [OF len] fun_upd_idem)
qed

section \<open>What the host can read back\<close>

lemma mapM_map_at: "(\<exists>vs. mapM (map_at m) ks = Inr vs) \<longleftrightarrow> set ks \<subseteq> dom m"
  by (induction ks) (auto simp: bindr_eq_Inr domIff)

lemma mapM_map_at_fails: "mapM (map_at m) ks = Inl e \<Longrightarrow> e = Throw Out_of_range"
  by (induction ks) (auto simp: bindr_eq_Inl)

lemma option_values_fails: "option_values g = Inl e \<Longrightarrow> e = Throw Out_of_range"
  by (auto simp: option_values_def bindr_eq_Inl dest: mapM_map_at_fails)

lemma logs_options_present:
  "lookup_logs_parameters rf path = Inr (Some p) \<Longrightarrow> set logs_option_keys \<subseteq> dom p"
  using logs_keys_present [of rf path p] by (auto simp: logs_option_keys_def)

lemma dm_options_present:
  "lookup_data_manipulation_parameters rf fe path = Inr (Some p) \<Longrightarrow> set dm_option_keys \<subseteq> dom p"
  using lookup_data_manipulation_contract [of rf fe path p] by (auto simp: dm_option_keys_def)

lemma limit_keys_simps:
  "limit_keys p [] = {}"
  "limit_keys p (v # vs) = (if p (vk_socket v) = Some [] then {} else {vk_replies v, vk_workers v}) \<union> limit_keys p vs"
  by (auto simp: limit_keys_def)

lemma vendor_limit_keys:
  "''replies_cisco'' \<in> limit_keys p vendors \<longleftrightarrow> p ''socket_cisco'' \<noteq> Some []"
  "''cisco_workers'' \<in> limit_keys p vendors \<longleftrightarrow> p ''socket_cisco'' \<noteq> Some []"
  "''replies_juniper'' \<in> limit_keys p vendors \<longleftrightarrow> p ''socket_juniper'' \<noteq> Some []"
  "''juniper_workers'' \<in> limit_keys p vendors \<longleftrightarrow> p ''socket_juniper'' \<noteq> Some []"
  "''replies_nokia'' \<in> limit_keys p vendors \<longleftrightarrow> p ''socket_nokia'' \<noteq> Some []"
  "''nokia_workers'' \<in> limit_keys p vendors \<longleftrightarrow> p ''socket_nokia'' \<noteq> Some []"
  "''replies_huawei'' \<in> limit_keys p vendors \<longleftrightarrow> p ''socket_huawei'' \<noteq> Some []"
  "''huawei_workers'' \<in> limit_keys p vendors \<longleftrightarrow> p ''socket_huawei'' \<noteq> Some []"
  by (simp_all add: limit_keys_simps vendors_def)

lemma main_options_present:
  assumes "lookup_main_parameters rf fe path = Inr (Some p)"
  shows "set main_option_keys \<subseteq> dom p \<longleftrightarrow> list_all (\<lambda>v. p (vk_socket v) \<noteq> Some []) vendors"
proof -
  have d: "dom p = main_keys \<union> vk_socket ` set vendors \<union> limit_keys p vendors"
    by (rule lookup_main_contract(1) [OF assms])
  have k: "k \<in> dom p \<longleftrightarrow> k \<in> limit_keys p vendors"
    if "k \<notin> main_keys" "k \<notin> vk_socket ` set vendors" for k
    using that d by blast
  have "set main_option_keys \<subseteq> dom p \<longleftrightarrow>
      {''cisco_workers'', ''juniper_workers'', ''nokia_workers'', ''huawei_workers'',
       ''replies_cisco'', ''replies_juniper'', ''replies_nokia'', ''replies_huawei''} \<subseteq> limit_keys p vendors"
    unfolding main_option_keys_def d by (auto simp: main_keys_def vendors_def)
  also have "\<dots> \<longleftrightarrow> list_all (\<lambda>v. p (vk_socket v) \<noteq> Some []) vendors"
    by (simp add: vendor_limit_keys) (auto simp: vendors_def)
  finally show ?thesis .
qed

lemma LoadOptionsD:
  "LoadOptions H path uri g = Inr (1, g') \<Longrightarrow> load_configuration H (c_str path) (c_str uri) g = Inr (True, g')"
  by (auto simp: LoadOptions_def bindr_eq_Inr split: if_splits)

text \<open>After a successful \<open>LoadOptions\<close> the options can be read back exactly when every one of the
  four vendors has a socket; with any vendor left out, as the documentation allows, the limits
  of that vendor are not in the configuration and \<open>InitOptions\<close> throws \<open>std::out_of_range\<close>.\<close>

theorem InitOptions_needs_all_vendors:
  assumes "LoadOptions H path uri g = Inr (1, g')"
  shows "(if list_all (\<lambda>v. main_cfg_parameters (g_cfg g') (vk_socket v) \<noteq> Some []) vendors
          then \<exists>p oh'. InitOptions True avail g' oh = Inr (p, oh')
          else InitOptions True avail g' oh = Inl (Throw Out_of_range))"
proof -
  note l = load_configurationD [OF LoadOptionsD [OF assms]]
  have "option_values g' = Inl (Throw Out_of_range) \<or> (\<exists>vs. option_values g' = Inr vs)"
    using option_values_fails [of g'] by (cases "option_values g'") auto
  moreover have "(\<exists>vs. option_values g' = Inr vs) \<longleftrightarrow>
      list_all (\<lambda>v. main_cfg_parameters (g_cfg g') (vk_socket v) \<noteq> Some []) vendors"
    using mapM_map_at [of "main_cfg_parameters (g_cfg g')" main_option_keys]
      mapM_map_at [of "logs_cfg_parameters g'" logs_option_keys]
      mapM_map_at [of "data_manipulation_cfg_parameters (g_cfg g')" dm_option_keys]
      logs_options_present [OF l(1)] main_options_present [OF l(2)] dm_options_present [OF l(3)]
    by (auto simp: option_values_def bindr_eq_Inr)
  moreover have "\<exists>w. main_cfg_parameters (g_cfg g') ''writer_id'' = Some w"
    using lookup_main_contract(1) [OF l(2)] by (auto simp: main_keys_def)
  ultimately show ?thesis
    by (cases "option_values g'") (auto simp: InitOptions_def Let_def split: prod.split)
qed

theorem InitOptions_needs_all_vendors_witness:
  "\<exists>g. LoadOptions sample_host ''f'' [] boot = Inr (1, g) \<and>
     InitOptions True (\<lambda>_. True) g \<lparr>oh_heap = empty_heap, oh_next = 1, oh_opts = Map.empty\<rparr>
       = Inl (Throw Out_of_range)"
proof -
  obtain g where g: "load_configuration sample_host ''f'' [] boot = Inr (True, g)" using sample_load by blast
  then have l: "LoadOptions sample_host ''f'' [] boot = Inr (1, g)" by (simp add: LoadOptions_def c_str_def)
  have "main_cfg_parameters (g_cfg g) ''socket_nokia'' = Some []"
    using sample_host_main load_configurationD(2) [OF g] by auto
  then have "\<not> list_all (\<lambda>v. main_cfg_parameters (g_cfg g) (vk_socket v) \<noteq> Some []) vendors"
    by (simp add: vendors_def)
  then show ?thesis
    using l InitOptions_needs_all_vendors [OF l] by (intro exI [of _ g]) simp
qed

definition all_vendors :: globals where
  "all_vendors = \<lparr>g_registry = Map.empty, logs_cfg_parameters = (\<lambda>_. Some ''x''),
     g_cfg = no_cfg\<lparr>main_cfg_parameters := (\<lambda>_. Some ''x''),
       data_manipulation_cfg_parameters := (\<lambda>_. Some ''x'')\<rparr>\<rparr>"

lemma all_vendors_options: "option_values all_vendors = Inr (replicate 23 ''x'')"
  by (simp add: option_values_def all_vendors_def no_cfg_def main_option_keys_def logs_option_keys_def
      dm_option_keys_def map_at_def eval_nat_numeral)

theorem FreeOptions_InitOptions_witness:
  "\<exists>p oh' oh''. InitOptions True (\<lambda>_. True) all_vendors
       \<lparr>oh_heap = empty_heap, oh_next = 1, oh_opts = Map.empty\<rparr> = Inr (p, oh') \<and>
     FreeOptions p oh' = Inr oh'' \<and> h_str (oh_heap oh'') = Map.empty"
proof -
  let ?oh = "\<lparr>oh_heap = empty_heap, oh_next = 1, oh_opts = Map.empty\<rparr>"
  obtain as h where "strndups (\<lambda>_. True) (map c_str (replicate 23 ''x'')) empty_heap = (as, h)" by fastforce
  then obtain p oh' where i: "InitOptions True (\<lambda>_. True) all_vendors ?oh = Inr (p, oh')"
    by (auto simp: InitOptions_def all_vendors_options Let_def)
      (simp add: all_vendors_def)
  have "str_heap_ok (oh_heap ?oh)" by (simp add: str_heap_ok_def empty_heap_def)
  from FreeOptions_InitOptions [OF this _ i] i show ?thesis by (auto simp: empty_heap_def)
qed

section \<open>Starting\<close>

text \<open>Starting with a log configuration that is rejected dereferences a null logger: the message
  about the failed load goes to "multi-logger", which only a successful load registers. The
  comment there says that the host process keeps running.\<close>

theorem start_with_bad_log_configuration:
  assumes "g_registry (b_globals b) = Map.empty" and "ho_syslog H" and "ho_console H"
    and "lookup_logs_parameters (ho_cfg H) (c_str cfg_path) = Inr None"
  shows "start_grpc_dialout_collector H create cfg_path zmq_uri b = Inl (Undefined Null_dereference)"
  using assms
  by (simp add: start_grpc_dialout_collector_def LoadOptions_def load_configuration_def new_LogsHandler_def
      set_boot_spdlog_sinks_def register_logger_def Let_def use_logger_def)

theorem start_with_bad_log_configuration_witness:
  "start_grpc_dialout_collector (sample_host\<lparr>ho_cfg := (\<lambda>_. None)\<rparr>) (\<lambda>_. True) ''f'' []
     \<lparr>b_globals = boot, b_next = 1, g_active_workers = []\<rparr> = Inl (Undefined Null_dereference)"
  by (rule start_with_bad_log_configuration)
    (simp_all add: boot_def sample_host_def lookup_logs_parameters_def set_parameters_def)

text \<open>What a run of the thread loop leaves: the globals alone, new workers at the end, thread
  numbers that were never used before.\<close>

definition grows :: "string \<Rightarrow> nat \<Rightarrow> bridge \<Rightarrow> bridge \<Rightarrow> bool" where
  "grows s n b b' = (b_globals b' = b_globals b \<and> b_next b \<le> b_next b' \<and>
     (\<exists>ts. g_active_workers b' = g_active_workers b @ map (\<lambda>t. (t, s)) ts \<and> length ts \<le> n \<and>
        distinct ts \<and> (\<forall>t \<in> set ts. b_next b \<le> t \<and> t < b_next b')))"

lemma grows_refl: "grows s n b b"
  by (simp add: grows_def)

lemma start_worker_step:
  assumes "w < length vec"
  shows "\<exists>vec' b'. start_worker create s w (vec, b) = Inr (vec', b') \<and> length vec' = length vec \<and>
    b_globals b' = b_globals b \<and> b_next b' = Suc (b_next b) \<and>
    g_active_workers b' = g_active_workers b @ (if create (b_next b) then [(b_next b, s)] else [])"
  using assms by (simp add: start_worker_def Let_def)

lemma start_workers:
  assumes "n \<le> length vec"
  shows "\<exists>vec' b'. foldM (start_worker create s) [0..<n] (vec, b) = Inr (vec', b') \<and>
    length vec' = length vec \<and> grows s n b b' \<and>
    ((\<forall>t. create t) \<longrightarrow> map snd (g_active_workers b') = map snd (g_active_workers b) @ replicate n s)"
  using assms
proof (induction n)
  case 0
  then show ?case by (simp add: grows_refl)
next
  case (Suc n)
  then obtain vec1 b1 where 1: "foldM (start_worker create s) [0..<n] (vec, b) = Inr (vec1, b1)"
    "length vec1 = length vec" "grows s n b b1"
    "(\<forall>t. create t) \<longrightarrow> map snd (g_active_workers b1) = map snd (g_active_workers b) @ replicate n s"
    by auto
  obtain ts where ts: "g_active_workers b1 = g_active_workers b @ map (\<lambda>t. (t, s)) ts" "length ts \<le> n"
    "distinct ts" "\<forall>t \<in> set ts. b_next b \<le> t \<and> t < b_next b1" "b_globals b1 = b_globals b"
    "b_next b \<le> b_next b1"
    using 1(3) by (auto simp: grows_def)
  obtain vec2 b2 where 2: "start_worker create s n (vec1, b1) = Inr (vec2, b2)" "length vec2 = length vec1"
    "b_globals b2 = b_globals b1" "b_next b2 = Suc (b_next b1)"
    "g_active_workers b2 = g_active_workers b1 @ (if create (b_next b1) then [(b_next b1, s)] else [])"
    using start_worker_step [of n vec1 create s b1] Suc.prems 1(2) by auto
  have "grows s (Suc n) b b2"
    unfolding grows_def
  proof (intro conjI exI [of _ "ts @ (if create (b_next b1) then [b_next b1] else [])"])
    show "\<forall>t \<in> set (ts @ (if create (b_next b1) then [b_next b1] else [])). b_next b \<le> t \<and> t < b_next b2"
      using ts(4,6) 2(4) by (auto simp: less_SucI)
    show "distinct (ts @ (if create (b_next b1) then [b_next b1] else []))"
      using ts(3,4) by auto
  qed (use ts 2 in auto)
  moreover have "(\<forall>t. create t) \<longrightarrow>
      map snd (g_active_workers b2) = map snd (g_active_workers b) @ replicate (Suc n) s"
    using 1(4) 2(5) by (simp add: replicate_append_same)
  ultimately show ?case using 1(1,2) 2(1,2) by (simp add: foldM_append)
qed

lemma bridge_LoadThreads_grows:
  assumes "main_cfg_parameters (g_cfg (b_globals b)) s = Some addr"
  shows "\<exists>vec b'. bridge_LoadThreads create (replicate MAX_WORKERS 0) s r w b = Inr (vec, b') \<and>
    grows s 5 b b' \<and> (addr = [] \<longrightarrow> b' = b)"
proof (cases "addr = []")
  case True
  then show ?thesis using assms by (simp add: bridge_LoadThreads_def Let_def grows_refl)
next
  case False
  note d = bridge_LoadThreads_def Let_def
  show ?thesis
  proof (cases "worker_limits (main_cfg_parameters (g_cfg (b_globals b))) r w")
    case (Inl e)
    then show ?thesis using worker_limits_throws [OF Inl] assms False by (auto simp: d grows_refl)
  next
    case (Inr p)
    obtain k n where p: "p = (k, n)" by (cases p)
    show ?thesis
    proof (cases "0 \<le> k \<and> k \<le> 1000 \<and> 1 \<le> n \<and> n \<le> 5")
      case True
      then have "nat n \<le> length (replicate MAX_WORKERS (0 :: nat))" by (simp add: MAX_WORKERS_def nat_le_iff)
      from start_workers [OF this, of create s b] obtain vec b' where
        f: "foldM (start_worker create s) [0..<nat n] (replicate MAX_WORKERS 0, b) = Inr (vec, b')"
        and g: "grows s (nat n) b b'" by auto
      have "grows s 5 b b'" using g True by (fastforce simp: grows_def)
      then show ?thesis using assms False Inr p True f by (simp add: d)
    next
      case False
      then show ?thesis using assms \<open>addr \<noteq> []\<close> Inr p by (auto simp: d grows_refl)
    qed
  qed
qed

definition threads_ok :: "bridge \<Rightarrow> bool" where
  "threads_ok b = (distinct (map fst (g_active_workers b)) \<and>
     list_all (\<lambda>(t, _). t < b_next b) (g_active_workers b))"

lemma grows_threads_ok:
  assumes "grows s n b b'" and "threads_ok b"
  shows "threads_ok b'"
proof -
  obtain ts where ts: "g_active_workers b' = g_active_workers b @ map (\<lambda>t. (t, s)) ts"
    "distinct ts" "\<forall>t \<in> set ts. b_next b \<le> t \<and> t < b_next b'" "b_next b \<le> b_next b'"
    using assms(1) by (auto simp: grows_def)
  have "map fst (map (\<lambda>t. (t, s)) ts) = ts" by (simp add: comp_def)
  then show ?thesis
    using ts assms(2) by (fastforce simp: threads_ok_def list_all_iff)
qed

lemma grows_workers:
  "grows s n b b' \<Longrightarrow> b_globals b' = b_globals b \<and> length (g_active_workers b') \<le> length (g_active_workers b) + n \<and>
     (\<exists>ws. g_active_workers b' = g_active_workers b @ ws \<and> list_all (\<lambda>(_, s'). s' = s) ws)"
  by (auto simp: grows_def list_all_iff)

text \<open>One vendor's share of a start.\<close>

definition vendor_share :: "params \<Rightarrow> bridge \<Rightarrow> bridge \<Rightarrow> bool" where
  "vendor_share cfg b b' = (b_globals b' = b_globals b \<and> (threads_ok b \<longrightarrow> threads_ok b') \<and>
     length (g_active_workers b') \<le> length (g_active_workers b) + 5 \<and>
     (\<exists>ws. g_active_workers b' = g_active_workers b @ ws \<and>
        list_all (\<lambda>(_, s). \<exists>addr. cfg s = Some addr \<and> addr \<noteq> []) ws))"

lemma bridge_LoadThreads_share:
  assumes "cfg = main_cfg_parameters (g_cfg (b_globals b))" and "cfg s = Some addr"
  obtains vec b' where
    "bridge_LoadThreads create (replicate MAX_WORKERS 0) s r w b = Inr (vec, b')" "vendor_share cfg b b'"
proof -
  obtain vec b' where l: "bridge_LoadThreads create (replicate MAX_WORKERS 0) s r w b = Inr (vec, b')"
    and g: "grows s 5 b b'" and e: "addr = [] \<longrightarrow> b' = b"
    using bridge_LoadThreads_grows [of b s addr create r w] assms by auto
  obtain ws where "g_active_workers b' = g_active_workers b @ ws" "list_all (\<lambda>(_, s'). s' = s) ws"
    using grows_workers [OF g] by blast
  moreover have "addr = [] \<longrightarrow> g_active_workers b' = g_active_workers b" using e by simp
  ultimately have "\<exists>ws. g_active_workers b' = g_active_workers b @ ws \<and>
        list_all (\<lambda>(_, s). \<exists>addr. cfg s = Some addr \<and> addr \<noteq> []) ws"
    using assms(2) by (cases "addr = []") (auto simp: list_all_iff)
  then have "vendor_share cfg b b'"
    using grows_workers [OF g] grows_threads_ok [OF g] by (simp add: vendor_share_def)
  with l show thesis by (rule that)
qed

lemma socket_values:
  assumes "lookup_main_parameters rf fe path = Inr (Some p)"
  obtains c j n h where "p ''socket_cisco'' = Some c" "p ''socket_juniper'' = Some j"
    "p ''socket_nokia'' = Some n" "p ''socket_huawei'' = Some h"
proof -
  have "vk_socket ` set vendors \<subseteq> dom p" using lookup_main_contract(1) [OF assms] by blast
  then have "{''socket_cisco'', ''socket_juniper'', ''socket_nokia'', ''socket_huawei''} \<subseteq> dom p"
    by (simp add: vendors_def)
  then have "\<exists>c. p ''socket_cisco'' = Some c" "\<exists>j. p ''socket_juniper'' = Some j"
    "\<exists>n. p ''socket_nokia'' = Some n" "\<exists>h. p ''socket_huawei'' = Some h"
    by (simp_all only: insert_subset dom_def mem_Collect_eq not_None_eq)
  then show thesis by (elim exE) (rule that)
qed

text \<open>The four vendors in a row.\<close>

lemma four_shares:
  assumes "b_globals b = g'" and "threads_ok b"
    and "main_cfg_parameters (g_cfg g') ''socket_cisco'' = Some c"
    and "main_cfg_parameters (g_cfg g') ''socket_juniper'' = Some j"
    and "main_cfg_parameters (g_cfg g') ''socket_nokia'' = Some n"
    and "main_cfg_parameters (g_cfg g') ''socket_huawei'' = Some h"
  obtains b' ws where
    "bindr (bridge_LoadThreads create (replicate MAX_WORKERS 0) ''socket_cisco'' ''replies_cisco'' ''cisco_workers'' b) (\<lambda>(_, b).
     bindr (bridge_LoadThreads create (replicate MAX_WORKERS 0) ''socket_juniper'' ''replies_juniper'' ''juniper_workers'' b) (\<lambda>(_, b).
     bindr (bridge_LoadThreads create (replicate MAX_WORKERS 0) ''socket_nokia'' ''replies_nokia'' ''nokia_workers'' b) (\<lambda>(_, b).
     bindr (bridge_LoadThreads create (replicate MAX_WORKERS 0) ''socket_huawei'' ''replies_huawei'' ''huawei_workers'' b) (\<lambda>(_, b).
       Inr b)))) = Inr b'"
    "b_globals b' = g'" "threads_ok b'" "g_active_workers b' = g_active_workers b @ ws" "length ws \<le> 20"
    "list_all (\<lambda>(_, s). \<exists>addr. main_cfg_parameters (g_cfg g') s = Some addr \<and> addr \<noteq> []) ws"
proof -
  let ?cfg = "main_cfg_parameters (g_cfg g')"
  obtain v1 b1 where 1: "bridge_LoadThreads create (replicate MAX_WORKERS 0) ''socket_cisco''
      ''replies_cisco'' ''cisco_workers'' b = Inr (v1, b1)" "vendor_share ?cfg b b1"
    using assms(1,3) by (auto intro: bridge_LoadThreads_share)
  have g1: "b_globals b1 = g'" using 1(2) assms(1) by (simp add: vendor_share_def)
  obtain v2 b2 where 2: "bridge_LoadThreads create (replicate MAX_WORKERS 0) ''socket_juniper''
      ''replies_juniper'' ''juniper_workers'' b1 = Inr (v2, b2)" "vendor_share ?cfg b1 b2"
    using g1 assms(4) by (auto intro: bridge_LoadThreads_share)
  have g2: "b_globals b2 = g'" using 2(2) g1 by (simp add: vendor_share_def)
  obtain v3 b3 where 3: "bridge_LoadThreads create (replicate MAX_WORKERS 0) ''socket_nokia''
      ''replies_nokia'' ''nokia_workers'' b2 = Inr (v3, b3)" "vendor_share ?cfg b2 b3"
    using g2 assms(5) by (auto intro: bridge_LoadThreads_share)
  have g3: "b_globals b3 = g'" using 3(2) g2 by (simp add: vendor_share_def)
  obtain v4 b4 where 4: "bridge_LoadThreads create (replicate MAX_WORKERS 0) ''socket_huawei''
      ''replies_huawei'' ''huawei_workers'' b3 = Inr (v4, b4)" "vendor_share ?cfg b3 b4"
    using g3 assms(6) by (auto intro: bridge_LoadThreads_share)
  obtain w1 w2 w3 w4 where w: "g_active_workers b4 = g_active_workers b @ w1 @ w2 @ w3 @ w4"
    "list_all (\<lambda>(_, s). \<exists>addr. ?cfg s = Some addr \<and> addr \<noteq> []) (w1 @ w2 @ w3 @ w4)"
    using 1(2) 2(2) 3(2) 4(2) by (auto simp: vendor_share_def)
  have "length (w1 @ w2 @ w3 @ w4) \<le> 20"
    using 1(2) 2(2) 3(2) 4(2) w(1) by (simp add: vendor_share_def)
  moreover have "b_globals b4 = g'" "threads_ok b4"
    using 1(2) 2(2) 3(2) 4(2) assms(1,2) by (simp_all add: vendor_share_def)
  ultimately show thesis
    using that [of b4 "w1 @ w2 @ w3 @ w4"] 1(1) 2(1) 3(1) 4(1) w by simp
qed

text \<open>C30. A start after a successful load never fails, whatever the limits say and whichever
  threads cannot be created: a vendor with bad limits is skipped, no handle is stored outside its
  array of \<open>MAX_WORKERS\<close>, at most twenty workers are added, each for a socket that is configured,
  and no thread is recorded twice.\<close>

theorem start_is_bounded:
  assumes "LoadOptions H cfg_path zmq_uri (b_globals b) = Inr (1, g')" and "threads_ok b"
  shows "\<exists>b' ws. start_grpc_dialout_collector H create cfg_path zmq_uri b = Inr b' \<and>
    b_globals b' = g' \<and> threads_ok b' \<and> g_active_workers b' = g_active_workers b @ ws \<and> length ws \<le> 20 \<and>
    list_all (\<lambda>(_, s). \<exists>addr. main_cfg_parameters (g_cfg g') s = Some addr \<and> addr \<noteq> []) ws"
proof -
  let ?cfg = "main_cfg_parameters (g_cfg g')"
  define b0 where "b0 = b\<lparr>b_globals := g'\<rparr>"
  have b0: "b_globals b0 = g'" "threads_ok b0" "g_active_workers b0 = g_active_workers b"
    using assms(2) by (simp_all add: b0_def threads_ok_def)
  obtain c j n h where s: "?cfg ''socket_cisco'' = Some c" "?cfg ''socket_juniper'' = Some j"
    "?cfg ''socket_nokia'' = Some n" "?cfg ''socket_huawei'' = Some h"
    using load_configurationD(2) [OF LoadOptionsD [OF assms(1)]] by (rule socket_values)
  show ?thesis
  proof (cases "c = [] \<and> j = [] \<and> n = [] \<and> h = []")
    case True
    then have "start_grpc_dialout_collector H create cfg_path zmq_uri b = Inr b0"
      by (simp add: start_grpc_dialout_collector_def assms(1) s b0_def Let_def)
    then show ?thesis using b0 by (intro exI [of _ b0] exI [of _ "[]"]) simp
  next
    case False
    obtain b' ws where r: "start_grpc_dialout_collector H create cfg_path zmq_uri b = Inr b'"
      "b_globals b' = g'" "threads_ok b'" "g_active_workers b' = g_active_workers b0 @ ws" "length ws \<le> 20"
      "list_all (\<lambda>(_, s). \<exists>addr. ?cfg s = Some addr \<and> addr \<noteq> []) ws"
    proof (rule four_shares [OF b0(1,2) s, of create])
    qed (use False in \<open>auto simp: start_grpc_dialout_collector_def assms(1) s Let_def simp flip: b0_def\<close>)
    then show ?thesis using b0(3) by auto
  qed
qed

theorem start_is_bounded_witness:
  "\<exists>b' ws. start_grpc_dialout_collector sample_host (\<lambda>t. t \<noteq> 2) ''f'' []
       \<lparr>b_globals = boot, b_next = 1, g_active_workers = []\<rparr> = Inr b' \<and>
     g_active_workers b' = ws \<and> length ws \<le> 20"
proof -
  obtain g where "load_configuration sample_host ''f'' [] boot = Inr (True, g)" using sample_load by blast
  then have l: "LoadOptions sample_host ''f'' [] (b_globals \<lparr>b_globals = boot, b_next = 1, g_active_workers = []\<rparr>)
      = Inr (1, g)" by (simp add: LoadOptions_def c_str_def)
  have "threads_ok \<lparr>b_globals = boot, b_next = 1, g_active_workers = []\<rparr>" by (simp add: threads_ok_def)
  from start_is_bounded [OF l this] show ?thesis by (metis append_Nil bridge.select_convs(3))
qed

section \<open>The bridge starts what the daemon starts\<close>

lemma bridge_LoadThreads_daemon:
  assumes "LoadThreads (main_cfg_parameters (g_cfg (b_globals b))) [] s r w = Inr ts"
  obtains vec b' where "bridge_LoadThreads (\<lambda>_. True) (replicate MAX_WORKERS 0) s r w b = Inr (vec, b')"
    "b_globals b' = b_globals b" "map snd (g_active_workers b') = map snd (g_active_workers b) @ ts"
proof -
  let ?cfg = "main_cfg_parameters (g_cfg (b_globals b))"
  note d = bridge_LoadThreads_def Let_def
  obtain addr where addr: "?cfg s = Some addr" using assms by (rule LoadThreadsD)
  show thesis
  proof (cases "addr = []")
    case True
    then have "ts = []" using assms addr by (simp add: LoadThreads_def)
    then show thesis using that [of "replicate MAX_WORKERS 0" b] True addr by (simp add: d)
  next
    case False
    then obtain k m where km: "or_exit (worker_limits ?cfg r w) = Inr (k, m)"
      and lim: "0 \<le> k" "k \<le> 1000" "1 \<le> m" "m \<le> 5" "ts = replicate (nat m) s"
      using assms addr by (auto simp: LoadThreads_def bindr_eq_Inr split: if_splits)
    have wl: "worker_limits ?cfg r w = Inr (k, m)"
      using km worker_limits_throws [of ?cfg r w] by (cases "worker_limits ?cfg r w") auto
    have "nat m \<le> length (replicate MAX_WORKERS (0 :: nat))" using lim(4) by (simp add: MAX_WORKERS_def nat_le_iff)
    from start_workers [OF this, of "\<lambda>_. True" s b] obtain vec b' where
      f: "foldM (start_worker (\<lambda>_. True) s) [0..<nat m] (replicate MAX_WORKERS 0, b) = Inr (vec, b')"
      and g: "grows s (nat m) b b'"
      and ws: "map snd (g_active_workers b') = map snd (g_active_workers b) @ replicate (nat m) s" by auto
    have "bridge_LoadThreads (\<lambda>_. True) (replicate MAX_WORKERS 0) s r w b = Inr (vec, b')"
      using addr False wl lim f by (simp add: d)
    then show thesis using g ws lim(5) by (intro that) (simp_all add: grows_def)
  qed
qed

text \<open>C20. On every configuration the daemon runs with, the bridge starts the same workers: same
  configuration maps and, when every thread can be created, the same sockets with the same number
  of threads in the same order. It loads no label map.\<close>

theorem bridge_starts_daemon_workers:
  assumes "run_daemon H path (b_globals b) = Inr (Running d)" and "CHR 0x00 \<notin> set path"
  shows "\<exists>b'. start_grpc_dialout_collector H (\<lambda>_. True) path [] b = Inr b' \<and>
    b_globals b' = d_globals d \<and>
    map snd (g_active_workers b') = map snd (g_active_workers b) @ daemon_workers d"
proof -
  note r = run_daemonD [OF assms(1)]
  have l: "LoadOptions H path [] (b_globals b) = Inr (1, d_globals d)"
    using r(1) c_str_id [OF assms(2)] c_str_id [of "[]"] by (simp add: LoadOptions_def)
  let ?cfg = "main_cfg_parameters (g_cfg (d_globals d))"
  define b0 where "b0 = b\<lparr>b_globals := d_globals d\<rparr>"
  have b0: "b_globals b0 = d_globals d" "g_active_workers b0 = g_active_workers b" by (simp_all add: b0_def)
  obtain c j n h where s: "?cfg ''socket_cisco'' = Some c" "?cfg ''socket_juniper'' = Some j"
    "?cfg ''socket_nokia'' = Some n" "?cfg ''socket_huawei'' = Some h" "\<not> (c = [] \<and> j = [] \<and> n = [] \<and> h = [])"
    using r(4) by blast
  obtain v1 b1 where 1: "bridge_LoadThreads (\<lambda>_. True) (replicate MAX_WORKERS 0) ''socket_cisco''
      ''replies_cisco'' ''cisco_workers'' b0 = Inr (v1, b1)" "b_globals b1 = d_globals d"
      "map snd (g_active_workers b1) = map snd (g_active_workers b0) @ d_cisco d"
    using bridge_LoadThreads_daemon [of b0 "''socket_cisco''" "''replies_cisco''" "''cisco_workers''" "d_cisco d"]
      r(5) b0(1) by metis
  obtain v2 b2 where 2: "bridge_LoadThreads (\<lambda>_. True) (replicate MAX_WORKERS 0) ''socket_juniper''
      ''replies_juniper'' ''juniper_workers'' b1 = Inr (v2, b2)" "b_globals b2 = d_globals d"
      "map snd (g_active_workers b2) = map snd (g_active_workers b1) @ d_juniper d"
    using bridge_LoadThreads_daemon [of b1 "''socket_juniper''" "''replies_juniper''" "''juniper_workers''" "d_juniper d"]
      r(6) 1(2) by metis
  obtain v3 b3 where 3: "bridge_LoadThreads (\<lambda>_. True) (replicate MAX_WORKERS 0) ''socket_nokia''
      ''replies_nokia'' ''nokia_workers'' b2 = Inr (v3, b3)" "b_globals b3 = d_globals d"
      "map snd (g_active_workers b3) = map snd (g_active_workers b2) @ d_nokia d"
    using bridge_LoadThreads_daemon [of b2 "''socket_nokia''" "''replies_nokia''" "''nokia_workers''" "d_nokia d"]
      r(7) 2(2) by metis
  obtain v4 b4 where 4: "bridge_LoadThreads (\<lambda>_. True) (replicate MAX_WORKERS 0) ''socket_huawei''
      ''replies_huawei'' ''huawei_workers'' b3 = Inr (v4, b4)" "b_globals b4 = d_globals d"
      "map snd (g_active_workers b4) = map snd (g_active_workers b3) @ d_huawei d"
    using bridge_LoadThreads_daemon [of b3 "''socket_huawei''" "''replies_huawei''" "''huawei_workers''" "d_huawei d"]
      r(8) 3(2) by metis
  have "start_grpc_dialout_collector H (\<lambda>_. True) path [] b = Inr b4"
    using 1(1) 2(1) 3(1) 4(1) s(5)
    by (auto simp: start_grpc_dialout_collector_def l s(1-4) Let_def simp flip: b0_def)
  then show ?thesis using 1(3) 2(3) 3(3) 4(2,3) b0(2) by (simp add: daemon_workers_def)
qed

theorem bridge_starts_daemon_workers_witness:
  "\<exists>b'. start_grpc_dialout_collector sample_host (\<lambda>_. True) ''f'' []
       \<lparr>b_globals = boot, b_next = 1, g_active_workers = []\<rparr> = Inr b' \<and>
     map snd (g_active_workers b') = [''socket_cisco'', ''socket_cisco'']"
proof -
  let ?b = "\<lparr>b_globals = boot, b_next = 1, g_active_workers = []\<rparr>"
  obtain d where d: "run_daemon sample_host ''f'' (b_globals ?b) = Inr (Running d)"
    "d_cisco d = [''socket_cisco'', ''socket_cisco'']" "d_juniper d = []" "d_nokia d = []" "d_huawei d = []"
    using sample_running by auto
  have "CHR 0x00 \<notin> set ''f''" by simp
  from bridge_starts_daemon_workers [OF d(1) this] d(2-5) show ?thesis by (auto simp: daemon_workers_def)
qed

end
