(* ===== verification/Worker_Life.thy ===== *)
theory Worker_Life
  imports Server_Lifecycle Stream_Fsm
begin

text \<open>
  The server life cycle of Server_Lifecycle with the streams of Stream_Fsm inside it: a worker
  that has registered its server runs \<open>RunFsm\<close> on its completion queue, one event at a time,
  while other workers and the threads that call \<open>initiate_shutdown\<close> go on. \<open>sstep\<close> is one step
  of one thread. The lemmas project every run to one of \<open>pstep\<close> and keep the invariants of both
  parts; the properties say that no stream outlives the \<open>FsmCtrl\<close> whose stack its context
  is on, and that after a shutdown the whole process ends within a bound.
\<close>

section \<open>State\<close>

text \<open>The loop of a worker: its streams, and the tags whose operation was started after the
  queue had been shut.\<close>

record 'w run_loop =
  rl_fsm :: "'w fsm"
  rl_late :: "nat set"

text \<open>\<open>sv_abort\<close> is set when an exception leaves a worker's thread function: that is
  \<open>std::terminate\<close>, nothing runs after it.\<close>

record 'w running_service =
  sv_proc :: process
  sv_loops :: "nat \<rightharpoonup> 'w run_loop"
  sv_abort :: "error option"

definition in_phase :: "phase \<Rightarrow> nat \<Rightarrow> process \<Rightarrow> bool" where
  "in_phase p i s = (case workers s i of None \<Rightarrow> False | Some w \<Rightarrow> wk_phase w = p)"

definition cq_shut :: "nat \<Rightarrow> process \<Rightarrow> bool" where
  "cq_shut i s = (case workers s i of None \<Rightarrow> False | Some w \<Rightarrow> srv_cq (wk_srv w) (wk_vendor w) = Some False)"

text \<open>\<open>cq->Next\<close> only answers \<open>false\<close> when nothing is outstanding on the queue.\<close>

definition drained :: "nat \<Rightarrow> 'w running_service \<Rightarrow> bool" where
  "drained i s = (case sv_loops s i of None \<Rightarrow> False | Some l \<Rightarrow> pending (rl_fsm l) = Map.empty)"

definition start_loop :: "bool \<Rightarrow> 'w \<Rightarrow> 'w run_loop" where
  "start_loop down w = \<lparr>rl_fsm = Spawn (fsm_init w), rl_late = (if down then {0} else {})\<rparr>"

text \<open>An event can start an operation for its own stream and for a new one.\<close>

definition after_event :: "bool \<Rightarrow> nat \<Rightarrow> 'w fsm \<Rightarrow> 'w run_loop \<Rightarrow> 'w run_loop" where
  "after_event down t f l =
     \<lparr>rl_fsm = f, rl_late = (if down then rl_late l \<union> {t, next_tag (rl_fsm l)} else rl_late l)\<rparr>"

section \<open>Steps\<close>

text \<open>\<open>H i\<close>, \<open>m i\<close> and \<open>w0 i\<close> are the \<open>HandleMessage\<close>, the reply limit and the context of
  worker \<open>i\<close>. gRPC's part: an event ends an operation that is outstanding; an operation
  started on a queue that is already shut fails; one started before may still succeed.\<close>

inductive sstep ::
  "(nat \<Rightarrow> 'r \<Rightarrow> 'w \<Rightarrow> 'w res) \<Rightarrow> (nat \<Rightarrow> int) \<Rightarrow> (nat \<Rightarrow> 'w) \<Rightarrow>
   'w running_service \<Rightarrow> 'w running_service \<Rightarrow> bool" for H m w0 where
  thread: "sv_abort s = None \<Longrightarrow> pstep (sv_proc s) p \<Longrightarrow>
    \<forall>i. in_phase Registered i (sv_proc s) \<and> \<not> in_phase Registered i p \<longrightarrow> drained i s \<Longrightarrow>
    sstep H m w0 s (s\<lparr>sv_proc := p\<rparr>)"
| spawn: "sv_abort s = None \<Longrightarrow> in_phase Registered i (sv_proc s) \<Longrightarrow> sv_loops s i = None \<Longrightarrow>
    sstep H m w0 s (s\<lparr>sv_loops := (sv_loops s)(i \<mapsto> start_loop (cq_shut i (sv_proc s)) (w0 i))\<rparr>)"
| next_event: "sv_abort s = None \<Longrightarrow> in_phase Registered i (sv_proc s) \<Longrightarrow> sv_loops s i = Some l \<Longrightarrow>
    ev_tag e \<in> dom (pending (rl_fsm l)) \<Longrightarrow> (ev_tag e \<in> rl_late l \<longrightarrow> \<not> ev_ok e) \<Longrightarrow>
    on_event (H i) (m i) e (rl_fsm l) = Inr f \<Longrightarrow>
    sstep H m w0 s (s\<lparr>sv_loops := (sv_loops s)(i \<mapsto> after_event (cq_shut i (sv_proc s)) (ev_tag e) f l)\<rparr>)"
| next_throws: "sv_abort s = None \<Longrightarrow> in_phase Registered i (sv_proc s) \<Longrightarrow> sv_loops s i = Some l \<Longrightarrow>
    ev_tag e \<in> dom (pending (rl_fsm l)) \<Longrightarrow> (ev_tag e \<in> rl_late l \<longrightarrow> \<not> ev_ok e) \<Longrightarrow>
    on_event (H i) (m i) e (rl_fsm l) = Inl x \<Longrightarrow>
    sstep H m w0 s (s\<lparr>sv_abort := Some x\<rparr>)"

inductive_cases sstepE: "sstep H m w0 s s'"

definition starting_service :: "'w running_service \<Rightarrow> bool" where
  "starting_service s = (starting (sv_proc s) \<and> sv_loops s = Map.empty \<and> sv_abort s = None)"

lemma pstep_eq: "pstep p q \<Longrightarrow> q = q' \<Longrightarrow> pstep p q'"
  by simp

section \<open>Projection to the server life cycle\<close>

text \<open>What happens to the streams is a stuttering step of the life cycle.\<close>

lemma sstep_proc: "sstep H m w0 s s' \<Longrightarrow> sv_proc s' = sv_proc s \<or> pstep (sv_proc s) (sv_proc s')"
  by (induction rule: sstep.induct) simp_all

lemma ssteps_proc: "(sstep H m w0)\<^sup>*\<^sup>* s s' \<Longrightarrow> pstep\<^sup>*\<^sup>* (sv_proc s) (sv_proc s')"
  by (induction rule: rtranclp_induct) (auto dest!: sstep_proc intro: rtranclp.rtrancl_into_rtrancl)

lemma in_phase_set_worker [simp]:
  "in_phase q j (set_worker i w p) = (if j = i then wk_phase w = q else in_phase q j p)"
  by (simp add: in_phase_def set_worker_def)

lemma in_phase_workers: "workers p = workers p' \<Longrightarrow> in_phase q j p = in_phase q j p'"
  by (simp add: in_phase_def)

text \<open>A step of the life cycle that moves one worker.\<close>

lemma thread_moves:
  assumes "sv_abort s = None" and "pstep (sv_proc s) (set_worker i w p)" and "workers p = workers (sv_proc s)"
    and "in_phase Registered i (sv_proc s) \<longrightarrow> wk_phase w = Registered \<or> drained i s"
  shows "sstep H m w0 s (s\<lparr>sv_proc := set_worker i w p\<rparr>)"
  using assms(1,2) by (rule sstep.thread) (use assms(4) in_phase_workers [OF assms(3)] in auto)

lemmas phase_defs = in_phase_def cq_shut_def drained_def

text \<open>How a step of the life cycle moves the phase of a worker.\<close>

lemma pstep_phase:
  assumes "pstep p p'"
  shows "in_phase Registered i p' \<Longrightarrow> in_phase Registered i p \<or> in_phase Built i p"
    and "in_phase Stopped i p' \<Longrightarrow> in_phase Stopped i p \<or> in_phase Registered i p"
    and "in_phase Unregistered i p' \<Longrightarrow> in_phase Unregistered i p \<or> in_phase Stopped i p"
    and "in_phase Destroyed i p' \<Longrightarrow> in_phase Destroyed i p \<or> in_phase Unregistered i p"
    and "in_phase Built i p' \<Longrightarrow> in_phase Built i p \<or> in_phase Constructed i p"
    and "in_phase Constructed i p' \<Longrightarrow> in_phase Constructed i p"
  using assms by (induction rule: pstep.induct) (auto simp: in_phase_def set_worker_def split: if_splits)

lemma pstep_dom: "pstep p p' \<Longrightarrow> dom (workers p') = dom (workers p)"
  by (induction rule: pstep.induct) (auto simp: set_worker_def split: if_splits)

lemma psteps_dom: "pstep\<^sup>*\<^sup>* p p' \<Longrightarrow> dom (workers p') = dom (workers p)"
  by (induction rule: rtranclp_induct) (simp_all add: pstep_dom)

section \<open>Invariant\<close>

text \<open>Before its \<open>FsmCtrl\<close> a worker has no loop; after it, a drained one.\<close>

definition loops_ok :: "(nat \<Rightarrow> int) \<Rightarrow> 'w running_service \<Rightarrow> bool" where
  "loops_ok m s =
     ((\<forall>i l. sv_loops s i = Some l \<longrightarrow> fsm_ok (m i) (rl_fsm l)) \<and>
      dom (sv_loops s) \<subseteq> dom (workers (sv_proc s)) \<and>
      (\<forall>i. in_phase Constructed i (sv_proc s) \<or> in_phase Built i (sv_proc s) \<longrightarrow> sv_loops s i = None) \<and>
      (\<forall>i. in_phase Stopped i (sv_proc s) \<or> in_phase Unregistered i (sv_proc s) \<or>
         in_phase Destroyed i (sv_proc s) \<longrightarrow> drained i s))"

lemma in_phase_unique: "in_phase p i s \<Longrightarrow> in_phase q i s \<Longrightarrow> p = q"
  by (simp add: in_phase_def split: option.splits)

lemma in_phase_dom: "in_phase p i s \<Longrightarrow> i \<in> dom (workers s)"
  by (auto simp: in_phase_def split: option.splits)

lemma loops_ok_init: "starting_service s \<Longrightarrow> loops_ok m s"
  by (fastforce simp: starting_service_def starting_def loops_ok_def in_phase_def split: option.splits)

lemma loops_ok_step:
  assumes "sstep H m w0 s s'" and "loops_ok m s" and "\<forall>i. m i \<le> INT_MAX"
  shows "loops_ok m s'"
  using assms
proof (induction rule: sstep.induct)
  case (thread s p)
  show ?case
    unfolding loops_ok_def
  proof (intro conjI allI impI)
    fix i
    assume "in_phase Stopped i (sv_proc (s\<lparr>sv_proc := p\<rparr>)) \<or> in_phase Unregistered i (sv_proc (s\<lparr>sv_proc := p\<rparr>)) \<or>
      in_phase Destroyed i (sv_proc (s\<lparr>sv_proc := p\<rparr>))"
    then have p: "in_phase Stopped i p \<or> in_phase Unregistered i p \<or> in_phase Destroyed i p" by simp
    then have "\<not> in_phase Registered i p" using in_phase_unique by blast
    moreover have "in_phase Registered i (sv_proc s) \<or> in_phase Stopped i (sv_proc s) \<or>
      in_phase Unregistered i (sv_proc s) \<or> in_phase Destroyed i (sv_proc s)"
      using p pstep_phase [OF thread(2), of i] by blast
    ultimately show "drained i (s\<lparr>sv_proc := p\<rparr>)"
      using thread(3,4) by (auto simp: loops_ok_def drained_def)
  next
    fix i
    assume "in_phase Constructed i (sv_proc (s\<lparr>sv_proc := p\<rparr>)) \<or> in_phase Built i (sv_proc (s\<lparr>sv_proc := p\<rparr>))"
    then have "in_phase Constructed i (sv_proc s) \<or> in_phase Built i (sv_proc s)"
      using pstep_phase [OF thread(2), of i] by auto
    then show "sv_loops (s\<lparr>sv_proc := p\<rparr>) i = None" using thread(4) by (auto simp: loops_ok_def)
  qed (use thread(4) pstep_dom [OF thread(2)] in \<open>simp_all add: loops_ok_def\<close>)
next
  case (spawn s i)
  then show ?case
    using in_phase_unique [OF spawn(2)] fsm_ok_init(1) in_phase_dom [OF spawn(2)]
    by (auto simp: loops_ok_def drained_def start_loop_def)
next
  case (next_event s i l e f)
  have "fsm_ok (m i) f"
    using on_event_ok [of "m i" "rl_fsm l" e "H i"] next_event by (auto simp: loops_ok_def)
  then show ?case
    using next_event in_phase_unique [OF next_event(2)] in_phase_dom [OF next_event(2)]
    by (auto simp: loops_ok_def drained_def after_event_def)
next
  case (next_throws s i l e x)
  then show ?case by (simp add: loops_ok_def drained_def)
qed

lemma loops_ok_steps:
  assumes "(sstep H m w0)\<^sup>*\<^sup>* s s'" and "loops_ok m s" and "\<forall>i. m i \<le> INT_MAX"
  shows "loops_ok m s'"
  using assms by (induction rule: rtranclp_induct) (auto intro: loops_ok_step)

lemma drained_no_streams:
  assumes "loops_ok m s" and "drained i s"
  obtains l where "sv_loops s i = Some l" and "streams (rl_fsm l) = Map.empty"
proof -
  obtain l where l: "sv_loops s i = Some l" "pending (rl_fsm l) = Map.empty"
    using assms(2) by (auto simp: drained_def split: option.splits)
  then have "streams (rl_fsm l) = Map.empty"
    using assms(1) fsm_ok_pending [of "m i" "rl_fsm l"] by (auto simp: loops_ok_def)
  then show thesis using l(1) that by blast
qed

section \<open>The end of a process\<close>

text \<open>How many events a stream can still take once the queue is shut: its outstanding operation
  may have succeeded before (then one more follows, and a new acceptor), the later ones fail.\<close>

fun cost :: "bool \<Rightarrow> stream_state \<Rightarrow> nat" where
  "cost True Read = 2"
| "cost True _ = 1"
| "cost False Create = 4"
| "cost False Read = 3"
| "cost False _ = 1"

definition streams_work :: "nat set \<Rightarrow> (nat \<rightharpoonup> stream) \<Rightarrow> nat" where
  "streams_work late_ops M = (\<Sum>t\<in>dom M. cost (t \<in> late_ops) (st_state (the (M t))))"

definition loop_work :: "'w run_loop \<Rightarrow> nat" where
  "loop_work l = streams_work (rl_late l) (streams (rl_fsm l))"

lemma cost_late: "cost True st \<le> cost b st"
  by (cases st; cases b) auto

lemma cost_pos: "0 < cost b st"
  by (cases st; cases b) auto

lemma cost_Read: "1 < cost b Read"
  by (cases b) auto

lemma cost_le: "cost b st \<le> 4"
  by (cases st; cases b) auto

text \<open>Work when the streams other than \<open>t\<close> and the new \<open>n\<close> stay as they are.\<close>

lemma streams_work_change:
  assumes "finite (dom M)" and "M t = Some old" and "n \<notin> dom M"
    and "\<And>u. u \<noteq> t \<Longrightarrow> u \<noteq> n \<Longrightarrow> M' u = M u"
  shows "streams_work (L \<union> {t, n}) M' + cost (t \<in> L) (st_state old) \<le>
    (\<Sum>u\<in>{t, n} \<inter> dom M'. cost True (st_state (the (M' u)))) + streams_work L M"
proof -
  define r where "r = (\<Sum>u\<in>dom M - {t}. cost (u \<in> L) (st_state (the (M u))))"
  have t: "t \<in> dom M" using assms(2) by auto
  have old: "streams_work L M = cost (t \<in> L) (st_state old) + r"
    using sum.remove [OF assms(1) t, of "\<lambda>u. cost (u \<in> L) (st_state (the (M u)))"] assms(2)
    by (simp add: streams_work_def r_def)
  have rest: "dom M' - {t, n} = dom M - {t}"
    using assms(3,4) by (auto simp: dom_def) (metis option.distinct(1))+
  have fin: "finite (dom M')"
    by (rule finite_subset [of _ "insert n (insert t (dom M))"]) (use assms(1) rest in auto)
  let ?g = "\<lambda>u. cost (u \<in> L \<union> {t, n}) (st_state (the (M' u)))"
  have "streams_work (L \<union> {t, n}) M' = sum ?g (dom M' \<inter> {t, n}) + sum ?g (dom M' - {t, n})"
    unfolding streams_work_def by (rule sum.Int_Diff [OF fin])
  also have "sum ?g (dom M' \<inter> {t, n}) = (\<Sum>u\<in>{t, n} \<inter> dom M'. cost True (st_state (the (M' u))))"
    by (rule sum.cong) auto
  also have "sum ?g (dom M' - {t, n}) \<le> r"
    unfolding rest r_def
  proof (rule sum_mono)
    fix u
    assume "u \<in> dom M - {t}"
    then have "u \<noteq> t" "u \<noteq> n" using assms(3) by auto
    then show "?g u \<le> cost (u \<in> L) (st_state (the (M u)))" using assms(4) [of u] by simp
  qed
  finally show ?thesis using old by simp
qed

lemma event_work:
  assumes "fsm_ok m (rl_fsm l)" and "ev_tag e \<in> rl_late l \<longrightarrow> \<not> ev_ok e"
    and "on_event H m e (rl_fsm l) = Inr f"
  shows "loop_work (after_event True (ev_tag e) f l) < loop_work l"
proof -
  let ?f = "rl_fsm l" and ?t = "ev_tag e" and ?L = "rl_late l" and ?n = "next_tag (rl_fsm l)"
  obtain st where st: "streams ?f ?t = Some st"
    using assms(3) by (cases "streams ?f ?t") (auto simp: on_event_def Proceed_def)
  have fin: "finite (dom (streams ?f))" and n: "?n \<notin> dom (streams ?f)" and nt: "?t \<noteq> ?n"
    using assms(1) st by (auto simp: fsm_ok_def)
  have same: "\<And>u. u \<noteq> ?t \<Longrightarrow> u \<noteq> ?n \<Longrightarrow> streams f u = streams ?f u"
    using assms(3) st
    by (auto simp: on_event_def Proceed_def delete_this_def arm_def Spawn_def bindr_eq_Inr Let_def
        split: stream_state.splits if_splits)
  have none: "{?n} \<inter> (dom (streams ?f) - {?t}) = {}" and none': "{?n} \<inter> dom (streams ?f) = {}"
    using n by auto
  have "(\<Sum>u\<in>{?t, ?n} \<inter> dom (streams f). cost True (st_state (the (streams f u)))) < cost (?t \<in> ?L) (st_state st)"
  proof (cases "st_state st")
    case Create
    show ?thesis
    proof (cases "ev_ok e")
      case True
      then show ?thesis
        using Create assms(2,3) st nt
        by (auto simp: on_event_def Proceed_def arm_def Spawn_def)
    next
      case False
      then have "streams f = (streams ?f)(?t := None)"
        using Create assms(3) st by (auto simp: on_event_def Proceed_def delete_this_def)
      then show ?thesis using none Create cost_pos [of "?t \<in> ?L" Create] by simp
    qed
  next
    case Read
    then show ?thesis
      using assms(2,3) st nt cost_Read [of "?t \<in> ?L"]
      by (auto simp: none' on_event_def Proceed_def arm_def bindr_eq_Inr Let_def split: if_splits)
  next
    case Finishing
    then show ?thesis
      using assms(3) st cost_pos [of "?t \<in> ?L" Finishing]
      by (auto simp: none on_event_def Proceed_def delete_this_def)
  next
    case Done
    then show ?thesis
      using assms(3) st cost_pos [of "?t \<in> ?L" Done]
      by (auto simp: none on_event_def Proceed_def delete_this_def)
  qed
  then show ?thesis
    using streams_work_change [OF fin st n same, of ?L]
    by (simp add: loop_work_def after_event_def)
qed

definition worker_work :: "'w running_service \<Rightarrow> nat \<Rightarrow> nat" where
  "worker_work s i = (case workers (sv_proc s) i of
      None \<Rightarrow> 0
    | Some w \<Rightarrow>
       (case wk_phase w of
          Registered \<Rightarrow> 3 + (case sv_loops s i of None \<Rightarrow> 2 | Some l \<Rightarrow> loop_work l)
        | Stopped \<Rightarrow> 2
        | Unregistered \<Rightarrow> 1
        | _ \<Rightarrow> 0))"

definition service_work :: "'w running_service \<Rightarrow> nat" where
  "service_work s = (if sv_abort s = None then 1 else 0) + (\<Sum>i\<in>dom (workers (sv_proc s)). worker_work s i)"

text \<open>Every server is shut and no shutdown is under way.\<close>

definition all_shut :: "process \<Rightarrow> bool" where
  "all_shut p =
     ((\<forall>c x. callers p c = Some x \<longrightarrow> x = Returned) \<and> finite (dom (workers p)) \<and>
      (\<forall>i w. workers p i = Some w \<longrightarrow> wk_phase w \<notin> {Constructed, Built} \<and>
         shutdown_done (wk_srv w) \<and> srv_cq (wk_srv w) (wk_vendor w) = Some False))"

lemma all_shut_cq: "all_shut p \<Longrightarrow> in_phase q i p \<Longrightarrow> cq_shut i p"
  by (auto simp: all_shut_def phase_defs split: option.splits)

lemma worker_work_cong:
  assumes "workers (sv_proc s') j = workers (sv_proc s) j" and "sv_loops s' j = sv_loops s j"
  shows "worker_work s' j = worker_work s j"
  unfolding worker_work_def assms ..

lemma service_work_less:
  assumes "finite (dom (workers (sv_proc s)))" and "dom (workers (sv_proc s')) = dom (workers (sv_proc s))"
    and "sv_abort s' = sv_abort s" and "i \<in> dom (workers (sv_proc s))" and "worker_work s' i < worker_work s i"
    and "\<And>j. j \<noteq> i \<Longrightarrow> workers (sv_proc s') j = workers (sv_proc s) j \<and> sv_loops s' j = sv_loops s j"
  shows "service_work s' < service_work s"
proof -
  have "(\<Sum>j\<in>dom (workers (sv_proc s)). worker_work s' j) < (\<Sum>j\<in>dom (workers (sv_proc s)). worker_work s j)"
  proof (rule sum_strict_mono_ex1 [OF assms(1)])
    show "\<forall>j\<in>dom (workers (sv_proc s)). worker_work s' j \<le> worker_work s j"
    proof
      fix j
      show "worker_work s' j \<le> worker_work s j"
        using assms(5,6) worker_work_cong [of s' j s] by (cases "j = i") auto
    qed
    show "\<exists>j\<in>dom (workers (sv_proc s)). worker_work s' j < worker_work s j"
      using assms(4,5) by blast
  qed
  then show ?thesis using assms(2,3) by (simp add: service_work_def)
qed

text \<open>After that every step of the life cycle advances one worker.\<close>

lemma all_shut_step:
  assumes "pstep p p'" and "all_shut p"
  obtains i w w' where "workers p i = Some w" and "workers p' = (workers p)(i \<mapsto> w')"
    and "(wk_phase w, wk_phase w') \<in> {(Registered, Stopped), (Stopped, Unregistered), (Unregistered, Destroyed)}"
    and "all_shut p'"
  using assms
proof (induction rule: pstep.induct)
  case (stop p i w)
  show ?case
    by (rule stop.prems(1) [of i w "w\<lparr>wk_phase := Stopped\<rparr>"])
      (use stop in \<open>auto simp: set_worker_def all_shut_def split: if_splits\<close>)
next
  case (leave p i w)
  show ?case
    by (rule leave.prems(1) [of i w "w\<lparr>wk_phase := Unregistered\<rparr>"])
      (use leave in \<open>auto simp: set_worker_def all_shut_def split: if_splits\<close>)
next
  case (destroy p i w)
  show ?case
    by (rule destroy.prems(1) [of i w "w\<lparr>wk_phase := Destroyed, wk_srv := Srv_Shutdown (wk_srv w)\<rparr>"])
      (use destroy in \<open>auto simp: set_worker_def all_shut_def Srv_Shutdown_def split: if_splits\<close>)
qed (auto simp: all_shut_def)

lemma all_shut_work:
  assumes "sstep H m w0 s s'" and "all_shut (sv_proc s)" and "loops_ok m s"
  shows "all_shut (sv_proc s') \<and> service_work s' < service_work s"
  using assms
proof (induction rule: sstep.induct)
  case (thread s p)
  obtain i w w' where w: "workers (sv_proc s) i = Some w" "workers p = (workers (sv_proc s))(i \<mapsto> w')"
    "(wk_phase w, wk_phase w') \<in> {(Registered, Stopped), (Stopped, Unregistered), (Unregistered, Destroyed)}"
    "all_shut p"
    using thread(2,4) by (rule all_shut_step)
  have "service_work (s\<lparr>sv_proc := p\<rparr>) < service_work s"
    by (rule service_work_less [of _ _ i])
      (use w thread(4) in \<open>auto simp: all_shut_def worker_work_def\<close>)
  then show ?case using w(4) by simp
next
  case (spawn s i)
  have "cq_shut i (sv_proc s)" using spawn by (blast intro: all_shut_cq)
  moreover have "loop_work (start_loop True w) = 1" for w :: 'b
    by (simp add: loop_work_def streams_work_def start_loop_def Spawn_def fsm_init_def)
  ultimately have "service_work (s\<lparr>sv_loops := (sv_loops s)(i \<mapsto> start_loop (cq_shut i (sv_proc s)) (w0 i))\<rparr>) < service_work s"
    by (intro service_work_less [of _ _ i])
      (use spawn in \<open>auto simp: all_shut_def worker_work_def in_phase_def split: option.splits\<close>)
  then show ?case using spawn by simp
next
  case (next_event s i l e f)
  have "cq_shut i (sv_proc s)" using next_event by (blast intro: all_shut_cq)
  moreover have "loop_work (after_event True (ev_tag e) f l) < loop_work l"
    by (rule event_work [where m = "m i" and H = "H i"]) (use next_event in \<open>auto simp: loops_ok_def\<close>)
  ultimately have "service_work (s\<lparr>sv_loops := (sv_loops s)(i \<mapsto>
      after_event (cq_shut i (sv_proc s)) (ev_tag e) f l)\<rparr>) < service_work s"
    by (intro service_work_less [of _ _ i])
      (use next_event in \<open>auto simp: all_shut_def worker_work_def in_phase_def split: option.splits\<close>)
  then show ?case using next_event by simp
next
  case (next_throws s i l e x)
  have "worker_work (s\<lparr>sv_abort := Some x\<rparr>) j = worker_work s j" for j
    by (rule worker_work_cong) simp_all
  then show ?case using next_throws by (simp add: service_work_def)
qed

lemma all_shut_run:
  assumes "(sstep H m w0 ^^ n) s s'" and "all_shut (sv_proc s)" and "loops_ok m s" and "\<forall>i. m i \<le> INT_MAX"
  shows "all_shut (sv_proc s') \<and> loops_ok m s' \<and> service_work s' + n \<le> service_work s"
  using assms
proof (induction n arbitrary: s')
  case (Suc n)
  then obtain t where t: "(sstep H m w0 ^^ n) s t" "sstep H m w0 t s'" by auto
  then have "all_shut (sv_proc t)" "loops_ok m t" "service_work t + n \<le> service_work s"
    using Suc.IH [OF t(1)] Suc.prems by auto
  then show ?case
    using all_shut_work [OF t(2)] loops_ok_step [OF t(2) _ Suc.prems(4)] by fastforce
qed simp

text \<open>Some step is possible until every worker has ended.\<close>

lemma all_shut_progress:
  assumes "all_shut (sv_proc s)" and "loops_ok m s" and "sv_abort s = None" and "\<forall>i. m i \<le> INT_MAX"
    and "workers (sv_proc s) i = Some w" and "wk_phase w \<noteq> Destroyed"
  shows "\<exists>s'. sstep H m w0 s s'"
proof (cases "wk_phase w")
  case Registered
  then have r: "in_phase Registered i (sv_proc s)" using assms(5) by (simp add: in_phase_def)
  show ?thesis
  proof (cases "sv_loops s i")
    case None
    then show ?thesis using sstep.spawn [OF assms(3) r] by blast
  next
    case (Some l)
    show ?thesis
    proof (cases "pending (rl_fsm l) = Map.empty")
      case True
      have "pstep (sv_proc s) (set_worker i (w\<lparr>wk_phase := Stopped\<rparr>) (sv_proc s))"
        using assms(1,5) Registered by (intro pstep.stop) (auto simp: all_shut_def)
      moreover have "drained i s" using True Some by (simp add: drained_def)
      ultimately show ?thesis using assms(3) by (blast intro: thread_moves)
    next
      case False
      then obtain t where t: "t \<in> dom (pending (rl_fsm l))" by (metis all_not_in_conv dom_eq_empty_conv)
      let ?e = "\<lparr>ev_tag = t, ev_ok = False, ev_request = undefined\<rparr>"
      have "fsm_ok (m i) (rl_fsm l)" using assms(2) Some by (simp add: loops_ok_def)
      then obtain f where "on_event (H i) (m i) ?e (rl_fsm l) = Inr f"
        using failing_event [of "m i" "rl_fsm l" ?e "H i"] t by auto
      then show ?thesis
        using sstep.next_event [OF assms(3) r Some, where e = ?e and H = H and m = m and f = f] t by auto
    qed
  qed
next
  case Stopped
  then have "\<not> in_phase Registered i (sv_proc s)" using assms(5) by (simp add: in_phase_def)
  then show ?thesis
    using thread_moves [OF assms(3) pstep.leave [OF assms(5) Stopped], of H m w0] by auto
next
  case Unregistered
  then have "\<not> in_phase Registered i (sv_proc s)" using assms(5) by (simp add: in_phase_def)
  then show ?thesis
    using thread_moves [OF assms(3) pstep.destroy [OF assms(5) Unregistered], of H m w0] by auto
qed (use assms(1,5,6) in \<open>auto simp: all_shut_def\<close>)


text \<open>The bound in numbers of streams.\<close>

definition open_streams :: "'w running_service \<Rightarrow> nat \<Rightarrow> nat" where
  "open_streams s i = (case sv_loops s i of None \<Rightarrow> 0 | Some l \<Rightarrow> card (dom (streams (rl_fsm l))))"

lemma loop_work_le: "loop_work l \<le> 4 * card (dom (streams (rl_fsm l)))"
proof -
  have "loop_work l \<le> (\<Sum>t\<in>dom (streams (rl_fsm l)). 4)"
    unfolding loop_work_def streams_work_def by (rule sum_mono) (rule cost_le)
  then show ?thesis by simp
qed

lemma service_work_le:
  "service_work s \<le> 1 + (\<Sum>i\<in>dom (workers (sv_proc s)). 5 + 4 * open_streams s i)"
proof -
  have "worker_work s i \<le> 5 + 4 * open_streams s i" for i
    by (cases "sv_loops s i")
      (auto simp: worker_work_def open_streams_def intro: le_SucI loop_work_le
        split: option.split phase.split)
  then have "(\<Sum>i\<in>dom (workers (sv_proc s)). worker_work s i) \<le>
      (\<Sum>i\<in>dom (workers (sv_proc s)). 5 + 4 * open_streams s i)" by (intro sum_mono) auto
  then show ?thesis by (simp add: service_work_def)
qed

text \<open>After a shutdown that found every server registered.\<close>

lemma shutdown_leaves_all_shut:
  assumes "starting p0" and "finite (dom (workers p0))" and "dom (callers p0) = {c}" and "pstep\<^sup>*\<^sup>* p0 p"
    and "callers p c = Some Waiting" and "\<forall>i w. workers p i = Some w \<longrightarrow> wk_phase w = Registered"
    and "pstep\<^sup>*\<^sup>* p p'" and "callers p' c = Some Returned"
  shows "all_shut p'"
proof -
  have run: "pstep\<^sup>*\<^sup>* p0 p'" using assms(4,7) by simp
  have ok: "proc_ok p" using single_ok_steps [OF assms(4,1,3)] by simp
  have end_ok: "proc_ok p'" "dom (callers p') \<subseteq> {c}"
    using single_ok_steps [OF run assms(1,3)] by (simp_all add: single_ok_def)
  have "reached c p" using assms(5,6) by (simp add: reached_def)
  then have r: "reached c p'" using reached_steps [OF assms(7) ok] by simp
  have "finite (dom (workers p'))" using psteps_dom [OF run] assms(2) by simp
  moreover have "\<forall>d x. callers p' d = Some x \<longrightarrow> x = Returned" using end_ok(2) assms(8) by fastforce
  moreover have "wk_phase w \<notin> {Constructed, Built} \<and> shutdown_done (wk_srv w) \<and>
      srv_cq (wk_srv w) (wk_vendor w) = Some False" if "workers p' i = Some w" for i w
    using r end_ok(1) assms(8) that by (fastforce simp: reached_def proc_ok_def worker_ok_def)
  ultimately show ?thesis by (simp add: all_shut_def)
qed

section \<open>A small process\<close>

text \<open>One worker and one thread that shuts down: the worker gets as far as its loop, the
  shutdown reaches it, the pending accept fails.\<close>

definition demo :: "phase \<Rightarrow> Srv \<Rightarrow> nat list \<Rightarrow> caller \<Rightarrow> (nat \<rightharpoonup> nat run_loop) \<Rightarrow> nat running_service" where
  "demo p srv g c ls =
     \<lparr>sv_proc = \<lparr>workers = [0 \<mapsto> \<lparr>wk_vendor = Cisco, wk_phase = p, wk_srv = srv\<rparr>], g_active_servers = g,
        callers = [7 \<mapsto> c]\<rparr>, sv_loops = ls, sv_abort = None\<rparr>"

definition demo_up :: Srv where
  "demo_up = started \<lparr>wk_vendor = Cisco, wk_phase = Constructed, wk_srv = new_Srv\<rparr>"

abbreviation demo_step :: "nat running_service \<Rightarrow> nat running_service \<Rightarrow> bool" where
  "demo_step \<equiv> sstep (\<lambda>i. sample_handler) (\<lambda>i. 5) (\<lambda>i. 0)"

abbreviation demo_loop :: "nat \<rightharpoonup> nat run_loop" where
  "demo_loop \<equiv> [0 \<mapsto> start_loop False 0]"

definition demo_end :: "nat run_loop" where
  "demo_end = \<lparr>rl_fsm = \<lparr>streams = Map.empty, pending = Map.empty, next_tag = 1, world = 0\<rparr>, rl_late = {0, 1}\<rparr>"

lemma demo_thread:
  assumes "pstep (sv_proc (demo p srv g c ls)) (sv_proc (demo p' srv' g' c' ls))" and "p = Registered \<longrightarrow> p' = Registered"
  shows "demo_step (demo p srv g c ls) (demo p' srv' g' c' ls)"
proof -
  have "demo_step (demo p srv g c ls) ((demo p srv g c ls)\<lparr>sv_proc := sv_proc (demo p' srv' g' c' ls)\<rparr>)"
    using assms by (intro sstep.thread) (auto simp: demo_def in_phase_def split: if_splits)
  then show ?thesis by (simp add: demo_def)
qed

lemma demo_registers:
  "demo_step\<^sup>*\<^sup>* (demo Constructed new_Srv [] Waiting Map.empty) (demo Registered demo_up [0] Waiting Map.empty)"
proof -
  have "demo_step (demo Constructed new_Srv [] Waiting Map.empty) (demo Built demo_up [] Waiting Map.empty)"
    by (rule demo_thread, rule pstep_eq [OF pstep.build [where i = 0]])
      (simp add: demo_def set_worker_def demo_up_def)+
  moreover have "demo_step (demo Built demo_up [] Waiting Map.empty) (demo Registered demo_up [0] Waiting Map.empty)"
    by (rule demo_thread, rule pstep_eq [OF pstep.enter [where i = 0]])
      (simp add: demo_def set_worker_def register_server_def)+
  ultimately show ?thesis by (simp add: converse_rtranclp_into_rtranclp)
qed

lemma demo_shutdown:
  "demo_step\<^sup>*\<^sup>* (demo Registered demo_up [0] Waiting ls) (demo Registered (Srv_Shutdown demo_up) [0] Returned ls)"
proof -
  have "demo_step (demo Registered demo_up [0] Waiting ls) (demo Registered demo_up [0] (Shutting [0]) ls)"
    by (rule demo_thread, rule pstep_eq [OF pstep.snapshot [where c = 7]]) (simp add: demo_def)+
  moreover have "demo_step (demo Registered demo_up [0] (Shutting [0]) ls)
      (demo Registered (Srv_Shutdown demo_up) [0] (Shutting []) ls)"
    by (rule demo_thread, rule pstep_eq [OF pstep.shut_one [where c = 7 and i = 0]]) (simp add: demo_def set_worker_def)+
  moreover have "demo_step (demo Registered (Srv_Shutdown demo_up) [0] (Shutting []) ls)
      (demo Registered (Srv_Shutdown demo_up) [0] Returned ls)"
    by (rule demo_thread, rule pstep_eq [OF pstep.return [where c = 7]]) (simp add: demo_def)+
  ultimately show ?thesis by (simp add: converse_rtranclp_into_rtranclp)
qed

lemmas demo_srv_defs = demo_def in_phase_def cq_shut_def demo_up_def started_def new_Srv_def Srv_Shutdown_def shut_def

lemma demo_to_loop:
  "demo_step\<^sup>*\<^sup>* (demo Constructed new_Srv [] Waiting Map.empty) (demo Registered demo_up [0] Waiting demo_loop)"
proof -
  have "demo_step (demo Registered demo_up [0] Waiting Map.empty) (demo Registered demo_up [0] Waiting demo_loop)"
    using sstep.spawn [of "demo Registered demo_up [0] Waiting Map.empty" 0 "\<lambda>i. sample_handler" "\<lambda>i. 5" "\<lambda>i. 0"]
    by (simp add: demo_srv_defs)
  then show ?thesis using demo_registers by simp
qed

text \<open>gRPC requires that nothing is started on a completion queue after its \<open>Shutdown\<close>.
  Nothing in the program ensures it: a shutdown between \<open>register_server\<close> and the first
  \<open>Spawn\<close>, say, leaves an accept operation that was started on a queue already shut.\<close>

lemma operation_after_shutdown:
  "\<exists>s l. demo_step\<^sup>*\<^sup>* (demo Constructed new_Srv [] Waiting Map.empty) s \<and> sv_loops s 0 = Some l \<and>
    0 \<in> rl_late l \<and> pending (rl_fsm l) 0 = Some Requesting"
proof -
  let ?s = "demo Registered (Srv_Shutdown demo_up) [0] Returned Map.empty"
    and ?t = "demo Registered (Srv_Shutdown demo_up) [0] Returned [0 \<mapsto> start_loop True 0]"
  have "demo_step ?s ?t"
    using sstep.spawn [of ?s 0 "\<lambda>i. sample_handler" "\<lambda>i. 5" "\<lambda>i. 0"] by (simp add: demo_srv_defs Let_def)
  then have "demo_step\<^sup>*\<^sup>* (demo Constructed new_Srv [] Waiting Map.empty) ?t"
    using rtranclp_trans [OF demo_registers demo_shutdown] by (rule rtranclp.rtrancl_into_rtrancl [rotated])
  then show ?thesis
    by (intro exI [of _ ?t] exI [of _ "start_loop True 0"]) (simp add: demo_def start_loop_def Spawn_def fsm_init_def)
qed

lemma demo_accept_fails:
  "demo_step (demo Registered (Srv_Shutdown demo_up) [0] Returned demo_loop)
     (demo Registered (Srv_Shutdown demo_up) [0] Returned [0 \<mapsto> demo_end])"
proof -
  let ?e = "\<lparr>ev_tag = 0, ev_ok = False, ev_request = 0\<rparr>"
  have "on_event sample_handler 5 ?e (rl_fsm (start_loop False 0)) = Inr (rl_fsm demo_end)"
    by (simp add: fsm_sample_defs start_loop_def demo_end_def)
  then show ?thesis
    using sstep.next_event [of "demo Registered (Srv_Shutdown demo_up) [0] Returned demo_loop" 0 "start_loop False 0" ?e
        "\<lambda>i. sample_handler" "\<lambda>i. 5" "rl_fsm demo_end" "\<lambda>i. 0"]
    by (simp add: demo_srv_defs start_loop_def after_event_def demo_end_def Spawn_def fsm_init_def Let_def)
qed

lemma demo_starting: "starting_service (demo Constructed new_Srv [] Waiting Map.empty)"
  by (simp add: starting_service_def starting_def demo_def split: if_splits)

section \<open>Properties\<close>

text \<open>C12. A stream exists only while its worker is between \<open>register_server\<close> and the end of
  its \<open>FsmCtrl\<close>, whatever the other workers, the clients and the threads that shut down do:
  the context and the delivery handles on the stack of \<open>FsmCtrl\<close> outlive every spawned
  stream.\<close>

theorem streams_within_loop:
  assumes "starting_service s0" and "(sstep H m w0)\<^sup>*\<^sup>* s0 s" and "\<forall>i. m i \<le> INT_MAX"
    and "sv_loops s i = Some l" and "streams (rl_fsm l) t = Some st"
  shows "\<exists>w. workers (sv_proc s) i = Some w \<and> wk_phase w = Registered"
proof -
  have ok: "loops_ok m s" using loops_ok_steps [OF assms(2) loops_ok_init [OF assms(1)] assms(3)] .
  have "\<not> drained i s" using drained_no_streams [OF ok, of i] assms(4,5) by fastforce
  moreover obtain w where w: "workers (sv_proc s) i = Some w" using ok assms(4) by (auto simp: loops_ok_def)
  ultimately have "wk_phase w = Registered"
    using ok assms(4) by (cases "wk_phase w") (auto simp: loops_ok_def in_phase_def)
  then show ?thesis using w by blast
qed

lemma streams_within_loop_witness:
  "\<exists>w. workers (sv_proc (demo Registered demo_up [0] Waiting demo_loop)) 0 = Some w \<and> wk_phase w = Registered"
  by (rule streams_within_loop [OF demo_starting demo_to_loop, of 0 "start_loop False 0" 0 "\<lparr>st_state = Create, st_replies = 0\<rparr>"])
    (simp_all add: INT_MAX_def demo_def start_loop_def Spawn_def fsm_init_def)

text \<open>C11. Once \<open>initiate_shutdown\<close> has returned to a process all of whose servers were
  registered when it was called, the process ends: every thread together can only take
  boundedly many further steps, five for each worker and four for each open stream, whatever
  gRPC and the clients deliver, and when no step is possible any more, every worker has
  run through its \<open>Bind\<close> function and destroyed its server and no stream is left, unless an
  exception of \<open>HandleMessage\<close> or an overflow of \<open>replies_\<close> has terminated the process before.\<close>

theorem shutdown_ends_service:
  assumes "starting_service s0" and "finite (dom (workers (sv_proc s0)))" and "dom (callers (sv_proc s0)) = {c}"
    and "\<forall>i. m i \<le> INT_MAX" and "(sstep H m w0)\<^sup>*\<^sup>* s0 s"
    and "callers (sv_proc s) c = Some Waiting"
    and "\<forall>i w. workers (sv_proc s) i = Some w \<longrightarrow> wk_phase w = Registered"
    and "(sstep H m w0)\<^sup>*\<^sup>* s s'" and "callers (sv_proc s') c = Some Returned"
    and "(sstep H m w0 ^^ n) s' s''"
  shows "n \<le> 1 + (\<Sum>i\<in>dom (workers (sv_proc s')). 5 + 4 * open_streams s' i) \<and>
    ((\<forall>t. \<not> sstep H m w0 s'' t) \<longrightarrow> sv_abort s'' \<noteq> None \<or>
       (\<forall>i w. workers (sv_proc s'') i = Some w \<longrightarrow> wk_phase w = Destroyed \<and>
          (\<exists>l. sv_loops s'' i = Some l \<and> streams (rl_fsm l) = Map.empty)))"
proof -
  have start: "starting (sv_proc s0)" using assms(1) by (simp add: starting_service_def)
  have "(sstep H m w0)\<^sup>*\<^sup>* s0 s'" using assms(5,8) by simp
  then have ok: "loops_ok m s'" using loops_ok_steps loops_ok_init [OF assms(1)] assms(4) by blast
  have "all_shut (sv_proc s')"
    by (rule shutdown_leaves_all_shut [OF start assms(2,3) ssteps_proc [OF assms(5)] assms(6,7)
          ssteps_proc [OF assms(8)] assms(9)])
  from all_shut_run [OF assms(10) this ok assms(4)]
  have e: "all_shut (sv_proc s'')" "loops_ok m s''" "service_work s'' + n \<le> service_work s'" by simp_all
  have "wk_phase w = Destroyed \<and> (\<exists>l. sv_loops s'' i = Some l \<and> streams (rl_fsm l) = Map.empty)"
    if "\<forall>t. \<not> sstep H m w0 s'' t" "sv_abort s'' = None" "workers (sv_proc s'') i = Some w" for i w
  proof -
    have d: "wk_phase w = Destroyed" using all_shut_progress [OF e(1,2) _ assms(4)] that by blast
    then have "drained i s''" using e(2) that(3) by (simp add: loops_ok_def in_phase_def)
    then show ?thesis using d drained_no_streams [OF e(2)] by metis
  qed
  then show ?thesis using e(3) service_work_le [of s'] by fastforce
qed

lemma shutdown_ends_service_witness:
  "\<exists>s' s''. demo_step\<^sup>*\<^sup>* (demo Constructed new_Srv [] Waiting Map.empty) s' \<and>
    callers (sv_proc s') 7 = Some Returned \<and> (demo_step ^^ 1) s' s'' \<and>
    1 \<le> 1 + (\<Sum>i\<in>dom (workers (sv_proc s')). 5 + 4 * open_streams s' i) \<and>
    ((\<forall>t. \<not> demo_step s'' t) \<longrightarrow> sv_abort s'' \<noteq> None \<or>
       (\<forall>i w. workers (sv_proc s'') i = Some w \<longrightarrow> wk_phase w = Destroyed \<and>
          (\<exists>l. sv_loops s'' i = Some l \<and> streams (rl_fsm l) = Map.empty)))"
proof -
  let ?s = "demo Registered demo_up [0] Waiting demo_loop"
    and ?t = "demo Registered (Srv_Shutdown demo_up) [0] Returned demo_loop"
    and ?u = "demo Registered (Srv_Shutdown demo_up) [0] Returned [0 \<mapsto> demo_end]"
  have r: "callers (sv_proc ?t) 7 = Some Returned" by (simp add: demo_def)
  have one: "(demo_step ^^ 1) ?t ?u" using demo_accept_fails by (simp add: relcompp.simps)
  have "1 \<le> 1 + (\<Sum>i\<in>dom (workers (sv_proc ?t)). 5 + 4 * open_streams ?t i) \<and>
    ((\<forall>t. \<not> demo_step ?u t) \<longrightarrow> sv_abort ?u \<noteq> None \<or>
       (\<forall>i w. workers (sv_proc ?u) i = Some w \<longrightarrow> wk_phase w = Destroyed \<and>
          (\<exists>l. sv_loops ?u i = Some l \<and> streams (rl_fsm l) = Map.empty)))"
    by (rule shutdown_ends_service [OF demo_starting _ _ _ demo_to_loop _ _ demo_shutdown r one])
      (simp_all add: demo_def INT_MAX_def split: if_splits)
  then show ?thesis using rtranclp_trans [OF demo_to_loop demo_shutdown] r one by blast
qed

end
