(* ===== verification/Commit_Queue.thy ===== *)
theory Commit_Queue
  imports Prelude "HOL-Library.Multiset"
begin

text \<open>
  \<open>include/kafka/addons/UnorderedOffsetCommitQueue.h\<close>: the binary heap in a vector and the queue
  that turns acknowledgements in any order into offsets to commit. The heap is an instance of
  the interface \<open>priority_queue\<close>; the queue's lemmas only use that. The properties relate the
  queue to its purpose: what it offers for commit is the end of the longest prefix of the
  received offsets that is acknowledged.
\<close>

section \<open>Heap\<close>

text \<open>\<open>std::swap\<close> of two elements of \<open>data\<close>.\<close>

definition swap_at :: "'a list \<Rightarrow> nat \<Rightarrow> nat \<Rightarrow> 'a list" where
  "swap_at d i j = d[i := d ! j, j := d ! i]"

lemma length_swap_at [simp]: "length (swap_at d i j) = length d"
  by (simp add: swap_at_def)

definition parent :: "nat \<Rightarrow> nat" where
  "parent i = (i + 1) div 2 - 1"

lemma parent_less [termination_simp]: "0 < i \<Longrightarrow> parent i < i"
  by (simp add: parent_def)

fun sift_up :: "('a::linorder) list \<Rightarrow> nat \<Rightarrow> 'a list" where
  "sift_up d i =
     (if i = 0 then d
      else if \<not> (d ! i < d ! parent i) then d
      else sift_up (swap_at d i (parent i)) (parent i))"

declare sift_up.simps [simp del]

definition Heap_push :: "('a::linorder) \<Rightarrow> 'a list \<Rightarrow> 'a list" where
  "Heap_push t d = sift_up (d @ [t]) (length d)"

text \<open>\<open>indexMinChild\<close>: the right child is \<open>(i + 1) * 2\<close>, the left one before it.\<close>

definition min_child :: "('a::linorder) list \<Rightarrow> nat \<Rightarrow> nat" where
  "min_child d i =
     (let r = (i + 1) * 2; l = r - 1 in if r \<ge> length d \<or> d ! l < d ! r then l else r)"

function sift_down :: "('a::linorder) list \<Rightarrow> nat \<Rightarrow> 'a list" where
  "sift_down d i =
     (if (i + 1) * 2 - 1 \<ge> length d then d
      else if \<not> (d ! min_child d i < d ! i) then d
      else sift_down (swap_at d i (min_child d i)) (min_child d i))"
  by auto
termination
  by (relation "measure (\<lambda>(d, i). length d - i)") (auto simp: min_child_def Let_def)

declare sift_down.simps [simp del]

text \<open>\<open>back()\<close> and \<open>data[0]\<close> of an empty vector are undefined.\<close>

definition Heap_front :: "'a list \<Rightarrow> 'a res" where
  "Heap_front d = (if d = [] then Inl (Undefined Index_out_of_bounds) else Inr (d ! 0))"

definition Heap_pop_front :: "('a::linorder) list \<Rightarrow> 'a list res" where
  "Heap_pop_front d =
     (if d = [] then Inl (Undefined Index_out_of_bounds)
      else let d = butlast (d[0 := last d])
           in if d = [] then Inr d else Inr (sift_down d 0))"

section \<open>The heap as a priority queue\<close>

definition heap :: "('a::linorder) list \<Rightarrow> bool" where
  "heap d = (\<forall>i<length d. 0 < i \<longrightarrow> d ! parent i \<le> d ! i)"

lemma mset_swap_at: "i < length d \<Longrightarrow> j < length d \<Longrightarrow> mset (swap_at d i j) = mset d"
  unfolding swap_at_def by (rule mset_swap)

lemma nth_swap_at:
  "i < length d \<Longrightarrow> j < length d \<Longrightarrow> k < length d \<Longrightarrow>
   swap_at d i j ! k = (if k = j then d ! i else if k = i then d ! j else d ! k)"
  by (auto simp: swap_at_def nth_list_update)

lemma mset_sift_up: "i < length d \<Longrightarrow> mset (sift_up d i) = mset d"
proof (induction d i rule: sift_up.induct)
  case (1 d i)
  show ?case
  proof (cases "i = 0 \<or> \<not> (d ! i < d ! parent i)")
    case False
    then have "parent i < length d" using "1.prems" parent_less [of i] by simp
    then show ?thesis using 1 False by (simp add: sift_up.simps [of d i] mset_swap_at)
  qed (auto simp: sift_up.simps [of d i])
qed

text \<open>The order holds but between \<open>i\<close> and its parent.\<close>

definition heap_above :: "('a::linorder) list \<Rightarrow> nat \<Rightarrow> bool" where
  "heap_above d i =
     ((\<forall>j<length d. 0 < j \<longrightarrow> j \<noteq> i \<longrightarrow> d ! parent j \<le> d ! j) \<and>
      (\<forall>j<length d. 0 < j \<longrightarrow> 0 < i \<longrightarrow> parent j = i \<longrightarrow> d ! parent i \<le> d ! j))"

lemma heap_above_swap:
  assumes "heap_above d i" and "0 < i" and "i < length d" and "d ! i < d ! parent i"
  shows "heap_above (swap_at d i (parent i)) (parent i)"
proof -
  let ?p = "parent i"
  have p: "?p < i" "?p < length d" using assms parent_less [of i] by auto
  have a: "\<And>j. j < length d \<Longrightarrow> 0 < j \<Longrightarrow> j \<noteq> i \<Longrightarrow> d ! parent j \<le> d ! j"
    "\<And>j. j < length d \<Longrightarrow> 0 < j \<Longrightarrow> parent j = i \<Longrightarrow> d ! ?p \<le> d ! j"
    using assms(1,2) by (auto simp: heap_above_def)
  have less: "\<And>j. 0 < j \<Longrightarrow> parent j < j" by (rule parent_less)
  show ?thesis
    unfolding heap_above_def length_swap_at
  proof (intro conjI allI impI)
    fix j
    assume j: "j < length d" "0 < j" "j \<noteq> ?p"
    have pj: "parent j < length d" using j less [of j] by simp
    show "swap_at d i ?p ! parent j \<le> swap_at d i ?p ! j"
    proof (cases "j = i")
      case True
      then show ?thesis using assms(3,4) p pj by (simp add: nth_swap_at)
    next
      case False
      have "d ! parent j \<le> d ! j" by (rule a(1) [OF j(1,2) False])
      then show ?thesis
        using a(2) [OF j(1,2)] False assms(3,4) p pj j by (auto simp: nth_swap_at)
    qed
  next
    fix j
    assume j: "j < length d" "0 < j" "0 < ?p" "parent j = ?p"
    have "d ! parent ?p \<le> d ! ?p" using a(1) [OF p(2) j(3)] p by simp
    moreover have "parent ?p < length d" "parent ?p < ?p" using less [OF j(3)] p by auto
    moreover have "j \<noteq> ?p" using less [OF j(2)] j(4) by simp
    moreover have "j \<noteq> i \<longrightarrow> d ! ?p \<le> d ! j" using a(1) [OF j(1,2)] j(4) by metis
    ultimately show "swap_at d i ?p ! parent ?p \<le> swap_at d i ?p ! j"
      using assms(3) p j(1) by (auto simp: nth_swap_at)
  qed
qed

lemma heap_sift_up: "heap_above d i \<Longrightarrow> i < length d \<Longrightarrow> heap (sift_up d i)"
proof (induction d i rule: sift_up.induct)
  case (1 d i)
  show ?case
  proof (cases "i = 0 \<or> \<not> (d ! i < d ! parent i)")
    case True
    have "d ! parent j \<le> d ! j" if "j < length d" "0 < j" for j
      using True "1.prems"(1) that by (cases "j = i") (auto simp: heap_above_def)
    then have "heap d" by (simp add: heap_def)
    then show ?thesis using True by (auto simp: sift_up.simps [of d i])
  next
    case False
    then have "parent i < length d" using "1.prems" parent_less [of i] by simp
    then show ?thesis
      using "1.IH" False heap_above_swap [OF "1.prems"(1)] "1.prems"(2)
      by (simp add: sift_up.simps [of d i])
  qed
qed

lemma Heap_push_ok:
  assumes "heap d"
  shows "heap (Heap_push t d)" and "mset (Heap_push t d) = add_mset t (mset d)"
proof -
  have "heap_above (d @ [t]) (length d)"
    unfolding heap_above_def
  proof (intro conjI allI impI)
    fix j
    assume "j < length (d @ [t])" "0 < j" "j \<noteq> length d"
    then have "j < length d" "parent j < length d" using parent_less [of j] by auto
    then show "(d @ [t]) ! parent j \<le> (d @ [t]) ! j" using assms \<open>0 < j\<close> by (simp add: heap_def nth_append)
  next
    fix j
    assume "j < length (d @ [t])" "0 < j" "parent j = length d"
    then show "(d @ [t]) ! parent (length d) \<le> (d @ [t]) ! j" using parent_less [of j] by simp
  qed
  then show "heap (Heap_push t d)" by (simp add: Heap_push_def heap_sift_up)
  show "mset (Heap_push t d) = add_mset t (mset d)" by (simp add: Heap_push_def mset_sift_up)
qed


text \<open>The order holds but between \<open>i\<close> and its children.\<close>

definition heap_below :: "('a::linorder) list \<Rightarrow> nat \<Rightarrow> bool" where
  "heap_below d i =
     ((\<forall>j<length d. 0 < j \<longrightarrow> parent j \<noteq> i \<longrightarrow> d ! parent j \<le> d ! j) \<and>
      (\<forall>j<length d. 0 < j \<longrightarrow> 0 < i \<longrightarrow> parent j = i \<longrightarrow> d ! parent i \<le> d ! j))"

lemma parent_eq: "0 < j \<Longrightarrow> parent j = i \<longleftrightarrow> j = 2 * i + 1 \<or> j = 2 * i + 2"
  by (auto simp: parent_def)

lemma min_child_eq:
  "min_child d i = (if 2 * i + 2 \<ge> length d \<or> d ! (2 * i + 1) < d ! (2 * i + 2) then 2 * i + 1 else 2 * i + 2)"
  by (simp add: min_child_def Let_def algebra_simps)

lemma min_child:
  assumes "2 * i + 1 < length d"
  shows "min_child d i < length d" and "parent (min_child d i) = i" and "0 < min_child d i"
    and "0 < j \<Longrightarrow> parent j = i \<Longrightarrow> j < length d \<Longrightarrow> d ! min_child d i \<le> d ! j"
proof -
  show "min_child d i < length d" "parent (min_child d i) = i" "0 < min_child d i"
    using assms by (auto simp: min_child_eq parent_eq)
  assume j: "0 < j" "parent j = i" "j < length d"
  then have "j = 2 * i + 1 \<or> j = 2 * i + 2" by (simp add: parent_eq)
  then show "d ! min_child d i \<le> d ! j" using j(3) by (elim disjE) (auto simp: min_child_eq not_less)
qed

lemma sift_down_step:
  "sift_down d i =
     (if length d \<le> 2 * i + 1 then d
      else if \<not> (d ! min_child d i < d ! i) then d
      else sift_down (swap_at d i (min_child d i)) (min_child d i))"
proof -
  have "(i + 1) * 2 - 1 = 2 * i + 1" by simp
  then show ?thesis by (subst sift_down.simps) (simp only:)
qed

lemma heap_below_swap:
  assumes "heap_below d i" and "2 * i + 1 < length d" and "d ! min_child d i < d ! i"
  shows "heap_below (swap_at d i (min_child d i)) (min_child d i)"
proof -
  let ?m = "min_child d i"
  note m = min_child [OF assms(2)]
  have i: "i < length d" "i \<noteq> ?m" using assms(2,3) by auto
  have a: "\<And>j. j < length d \<Longrightarrow> 0 < j \<Longrightarrow> parent j \<noteq> i \<Longrightarrow> d ! parent j \<le> d ! j"
    "\<And>j. j < length d \<Longrightarrow> 0 < j \<Longrightarrow> 0 < i \<Longrightarrow> parent j = i \<Longrightarrow> d ! parent i \<le> d ! j"
    using assms(1) by (auto simp: heap_below_def)
  have less: "\<And>j. 0 < j \<Longrightarrow> parent j < j" by (rule parent_less)
  show ?thesis
    unfolding heap_below_def length_swap_at
  proof (intro conjI allI impI)
    fix j
    assume j: "j < length d" "0 < j" "parent j \<noteq> ?m"
    have pj: "parent j < length d" using j less [of j] by simp
    show "swap_at d i ?m ! parent j \<le> swap_at d i ?m ! j"
    proof (cases "parent j = i")
      case True
      then show ?thesis using m(4) [OF j(2) True j(1)] m(1) i j pj assms(3) less [OF j(2)] by (auto simp: nth_swap_at)
    next
      case False
      have "j = i \<Longrightarrow> d ! parent j \<le> d ! ?m" using a(2) [OF m(1,3) _ m(2)] j(2) by simp
      moreover have "j \<noteq> ?m" using False m(2) by auto
      ultimately show ?thesis using a(1) [OF j(1,2) False] m(1) i j pj False by (auto simp: nth_swap_at)
    qed
  next
    fix j
    assume j: "j < length d" "0 < j" "0 < ?m" "parent j = ?m"
    have "d ! ?m \<le> d ! j" using a(1) [OF j(1,2)] j(4) i(2) by metis
    moreover have "j \<noteq> ?m" "j \<noteq> i" using less [OF j(2)] j(4) less [OF m(3)] m(2) by auto
    ultimately show "swap_at d i ?m ! parent ?m \<le> swap_at d i ?m ! j"
      using m(1,2) i j(1) by (auto simp: nth_swap_at)
  qed
qed

lemma sift_down_ok:
  "heap_below d i \<Longrightarrow> i < length d \<Longrightarrow> heap (sift_down d i) \<and> mset (sift_down d i) = mset d"
proof (induction "length d - i" arbitrary: d i rule: less_induct)
  case less
  show ?case
  proof (cases "2 * i + 1 < length d \<and> d ! min_child d i < d ! i")
    case True
    note m = min_child [of i d]
    have "i < min_child d i" by (simp add: min_child_eq)
    then show ?thesis
      using less.hyps [of "swap_at d i (min_child d i)" "min_child d i"] heap_below_swap [OF less.prems(1)]
        True m(1) less.prems(2)
      by (simp add: sift_down_step [of d i] mset_swap_at)
  next
    case False
    then have id: "sift_down d i = d" by (auto simp: sift_down_step [of d i])
    have "d ! parent j \<le> d ! j" if j: "j < length d" "0 < j" for j
    proof (cases "parent j = i")
      case True
      then have c: "2 * i + 1 < length d" using j parent_eq [of j i] by auto
      then show ?thesis using min_child(4) [OF c j(2) True j(1)] False True by auto
    next
      case False
      then show ?thesis using less.prems(1) j by (simp add: heap_below_def)
    qed
    then show ?thesis using id by (simp add: heap_def)
  qed
qed

lemma Heap_pop_front_ok:
  assumes "heap d" and "d \<noteq> []"
  obtains d' where "Heap_pop_front d = Inr d'" and "heap d'" and "mset d = add_mset (d ! 0) (mset d')"
proof -
  obtain x xs where d: "d = x # xs" using assms(2) by (cases d) auto
  show thesis
  proof (cases "xs = []")
    case True
    then show thesis using that [of "[]"] d by (simp add: Heap_pop_front_def heap_def)
  next
    case False
    let ?d = "last xs # butlast xs"
    have ne: "\<And>j. 0 < j \<Longrightarrow> j < length ?d \<Longrightarrow> ?d ! j = d ! j"
      using False d by (auto simp: nth_Cons' nth_butlast)
    have "heap_below ?d 0"
      unfolding heap_below_def
    proof (intro conjI allI impI)
      fix j
      assume j: "j < length ?d" "0 < j" "parent j \<noteq> 0"
      then have "parent j < length ?d" using parent_less [of j] by simp
      then have "?d ! parent j = d ! parent j" using j(3) by (intro ne) simp
      moreover have "d ! parent j \<le> d ! j" using assms(1) j(1,2) d by (auto simp: heap_def)
      ultimately show "?d ! parent j \<le> ?d ! j" using ne [OF j(2,1)] by simp
    qed simp
    then have "heap (sift_down ?d 0)" "mset (sift_down ?d 0) = mset ?d" using sift_down_ok [of ?d 0] by auto
    moreover have "mset ?d = mset xs" using False by (metis append_butlast_last_id mset.simps(2) mset_append
          mset_single_iff_right add_mset_add_single mset.simps(1))
    ultimately show thesis
      using that [of "sift_down ?d 0"] d False by (simp add: Heap_pop_front_def)
  qed
qed

lemma heap_front_le:
  assumes "heap d" and "i < length d"
  shows "d ! 0 \<le> d ! i"
  using assms(2)
proof (induction i rule: less_induct)
  case (less i)
  show ?case
  proof (cases "i = 0")
    case False
    then have "d ! 0 \<le> d ! parent i" "d ! parent i \<le> d ! i"
      using less parent_less [of i] assms(1) by (auto simp: heap_def)
    then show ?thesis by (rule order_trans)
  qed simp
qed


text \<open>What the queue needs of its heap: the multiset it holds, and that the front is least.\<close>

locale priority_queue =
  fixes invar :: "'h \<Rightarrow> bool"
    and content :: "'h \<Rightarrow> int multiset"
    and push :: "int \<Rightarrow> 'h \<Rightarrow> 'h"
    and front :: "'h \<Rightarrow> int res"
    and pop_front :: "'h \<Rightarrow> 'h res"
  assumes push_ok: "invar h \<Longrightarrow> invar (push x h) \<and> content (push x h) = add_mset x (content h)"
    and front_ok: "invar h \<Longrightarrow> content h \<noteq> {#} \<Longrightarrow>
      \<exists>x. front h = Inr x \<and> x \<in># content h \<and> (\<forall>y\<in>#content h. x \<le> y)"
    and pop_ok: "invar h \<Longrightarrow> front h = Inr x \<Longrightarrow> \<exists>h'. pop_front h = Inr h' \<and> invar h' \<and>
      content h = add_mset x (content h')"
begin

text \<open>A heap that holds a set: the front is its minimum, popping removes it.\<close>

lemma front_Min:
  assumes "invar h" and "content h = mset_set A" and "finite A" and "A \<noteq> {}"
  shows "front h = Inr (Min A)"
proof -
  obtain x where x: "front h = Inr x" "x \<in> A" "\<forall>y\<in>A. x \<le> y"
    using front_ok [OF assms(1)] assms(2-4) by (auto simp: mset_set_empty_iff)
  then have "Min A = x" using assms(3) by (intro Min_eqI) auto
  then show ?thesis using x(1) by simp
qed

lemma pop_Min:
  assumes "invar h" and "content h = mset_set A" and "finite A" and "A \<noteq> {}"
  shows "\<exists>h'. pop_front h = Inr h' \<and> invar h' \<and> content h' = mset_set (A - {Min A})"
proof -
  obtain h' where h: "pop_front h = Inr h'" "invar h'" "content h = add_mset (Min A) (content h')"
    using pop_ok [OF assms(1) front_Min [OF assms]] by blast
  have "mset_set A = add_mset (Min A) (mset_set (A - {Min A}))"
    using assms(3,4) by (intro mset_set.remove) auto
  then have "content h' = mset_set (A - {Min A})" using h(3) assms(2) by simp
  then show ?thesis using h by blast
qed

lemma push_set:
  assumes "invar h" and "content h = mset_set A" and "finite A" and "x \<notin> A"
  shows "invar (push x h) \<and> content (push x h) = mset_set (insert x A)"
  using push_ok [OF assms(1), of x] assms(2-4) by simp

end

interpretation offsets: priority_queue heap mset Heap_push Heap_front Heap_pop_front
proof
  fix h :: "int list" and x
  assume h: "heap h"
  show "heap (Heap_push x h) \<and> mset (Heap_push x h) = add_mset x (mset h)"
    using Heap_push_ok [OF h] by blast
  show "\<exists>x. Heap_front h = Inr x \<and> x \<in># mset h \<and> (\<forall>y\<in>#mset h. x \<le> y)" if "mset h \<noteq> {#}"
    using that heap_front_le [OF h] by (auto simp: Heap_front_def in_set_conv_nth)
  show "\<exists>h'. Heap_pop_front h = Inr h' \<and> heap h' \<and> mset h = add_mset x (mset h')" if "Heap_front h = Inr x"
    using that Heap_pop_front_ok [OF h] by (auto simp: Heap_front_def split: if_splits)
qed

section \<open>The queue\<close>

record UnorderedOffsetCommitQueue =
  offsetsReceived :: "int list"
  offsetsToCommit :: "int list"
  toCommit :: int
  committed :: int

definition INVALID_OFFSET :: int where "INVALID_OFFSET = -1"

definition new_CommitQueue :: UnorderedOffsetCommitQueue where
  "new_CommitQueue = \<lparr>offsetsReceived = [], offsetsToCommit = [], toCommit = INVALID_OFFSET, committed = INVALID_OFFSET\<rparr>"

definition queue_size :: "UnorderedOffsetCommitQueue \<Rightarrow> nat" where
  "queue_size q = length (offsetsReceived q)"

definition waitOffset :: "int \<Rightarrow> UnorderedOffsetCommitQueue \<Rightarrow> UnorderedOffsetCommitQueue" where
  "waitOffset off q =
     (if off < 0 \<or> (offsetsReceived q \<noteq> [] \<and> off \<le> last (offsetsReceived q)) then q
      else q\<lparr>offsetsReceived := offsetsReceived q @ [off]\<rparr>)"

text \<open>\<open>front\<close>, \<open>back\<close> of an empty deque are undefined; so is adding one to the greatest 64-bit
  number.\<close>

definition deque_front :: "int list \<Rightarrow> int res" where
  "deque_front d = (if d = [] then Inl (Undefined Index_out_of_bounds) else Inr (hd d))"

definition deque_back :: "int list \<Rightarrow> int res" where
  "deque_back d = (if d = [] then Inl (Undefined Index_out_of_bounds) else Inr (last d))"

definition next_offset :: "int \<Rightarrow> int res" where
  "next_offset off = (if off = 2 ^ 63 - 1 then Inl (Undefined Signed_overflow) else Inr (off + 1))"

lemma Heap_pop_front_length: "Heap_pop_front h = Inr h' \<Longrightarrow> length h' < length h"
proof -
  have "length (sift_down d i) = length d" for d :: "'a list" and i
    by (induction d i rule: sift_down.induct) (subst sift_down.simps, auto)
  then show "Heap_pop_front h = Inr h' \<Longrightarrow> length h' < length h"
    by (auto simp: Heap_pop_front_def Let_def split: if_splits)
qed

text \<open>The \<open>do\<close> loop of \<open>ackOffset\<close>.\<close>

function ack_loop :: "UnorderedOffsetCommitQueue \<Rightarrow> UnorderedOffsetCommitQueue res" where
  "ack_loop q =
     bindr (Heap_front (offsetsToCommit q)) (\<lambda>minOffsetToCommit.
     bindr (deque_front (offsetsReceived q)) (\<lambda>expectedOffset.
       if minOffsetToCommit = expectedOffset then
         bindr (next_offset expectedOffset) (\<lambda>n.
         bindr (Heap_pop_front (offsetsToCommit q)) (\<lambda>h.
           let q = q\<lparr>toCommit := n, offsetsToCommit := h, offsetsReceived := tl (offsetsReceived q)\<rparr>
           in if h \<noteq> [] then ack_loop q else Inr q))
       else if minOffsetToCommit < expectedOffset then
         bindr (Heap_pop_front (offsetsToCommit q)) (\<lambda>h.
           let q = q\<lparr>offsetsToCommit := h\<rparr>
           in if h \<noteq> [] then ack_loop q else Inr q)
       else Inr q))"
  by auto
termination
  by (relation "measure (\<lambda>q. length (offsetsToCommit q))") (auto dest: Heap_pop_front_length)

declare ack_loop.simps [simp del]

definition ackOffset :: "int \<Rightarrow> UnorderedOffsetCommitQueue \<Rightarrow> UnorderedOffsetCommitQueue res" where
  "ackOffset off q =
     bindr (deque_back (offsetsReceived q)) (\<lambda>maxOffsetReceived.
       ack_loop (q\<lparr>offsetsToCommit := Heap_push off (offsetsToCommit q)\<rparr>))"

definition popOffsetToCommit :: "UnorderedOffsetCommitQueue \<Rightarrow> int option \<times> UnorderedOffsetCommitQueue" where
  "popOffsetToCommit q =
     (if committed q \<noteq> toCommit q then (Some (toCommit q), q\<lparr>committed := toCommit q\<rparr>) else (None, q))"

definition lastPoppedOffset :: "UnorderedOffsetCommitQueue \<Rightarrow> int option" where
  "lastPoppedOffset q = (if committed q \<noteq> INVALID_OFFSET then Some (committed q) else None)"


section \<open>The loop\<close>

lemma heap_empty_iff: "mset h = mset_set A \<Longrightarrow> finite A \<Longrightarrow> h = [] \<longleftrightarrow> A = {}"
  by (metis mset_set_empty_iff mset_zero_iff)

lemma Min_head:
  assumes "sorted_wrt (<) (x # D)" and "B \<subseteq> set (x # D)" and "B \<noteq> {}"
  shows "Min B = x \<longleftrightarrow> x \<in> B" and "x \<le> Min B"
proof -
  have fin: "finite B" using assms(2) by (rule finite_subset) simp
  then have "Min B \<in> B" using assms(3) by (rule Min_in)
  then show le: "x \<le> Min B" using assms(1,2) by fastforce
  show "Min B = x \<longleftrightarrow> x \<in> B"
    using le fin \<open>Min B \<in> B\<close> Min_le [OF fin, of x] by (metis order_antisym)
qed

text \<open>Acknowledgements \<open>B\<close> among the waiting offsets \<open>D\<close>: the loop takes off the prefix that is
  acknowledged, and the branch for an offset smaller than expected is not reached.\<close>

lemma ack_loop_ok:
  assumes "sorted_wrt (<) D" and "offsetsReceived q = D" and "heap (offsetsToCommit q)"
    and "mset (offsetsToCommit q) = mset_set B" and "B \<subseteq> set D" and "B \<noteq> {}" and "\<forall>x\<in>set D. x < 2 ^ 63 - 1"
  shows "\<exists>q'. ack_loop q = Inr q' \<and> offsetsReceived q' = dropWhile (\<lambda>x. x \<in> B) D \<and>
    heap (offsetsToCommit q') \<and> mset (offsetsToCommit q') = mset_set (B \<inter> set (dropWhile (\<lambda>x. x \<in> B) D)) \<and>
    toCommit q' = (case takeWhile (\<lambda>x. x \<in> B) D of [] \<Rightarrow> toCommit q | xs \<Rightarrow> last xs + 1) \<and>
    committed q' = committed q"
  using assms
proof (induction D arbitrary: q B)
  case Nil
  then show ?case by simp
next
  case (Cons x D)
  have fin: "finite B" using Cons.prems(5) by (rule finite_subset) simp
  note front = offsets.front_Min [OF Cons.prems(3,4) fin Cons.prems(6)]
  note min = Min_head [OF Cons.prems(1,5,6)]
  show ?case
  proof (cases "x \<in> B")
    case False
    then have "ack_loop q = Inr q"
      using front min Cons.prems(2) by (subst ack_loop.simps) (simp add: deque_front_def)
    then show ?thesis
      using False Cons.prems by (simp add: inf.absorb1)
  next
    case True
    then obtain h where h: "Heap_pop_front (offsetsToCommit q) = Inr h" "heap h" "mset h = mset_set (B - {x})"
      using offsets.pop_Min [OF Cons.prems(3,4) fin Cons.prems(6)] min(1) by auto
    let ?q = "q\<lparr>toCommit := x + 1, offsetsToCommit := h, offsetsReceived := D\<rparr>"
    have run: "ack_loop q = (if h \<noteq> [] then ack_loop ?q else Inr ?q)"
      using front min True Cons.prems(2,7) h(1)
      by (subst ack_loop.simps) (simp add: deque_front_def next_offset_def)
    have sub: "B - {x} \<subseteq> set D" and nx: "x \<notin> set D" using Cons.prems(1,5) by auto
    have same: "\<forall>y\<in>set D. (y \<in> B) = (y \<in> B - {x})" using nx by auto
    have dw: "dropWhile (\<lambda>y. y \<in> B) D = dropWhile (\<lambda>y. y \<in> B - {x}) D"
      "takeWhile (\<lambda>y. y \<in> B) D = takeWhile (\<lambda>y. y \<in> B - {x}) D"
      using same by (simp_all cong: dropWhile_cong takeWhile_cong)
    have "set (dropWhile (\<lambda>y. y \<in> B) D) \<subseteq> set D" by (auto dest: set_dropWhileD)
    then have int: "(B - {x}) \<inter> set (dropWhile (\<lambda>y. y \<in> B) D) = B \<inter> set (dropWhile (\<lambda>y. y \<in> B) D)"
      using nx by auto
    show ?thesis
    proof (cases "B - {x} = {}")
      case True
      then have "h = []" "\<forall>y\<in>set D. y \<notin> B" using h(3) heap_empty_iff [of h "B - {x}"] fin nx by auto
      moreover from this have "dropWhile (\<lambda>y. y \<in> B) D = D" "takeWhile (\<lambda>y. y \<in> B) D = []"
        by (cases D; simp)+
      moreover have "B \<inter> set D = {}" using calculation(2) by auto
      ultimately show ?thesis using run \<open>x \<in> B\<close> h(2) by simp
    next
      case False
      then have "h \<noteq> []" using h(3) heap_empty_iff [of h "B - {x}"] fin by auto
      moreover obtain q' where "ack_loop ?q = Inr q'" "offsetsReceived q' = dropWhile (\<lambda>y. y \<in> B) D"
        "heap (offsetsToCommit q')" "mset (offsetsToCommit q') = mset_set (B \<inter> set (dropWhile (\<lambda>y. y \<in> B) D))"
        "toCommit q' = (case takeWhile (\<lambda>y. y \<in> B) D of [] \<Rightarrow> toCommit ?q | xs \<Rightarrow> last xs + 1)"
        "committed q' = committed q"
        using Cons.IH [of ?q "B - {x}"] Cons.prems(1,7) h(2,3) sub False unfolding dw [symmetric] int by auto
      ultimately show ?thesis using run \<open>x \<in> B\<close> by (simp split: list.split)
    qed
  qed
qed

section \<open>The queue's contract\<close>

text \<open>Received offsets \<open>R\<close> in order, acknowledged ones \<open>A\<close>: the first offset after the prefix.\<close>

definition frontier :: "int list \<Rightarrow> int set \<Rightarrow> int" where
  "frontier R A = (case takeWhile (\<lambda>x. x \<in> A) R of [] \<Rightarrow> INVALID_OFFSET | xs \<Rightarrow> last xs + 1)"

definition queue_ok :: "int list \<Rightarrow> int set \<Rightarrow> UnorderedOffsetCommitQueue \<Rightarrow> bool" where
  "queue_ok R A q =
     (sorted_wrt (<) R \<and> A \<subseteq> set R \<and> (\<forall>x\<in>set R. 0 \<le> x \<and> x < 2 ^ 63 - 1) \<and>
      offsetsReceived q = dropWhile (\<lambda>x. x \<in> A) R \<and> heap (offsetsToCommit q) \<and>
      mset (offsetsToCommit q) = mset_set (A \<inter> set (dropWhile (\<lambda>x. x \<in> A) R)) \<and>
      toCommit q = frontier R A)"

lemma queue_ok_new: "queue_ok [] {} new_CommitQueue"
  by (simp add: queue_ok_def new_CommitQueue_def frontier_def heap_def)

lemma dropWhile_append_new: "x \<notin> A \<Longrightarrow> dropWhile (\<lambda>x. x \<in> A) (R @ [x]) = dropWhile (\<lambda>x. x \<in> A) R @ [x]"
  by (induction R) auto

lemma takeWhile_append_new: "x \<notin> A \<Longrightarrow> takeWhile (\<lambda>x. x \<in> A) (R @ [x]) = takeWhile (\<lambda>x. x \<in> A) R"
  by (induction R) auto

lemma waitOffset_ok:
  assumes "queue_ok R A q" and "0 \<le> x" and "\<forall>r\<in>set R. r < x" and "x < 2 ^ 63 - 1"
  shows "queue_ok (R @ [x]) A (waitOffset x q)" and "committed (waitOffset x q) = committed q"
proof -
  have n: "x \<notin> A" using assms(1,3) by (auto simp: queue_ok_def)
  have "last (offsetsReceived q) < x" if "offsetsReceived q \<noteq> []"
  proof -
    have "last (offsetsReceived q) \<in> set (dropWhile (\<lambda>x. x \<in> A) R)"
      using last_in_set [OF that] assms(1) by (simp add: queue_ok_def)
    then show ?thesis using assms(3) set_dropWhileD by metis
  qed
  then have w: "waitOffset x q = q\<lparr>offsetsReceived := offsetsReceived q @ [x]\<rparr>"
    using assms(2) by (auto simp: waitOffset_def)
  then show "committed (waitOffset x q) = committed q" by simp
  show "queue_ok (R @ [x]) A (waitOffset x q)"
    using assms n unfolding w queue_ok_def
    by (auto simp: dropWhile_append_new takeWhile_append_new frontier_def sorted_wrt_append)
qed

lemma dropWhile_twice: "(\<And>x. P x \<Longrightarrow> Q x) \<Longrightarrow> dropWhile Q (dropWhile P xs) = dropWhile Q xs"
  by (induction xs) auto

lemma takeWhile_twice: "(\<And>x. P x \<Longrightarrow> Q x) \<Longrightarrow> takeWhile Q xs = takeWhile P xs @ takeWhile Q (dropWhile P xs)"
  by (induction xs) auto

lemma ackOffset_ok:
  assumes "queue_ok R A q" and "x \<in> set R" and "x \<notin> A"
  obtains q' where "ackOffset x q = Inr q'" and "queue_ok R (insert x A) q'" and "committed q' = committed q"
proof -
  let ?D = "dropWhile (\<lambda>x. x \<in> A) R"
  let ?B = "insert x A \<inter> set ?D"
  note ok = assms(1) [unfolded queue_ok_def]
  have "x \<in> set (takeWhile (\<lambda>x. x \<in> A) R) \<union> set ?D"
    using assms(2) by (metis set_append takeWhile_dropWhile_id)
  then have x: "x \<in> set ?D" using assms(3) by (auto dest: set_takeWhileD)
  then have bk: "deque_back (offsetsReceived q) = Inr (last ?D)" using ok assms(2,3) by (auto simp: deque_back_def)
  have sorted: "sorted_wrt (<) ?D"
    using ok by (metis sorted_wrt_append takeWhile_dropWhile_id)
  have B: "?B = insert x (A \<inter> set ?D)" using x by auto
  let ?q = "q\<lparr>offsetsToCommit := Heap_push x (offsetsToCommit q)\<rparr>"
  have h: "heap (offsetsToCommit ?q)" "mset (offsetsToCommit ?q) = mset_set ?B"
    using ok offsets.push_set [of "offsetsToCommit q" "A \<inter> set ?D" x] assms(3) unfolding B by auto
  have bound: "\<forall>y\<in>set ?D. y < 2 ^ 63 - 1" using ok by (auto dest: set_dropWhileD)
  obtain q' where q': "ack_loop ?q = Inr q'" "offsetsReceived q' = dropWhile (\<lambda>x. x \<in> ?B) ?D"
    "heap (offsetsToCommit q')" "mset (offsetsToCommit q') = mset_set (?B \<inter> set (dropWhile (\<lambda>x. x \<in> ?B) ?D))"
    "toCommit q' = (case takeWhile (\<lambda>x. x \<in> ?B) ?D of [] \<Rightarrow> toCommit ?q | xs \<Rightarrow> last xs + 1)"
    "committed q' = committed ?q"
    using ack_loop_ok [OF sorted _ h _ _ bound] ok x by auto
  have "dropWhile (\<lambda>x. x \<in> ?B) ?D = dropWhile (\<lambda>y. y \<in> insert x A) ?D"
    "takeWhile (\<lambda>x. x \<in> ?B) ?D = takeWhile (\<lambda>y. y \<in> insert x A) ?D"
    by (rule dropWhile_cong takeWhile_cong; simp)+
  then have dw: "dropWhile (\<lambda>x. x \<in> ?B) ?D = dropWhile (\<lambda>y. y \<in> insert x A) R"
    and tw: "takeWhile (\<lambda>y. y \<in> insert x A) R = takeWhile (\<lambda>y. y \<in> A) R @ takeWhile (\<lambda>x. x \<in> ?B) ?D"
    using dropWhile_twice [of "\<lambda>y. y \<in> A" "\<lambda>y. y \<in> insert x A" R]
      takeWhile_twice [of "\<lambda>y. y \<in> A" "\<lambda>y. y \<in> insert x A" R] by simp_all
  have sub: "set (dropWhile (\<lambda>y. y \<in> insert x A) R) \<subseteq> set ?D"
    using dw by (metis set_dropWhileD subsetI)
  have "toCommit q' = frontier R (insert x A)"
    using q'(5) ok unfolding frontier_def tw by (auto split: list.splits)
  moreover have "?B \<inter> set (dropWhile (\<lambda>x. x \<in> ?B) ?D) = insert x A \<inter> set (dropWhile (\<lambda>y. y \<in> insert x A) R)"
    using sub unfolding dw by auto
  ultimately have "queue_ok R (insert x A) q'"
    using ok assms(2) q'(2-4) dw by (simp add: queue_ok_def)
  then show thesis using that [of q'] q'(1,6) bk by (simp add: ackOffset_def)
qed


text \<open>A client of the queue: records arrive in the order of their offsets, each is acknowledged
  at most once and after it arrived, and it may ask for an offset to commit at any time.\<close>

datatype queue_op = Wait int | Ack int | Pop

definition queue_step :: "queue_op \<Rightarrow> UnorderedOffsetCommitQueue \<Rightarrow> UnorderedOffsetCommitQueue res" where
  "queue_step op q =
     (case op of Wait x \<Rightarrow> Inr (waitOffset x q) | Ack x \<Rightarrow> ackOffset x q | Pop \<Rightarrow> Inr (snd (popOffsetToCommit q)))"

fun well_used :: "int list \<Rightarrow> int set \<Rightarrow> queue_op list \<Rightarrow> bool" where
  "well_used R A [] = True"
| "well_used R A (Wait x # ops) =
     (0 \<le> x \<and> (\<forall>r\<in>set R. r < x) \<and> x < 2 ^ 63 - 1 \<and> well_used (R @ [x]) A ops)"
| "well_used R A (Ack x # ops) = (x \<in> set R \<and> x \<notin> A \<and> well_used R (insert x A) ops)"
| "well_used R A (Pop # ops) = well_used R A ops"

fun waits :: "queue_op list \<Rightarrow> int list" where
  "waits [] = []"
| "waits (Wait x # ops) = x # waits ops"
| "waits (_ # ops) = waits ops"

definition acks :: "queue_op list \<Rightarrow> int set" where
  "acks ops = {x. Ack x \<in> set ops}"

lemma queue_run:
  assumes "queue_ok R A q" and "well_used R A ops"
  shows "\<exists>q'. foldM queue_step ops q = Inr q' \<and> queue_ok (R @ waits ops) (A \<union> acks ops) q'"
  using assms
proof (induction ops arbitrary: R A q)
  case Nil
  then show ?case by (simp add: acks_def)
next
  case (Cons op ops)
  show ?case
  proof (cases op)
    case (Wait x)
    then have "queue_ok (R @ [x]) A (waitOffset x q)" using Cons.prems waitOffset_ok(1) by simp
    from Cons.IH [OF this] show ?thesis
      using Wait Cons.prems by (simp add: queue_step_def acks_def)
  next
    case (Ack x)
    then obtain q1 where q1: "ackOffset x q = Inr q1" "queue_ok R (insert x A) q1"
      using ackOffset_ok [OF Cons.prems(1), of x] Cons.prems(2) by auto
    have "insert x A \<union> {y. Ack y \<in> set ops} = A \<union> {y. y = x \<or> Ack y \<in> set ops}" by auto
    then show ?thesis
      using Ack q1(1) Cons.IH [OF q1(2)] Cons.prems by (simp add: queue_step_def acks_def)
  next
    case Pop
    have "queue_ok R A (snd (popOffsetToCommit q))"
      using Cons.prems(1) by (simp add: queue_ok_def popOffsetToCommit_def)
    from Cons.IH [OF this] show ?thesis
      using Pop Cons.prems by (simp add: queue_step_def acks_def)
  qed
qed

text \<open>The frontier is the end of the acknowledged prefix.\<close>

lemma frontier_char:
  assumes "sorted_wrt (<) R" and "\<forall>x\<in>set R. 0 \<le> x" and "x \<in> set R"
  shows "x < frontier R A \<longleftrightarrow> (\<forall>y\<in>set R. y \<le> x \<longrightarrow> y \<in> A)"
  using assms
proof (induction R)
  case Nil
  then show ?case by simp
next
  case (Cons r R)
  have less: "\<forall>y\<in>set R. r < y" using Cons.prems(1) by simp
  show ?case
  proof (cases "r \<in> A")
    case False
    then show ?thesis using Cons.prems less by (fastforce simp: frontier_def INVALID_OFFSET_def)
  next
    case True
    have f: "frontier (r # R) A = (if takeWhile (\<lambda>x. x \<in> A) R = [] then r + 1 else frontier R A)"
      using True by (cases "takeWhile (\<lambda>x. x \<in> A) R") (simp_all add: frontier_def)
    have ge: "r < frontier R A" if "takeWhile (\<lambda>x. x \<in> A) R \<noteq> []"
    proof -
      have "r < last (takeWhile (\<lambda>x. x \<in> A) R)" using last_in_set [OF that] less set_takeWhileD by metis
      then show ?thesis using that by (cases "takeWhile (\<lambda>x. x \<in> A) R") (auto simp: frontier_def)
    qed
    show ?thesis
    proof (cases "x = r")
      case True
      then show ?thesis using f ge \<open>r \<in> A\<close> less by fastforce
    next
      case False
      then have x: "x \<in> set R" "r < x" using Cons.prems(3) less by auto
      then have IH: "x < frontier R A \<longleftrightarrow> (\<forall>y\<in>set R. y \<le> x \<longrightarrow> y \<in> A)"
        using Cons.IH Cons.prems(1,2) by simp
      have "\<not> x < frontier R A" if "takeWhile (\<lambda>x. x \<in> A) R = []"
        using that x(1) Cons.prems(2) by (fastforce simp: frontier_def INVALID_OFFSET_def)
      then show ?thesis using f IH x \<open>r \<in> A\<close> by auto
    qed
  qed
qed

lemma dropWhile_char:
  assumes "sorted_wrt (<) (R :: int list)"
  shows "set (dropWhile (\<lambda>x. x \<in> A) R) = {x \<in> set R. \<not> (\<forall>y\<in>set R. y \<le> x \<longrightarrow> y \<in> A)}"
  using assms
proof (induction R)
  case (Cons r R)
  have less: "\<forall>y\<in>set R. r < y" using Cons.prems by simp
  show ?case
  proof (cases "r \<in> A")
    case True
    have "(\<forall>y\<in>set (r # R). y \<le> r \<longrightarrow> y \<in> A)" using True less by fastforce
    moreover have "(\<forall>y\<in>set (r # R). y \<le> x \<longrightarrow> y \<in> A) = (\<forall>y\<in>set R. y \<le> x \<longrightarrow> y \<in> A)" for x
      using True by auto
    ultimately show ?thesis using True Cons.IH Cons.prems by auto
  next
    case False
    have "r \<in> set (r # R) \<and> r \<le> x \<and> r \<notin> A" if "x \<in> set (r # R)" for x
      using that less False by auto
    then show ?thesis using False by auto
  qed
qed simp

section \<open>Properties\<close>

text \<open>C34. However many handlers acknowledge the records they were given, in whatever order, the
  queue never fails, and what \<open>popOffsetToCommit\<close> then offers is exact: an offset lies below it
  if and only if its record and every record received before it have been acknowledged; it
  offers nothing exactly when this has not changed since the last time, and its size is the
  number of the other records.\<close>

theorem commit_queue_exact:
  assumes "well_used [] {} ops"
  shows "\<exists>q. foldM queue_step ops new_CommitQueue = Inr q \<and>
    fst (popOffsetToCommit q) = (if committed q = toCommit q then None else Some (toCommit q)) \<and>
    (\<forall>x\<in>set (waits ops). x < toCommit q \<longleftrightarrow> (\<forall>y\<in>set (waits ops). y \<le> x \<longrightarrow> y \<in> acks ops)) \<and>
    queue_size q = card {x \<in> set (waits ops). \<not> (\<forall>y\<in>set (waits ops). y \<le> x \<longrightarrow> y \<in> acks ops)}"
proof -
  obtain q where run: "foldM queue_step ops new_CommitQueue = Inr q" and ok: "queue_ok (waits ops) (acks ops) q"
    using queue_run [OF queue_ok_new assms] by auto
  have s: "sorted_wrt (<) (waits ops)" "\<forall>x\<in>set (waits ops). 0 \<le> x" using ok by (auto simp: queue_ok_def)
  have "sorted_wrt (<) (dropWhile (\<lambda>x. x \<in> acks ops) (waits ops))"
    using s(1) by (metis sorted_wrt_append takeWhile_dropWhile_id)
  then have "distinct (dropWhile (\<lambda>x. x \<in> acks ops) (waits ops))" by (simp add: strict_sorted_iff)
  then have "queue_size q = card (set (dropWhile (\<lambda>x. x \<in> acks ops) (waits ops)))"
    using ok by (simp add: queue_size_def queue_ok_def distinct_card)
  then have "queue_size q = card {x \<in> set (waits ops). \<not> (\<forall>y\<in>set (waits ops). y \<le> x \<longrightarrow> y \<in> acks ops)}"
    unfolding dropWhile_char [OF s(1)] .
  moreover have "\<forall>x\<in>set (waits ops). x < toCommit q \<longleftrightarrow> (\<forall>y\<in>set (waits ops). y \<le> x \<longrightarrow> y \<in> acks ops)"
    using frontier_char [OF s] ok by (simp add: queue_ok_def)
  ultimately show ?thesis using run by (auto simp: popOffsetToCommit_def)
qed

lemma commit_queue_exact_witness:
  "\<exists>q. foldM queue_step [Wait 3, Wait 4, Wait 7, Ack 7, Ack 3, Pop, Ack 4] new_CommitQueue = Inr q \<and>
    fst (popOffsetToCommit q) = (if committed q = toCommit q then None else Some (toCommit q)) \<and>
    (\<forall>x\<in>{3, 4, 7}. x < toCommit q \<longleftrightarrow> (\<forall>y\<in>{3, 4, 7}. y \<le> x \<longrightarrow> y \<in> {7, 3, 4}))"
  using commit_queue_exact [of "[Wait 3, Wait 4, Wait 7, Ack 7, Ack 3, Pop, Ack 4]"]
  by (auto simp: acks_def)

text \<open>Used otherwise it reads past the end of its deque: a second acknowledgement of the last
  record, or one of an offset never received, which is logged and stored all the same.\<close>

lemma double_ack_undefined:
  "bindr (ackOffset 1 (waitOffset 1 new_CommitQueue)) (ackOffset 1) = Inl (Undefined Index_out_of_bounds)"
proof -
  obtain q where q: "ackOffset 1 (waitOffset 1 new_CommitQueue) = Inr q" "queue_ok [1] {1} q"
    using queue_run [OF queue_ok_new, of "[Wait 1, Ack 1]"] by (auto simp: queue_step_def acks_def bindr_eq_Inr)
  then show ?thesis by (simp add: ackOffset_def deque_back_def queue_ok_def)
qed

lemma unknown_ack_undefined:
  "bindr (ackOffset 5 (waitOffset 1 new_CommitQueue)) (ackOffset 1) = Inl (Undefined Index_out_of_bounds)"
  by (simp add: ackOffset_def waitOffset_def new_CommitQueue_def deque_back_def deque_front_def Heap_push_def
      Heap_front_def Heap_pop_front_def next_offset_def sift_up.simps sift_down.simps ack_loop.simps parent_def swap_at_def)

end
