(* ===== verification/Kafka_Act.thy ===== *)
theory Kafka_Act
  imports Kafka_Client
begin

text \<open>
  Operations of the client classes that leave the object in a state also when they throw: an
  operation maps a state to a result and a state. The consumer and the admin client are
  written with these; the lemmas say what a composed operation keeps of the state.
\<close>

section \<open>Operations\<close>

type_synonym ('s, 'a) act = "'s \<Rightarrow> 'a res \<times> 's"

definition done_with :: "'a \<Rightarrow> ('s, 'a) act" where
  "done_with x s = (Inr x, s)"

definition thenx :: "('s, 'a) act \<Rightarrow> ('a \<Rightarrow> ('s, 'b) act) \<Rightarrow> ('s, 'b) act" where
  "thenx m f s = (case m s of (Inl e, s) \<Rightarrow> (Inl e, s) | (Inr x, s) \<Rightarrow> f x s)"

definition updatex :: "('s \<Rightarrow> 's) \<Rightarrow> ('s, unit) act" where
  "updatex f s = (Inr (), f s)"

definition getx :: "('s \<Rightarrow> 'a) \<Rightarrow> ('s, 'a) act" where
  "getx f s = (Inr (f s), s)"

definition resx :: "'a res \<Rightarrow> ('s, 'a) act" where
  "resx r s = (r, s)"

text \<open>A \<open>for\<close> loop.\<close>

primrec forx :: "('x \<Rightarrow> ('s, unit) act) \<Rightarrow> 'x list \<Rightarrow> ('s, unit) act" where
  "forx f [] = done_with ()"
| "forx f (x # xs) = thenx (f x) (\<lambda>_. forx f xs)"

text \<open>A call of librdkafka with the handle of the client.\<close>

definition lib :: "('k \<Rightarrow> 'r \<times> 'k) \<Rightarrow> (('k, 'z) KafkaClient_scheme, 'r) act" where
  "lib f c =
     (case handle_of c of
        Inl e \<Rightarrow> (Inl e, c)
      | Inr k \<Rightarrow> let (r, k) = f k in (Inr r, c\<lparr>kc_rk := Some k\<rparr>))"

definition throw_if :: "Error \<Rightarrow> ('s, unit) act" where
  "throw_if e = resx (throw_if_with_error e)"

section \<open>Lemmas\<close>

lemma thenx_Inr: "thenx m f s = (Inr y, t) \<longleftrightarrow> (\<exists>x s'. m s = (Inr x, s') \<and> f x s' = (Inr y, t))"
  by (auto simp: thenx_def split: prod.splits sum.splits)

lemma thenx_simps [simp]:
  "thenx (done_with x) f s = f x s" "thenx (getx g) h s = h (g s) s" "thenx (updatex u) f' s = f' () (u s)"
  "thenx (resx (Inr x)) f s = f x s" "thenx (resx (Inl e)) f s = (Inl e, s)"
  by (simp_all add: thenx_def done_with_def getx_def updatex_def resx_def)

lemma act_simps [simp]:
  "done_with x s = (Inr x, s)" "getx g s = (Inr (g s), s)" "updatex u s = (Inr (), u s)" "resx r s = (r, s)"
  by (simp_all add: done_with_def getx_def updatex_def resx_def)

text \<open>What an operation leaves as it is, whether it returns or throws.\<close>

named_theorems frame_rules \<open>operations that keep a part of the state\<close>

definition frame :: "('s \<Rightarrow> 'v) \<Rightarrow> ('s, 'a) act \<Rightarrow> bool" where
  "frame v m = (\<forall>s. v (snd (m s)) = v s)"

lemma frameD: "frame v m \<Longrightarrow> v (snd (m s)) = v s"
  by (simp add: frame_def)

lemma frame_thenx [frame_rules]: "frame v m \<Longrightarrow> (\<And>x. frame v (f x)) \<Longrightarrow> frame v (thenx m f)"
  by (simp add: frame_def thenx_def split: prod.split sum.split) (metis snd_conv)

lemma frame_basic [frame_rules]:
  "frame v (done_with x)" "frame v (getx g)" "frame v (resx r)" "frame v (throw_if e)"
  by (simp_all add: frame_def throw_if_def)

lemma frame_updatex [frame_rules]: "(\<And>s. v (u s) = v s) \<Longrightarrow> frame v (updatex u)"
  by (simp add: frame_def)

lemma frame_forx [frame_rules]: "(\<And>x. frame v (f x)) \<Longrightarrow> frame v (forx f xs)"
  by (induction xs) (auto intro: frame_rules)

lemma frame_if [frame_rules]: "(b \<Longrightarrow> frame v m) \<Longrightarrow> (\<not> b \<Longrightarrow> frame v m') \<Longrightarrow> frame v (if b then m else m')"
  by simp

lemma frame_lib [frame_rules]: "(\<And>c k. v (c\<lparr>kc_rk := k\<rparr>) = v c) \<Longrightarrow> frame v (lib f)"
  by (simp add: frame_def lib_def split: sum.split prod.split)

end
