(* ===== verification/Kafka_Consumer.thy ===== *)
theory Kafka_Consumer
  imports Kafka_Act Kafka_Metadata
begin

text \<open>
  \<open>src/include/kafka/KafkaConsumer.h\<close>, with \<open>ConsumerCommon.h\<close>: the consumer of the client
  library, from its constructor to \<open>close\<close>. librdkafka is a record of functions; its polls return the rebalance events and commit results they
  serve. User callbacks are values that identify them and calls of them are recorded; log
  lines are left out. The lemmas say which operations keep what the caller asked for, so that
  manual assignment and subscription exclude each other, how the local copy of the assignment
  changes, and what a refused request leaves behind.
\<close>

section \<open>librdkafka and the object\<close>

definition RD_KAFKA_RESP_ERR_FAIL :: int where "RD_KAFKA_RESP_ERR_FAIL = - 196"
definition RD_KAFKA_RESP_ERR_ASSIGN_PARTITIONS :: int where "RD_KAFKA_RESP_ERR_ASSIGN_PARTITIONS = - 175"
definition RD_KAFKA_RESP_ERR_REVOKE_PARTITIONS :: int where "RD_KAFKA_RESP_ERR_REVOKE_PARTITIONS = - 174"
definition RD_KAFKA_RESP_ERR_STATE :: int where "RD_KAFKA_RESP_ERR_STATE = - 172"
definition RD_KAFKA_RESP_ERR_NO_OFFSET :: int where "RD_KAFKA_RESP_ERR_NO_OFFSET = - 168"
definition RD_KAFKA_RESP_ERR_OUTDATED :: int where "RD_KAFKA_RESP_ERR_OUTDATED = - 167"
definition RD_KAFKA_OFFSET_BEGINNING :: int where "RD_KAFKA_OFFSET_BEGINNING = - 2"
definition RD_KAFKA_OFFSET_END :: int where "RD_KAFKA_OFFSET_END = - 1"

type_synonym tp_list = "rd_kafka_topic_partition list"

text \<open>A rebalance event is an error code and a list. The result of a commit on the commit queue
  has the opaque pointer of its request. Consuming a batch gives the messages or the last
  error, and the rebalance events it served before it returned; pausing and resuming give the error of every element of their list.\<close>

record 'k rdkafka_consumer =
  rc_poll_set_consumer :: "'k \<Rightarrow> int \<times> 'k"
  rc_subscribe :: "tp_list \<Rightarrow> 'k \<Rightarrow> int \<times> 'k"
  rc_unsubscribe :: "'k \<Rightarrow> int \<times> 'k"
  rc_subscription :: "'k \<Rightarrow> (int \<times> tp_list option) \<times> 'k"
  rc_assign :: "tp_list option \<Rightarrow> 'k \<Rightarrow> int \<times> 'k"
  rc_incremental_assign :: "tp_list \<Rightarrow> 'k \<Rightarrow> rd_kafka_error option \<times> 'k"
  rc_incremental_unassign :: "tp_list \<Rightarrow> 'k \<Rightarrow> rd_kafka_error option \<times> 'k"
  rc_assignment :: "'k \<Rightarrow> (int \<times> tp_list option) \<times> 'k"
  rc_poll :: "int \<Rightarrow> 'k \<Rightarrow> (int \<times> tp_list option) list \<times> 'k"
  rc_rebalance_protocol :: "'k \<Rightarrow> string option"
  rc_topic_new :: "string \<Rightarrow> 'k \<Rightarrow> int option \<times> 'k"
  rc_seek :: "string \<Rightarrow> int \<Rightarrow> int \<Rightarrow> int \<Rightarrow> 'k \<Rightarrow> int \<times> 'k"
  rc_position :: "tp_list \<Rightarrow> 'k \<Rightarrow> (int \<times> tp_list) \<times> 'k"
  rc_committed :: "tp_list \<Rightarrow> int \<Rightarrow> 'k \<Rightarrow> (int \<times> tp_list) \<times> 'k"
  rc_offsets_for_times :: "tp_list \<Rightarrow> int \<Rightarrow> 'k \<Rightarrow> (int \<times> tp_list) \<times> 'k"
  rc_query_watermark_offsets :: "string \<Rightarrow> int \<Rightarrow> int \<Rightarrow> 'k \<Rightarrow> (int \<times> int \<times> int) \<times> 'k"
  rc_commit :: "tp_list option \<Rightarrow> bool \<Rightarrow> 'k \<Rightarrow> int \<times> 'k"
  rc_commit_queue :: "tp_list option \<Rightarrow> nat \<Rightarrow> 'k \<Rightarrow> int \<times> 'k"
  rc_queue_poll_callback :: "int \<Rightarrow> 'k \<Rightarrow> (int \<times> tp_list option \<times> nat option) list \<times> 'k"
  rc_queue_length :: "'k \<Rightarrow> nat"
  rc_consume_batch_queue :: "int \<Rightarrow> nat \<Rightarrow> 'k \<Rightarrow>
    ((int + rd_kafka_message list) \<times> (int \<times> tp_list option) list) \<times> 'k"
  rc_pause_partitions :: "tp_list \<Rightarrow> 'k \<Rightarrow> (int \<times> int list) \<times> 'k"
  rc_resume_partitions :: "tp_list \<Rightarrow> 'k \<Rightarrow> (int \<times> int list) \<times> 'k"
  rc_consumer_close :: "'k \<Rightarrow> (int \<times> tp_list option) list \<times> 'k"
  rc_outq_len :: "'k \<Rightarrow> nat"

datatype PendingEvent = PartitionsAssignment | PartitionsRevocation
datatype RebalanceEventType = PartitionsAssigned | PartitionsRevoked
datatype PartitionsRebalanceEvent = Assign | Revoke | IncrementalAssign | IncrementalUnassign
datatype CommitType = Sync | Async

record ('k, 'u) KafkaConsumer = "'k KafkaClient" +
  kn_groupId :: string
  kn_maxPollRecords :: nat
  kn_enableAutoCommit :: bool
  kn_assignment :: "TopicPartition set"
  kn_userAssignment :: "TopicPartition set"
  kn_userSubscription :: "string set"
  kn_pendingEvent :: "PendingEvent option"
  kn_cooperativeEnabled :: "bool option"
  kn_offsetsToStore :: TopicPartitionOffsets
  kn_rebalanceCb :: "'u option"
  kn_rebalanced :: "('u \<times> RebalanceEventType \<times> TopicPartition set) list"
  kn_opaques :: "nat \<rightharpoonup> 'u option"
  kn_next :: nat
  kn_committed :: "('u \<times> TopicPartitionOffsets \<times> Error) list"

definition as_consumer :: "'k KafkaClient \<Rightarrow> ('k, 'u) KafkaConsumer" where
  "as_consumer c = KafkaClient.extend c
     \<lparr>kn_groupId = [], kn_maxPollRecords = 500, kn_enableAutoCommit = False, kn_assignment = {},
      kn_userAssignment = {}, kn_userSubscription = {}, kn_pendingEvent = None, kn_cooperativeEnabled = None,
      kn_offsetsToStore = Map.empty, kn_rebalanceCb = None, kn_rebalanced = [], kn_opaques = Map.empty,
      kn_next = 1, kn_committed = []\<rparr>"

section \<open>Construction\<close>

text \<open>\<open>random\<close> and \<open>gid\<close> are the two random strings.\<close>

definition consumer_validate :: "string \<Rightarrow> string \<Rightarrow> Properties \<Rightarrow> Properties res" where
  "consumer_validate random gid props =
     bindr (client_validate random (props_remove ''max.poll.records'' props)) (\<lambda>props.
       let props = (if getProperty props ''group.id'' = None then put ''group.id'' gid props else props)
       in Inr (put ''enable.auto.offset.store'' ''true''
                (put ''auto.commit.interval.ms'' ''0''
                  (put ''enable.auto.commit'' ''false'' props))))"

text \<open>\<open>static_cast<std::size_t>\<close> of the number \<open>std::stoi\<close> reads.\<close>

definition max_poll_records :: "Properties \<Rightarrow> nat res" where
  "max_poll_records props =
     (case getProperty props ''max.poll.records'' of
        None \<Rightarrow> Inr 500
      | Some s \<Rightarrow> bindr (stoi s) (\<lambda>n. Inr (unat (word_of_int n :: 64 word))))"

definition enable_auto_commit :: "Properties \<Rightarrow> bool res" where
  "enable_auto_commit props =
     (case getProperty props ''enable.auto.commit'' of
        None \<Rightarrow> Inr False
      | Some s \<Rightarrow>
          if s \<notin> {''1'', ''true''} \<and> s \<notin> {''0'', ''false''}
          then invalid_arg (''Invalid property[enable.auto.commit='' @ s @ ''], which MUST be true(1) or false(0)!'')
          else Inr (s \<in> {''1'', ''true''}))"

definition new_KafkaConsumer ::
  "('c, 'k) rdkafka_conf \<Rightarrow> 'k rdkafka_consumer \<Rightarrow> (exn \<Rightarrow> string) \<Rightarrow> string \<Rightarrow> string \<Rightarrow> Properties \<Rightarrow>
   bool \<Rightarrow> bool \<Rightarrow> ('k, 'u) KafkaConsumer res" where
  "new_KafkaConsumer rd rc what random gid properties auto_polling no_interceptors =
     bindr (consumer_validate random gid properties) (\<lambda>props.
     bindr (fst (new_KafkaClient rd what Consumer_client props auto_polling no_interceptors)) (\<lambda>c.
     bindr (max_poll_records properties) (\<lambda>n.
     bindr (enable_auto_commit properties) (\<lambda>auto_commit.
       let c = as_consumer c;
           c = c\<lparr>kn_maxPollRecords := n, kn_enableAutoCommit := auto_commit,
                 kc_properties := put ''enable.auto.commit'' (if auto_commit then ''true'' else ''false'')
                   (put ''max.poll.records'' (dec_of_nat n) (kc_properties c))\<rparr>
       in case getProperty (kc_properties c) ''group.id'' of
            None \<Rightarrow> Inl Abort
          | Some groupId \<Rightarrow>
              (case thenx (lib (rc_poll_set_consumer rc)) (\<lambda>result. throw_if (Error_code result))
                      (c\<lparr>kn_groupId := groupId\<rparr>) of
                 (Inl e, _) \<Rightarrow> Inl e
               | (Inr _, c) \<Rightarrow> Inr (startBackgroundPollingIfNecessary c))))))"

section \<open>Assignment and rebalancing\<close>

definition isCooperativeEnabled :: "('k, 'u) KafkaConsumer \<Rightarrow> bool" where
  "isCooperativeEnabled c = (kn_cooperativeEnabled c = Some True)"

text \<open>The local copy is updated before the result is looked at.\<close>

definition changeAssignment ::
  "'k rdkafka_consumer \<Rightarrow> PartitionsRebalanceEvent \<Rightarrow> TopicPartition set \<Rightarrow> (('k, 'u) KafkaConsumer, unit) act" where
  "changeAssignment rc event tps =
     (let rk_tps = createRkList_of_partitions tps
      in case event of
           Assign \<Rightarrow>
             thenx (lib (rc_assign rc (Some rk_tps))) (\<lambda>result.
             thenx (updatex (\<lambda>c. c\<lparr>kn_assignment := tps\<rparr>)) (\<lambda>_. throw_if (Error_code result)))
         | Revoke \<Rightarrow>
             thenx (lib (rc_assign rc None)) (\<lambda>result.
             thenx (updatex (\<lambda>c. c\<lparr>kn_assignment := {}\<rparr>)) (\<lambda>_. throw_if (Error_code result)))
         | IncrementalAssign \<Rightarrow>
             thenx (lib (rc_incremental_assign rc rk_tps)) (\<lambda>result.
             thenx (updatex (\<lambda>c. c\<lparr>kn_assignment := kn_assignment c \<union> tps\<rparr>)) (\<lambda>_. throw_if (Error_rich result)))
         | IncrementalUnassign \<Rightarrow>
             thenx (lib (rc_incremental_unassign rc rk_tps)) (\<lambda>result.
             thenx (updatex (\<lambda>c. c\<lparr>kn_assignment := kn_assignment c - tps\<rparr>)) (\<lambda>_. throw_if (Error_rich result))))"

text \<open>\<open>_cooperativeEnabled\<close> is set by the first event for which the protocol is known.\<close>

definition learn_protocol :: "'k rdkafka_consumer \<Rightarrow> ('k, 'u) KafkaConsumer \<Rightarrow> ('k, 'u) KafkaConsumer" where
  "learn_protocol rc c =
     (if kn_cooperativeEnabled c = None
      then case Option.bind (kc_rk c) (rc_rebalance_protocol rc) of
             None \<Rightarrow> c
           | Some protocol \<Rightarrow> c\<lparr>kn_cooperativeEnabled := Some (protocol = ''COOPERATIVE'')\<rparr>
      else c)"

definition clear_pending :: "int \<Rightarrow> ('k, 'u) KafkaConsumer \<Rightarrow> ('k, 'u) KafkaConsumer" where
  "clear_pending err c =
     (if (err = RD_KAFKA_RESP_ERR_ASSIGN_PARTITIONS \<and> kn_pendingEvent c = Some PartitionsAssignment) \<or>
         (err = RD_KAFKA_RESP_ERR_REVOKE_PARTITIONS \<and> kn_pendingEvent c = Some PartitionsRevocation)
      then c\<lparr>kn_pendingEvent := None\<rparr> else c)"

definition call_rebalance_cb :: "int \<Rightarrow> TopicPartition set \<Rightarrow> ('k, 'u) KafkaConsumer \<Rightarrow> ('k, 'u) KafkaConsumer" where
  "call_rebalance_cb err tps c =
     (case kn_rebalanceCb c of
        None \<Rightarrow> c
      | Some cb \<Rightarrow> c\<lparr>kn_rebalanced := kn_rebalanced c @
          [(cb, if err = RD_KAFKA_RESP_ERR_ASSIGN_PARTITIONS then PartitionsAssigned else PartitionsRevoked, tps)]\<rparr>)"

definition onRebalance ::
  "'k rdkafka_consumer \<Rightarrow> int \<times> tp_list option \<Rightarrow> (('k, 'u) KafkaConsumer, unit) act" where
  "onRebalance rc = (\<lambda>(err, rk_partitions).
     let tps = getTopicPartitions rk_partitions
     in if err \<noteq> RD_KAFKA_RESP_ERR_ASSIGN_PARTITIONS \<and> err \<noteq> RD_KAFKA_RESP_ERR_REVOKE_PARTITIONS
        then done_with ()
        else
          thenx (updatex (\<lambda>c. clear_pending err (learn_protocol rc c))) (\<lambda>_.
          thenx (getx isCooperativeEnabled) (\<lambda>cooperative.
          thenx (if err = RD_KAFKA_RESP_ERR_ASSIGN_PARTITIONS
                 then changeAssignment rc (if cooperative then IncrementalAssign else Assign) tps
                 else done_with ()) (\<lambda>_.
          thenx (updatex (call_rebalance_cb err tps)) (\<lambda>_.
            if err = RD_KAFKA_RESP_ERR_REVOKE_PARTITIONS
            then changeAssignment rc (if cooperative then IncrementalUnassign else Revoke)
                   (if cooperative then tps else {})
            else done_with ())))))"

text \<open>\<open>rd_kafka_poll\<close> with the rebalance callbacks it runs.\<close>

definition rd_poll :: "'k rdkafka_consumer \<Rightarrow> int \<Rightarrow> (('k, 'u) KafkaConsumer, unit) act" where
  "rd_poll rc timeoutMs = thenx (lib (rc_poll rc timeoutMs)) (forx (onRebalance rc))"


section \<open>Subscription\<close>

definition EVENT_POLLING_INTERVAL_MS :: int where "EVENT_POLLING_INTERVAL_MS = 100"

text \<open>The loop until the deadline: \<open>n\<close> polls fit before it.\<close>

primrec await_rebalance :: "'k rdkafka_consumer \<Rightarrow> string \<Rightarrow> nat \<Rightarrow> (('k, 'u) KafkaConsumer, unit) act" where
  "await_rebalance rc timeout_msg 0 =
     thenx (updatex (\<lambda>c. c\<lparr>kn_pendingEvent := None\<rparr>)) (\<lambda>_.
       resx (throw_error (Error_text RD_KAFKA_RESP_ERR_TIMED_OUT timeout_msg False)))"
| "await_rebalance rc timeout_msg (Suc n) =
     thenx (rd_poll rc EVENT_POLLING_INTERVAL_MS) (\<lambda>_.
     thenx (getx kn_pendingEvent) (\<lambda>pending_event.
       if pending_event = None then done_with () else await_rebalance rc timeout_msg n))"

definition unexpected :: "string \<Rightarrow> ('s, 'a) act" where
  "unexpected msg = resx (throw_error (Error_text RD_KAFKA_RESP_ERR_FAIL msg False))"

definition subscribe ::
  "'k rdkafka_consumer \<Rightarrow> nat \<Rightarrow> string set \<Rightarrow> 'u option \<Rightarrow> (('k, 'u) KafkaConsumer, unit) act" where
  "subscribe rc n topics cb =
     thenx (getx (\<lambda>c. c)) (\<lambda>c.
     if kn_userAssignment c \<noteq> {}
     then unexpected ''Unexpected Operation! Once assign() was used, subscribe() should not be called any more!''
     else if isCooperativeEnabled c \<and> topics = kn_userSubscription c then done_with ()
     else
       thenx (updatex (\<lambda>c. c\<lparr>kn_userSubscription := topics, kn_rebalanceCb := cb\<rparr>)) (\<lambda>_.
       thenx (lib (rc_subscribe rc (createRkList_of_topics topics))) (\<lambda>result.
       thenx (throw_if (Error_code result)) (\<lambda>_.
       thenx (updatex (\<lambda>c. c\<lparr>kn_pendingEvent := Some PartitionsAssignment\<rparr>)) (\<lambda>_.
         await_rebalance rc ''subscribe() timed out!'' n)))))"

definition unsubscribe :: "'k rdkafka_consumer \<Rightarrow> nat \<Rightarrow> (('k, 'u) KafkaConsumer, unit) act" where
  "unsubscribe rc n =
     thenx (getx (\<lambda>c. c)) (\<lambda>c.
     if kn_userSubscription c = {} \<and> kn_userAssignment c = {} then done_with ()
     else if kn_userAssignment c \<noteq> {}
     then
       thenx (changeAssignment rc (if isCooperativeEnabled c then IncrementalUnassign else Revoke) (kn_userAssignment c)) (\<lambda>_.
         updatex (\<lambda>c. c\<lparr>kn_userAssignment := {}\<rparr>))
     else
       thenx (updatex (\<lambda>c. c\<lparr>kn_userSubscription := {}\<rparr>)) (\<lambda>_.
       thenx (lib (rc_unsubscribe rc)) (\<lambda>result.
       thenx (throw_if (Error_code result)) (\<lambda>_.
       thenx (updatex (\<lambda>c. c\<lparr>kn_pendingEvent := Some PartitionsRevocation\<rparr>)) (\<lambda>_.
         await_rebalance rc ''unsubscribe() timed out!'' n)))))"

definition subscription :: "'k rdkafka_consumer \<Rightarrow> (('k, 'u) KafkaConsumer, string set) act" where
  "subscription rc =
     thenx (lib (rc_subscription rc)) (\<lambda>(result, rk_topics).
     thenx (throw_if (Error_code result)) (\<lambda>_. done_with (getTopics rk_topics)))"

definition assign :: "'k rdkafka_consumer \<Rightarrow> TopicPartition set \<Rightarrow> (('k, 'u) KafkaConsumer, unit) act" where
  "assign rc topicPartitions =
     thenx (getx (\<lambda>c. c)) (\<lambda>c.
     if kn_userSubscription c \<noteq> {}
     then unexpected ''Unexpected Operation! Once subscribe() was used, assign() should not be called any more!''
     else
       thenx (updatex (\<lambda>c. c\<lparr>kn_userAssignment := topicPartitions\<rparr>)) (\<lambda>_.
         changeAssignment rc (if isCooperativeEnabled c then IncrementalAssign else Assign) topicPartitions))"

definition assignment :: "'k rdkafka_consumer \<Rightarrow> (('k, 'u) KafkaConsumer, TopicPartition set) act" where
  "assignment rc =
     thenx (lib (rc_assignment rc)) (\<lambda>(result, rk_tps).
     thenx (throw_if (Error_code result)) (\<lambda>_. done_with (getTopicPartitions rk_tps)))"

section \<open>Positions and offsets\<close>

definition SEEK_RETRY_INTERVAL_MS :: int where "SEEK_RETRY_INTERVAL_MS = 5000"

text \<open>The body of the \<open>do\<close> loop runs once, and again while \<open>n\<close> attempts fit before the deadline.\<close>

primrec seek_attempts :: "(('k, 'u) KafkaConsumer, int) act \<Rightarrow> nat \<Rightarrow> (('k, 'u) KafkaConsumer, int) act" where
  "seek_attempts attempt 0 = attempt"
| "seek_attempts attempt (Suc n) =
     thenx attempt (\<lambda>respErr.
       if respErr \<notin> {RD_KAFKA_RESP_ERR_STATE, RD_KAFKA_RESP_ERR_TIMED_OUT, RD_KAFKA_RESP_ERR_OUTDATED}
       then done_with respErr else seek_attempts attempt n)"

definition seek ::
  "'k rdkafka_consumer \<Rightarrow> nat \<Rightarrow> TopicPartition \<Rightarrow> int \<Rightarrow> (('k, 'u) KafkaConsumer, unit) act" where
  "seek rc n topicPartition off =
     thenx (lib (rc_topic_new rc (c_str (fst topicPartition)))) (\<lambda>last_error.
     case last_error of
       Some e \<Rightarrow> resx (throw_error (Error_code e))
     | None \<Rightarrow>
         thenx (seek_attempts (lib (rc_seek rc (c_str (fst topicPartition)) (snd topicPartition) off
                  SEEK_RETRY_INTERVAL_MS)) n) (\<lambda>respErr. throw_if (Error_code respErr)))"

definition seekToBeginningOrEnd ::
  "'k rdkafka_consumer \<Rightarrow> nat \<Rightarrow> TopicPartition set \<Rightarrow> bool \<Rightarrow> (('k, 'u) KafkaConsumer, unit) act" where
  "seekToBeginningOrEnd rc n topicPartitions toBeginning =
     forx (\<lambda>tp. seek rc n tp (if toBeginning then RD_KAFKA_OFFSET_BEGINNING else RD_KAFKA_OFFSET_END))
       (sorted_list_of_set topicPartitions)"

text \<open>\<open>elems[0]\<close> of the list the call has filled in.\<close>

definition first_offset :: "tp_list \<Rightarrow> int res" where
  "first_offset es = (case es of [] \<Rightarrow> Inl (Undefined Index_out_of_bounds) | e # _ \<Rightarrow> Inr (tpe_offset e))"

definition position :: "'k rdkafka_consumer \<Rightarrow> TopicPartition \<Rightarrow> (('k, 'u) KafkaConsumer, int) act" where
  "position rc tp =
     thenx (lib (rc_position rc (createRkList_of_partitions {tp}))) (\<lambda>(err, rk_tp).
     thenx (throw_if (Error_code err)) (\<lambda>_. resx (first_offset rk_tp)))"

definition TIMEOUT_INFINITE :: int where "TIMEOUT_INFINITE = - 1"

definition committed_offset :: "'k rdkafka_consumer \<Rightarrow> TopicPartition \<Rightarrow> (('k, 'u) KafkaConsumer, int) act" where
  "committed_offset rc tp =
     thenx (lib (rc_committed rc (createRkList_of_partitions {tp}) TIMEOUT_INFINITE)) (\<lambda>(err, rk_tps).
     thenx (throw_if (Error_code err)) (\<lambda>_. resx (first_offset rk_tps)))"

text \<open>\<open>static_cast<int>\<close> of a count of milliseconds.\<close>

definition ms_cast :: "int \<Rightarrow> int" where
  "ms_cast ms = sint (word_of_int ms :: 32 word)"

definition offsetsForTime ::
  "'k rdkafka_consumer \<Rightarrow> TopicPartition set \<Rightarrow> int \<Rightarrow> int \<Rightarrow> (('k, 'u) KafkaConsumer, TopicPartitionOffsets) act" where
  "offsetsForTime rc topicPartitions msSinceEpoch timeout =
     (if topicPartitions = {} then done_with Map.empty
      else
        let rk_tpos = map (\<lambda>e. e\<lparr>tpe_offset := msSinceEpoch\<rparr>) (createRkList_of_partitions topicPartitions)
        in thenx (lib (rc_offsets_for_times rc rk_tpos (ms_cast timeout))) (\<lambda>(err, rk_tpos).
           thenx (throw_if (Error_code err)) (\<lambda>_.
             done_with (\<lambda>tp. case getTopicPartitionOffsets (Some rk_tpos) tp of
               None \<Rightarrow> None | Some off \<Rightarrow> if off = msSinceEpoch then None else Some off))))"

primrec offsets_loop ::
  "'k rdkafka_consumer \<Rightarrow> bool \<Rightarrow> int \<Rightarrow> TopicPartition list \<Rightarrow> TopicPartitionOffsets \<Rightarrow>
   (('k, 'u) KafkaConsumer, TopicPartitionOffsets) act" where
  "offsets_loop rc atBeginning timeout [] result = done_with result"
| "offsets_loop rc atBeginning timeout (tp # tps) result =
     thenx (lib (rc_query_watermark_offsets rc (c_str (fst tp)) (snd tp) (ms_cast timeout))) (\<lambda>(err, beginning, end_off).
     thenx (throw_if (Error_code err)) (\<lambda>_.
       offsets_loop rc atBeginning timeout tps (result(tp \<mapsto> if atBeginning then beginning else end_off))))"

definition getOffsets ::
  "'k rdkafka_consumer \<Rightarrow> TopicPartition set \<Rightarrow> bool \<Rightarrow> int \<Rightarrow> (('k, 'u) KafkaConsumer, TopicPartitionOffsets) act" where
  "getOffsets rc topicPartitions atBeginning timeout =
     offsets_loop rc atBeginning timeout (sorted_list_of_set topicPartitions) Map.empty"


definition seekToBeginning :: "'k rdkafka_consumer \<Rightarrow> nat \<Rightarrow> TopicPartition set \<Rightarrow> (('k, 'u) KafkaConsumer, unit) act" where
  "seekToBeginning rc n tps = seekToBeginningOrEnd rc n tps True"

definition seekToEnd :: "'k rdkafka_consumer \<Rightarrow> nat \<Rightarrow> TopicPartition set \<Rightarrow> (('k, 'u) KafkaConsumer, unit) act" where
  "seekToEnd rc n tps = seekToBeginningOrEnd rc n tps False"

definition seekToBeginning_all :: "'k rdkafka_consumer \<Rightarrow> nat \<Rightarrow> (('k, 'u) KafkaConsumer, unit) act" where
  "seekToBeginning_all rc n = thenx (getx kn_assignment) (\<lambda>tps. seekToBeginningOrEnd rc n tps True)"

definition seekToEnd_all :: "'k rdkafka_consumer \<Rightarrow> nat \<Rightarrow> (('k, 'u) KafkaConsumer, unit) act" where
  "seekToEnd_all rc n = thenx (getx kn_assignment) (\<lambda>tps. seekToBeginningOrEnd rc n tps False)"

definition beginningOffsets ::
  "'k rdkafka_consumer \<Rightarrow> TopicPartition set \<Rightarrow> int \<Rightarrow> (('k, 'u) KafkaConsumer, TopicPartitionOffsets) act" where
  "beginningOffsets rc tps timeout = getOffsets rc tps True timeout"

definition endOffsets ::
  "'k rdkafka_consumer \<Rightarrow> TopicPartition set \<Rightarrow> int \<Rightarrow> (('k, 'u) KafkaConsumer, TopicPartitionOffsets) act" where
  "endOffsets rc tps timeout = getOffsets rc tps False timeout"

section \<open>Commits\<close>

definition commit ::
  "'k rdkafka_consumer \<Rightarrow> TopicPartitionOffsets \<Rightarrow> CommitType \<Rightarrow> (('k, 'u) KafkaConsumer, unit) act" where
  "commit rc tpos ty =
     thenx (lib (rc_commit rc (if dom tpos = {} then None else Some (createRkTopicPartitionList tpos)) (ty = Async))) (\<lambda>err.
       if dom tpos = {} \<and> err = RD_KAFKA_RESP_ERR_NO_OFFSET then done_with () else throw_if (Error_code err))"

text \<open>Adding one to a 64-bit offset.\<close>

definition offset_after :: "int \<Rightarrow> int res" where
  "offset_after off = (if off = 2 ^ 63 - 1 then Inl (Undefined Signed_overflow) else Inr (off + 1))"

definition increment_all :: "TopicPartitionOffsets \<Rightarrow> TopicPartitionOffsets res" where
  "increment_all m =
     (if 2 ^ 63 - 1 \<in> ran m then Inl (Undefined Signed_overflow) else Inr (\<lambda>tp. map_option (\<lambda>off. off + 1) (m tp)))"

text \<open>The stored offsets are incremented in place.\<close>

definition commitStoredOffsetsIfNecessary ::
  "'k rdkafka_consumer \<Rightarrow> CommitType \<Rightarrow> (('k, 'u) KafkaConsumer, unit) act" where
  "commitStoredOffsetsIfNecessary rc ty =
     thenx (getx (\<lambda>c. c)) (\<lambda>c.
     if kn_enableAutoCommit c \<and> dom (kn_offsetsToStore c) \<noteq> {} then
       thenx (resx (increment_all (kn_offsetsToStore c))) (\<lambda>offsets.
       thenx (updatex (\<lambda>c. c\<lparr>kn_offsetsToStore := offsets\<rparr>)) (\<lambda>_.
       thenx (commit rc offsets ty) (\<lambda>_.
         updatex (\<lambda>c. c\<lparr>kn_offsetsToStore := Map.empty\<rparr>))))
     else done_with ())"

text \<open>\<open>ConsumerRecord::topic\<close> and \<open>partition\<close>.\<close>

definition record_partition :: "rd_kafka_message \<Rightarrow> TopicPartition" where
  "record_partition r = (case rm_topic r of None \<Rightarrow> [] | Some t \<Rightarrow> t, rm_partition r)"

definition store_offsets :: "rd_kafka_message list \<Rightarrow> TopicPartitionOffsets \<Rightarrow> TopicPartitionOffsets" where
  "store_offsets records m = fold (\<lambda>r m. m(record_partition r \<mapsto> rm_offset r)) records m"

definition storeOffsetsIfNecessary :: "rd_kafka_message list \<Rightarrow> (('k, 'u) KafkaConsumer, unit) act" where
  "storeOffsetsIfNecessary records =
     updatex (\<lambda>c. if kn_enableAutoCommit c
       then c\<lparr>kn_offsetsToStore := store_offsets records (kn_offsetsToStore c)\<rparr> else c)"

text \<open>\<open>ConsumerRecord::toString\<close>, with the buffers of its key and value.\<close>

definition RD_KAFKA_RESP_ERR_PARTITION_EOF :: int where "RD_KAFKA_RESP_ERR_PARTITION_EOF = - 191"

definition ConsumerRecord_toString ::
  "(int \<Rightarrow> string) \<Rightarrow> (int \<Rightarrow> string) \<Rightarrow> mem \<Rightarrow> ConstBuffer \<Rightarrow> ConstBuffer \<Rightarrow> rd_kafka_message \<Rightarrow> string res" where
  "ConsumerRecord_toString err2str render M key val r =
     (let place = TopicPartition_toString (record_partition r) @ '':'' @ dec_of_int (rm_offset r)
      in if \<not> Error_bool (Error_code (rm_err r)) then
           bindr (if cb_size key \<noteq> 0 then bindr (ConstBuffer_toString M key) (\<lambda>k. Inr (k @ ''/'')) else Inr []) (\<lambda>k.
           bindr (ConstBuffer_toString M val) (\<lambda>v.
             Inr (place @ '', '' @ Timestamp_toString render (getMsgTimestamp r) @ '', '' @ k @ v)))
         else if Error_value (Error_code (rm_err r)) = RD_KAFKA_RESP_ERR_PARTITION_EOF
         then Inr (''EOF['' @ place @ '']'')
         else Inr (''ERROR['' @ Error_message err2str (Error_code (rm_err r)) @ '', '' @ place @ '']''))"

text \<open>The consumer queue is also where rebalance events arrive: librdkafka runs the rebalance callback
  from inside \<open>rd_kafka_consume_batch_queue\<close>, before that returns. \<open>std::vector\<close> of that many pointers: more than \<open>max_size()\<close> throws.\<close>

definition make_array :: "nat \<Rightarrow> unit res" where
  "make_array n = (if n > (2 ^ 63 - 1) div 8 then Inl (Throw Length_error) else Inr ())"

definition pollMessages ::
  "'k rdkafka_consumer \<Rightarrow> int \<Rightarrow> (('k, 'u) KafkaConsumer, rd_kafka_message list) act" where
  "pollMessages rc timeoutMs =
     thenx (commitStoredOffsetsIfNecessary rc Async) (\<lambda>_.
     thenx (getx kn_maxPollRecords) (\<lambda>n.
     thenx (resx (make_array n)) (\<lambda>_.
     thenx (lib (rc_consume_batch_queue rc timeoutMs n)) (\<lambda>(received, events).
     thenx (forx (onRebalance rc) events) (\<lambda>_.
     case received of
       Inl last_error \<Rightarrow> resx (throw_error (Error_code last_error))
     | Inr records \<Rightarrow>
         thenx (storeOffsetsIfNecessary records) (\<lambda>_. done_with records))))))"

definition consumer_poll ::
  "'k rdkafka_consumer \<Rightarrow> int \<Rightarrow> (('k, 'u) KafkaConsumer, rd_kafka_message list) act" where
  "consumer_poll rc timeout = pollMessages rc (convertMsDurationToInt timeout)"

definition next_of_record :: "rd_kafka_message \<Rightarrow> TopicPartitionOffsets res" where
  "next_of_record r = bindr (offset_after (rm_offset r)) (\<lambda>off. Inr [record_partition r \<mapsto> off])"

definition commitSync_record :: "'k rdkafka_consumer \<Rightarrow> rd_kafka_message \<Rightarrow> (('k, 'u) KafkaConsumer, unit) act" where
  "commitSync_record rc r = thenx (resx (next_of_record r)) (\<lambda>tpos. commit rc tpos Sync)"

text \<open>The callback object is allocated for the request; the result deletes it.\<close>

definition commitAsync ::
  "'k rdkafka_consumer \<Rightarrow> TopicPartitionOffsets \<Rightarrow> 'u option \<Rightarrow> (('k, 'u) KafkaConsumer, unit) act" where
  "commitAsync rc tpos cb =
     thenx (getx kn_next) (\<lambda>ptr.
     thenx (updatex (\<lambda>c. c\<lparr>kn_opaques := (kn_opaques c)(ptr \<mapsto> cb), kn_next := ptr + 1\<rparr>)) (\<lambda>_.
     thenx (lib (rc_commit_queue rc (if dom tpos = {} then None else Some (createRkTopicPartitionList tpos)) ptr)) (\<lambda>err.
       throw_if (Error_code err))))"

definition commitSync_all :: "'k rdkafka_consumer \<Rightarrow> (('k, 'u) KafkaConsumer, unit) act" where
  "commitSync_all rc = commit rc Map.empty Sync"

definition commitAsync_all :: "'k rdkafka_consumer \<Rightarrow> 'u option \<Rightarrow> (('k, 'u) KafkaConsumer, unit) act" where
  "commitAsync_all rc cb = commitAsync rc Map.empty cb"

definition commitAsync_record ::
  "'k rdkafka_consumer \<Rightarrow> rd_kafka_message \<Rightarrow> 'u option \<Rightarrow> (('k, 'u) KafkaConsumer, unit) act" where
  "commitAsync_record rc r cb = thenx (resx (next_of_record r)) (\<lambda>tpos. commitAsync rc tpos cb)"

definition offsetCommitCallback ::
  "int \<times> tp_list option \<times> nat option \<Rightarrow> (('k, 'u) KafkaConsumer, unit) act" where
  "offsetCommitCallback = (\<lambda>(err, rk_tpos, opaque) c.
     case opaque of
       None \<Rightarrow> (Inr (), c)
     | Some ptr \<Rightarrow>
         (case kn_opaques c ptr of
            None \<Rightarrow> (Inl (Undefined Use_after_free), c)
          | Some cb \<Rightarrow>
              (Inr (), c\<lparr>kn_committed := kn_committed c @ (case cb of None \<Rightarrow> []
                            | Some u \<Rightarrow> [(u, getTopicPartitionOffsets rk_tpos, Error_code err)]),
                         kn_opaques := (kn_opaques c)(ptr := None)\<rparr>)))"

definition poll_commit_queue :: "'k rdkafka_consumer \<Rightarrow> int \<Rightarrow> (('k, 'u) KafkaConsumer, unit) act" where
  "poll_commit_queue rc timeoutMs = thenx (lib (rc_queue_poll_callback rc timeoutMs)) (forx offsetCommitCallback)"

section \<open>Pausing\<close>

definition pauseOrResumePartitions ::
  "'k rdkafka_consumer \<Rightarrow> TopicPartition set \<Rightarrow> bool \<Rightarrow> (('k, 'u) KafkaConsumer, unit) act" where
  "pauseOrResumePartitions rc topicPartitions pausing =
     (let rk_tpos = createRkList_of_partitions topicPartitions
      in thenx (lib (if pausing then rc_pause_partitions rc rk_tpos else rc_resume_partitions rc rk_tpos)) (\<lambda>(err, errs).
         thenx (throw_if (Error_code err)) (\<lambda>_.
           if filter (\<lambda>e. e = 0) errs = [] \<and> pausing
           then resx (invalid_arg (''No partition could be paused among TopicPartitions['' @
                  TopicPartitions_toString topicPartitions @ '']''))
           else done_with ())))"

definition pause :: "'k rdkafka_consumer \<Rightarrow> TopicPartition set \<Rightarrow> (('k, 'u) KafkaConsumer, unit) act" where
  "pause rc tps = pauseOrResumePartitions rc tps True"

definition resume :: "'k rdkafka_consumer \<Rightarrow> TopicPartition set \<Rightarrow> (('k, 'u) KafkaConsumer, unit) act" where
  "resume rc tps = pauseOrResumePartitions rc tps False"

definition pause_all :: "'k rdkafka_consumer \<Rightarrow> (('k, 'u) KafkaConsumer, unit) act" where
  "pause_all rc = thenx (getx kn_assignment) (pause rc)"

definition resume_all :: "'k rdkafka_consumer \<Rightarrow> (('k, 'u) KafkaConsumer, unit) act" where
  "resume_all rc = thenx (getx kn_assignment) (resume rc)"

section \<open>Group\<close>

definition getGroupId :: "('k, 'u) KafkaConsumer \<Rightarrow> string" where
  "getGroupId c = kn_groupId c"

definition setGroupId :: "string \<Rightarrow> ('k, 'u) KafkaConsumer \<Rightarrow> ('k, 'u) KafkaConsumer" where
  "setGroupId i c = c\<lparr>kn_groupId := i\<rparr>"

section \<open>Closing\<close>

definition catch_kafkax :: "('s, unit) act \<Rightarrow> ('s, unit) act" where
  "catch_kafkax m s = (case m s of (Inl (Throw (Kafka_exception e)), s) \<Rightarrow> (Inr (), s) | r \<Rightarrow> r)"

text \<open>The two loops, for at most \<open>n\<close> turns; the result says whether they ended.\<close>

primrec drain_outq :: "'k rdkafka_consumer \<Rightarrow> nat \<Rightarrow> (('k, 'u) KafkaConsumer, bool) act" where
  "drain_outq rc 0 = lib (\<lambda>k. (rc_outq_len rc k = 0, k))"
| "drain_outq rc (Suc n) =
     thenx (lib (\<lambda>k. (rc_outq_len rc k, k))) (\<lambda>len.
       if len = 0 then done_with True
       else thenx (rd_poll rc TIMEOUT_INFINITE) (\<lambda>_. drain_outq rc n))"

primrec drain_commit_queue :: "'k rdkafka_consumer \<Rightarrow> nat \<Rightarrow> (('k, 'u) KafkaConsumer, bool) act" where
  "drain_commit_queue rc 0 = lib (\<lambda>k. (rc_queue_length rc k = 0, k))"
| "drain_commit_queue rc (Suc n) =
     thenx (lib (\<lambda>k. (rc_queue_length rc k, k))) (\<lambda>len.
       if len = 0 then done_with True
       else thenx (poll_commit_queue rc TIMEOUT_INFINITE) (\<lambda>_. drain_commit_queue rc n))"

definition consumer_close :: "'k rdkafka_consumer \<Rightarrow> nat \<Rightarrow> (('k, 'u) KafkaConsumer, bool) act" where
  "consumer_close rc n =
     thenx (updatex (\<lambda>c. stopBackgroundPollingIfNecessary (c\<lparr>kc_opened := False\<rparr>))) (\<lambda>_.
     thenx (catch_kafkax (commitStoredOffsetsIfNecessary rc Sync)) (\<lambda>_.
     thenx (lib (rc_consumer_close rc)) (\<lambda>events.
     thenx (forx (onRebalance rc) events) (\<lambda>_.
     thenx (drain_outq rc n) (\<lambda>ended.
       if ended then drain_commit_queue rc n else done_with False)))))"

definition destroy_KafkaConsumer :: "'k rdkafka_consumer \<Rightarrow> nat \<Rightarrow> (('k, 'u) KafkaConsumer, bool) act" where
  "destroy_KafkaConsumer rc n =
     thenx (getx kc_opened) (\<lambda>opened. if opened then consumer_close rc n else done_with True)"


section \<open>Lemmas\<close>

lemma frame_unexpected [frame_rules]: "frame v (unexpected msg)"
  by (simp add: frame_def unexpected_def)

text \<open>The local copy of the assignment, also when librdkafka refuses the change.\<close>

lemma changeAssignment_assignment:
  assumes "kc_rk c = Some k"
  shows "kn_assignment (snd (changeAssignment rc ev tps c)) =
    (case ev of Assign \<Rightarrow> tps | Revoke \<Rightarrow> {} | IncrementalAssign \<Rightarrow> kn_assignment c \<union> tps
     | IncrementalUnassign \<Rightarrow> kn_assignment c - tps)"
  using assms
  by (cases ev) (simp_all add: changeAssignment_def lib_def handle_of_def thenx_def throw_if_def case_prod_unfold Let_def)

lemma refused_assignment_is_recorded:
  assumes "kc_rk c = Some k" and "rc_assign rc (Some (createRkList_of_partitions tps)) k = (err, k')" and "err \<noteq> 0"
  shows "changeAssignment rc Assign tps c =
    (throw_error (Error_code err), c\<lparr>kc_rk := Some k', kn_assignment := tps\<rparr>)"
  using assms by (simp add: changeAssignment_def lib_def handle_of_def thenx_def throw_if_def throw_error_def)

text \<open>A commit that is refused leaves its callback object behind: nobody calls or deletes it.\<close>

lemma refused_commit_leaks:
  assumes "kc_rk c = Some k" and "dom tpos \<noteq> {}"
    and "rc_commit_queue rc (Some (createRkTopicPartitionList tpos)) (kn_next c) k = (err, k')" and "err \<noteq> 0"
  shows "commitAsync rc tpos cb c = (throw_error (Error_code err),
    c\<lparr>kc_rk := Some k', kn_opaques := (kn_opaques c)(kn_next c \<mapsto> cb), kn_next := kn_next c + 1\<rparr>)"
  using assms by (simp add: commitAsync_def lib_def handle_of_def thenx_def throw_if_def throw_error_def)

text \<open>What the caller asked for: the part only \<open>subscribe\<close>, \<open>assign\<close> and
  \<open>unsubscribe\<close> change.\<close>

definition wishes :: "('k, 'u) KafkaConsumer \<Rightarrow> TopicPartition set \<times> string set" where
  "wishes c = (kn_userAssignment c, kn_userSubscription c)"

lemma frame_changeAssignment [frame_rules]: "frame wishes (changeAssignment rc ev tps)"
  by (cases ev) (auto simp: changeAssignment_def wishes_def Let_def intro!: frame_rules)

lemma frame_onRebalance [frame_rules]: "frame wishes (onRebalance rc ev)"
  by (cases ev) (auto simp: onRebalance_def Let_def wishes_def learn_protocol_def clear_pending_def
      call_rebalance_cb_def split: option.split intro!: frame_rules)

lemma frame_rd_poll [frame_rules]: "frame wishes (rd_poll rc t)"
  by (auto simp: rd_poll_def wishes_def intro!: frame_rules)

lemma frame_await_rebalance [frame_rules]: "frame wishes (await_rebalance rc msg n)"
  by (induction n) (auto simp: wishes_def simp del: thenx_simps act_simps intro!: frame_rules frame_rd_poll [unfolded wishes_def])

lemma frame_commitStored [frame_rules]: "frame wishes (commitStoredOffsetsIfNecessary rc ty)"
  by (auto simp: commitStoredOffsetsIfNecessary_def commit_def wishes_def intro!: frame_rules)

lemma frame_pollMessages [frame_rules]: "frame wishes (pollMessages rc t)"
proof -
  have "frame wishes (case received of Inl e \<Rightarrow> resx (throw_error (Error_code e))
      | Inr records \<Rightarrow> thenx (storeOffsetsIfNecessary records) (\<lambda>_. done_with records))" for received
    by (auto simp: wishes_def storeOffsetsIfNecessary_def intro!: frame_rules split: sum.split)
  then show ?thesis
    unfolding pollMessages_def case_prod_unfold
    by (intro frame_rules frame_onRebalance) (simp_all add: wishes_def)
qed


lemma frame_commit [frame_rules]: "frame wishes (commit rc tpos ty)"
  by (auto simp: commit_def wishes_def intro!: frame_rules)

lemma frame_commitAsync [frame_rules]: "frame wishes (commitAsync rc tpos cb)"
  by (auto simp: commitAsync_def wishes_def intro!: frame_rules)

lemma frame_seek [frame_rules]: "frame wishes (seek rc n tp off)"
proof -
  have "frame wishes (seek_attempts (lib f) n)" for f :: "'a \<Rightarrow> int \<times> 'a" and n
    by (induction n) (auto simp: wishes_def intro!: frame_rules)
  then show ?thesis
    unfolding seek_def by (intro frame_rules) (auto simp: wishes_def intro!: frame_rules split: option.split)
qed

lemma frame_pauseOrResume [frame_rules]: "frame wishes (pauseOrResumePartitions rc tps b)"
  unfolding pauseOrResumePartitions_def Let_def
  by (intro frame_rules) (auto simp: wishes_def split: prod.split intro!: frame_rules)

lemma frame_poll_commit_queue [frame_rules]: "frame wishes (poll_commit_queue rc t)"
  unfolding poll_commit_queue_def
proof (intro frame_rules)
  show "frame wishes (offsetCommitCallback ev)" for ev :: "int \<times> tp_list option \<times> nat option"
    by (cases ev) (auto simp: frame_def offsetCommitCallback_def wishes_def split: option.split)
qed (simp add: wishes_def)

text \<open>The calls a user can make, one after the other, each with whatever it meets.\<close>

datatype 'u consumer_call =
    C_subscribe nat "string set" "'u option"
  | C_unsubscribe nat
  | C_assign "TopicPartition set"
  | C_poll int
  | C_seek nat TopicPartition int
  | C_commitSync TopicPartitionOffsets
  | C_commitAsync TopicPartitionOffsets "'u option"
  | C_pause bool
  | C_pollEvents int

definition perform ::
  "'k rdkafka_consumer \<Rightarrow> 'u consumer_call \<Rightarrow> ('k, 'u) KafkaConsumer \<Rightarrow> ('k, 'u) KafkaConsumer" where
  "perform rc call c =
     (case call of
        C_subscribe n topics cb \<Rightarrow> snd (subscribe rc n topics cb c)
      | C_unsubscribe n \<Rightarrow> snd (unsubscribe rc n c)
      | C_assign tps \<Rightarrow> snd (assign rc tps c)
      | C_poll t \<Rightarrow> snd (consumer_poll rc t c)
      | C_seek n tp off \<Rightarrow> snd (seek rc n tp off c)
      | C_commitSync tpos \<Rightarrow> snd (commit rc tpos Sync c)
      | C_commitAsync tpos cb \<Rightarrow> snd (commitAsync rc tpos cb c)
      | C_pause b \<Rightarrow> snd (if b then pause_all rc c else resume_all rc c)
      | C_pollEvents t \<Rightarrow> snd (poll_commit_queue rc t c))"

definition exclusive :: "('k, 'u) KafkaConsumer \<Rightarrow> bool" where
  "exclusive c = (kn_userAssignment c = {} \<or> kn_userSubscription c = {})"

lemma exclusive_wishes: "wishes c' = wishes c \<Longrightarrow> exclusive c' = exclusive c"
  by (simp add: wishes_def exclusive_def)

lemma frame_exclusive: "frame wishes m \<Longrightarrow> exclusive (snd (m c)) = exclusive c"
  by (rule exclusive_wishes) (simp add: frame_def)

text \<open>After an update of the wishes, the rest of an operation keeps them.\<close>

lemma wishes_after_update: "(\<And>x. frame wishes (f x)) \<Longrightarrow> wishes (snd (thenx (updatex u) f c)) = wishes (u c)"
  by (simp add: frame_def)

lemma subscribe_wishes:
  "wishes (snd (subscribe rc n topics cb c)) \<in> {wishes c, ({}, topics)} \<and>
   (kn_userAssignment c \<noteq> {} \<longrightarrow> wishes (snd (subscribe rc n topics cb c)) = wishes c)"
proof (cases "kn_userAssignment c \<noteq> {} \<or> (isCooperativeEnabled c \<and> topics = kn_userSubscription c)")
  case True
  then show ?thesis by (auto simp: subscribe_def unexpected_def)
next
  case False
  let ?rest = "\<lambda>_. thenx (lib (rc_subscribe rc (createRkList_of_topics topics))) (\<lambda>result.
       thenx (throw_if (Error_code result)) (\<lambda>_.
       thenx (updatex (\<lambda>c. c\<lparr>kn_pendingEvent := Some PartitionsAssignment\<rparr>)) (\<lambda>_.
         await_rebalance rc ''subscribe() timed out!'' n)))"
  let ?u = "\<lambda>c. c\<lparr>kn_userSubscription := topics, kn_rebalanceCb := cb\<rparr>"
  have no: "\<not> kn_userAssignment c \<noteq> {}" "\<not> (isCooperativeEnabled c \<and> topics = kn_userSubscription c)"
    using False by blast+
  have "subscribe rc n topics cb c = thenx (updatex ?u) ?rest c"
    by (simp only: subscribe_def thenx_simps if_not_P [OF no(1)] if_not_P [OF no(2)])
  moreover have "wishes (snd (thenx (updatex ?u) ?rest c)) = wishes (?u c)"
    by (rule wishes_after_update) (intro frame_rules; simp add: wishes_def)
  ultimately show ?thesis using False by (simp add: wishes_def)
qed

lemma assign_wishes:
  "wishes (snd (assign rc tps c)) = (if kn_userSubscription c \<noteq> {} then wishes c else (tps, {}))"
proof (cases "kn_userSubscription c \<noteq> {}")
  case True
  then show ?thesis by (simp add: assign_def unexpected_def)
next
  case False
  then show ?thesis by (simp add: assign_def frameD [OF frame_changeAssignment]) (simp add: wishes_def)
qed

lemma unsubscribe_wishes:
  "wishes (snd (unsubscribe rc n c)) \<in> {wishes c, ({}, kn_userSubscription c), (kn_userAssignment c, {})}"
proof -
  consider (none) "kn_userSubscription c = {} \<and> kn_userAssignment c = {}" | (assigned) "kn_userAssignment c \<noteq> {}"
    | (subscribed) "kn_userSubscription c \<noteq> {}" "kn_userAssignment c = {}" by blast
  then show ?thesis
  proof cases
    case none
    then show ?thesis by (simp add: unsubscribe_def)
  next
    case assigned
    let ?m = "changeAssignment rc (if isCooperativeEnabled c then IncrementalUnassign else Revoke) (kn_userAssignment c)"
    have "wishes (snd (?m c)) = wishes c" by (rule frameD [OF frame_changeAssignment])
    moreover have "unsubscribe rc n c = thenx ?m (\<lambda>_. updatex (\<lambda>c. c\<lparr>kn_userAssignment := {}\<rparr>)) c"
      using assigned by (simp add: unsubscribe_def)
    ultimately show ?thesis by (auto simp: thenx_def wishes_def split: prod.split sum.split)
  next
    case subscribed
    let ?rest = "\<lambda>_. thenx (lib (rc_unsubscribe rc)) (\<lambda>result.
       thenx (throw_if (Error_code result)) (\<lambda>_.
       thenx (updatex (\<lambda>c. c\<lparr>kn_pendingEvent := Some PartitionsRevocation\<rparr>)) (\<lambda>_.
         await_rebalance rc ''unsubscribe() timed out!'' n)))"
    let ?u = "\<lambda>c. c\<lparr>kn_userSubscription := {}\<rparr>"
    have "unsubscribe rc n c = thenx (updatex ?u) ?rest c" using subscribed by (simp add: unsubscribe_def)
    moreover have "wishes (snd (thenx (updatex ?u) ?rest c)) = wishes (?u c)"
      by (rule wishes_after_update) (intro frame_rules; simp add: wishes_def)
    ultimately show ?thesis by (simp add: wishes_def)
  qed
qed

lemma perform_exclusive: "exclusive c \<Longrightarrow> exclusive (perform rc call c)"
proof (cases call)
  case (C_subscribe n topics cb)
  assume "exclusive c"
  then show ?thesis
    using subscribe_wishes [of rc n topics cb c] C_subscribe by (auto simp: perform_def exclusive_def wishes_def)
next
  case (C_unsubscribe n)
  assume "exclusive c"
  then show ?thesis
    using unsubscribe_wishes [of rc n c] C_unsubscribe by (auto simp: perform_def exclusive_def wishes_def)
next
  case (C_assign tps)
  assume "exclusive c"
  then show ?thesis
    using assign_wishes [of rc tps c] C_assign by (auto simp: perform_def exclusive_def wishes_def split: if_splits)
qed (simp_all add: perform_def consumer_poll_def pause_all_def resume_all_def pause_def resume_def frame_exclusive frame_rules)

end
