(* ===== verification/Kafka_Autocommit.thy ===== *)
theory Kafka_Autocommit
  imports Kafka_Consumer
begin

text \<open>
  What the consumer of Kafka_Consumer commits on its own (\<open>enable.auto.commit=true\<close>), and its
  two exclusive modes. librdkafka enters as the log of the commit requests it was given, an
  interface with a reference implementation. The properties say which offsets are asked for and
  when; further lemmas show what a failed request and an event without a message do to them.
\<close>

section \<open>Stored offsets\<close>

definition of_partition :: "TopicPartition \<Rightarrow> rd_kafka_message list \<Rightarrow> rd_kafka_message list" where
  "of_partition tp b = filter (\<lambda>r. record_partition r = tp) b"

lemma store_offsets_lookup:
  "store_offsets b m tp = (if of_partition tp b = [] then m tp else Some (rm_offset (last (of_partition tp b))))"
  by (induction b rule: rev_induct) (auto simp: store_offsets_def of_partition_def)

lemma store_offsets_dom [simp]: "store_offsets b Map.empty = Map.empty \<longleftrightarrow> b = []"
proof (cases b)
  case (Cons r b)
  have "store_offsets (r # b) Map.empty (record_partition r) \<noteq> None"
    by (simp add: store_offsets_lookup of_partition_def)
  then show ?thesis using Cons by auto
qed (simp add: store_offsets_def)

text \<open>The offset after the last record of a batch, for every partition that occurs in it.\<close>

definition next_offsets :: "rd_kafka_message list \<Rightarrow> TopicPartitionOffsets" where
  "next_offsets b tp =
     (if of_partition tp b = [] then None else Some (rm_offset (last (of_partition tp b)) + 1))"

definition batch_request :: "rd_kafka_message list \<Rightarrow> (tp_list option \<times> bool) list" where
  "batch_request b = (if b = [] then [] else [(Some (createRkTopicPartitionList (next_offsets b)), True)])"

lemma increment_stored:
  assumes "increment_all (store_offsets b Map.empty) = Inr m"
  shows "m = next_offsets b"
proof -
  have "m tp = next_offsets b tp" for tp
    using assms by (auto simp: increment_all_def next_offsets_def store_offsets_lookup split: if_splits)
  then show ?thesis by (rule ext)
qed

section \<open>The log of requests\<close>

locale commit_log =
  fixes rc :: "'k rdkafka_consumer" and requests :: "'k \<Rightarrow> (tp_list option \<times> bool) list"
  assumes logs: "requests (snd (rc_commit rc l a k)) = requests k @ [(l, a)]"
    and consumes: "requests (snd (rc_consume_batch_queue rc t n k)) = requests k"
    and assigns: "requests (snd (rc_assign rc tps k)) = requests k"
    and adds: "requests (snd (rc_incremental_assign rc ps k)) = requests k"
    and removes: "requests (snd (rc_incremental_unassign rc ps k)) = requests k"
begin

text \<open>A rebalance event changes the assignment and calls the user; it commits and stores nothing.\<close>

definition committing :: "('k, 'u) KafkaConsumer \<Rightarrow> (tp_list option \<times> bool) list option \<times> bool \<times> TopicPartitionOffsets" where
  "committing c = (map_option requests (kc_rk c), kn_enableAutoCommit c, kn_offsetsToStore c)"

lemma lib_committing: "(\<And>k. requests (snd (f k)) = requests k) \<Longrightarrow> frame committing (lib f)"
  by (auto simp: frame_def lib_def handle_of_def committing_def Let_def case_prod_unfold split: option.split)

lemma changeAssignment_committing: "frame committing (changeAssignment rc ev tps)"
proof -
  have l: "frame committing (lib (rc_assign rc x))" "frame committing (lib (rc_incremental_assign rc y))"
    "frame committing (lib (rc_incremental_unassign rc y))" for x y
    by (simp_all add: lib_committing assigns adds removes)
  have u: "frame committing (updatex (\<lambda>c. c\<lparr>kn_assignment := f c\<rparr>))" for f
    by (simp add: frame_def committing_def)
  show ?thesis
    unfolding changeAssignment_def Let_def
    by (cases ev; simp only: PartitionsRebalanceEvent.case) (intro frame_thenx frame_basic l u)+
qed

lemma onRebalance_committing: "frame committing (onRebalance rc ev)"
proof (cases ev)
  case (Pair err tps)
  have u: "frame committing (updatex (\<lambda>c. clear_pending err (learn_protocol rc c)))"
    "frame committing (updatex (call_rebalance_cb err tps'))" for tps'
    by (auto simp: frame_def committing_def learn_protocol_def clear_pending_def call_rebalance_cb_def split: option.split)
  show ?thesis
    unfolding Pair onRebalance_def prod.case Let_def
    by (intro frame_rules u changeAssignment_committing)
qed

lemma events_committing: "committing (snd (forx (onRebalance rc) evs c)) = committing c"
  using frameD [OF frame_forx [of committing "onRebalance rc", OF onRebalance_committing]] .

lemma commitStored_requests:
  assumes "commitStoredOffsetsIfNecessary rc ty c = (Inr (), c')" and "kn_enableAutoCommit c"
    and "kc_rk c = Some k" and "kn_offsetsToStore c = store_offsets b Map.empty" and "ty = Async"
  shows "\<exists>k'. kc_rk c' = Some k' \<and> requests k' = requests k @ batch_request b \<and>
    kn_enableAutoCommit c' \<and> kn_offsetsToStore c' = Map.empty"
proof (cases "b = []")
  case True
  then show ?thesis
    using assms by (auto simp: commitStoredOffsetsIfNecessary_def store_offsets_def batch_request_def)
next
  case False
  then have d: "dom (store_offsets b Map.empty) \<noteq> {}" by simp
  then obtain m where m: "increment_all (store_offsets b Map.empty) = Inr m"
    using assms(1,2,4) by (cases "increment_all (store_offsets b Map.empty)")
      (auto simp: commitStoredOffsetsIfNecessary_def)
  then have "m = next_offsets b" by (rule increment_stored)
  moreover have "dom m \<noteq> {}" using d m by (auto simp: increment_all_def dom_def split: if_splits)
  ultimately show ?thesis
    using assms(1-3,5) d m False logs [of "Some (createRkTopicPartitionList m)" True k]
    by (auto simp: commitStoredOffsetsIfNecessary_def assms(4) commit_def lib_def handle_of_def thenx_Inr throw_if_def
        batch_request_def split: prod.splits)
qed

lemma poll_requests:
  assumes "consumer_poll rc t c = (Inr b', c')" and "kn_enableAutoCommit c"
    and "kc_rk c = Some k" and "kn_offsetsToStore c = store_offsets b Map.empty"
  shows "\<exists>k'. kc_rk c' = Some k' \<and> requests k' = requests k @ batch_request b \<and>
    kn_enableAutoCommit c' \<and> kn_offsetsToStore c' = store_offsets b' Map.empty"
proof -
  obtain c1 where c1: "commitStoredOffsetsIfNecessary rc Async c = (Inr (), c1)"
    and rest: "thenx (getx kn_maxPollRecords) (\<lambda>n. thenx (resx (make_array n)) (\<lambda>_.
      thenx (lib (rc_consume_batch_queue rc (convertMsDurationToInt t) n)) (\<lambda>(received, events).
      thenx (forx (onRebalance rc) events) (\<lambda>_.
        case received of Inl last_error \<Rightarrow> resx (throw_error (Error_code last_error))
        | Inr records \<Rightarrow> thenx (storeOffsetsIfNecessary records) (\<lambda>_. done_with records))))) c1 = (Inr b', c')"
    using assms(1) unfolding consumer_poll_def pollMessages_def by (auto simp: thenx_Inr [of "commitStoredOffsetsIfNecessary rc Async"])
  obtain k1 where k1: "kc_rk c1 = Some k1" "requests k1 = requests k @ batch_request b"
    "kn_enableAutoCommit c1" "kn_offsetsToStore c1 = Map.empty"
    using commitStored_requests [OF c1 assms(2-4)] by auto
  let ?r = "rc_consume_batch_queue rc (convertMsDurationToInt t) (kn_maxPollRecords c1) k1"
  obtain received events k2 where r: "?r = ((received, events), k2)" by (metis prod.exhaust)
  have k2: "requests k2 = requests k1"
    using consumes [of "convertMsDurationToInt t" "kn_maxPollRecords c1" k1] by (simp add: r)
  obtain c3 where c3: "forx (onRebalance rc) events (c1\<lparr>kc_rk := Some k2\<rparr>) = (Inr (), c3)"
    and last: "(case received of Inl last_error \<Rightarrow> resx (throw_error (Error_code last_error))
        | Inr records \<Rightarrow> thenx (storeOffsetsIfNecessary records) (\<lambda>_. done_with records)) c3 = (Inr b', c')"
    using rest k1(1) r
    by (cases "make_array (kn_maxPollRecords c1)") (auto simp: thenx_Inr lib_def handle_of_def)
  have "committing c3 = committing (c1\<lparr>kc_rk := Some k2\<rparr>)"
    using events_committing [of events "c1\<lparr>kc_rk := Some k2\<rparr>"] by (simp add: c3)
  then obtain k3 where k3: "kc_rk c3 = Some k3" "requests k3 = requests k2" "kn_enableAutoCommit c3"
    "kn_offsetsToStore c3 = Map.empty"
    using k1(3,4) by (auto simp: committing_def)
  show ?thesis
    using last k3 k1(2) k2
    by (auto simp: storeOffsetsIfNecessary_def throw_error_def split: sum.splits)
qed

end

text \<open>Polls in a row and the batches they return.\<close>

primrec poll_all :: "'k rdkafka_consumer \<Rightarrow> int list \<Rightarrow> (('k, 'u) KafkaConsumer, rd_kafka_message list list) act" where
  "poll_all rc [] = done_with []"
| "poll_all rc (t # ts) =
     thenx (consumer_poll rc t) (\<lambda>b. thenx (poll_all rc ts) (\<lambda>bs. done_with (b # bs)))"

context commit_log
begin

lemma polls_requests:
  assumes "poll_all rc ts c = (Inr bs, c')" and "kn_enableAutoCommit c"
    and "kc_rk c = Some k" and "kn_offsetsToStore c = store_offsets b Map.empty"
  shows "\<exists>k'. kc_rk c' = Some k' \<and> requests k' = requests k @ concat (map batch_request (butlast (b # bs))) \<and>
    kn_offsetsToStore c' = store_offsets (last (b # bs)) Map.empty"
  using assms
proof (induction ts arbitrary: c k b bs)
  case Nil
  then show ?case by simp
next
  case (Cons t ts)
  obtain b1 c1 bs1 where p: "consumer_poll rc t c = (Inr b1, c1)" "poll_all rc ts c1 = (Inr bs1, c')" "bs = b1 # bs1"
    using Cons.prems(1) by (auto simp: thenx_Inr)
  obtain k1 where k1: "kc_rk c1 = Some k1" "requests k1 = requests k @ batch_request b" "kn_enableAutoCommit c1"
    "kn_offsetsToStore c1 = store_offsets b1 Map.empty"
    using poll_requests [OF p(1) Cons.prems(2-4)] by blast
  show ?case using Cons.IH [OF p(2) k1(3,1,4)] k1(2) p(3) by auto
qed

end

section \<open>A reference library\<close>

record ref_consumer_state =
  rs_batches :: "rd_kafka_message list list"
  rs_requests :: "(tp_list option \<times> bool) list"
  rs_results :: "int list"

text \<open>Batches are handed out in order, requests recorded and answered with the given results, then
  with success. The other calls succeed and do nothing.\<close>

definition ref_consumer :: "ref_consumer_state rdkafka_consumer" where
  "ref_consumer =
     \<lparr>rc_poll_set_consumer = (\<lambda>k. (0, k)), rc_subscribe = (\<lambda>l k. (0, k)), rc_unsubscribe = (\<lambda>k. (0, k)),
      rc_subscription = (\<lambda>k. ((0, None), k)), rc_assign = (\<lambda>l k. (0, k)), rc_incremental_assign = (\<lambda>l k. (None, k)),
      rc_incremental_unassign = (\<lambda>l k. (None, k)), rc_assignment = (\<lambda>k. ((0, None), k)),
      rc_poll = (\<lambda>t k. ([], k)), rc_rebalance_protocol = (\<lambda>k. None), rc_topic_new = (\<lambda>t k. (None, k)),
      rc_seek = (\<lambda>t p off d k. (0, k)), rc_position = (\<lambda>l k. ((0, l), k)), rc_committed = (\<lambda>l t k. ((0, l), k)),
      rc_offsets_for_times = (\<lambda>l t k. ((0, l), k)), rc_query_watermark_offsets = (\<lambda>t p d k. ((0, 0, 0), k)),
      rc_commit = (\<lambda>l a k. (case rs_results k of [] \<Rightarrow> 0 | r # _ \<Rightarrow> r,
        k\<lparr>rs_requests := rs_requests k @ [(l, a)], rs_results := tl (rs_results k)\<rparr>)),
      rc_commit_queue = (\<lambda>l p k. (0, k)), rc_queue_poll_callback = (\<lambda>t k. ([], k)), rc_queue_length = (\<lambda>k. 0),
      rc_consume_batch_queue = (\<lambda>t n k. case rs_batches k of [] \<Rightarrow> ((Inr [], []), k)
        | b # bs \<Rightarrow> ((Inr (take n b), []), k\<lparr>rs_batches := (if drop n b = [] then bs else drop n b # bs)\<rparr>)),
      rc_pause_partitions = (\<lambda>l k. ((0, map (\<lambda>_. 0) l), k)), rc_resume_partitions = (\<lambda>l k. ((0, map (\<lambda>_. 0) l), k)),
      rc_consumer_close = (\<lambda>k. ([], k)), rc_outq_len = (\<lambda>k. 0)\<rparr>"

interpretation ref_log: commit_log ref_consumer rs_requests
  by unfold_locales (auto simp: ref_consumer_def split: list.splits)

definition ref_kafka_consumer :: "rd_kafka_message list list \<Rightarrow> int list \<Rightarrow> (ref_consumer_state, nat) KafkaConsumer" where
  "ref_kafka_consumer bs rs = (as_consumer ((blank_client False)\<lparr>kc_rk :=
     Some \<lparr>rs_batches = bs, rs_requests = [], rs_results = rs\<rparr>, kc_opened := True\<rparr>))\<lparr>kn_enableAutoCommit := True\<rparr>"

definition sample_msg :: "int \<Rightarrow> rd_kafka_message" where
  "sample_msg off = \<lparr>rm_err = 0, rm_topic = Some ''t'', rm_partition = 0, rm_offset = off, rm_key_len = 0,
     rm_len = 0, rm_timestamp = (0, 0), rm_status = 0, rm_private = None\<rparr>"

section \<open>A request that fails\<close>

text \<open>The offsets were incremented before the request; when it fails they stay so, and the next
  attempt increments them again: it asks for an offset one too large, so that after a restart
  the record at the offset in between is never delivered.\<close>

lemma failed_commit_keeps_increment:
  assumes "kn_enableAutoCommit c" and "dom (kn_offsetsToStore c) \<noteq> {}" and "kc_rk c = Some k"
    and "increment_all (kn_offsetsToStore c) = Inr m"
    and "rc_commit rc (Some (createRkTopicPartitionList m)) (ty = Async) k = (err, k')" and "err \<noteq> 0"
  shows "commitStoredOffsetsIfNecessary rc ty c =
    (throw_error (Error_code err), c\<lparr>kc_rk := Some k', kn_offsetsToStore := m\<rparr>)"
proof -
  have "dom m \<noteq> {}" using assms(2,4) by (auto simp: increment_all_def dom_def split: if_splits)
  then show ?thesis
    using assms by (simp add: commitStoredOffsetsIfNecessary_def commit_def thenx_def lib_def handle_of_def throw_if_def
        throw_error_def)
qed


lemma increment_single:
  "increment_all [tp \<mapsto> off] = (if off = 2 ^ 63 - 1 then Inl (Undefined Signed_overflow) else Inr [tp \<mapsto> off + 1])"
  by (auto simp: increment_all_def fun_eq_iff)

lemma list_of_single:
  "createRkTopicPartitionList [(t, p) \<mapsto> off] = [\<lparr>tpe_topic = c_str t, tpe_partition = p, tpe_offset = off\<rparr>]"
  by (simp add: createRkTopicPartitionList_def map_entries_def)

lemma failed_commit_skips_record:
  "\<exists>c1 c2 e. consumer_poll ref_consumer 0 (ref_kafka_consumer [[sample_msg 4]] [7]) = (Inr [sample_msg 4], c1) \<and>
    consumer_poll ref_consumer 0 c1 = (Inl e, c2) \<and>
    map (\<lambda>r. map tpe_offset (the (fst r)))
      (rs_requests (the (kc_rk (snd (consumer_poll ref_consumer 0 c2))))) = [[5], [6]]"
  by (simp add: consumer_poll_def pollMessages_def commitStoredOffsetsIfNecessary_def ref_kafka_consumer_def
      ref_consumer_def as_consumer_def blank_client_def KafkaClient.defs make_array_def lib_def handle_of_def
      thenx_def storeOffsetsIfNecessary_def store_offsets_def record_partition_def sample_msg_def increment_single
      commit_def list_of_single throw_if_def throw_error_def)

text \<open>An event without a message, such as the end of a partition, is stored like a record: its
  offset is that of the next record, which is then skipped.\<close>

lemma event_offset_committed:
  "next_offsets [(sample_msg 9)\<lparr>rm_err := - 191\<rparr>] (''t'', 0) = Some 10"
  by (simp add: next_offsets_def of_partition_def record_partition_def sample_msg_def)

section \<open>Properties\<close>

text \<open>C35. With automatic commits a poll first asks, without waiting, to commit for every partition
  of the batch the poll before returned the offset after its last record, and for nothing
  else: over any number of polls that return, the requests are those of all batches but the
  last, in order, so nothing the caller has not come back from is committed. The offsets of
  the last batch are kept for the next poll. Rebalance events that a poll serves change none of
  this. librdkafka enters with the log of its commit requests, which only a commit extends.\<close>

theorem autocommit_requests:
  assumes "\<And>l a k. requests (snd (rc_commit rc l a k)) = requests k @ [(l, a)]"
    and "\<And>t n k. requests (snd (rc_consume_batch_queue rc t n k)) = requests k"
    and "\<And>tps k. requests (snd (rc_assign rc tps k)) = requests k"
    and "\<And>ps k. requests (snd (rc_incremental_assign rc ps k)) = requests k"
    and "\<And>ps k. requests (snd (rc_incremental_unassign rc ps k)) = requests k"
    and "poll_all rc ts c = (Inr bs, c')" and "kn_enableAutoCommit c"
    and "kn_offsetsToStore c = Map.empty" and "kc_rk c = Some k" and "bs \<noteq> []"
  shows "\<exists>k'. kc_rk c' = Some k' \<and> requests k' = requests k @ concat (map batch_request (butlast bs)) \<and>
    kn_offsetsToStore c' = store_offsets (last bs) Map.empty"
proof -
  have l: "commit_log rc requests" by unfold_locales (rule assms(1-5))+
  have "kn_offsetsToStore c = store_offsets [] Map.empty" using assms(8) by (simp add: store_offsets_def)
  from commit_log.polls_requests [OF l assms(6,7,9) this] show ?thesis
    using assms(10) by (simp add: batch_request_def)
qed

lemma sample_polls:
  "\<exists>c'. poll_all ref_consumer [0, 0] (ref_kafka_consumer [[sample_msg 4, sample_msg 5], [sample_msg 6]] []) =
    (Inr [[sample_msg 4, sample_msg 5], [sample_msg 6]], c')"
  by (simp add: consumer_poll_def pollMessages_def commitStoredOffsetsIfNecessary_def ref_kafka_consumer_def
      ref_consumer_def as_consumer_def blank_client_def KafkaClient.defs make_array_def lib_def handle_of_def
      thenx_def storeOffsetsIfNecessary_def store_offsets_def record_partition_def sample_msg_def increment_all_def
      commit_def throw_if_def)

lemma autocommit_requests_witness:
  "\<exists>c' k'. poll_all ref_consumer [0, 0] (ref_kafka_consumer [[sample_msg 4, sample_msg 5], [sample_msg 6]] []) =
     (Inr [[sample_msg 4, sample_msg 5], [sample_msg 6]], c') \<and> kc_rk c' = Some k' \<and>
     rs_requests k' = batch_request [sample_msg 4, sample_msg 5] \<and>
     kn_offsetsToStore c' = store_offsets [sample_msg 6] Map.empty"
proof -
  obtain c' where c: "poll_all ref_consumer [0, 0] (ref_kafka_consumer [[sample_msg 4, sample_msg 5], [sample_msg 6]] []) =
    (Inr [[sample_msg 4, sample_msg 5], [sample_msg 6]], c')" using sample_polls by blast
  have "\<exists>k'. kc_rk c' = Some k' \<and> rs_requests k' = rs_requests \<lparr>rs_batches = [[sample_msg 4, sample_msg 5], [sample_msg 6]],
      rs_requests = [], rs_results = []\<rparr> @ concat (map batch_request (butlast [[sample_msg 4, sample_msg 5], [sample_msg 6]])) \<and>
    kn_offsetsToStore c' = store_offsets (last [[sample_msg 4, sample_msg 5], [sample_msg 6]]) Map.empty"
    by (rule autocommit_requests [OF ref_log.logs ref_log.consumes ref_log.assigns ref_log.adds ref_log.removes c])
      (simp_all add: ref_kafka_consumer_def as_consumer_def blank_client_def KafkaClient.defs)
  then show ?thesis using c by auto
qed

text \<open>C36. Assignment by hand and subscription exclude each other: whatever a user calls, in whatever
  order, and whichever calls throw, at most one of the two is in force, and the other kind of
  call is refused without changing anything.\<close>

theorem assign_and_subscribe_exclusive:
  assumes "kn_userAssignment c0 = {}" and "kn_userSubscription c0 = {}" and "c = fold (perform rc) calls c0"
  shows "(kn_userAssignment c = {} \<or> kn_userSubscription c = {}) \<and>
    (kn_userSubscription c \<noteq> {} \<longrightarrow> (\<exists>e. assign rc tps c = (throw_error e, c) \<and> Error_value e = RD_KAFKA_RESP_ERR_FAIL)) \<and>
    (kn_userAssignment c \<noteq> {} \<longrightarrow> (\<exists>e. subscribe rc n topics cb c = (throw_error e, c) \<and> Error_value e = RD_KAFKA_RESP_ERR_FAIL))"
proof -
  have "exclusive (fold (perform rc) calls c)" if "exclusive c" for c
    using that by (induction calls arbitrary: c) (auto intro: perform_exclusive)
  then have "exclusive c" using assms by (simp add: exclusive_def)
  then show ?thesis
    by (auto simp: exclusive_def assign_def subscribe_def unexpected_def Error_value_def Error_text_def)
qed

lemma assign_and_subscribe_exclusive_witness:
  "\<exists>e. subscribe ref_consumer 3 {''t''} None (perform ref_consumer (C_assign {(''t'', 0)}) (ref_kafka_consumer [] [])) =
     (throw_error e, perform ref_consumer (C_assign {(''t'', 0)}) (ref_kafka_consumer [] [])) \<and>
     Error_value e = RD_KAFKA_RESP_ERR_FAIL"
proof -
  let ?c = "perform ref_consumer (C_assign {(''t'', 0)}) (ref_kafka_consumer [] [])"
  have i: "kn_userAssignment (ref_kafka_consumer [] []) = {}" "kn_userSubscription (ref_kafka_consumer [] []) = {}"
    by (simp_all add: ref_kafka_consumer_def as_consumer_def blank_client_def KafkaClient.defs)
  have "wishes ?c = ({(''t'', 0)}, {})" using assign_wishes [of ref_consumer "{(''t'', 0)}" "ref_kafka_consumer [] []"] i by (simp add: perform_def)
  then have "kn_userAssignment ?c \<noteq> {}" by (simp add: wishes_def)
  then show ?thesis
    using assign_and_subscribe_exclusive [OF i, of ?c ref_consumer "[C_assign {(''t'', 0)}]"] by simp
qed

end
