(* ===== verification/Kafka_Admin.thy ===== *)
theory Kafka_Admin
  imports Kafka_Act Kafka_Metadata
begin

text \<open>
  \<open>src/include/kafka/AdminClient.h\<close>, with \<open>AdminCommon.h\<close>: creating, deleting and
  listing topics and deleting records. librdkafka is a record of functions: what it makes of a
  request, the event it has next for the client's queue, and its metadata. Log lines are left
  out. The lemmas say when an operation reports success and which errors it reports.
\<close>

section \<open>librdkafka\<close>

datatype admin_event_type = Createtopics_result | Deletetopics_result | Deleterecords_result | Other_event

text \<open>An event has its own error, the results per topic (error, name, text of the error) and those
  per partition.\<close>

record admin_event =
  ae_type :: admin_event_type
  ae_error :: int
  ae_error_string :: string
  ae_topics :: "(int \<times> string \<times> string) list"
  ae_partitions :: "(int \<times> string \<times> int) list"

record new_topic =
  nt_topic :: string
  nt_partitions :: int
  nt_replication :: int
  nt_config :: "(string \<times> string) list"

text \<open>\<open>ra_new_topic\<close> and \<open>ra_set_config\<close> check their arguments; polling the queue gives the next
  event or null.\<close>

record 'k rdkafka_admin =
  ra_new_topic :: "string \<Rightarrow> int \<Rightarrow> int \<Rightarrow> bool"
  ra_set_config :: "string \<Rightarrow> string \<Rightarrow> int"
  ra_CreateTopics :: "new_topic list \<Rightarrow> 'k \<Rightarrow> unit \<times> 'k"
  ra_DeleteTopics :: "string list \<Rightarrow> 'k \<Rightarrow> unit \<times> 'k"
  ra_DeleteRecords :: "rd_kafka_topic_partition list \<Rightarrow> 'k \<Rightarrow> unit \<times> 'k"
  ra_queue_poll :: "'k \<Rightarrow> admin_event option \<times> 'k"
  ra_metadata :: "int \<Rightarrow> 'k \<Rightarrow> (int \<times> rd_kafka_metadata option) \<times> 'k"
  ra_err2str :: "int \<Rightarrow> string"

definition new_AdminClient ::
  "('c, 'k) rdkafka_conf \<Rightarrow> (exn \<Rightarrow> string) \<Rightarrow> string \<Rightarrow> Properties \<Rightarrow> 'k KafkaClient res" where
  "new_AdminClient rd what random props =
     bindr (client_validate random props) (\<lambda>props. fst (new_KafkaClient rd what Admin_client props True True))"

section \<open>Results\<close>

definition getPerTopicResults :: "(int \<times> string \<times> string) list \<Rightarrow> Error list" where
  "getPerTopicResults results =
     concat (map (\<lambda>(err, topic, err_string).
       if err \<noteq> 0 then [Error_text err (''topic['' @ topic @ ''] with error['' @ err_string @ '']'') False] else []) results)"

definition getPerTopicPartitionResults :: "(int \<Rightarrow> string) \<Rightarrow> (int \<times> string \<times> int) list \<Rightarrow> Error list" where
  "getPerTopicPartitionResults err2str results =
     concat (map (\<lambda>(err, topic, part).
       if err \<noteq> 0 then [Error_text err (''topic-partition['' @ topic @ ''-'' @ dec_of_int part @
         ''] with error['' @ err2str err @ '']'') False] else []) results)"

definition combineErrors :: "(int \<Rightarrow> string) \<Rightarrow> Error list \<Rightarrow> Error" where
  "combineErrors err2str errors =
     (case errors of
        [] \<Rightarrow> Error_text 0 ''Success'' False
      | e # _ \<Rightarrow> Error_text (Error_value e)
          (fold (\<lambda>e msg. (if msg \<noteq> [] then msg @ ''; '' else msg) @ Error_message err2str e) errors []) False)"

text \<open>The error of the event itself comes first.\<close>

definition event_errors :: "admin_event \<Rightarrow> Error list" where
  "event_errors ev = (if ae_error ev \<noteq> 0 then [Error_text (ae_error ev) (ae_error_string ev) False] else [])"

section \<open>Waiting\<close>

text \<open>The \<open>do\<close> loop: one poll, and further ones while \<open>n\<close> fit before the deadline. Another event
  is dropped.\<close>

primrec await_event :: "'k rdkafka_admin \<Rightarrow> admin_event_type \<Rightarrow> nat \<Rightarrow> ('k KafkaClient, admin_event option) act" where
  "await_event ra ty 0 =
     thenx (lib (ra_queue_poll ra)) (\<lambda>ev.
       done_with (case ev of None \<Rightarrow> None | Some e \<Rightarrow> if ae_type e = ty then Some e else None))"
| "await_event ra ty (Suc n) =
     thenx (lib (ra_queue_poll ra)) (\<lambda>ev.
       case ev of
         None \<Rightarrow> await_event ra ty n
       | Some e \<Rightarrow> if ae_type e = ty then done_with (Some e) else await_event ra ty n)"

section \<open>Operations\<close>

definition DEFAULT_COMMAND_TIMEOUT_MS :: int where "DEFAULT_COMMAND_TIMEOUT_MS = 30000"

definition listTopics :: "'k rdkafka_admin \<Rightarrow> int \<Rightarrow> ('k KafkaClient, Error + string set) act" where
  "listTopics ra timeout =
     thenx (lib (ra_metadata ra (convertMsDurationToInt timeout))) (\<lambda>(err, rk_metadata).
       if err \<noteq> 0 then done_with (Inl (Error_text err (ra_err2str ra err) False))
       else case rk_metadata of
         None \<Rightarrow> resx (Inl (Undefined Null_dereference))
       | Some m \<Rightarrow> done_with (Inr (set (map mt_topic (rkm_topics m)))))"

text \<open>The topics of a request, or the error of the first one that is refused.\<close>

fun new_topics ::
  "'k rdkafka_admin \<Rightarrow> int \<Rightarrow> int \<Rightarrow> Properties \<Rightarrow> string list \<Rightarrow> Error + new_topic list" where
  "new_topics ra numPartitions replicationFactor conf [] = Inr []"
| "new_topics ra numPartitions replicationFactor conf (t # ts) =
     (if \<not> ra_new_topic ra (c_str t) numPartitions replicationFactor
      then Inl (Error_text RD_KAFKA_RESP_ERR_INVALID_ARG (ra_err2str ra RD_KAFKA_RESP_ERR_INVALID_ARG) False)
      else case List.find (\<lambda>(k, v). ra_set_config ra (c_str k) (c_str v) \<noteq> 0) (entries conf) of
        Some (k, v) \<Rightarrow> Inl (Error_text RD_KAFKA_RESP_ERR_INVALID_ARG (''Invalid config['' @ k @ ''='' @ v @ '']'') False)
      | None \<Rightarrow>
          (case new_topics ra numPartitions replicationFactor conf ts of
             Inl e \<Rightarrow> Inl e
           | Inr nts \<Rightarrow> Inr (\<lparr>nt_topic = c_str t, nt_partitions = numPartitions, nt_replication = replicationFactor,
               nt_config = map (\<lambda>(k, v). (c_str k, c_str v)) (entries conf)\<rparr> # nts)))"

primrec update_metadata :: "'k rdkafka_admin \<Rightarrow> nat \<Rightarrow> ('k KafkaClient, Error) act" where
  "update_metadata ra 0 =
     thenx (listTopics ra DEFAULT_COMMAND_TIMEOUT_MS) (\<lambda>result.
       done_with (case result of Inr _ \<Rightarrow> Error_text 0 ''Success'' False
         | Inl _ \<Rightarrow> Error_text RD_KAFKA_RESP_ERR_TIMED_OUT ''Updating metadata timed out'' False))"
| "update_metadata ra (Suc n) =
     thenx (listTopics ra DEFAULT_COMMAND_TIMEOUT_MS) (\<lambda>result.
       case result of Inr _ \<Rightarrow> done_with (Error_text 0 ''Success'' False) | Inl _ \<Rightarrow> update_metadata ra n)"

definition no_response :: Error where
  "no_response = Error_text RD_KAFKA_RESP_ERR_TIMED_OUT ''No response within the time limit'' False"

text \<open>\<open>n\<close> polls and then \<open>m\<close> requests for metadata fit before the deadline, besides the first
  of each.\<close>

definition createTopics ::
  "'k rdkafka_admin \<Rightarrow> nat \<Rightarrow> nat \<Rightarrow> string set \<Rightarrow> int \<Rightarrow> int \<Rightarrow> Properties \<Rightarrow> ('k KafkaClient, Error) act" where
  "createTopics ra n m topics numPartitions replicationFactor conf =
     (case new_topics ra numPartitions replicationFactor conf (sorted_list_of_set topics) of
        Inl e \<Rightarrow> done_with e
      | Inr rk_topics \<Rightarrow>
          thenx (lib (ra_CreateTopics ra rk_topics)) (\<lambda>_.
          thenx (await_event ra Createtopics_result n) (\<lambda>ev.
          case ev of
            None \<Rightarrow> done_with no_response
          | Some e \<Rightarrow>
              let errors = event_errors e @ getPerTopicResults (ae_topics e)
              in if errors \<noteq> [] then done_with (combineErrors (ra_err2str ra) errors)
                 else update_metadata ra m)))"

definition deleteTopics :: "'k rdkafka_admin \<Rightarrow> nat \<Rightarrow> string set \<Rightarrow> ('k KafkaClient, Error) act" where
  "deleteTopics ra n topics =
     thenx (lib (ra_DeleteTopics ra (map c_str (sorted_list_of_set topics)))) (\<lambda>_.
     thenx (await_event ra Deletetopics_result n) (\<lambda>ev.
     done_with (case ev of
       None \<Rightarrow> no_response
     | Some e \<Rightarrow> combineErrors (ra_err2str ra) (event_errors e @ getPerTopicResults (ae_topics e)))))"

definition deleteRecords :: "'k rdkafka_admin \<Rightarrow> nat \<Rightarrow> TopicPartitionOffsets \<Rightarrow> ('k KafkaClient, Error) act" where
  "deleteRecords ra n tpos =
     thenx (lib (ra_DeleteRecords ra (createRkTopicPartitionList tpos))) (\<lambda>_.
     thenx (await_event ra Deleterecords_result n) (\<lambda>ev.
     done_with (case ev of
       None \<Rightarrow> no_response
     | Some e \<Rightarrow> combineErrors (ra_err2str ra)
         (event_errors e @ getPerTopicPartitionResults (ra_err2str ra) (ae_partitions e)))))"

section \<open>Lemmas\<close>

lemma per_topic_codes: "map Error_value (getPerTopicResults rs) = filter (\<lambda>c. c \<noteq> 0) (map fst rs)"
  by (induction rs) (auto simp: getPerTopicResults_def Error_value_def Error_text_def)

lemma per_partition_codes: "map Error_value (getPerTopicPartitionResults f rs) = filter (\<lambda>c. c \<noteq> 0) (map fst rs)"
  by (induction rs) (auto simp: getPerTopicPartitionResults_def Error_value_def Error_text_def)

lemma event_codes: "map Error_value (event_errors e) = filter (\<lambda>c. c \<noteq> 0) [ae_error e]"
  by (simp add: event_errors_def Error_value_def Error_text_def)

lemma combineErrors_value:
  "Error_value (combineErrors f es) = (case map Error_value es of [] \<Rightarrow> 0 | c # _ \<Rightarrow> c)"
  by (cases es) (auto simp: combineErrors_def Error_value_def Error_text_def)

text \<open>The code an operation reports is the first that is not zero among the event's own and those of
  its topics; it reports none if and only if all went well.\<close>

lemma admin_result_code:
  "Error_value (combineErrors f (event_errors e @ getPerTopicResults (ae_topics e))) =
     (case filter (\<lambda>c. c \<noteq> 0) (ae_error e # map fst (ae_topics e)) of [] \<Rightarrow> 0 | c # _ \<Rightarrow> c)"
  "Error_value (combineErrors f (event_errors e @ getPerTopicPartitionResults g (ae_partitions e))) =
     (case filter (\<lambda>c. c \<noteq> 0) (ae_error e # map fst (ae_partitions e)) of [] \<Rightarrow> 0 | c # _ \<Rightarrow> c)"
  by (simp_all add: combineErrors_value per_topic_codes per_partition_codes event_codes)

lemma no_code: "(case filter (\<lambda>c. c \<noteq> 0) cs of [] \<Rightarrow> 0 | c # _ \<Rightarrow> c) = (0 :: int) \<longleftrightarrow> filter (\<lambda>c. c \<noteq> 0) cs = []"
  by (induction cs) auto

lemma await_event_type:
  "await_event ra ty n c = (Inr (Some e), c') \<Longrightarrow> ae_type e = ty"
  by (induction n arbitrary: c) (auto simp: thenx_Inr split: option.splits if_splits)

text \<open>Topics are reported as created only when the broker's event reports no error at all and the
  metadata could be read afterwards.\<close>

lemma createTopics_success:
  assumes "createTopics ra n m topics parts repl conf c = (Inr r, c')" and "Error_value r = 0"
    and "new_topics ra parts repl conf (sorted_list_of_set topics) = Inr nts"
  shows "\<exists>e c1 c2. await_event ra Createtopics_result n c1 = (Inr (Some e), c2) \<and> ae_error e = 0 \<and>
    (\<forall>x\<in>set (ae_topics e). fst x = 0)"
proof -
  obtain c1 ev c2 where ev: "await_event ra Createtopics_result n c1 = (Inr ev, c2)"
    and r: "(case ev of None \<Rightarrow> done_with no_response | Some e \<Rightarrow>
       let errors = event_errors e @ getPerTopicResults (ae_topics e)
       in if errors \<noteq> [] then done_with (combineErrors (ra_err2str ra) errors) else update_metadata ra m) c2 = (Inr r, c')"
    using assms(1) unfolding createTopics_def assms(3) by (auto simp only: thenx_Inr sum.case)
  show ?thesis
  proof (cases ev)
    case None
    then show ?thesis
      using r assms(2) by (auto simp: no_response_def Error_value_def Error_text_def RD_KAFKA_RESP_ERR_TIMED_OUT_def)
  next
    case (Some e)
    let ?es = "event_errors e @ getPerTopicResults (ae_topics e)"
    have "?es = []"
    proof (rule ccontr)
      assume "?es \<noteq> []"
      then have "r = combineErrors (ra_err2str ra) ?es" using r Some by simp
      then have code: "(case filter (\<lambda>c. c \<noteq> 0) (ae_error e # map fst (ae_topics e)) of [] \<Rightarrow> 0 | c # _ \<Rightarrow> c) = 0"
        using assms(2) admin_result_code(1) by metis
      have "filter (\<lambda>c. c \<noteq> 0) (ae_error e # map fst (ae_topics e)) = []"
        using code by (simp only: no_code)
      then have "map Error_value ?es = []"
        by (simp add: per_topic_codes event_codes split: if_splits)
      then show False using \<open>?es \<noteq> []\<close> by simp
    qed
    then have "ae_error e = 0" "map Error_value (getPerTopicResults (ae_topics e)) = []"
      by (auto simp: event_errors_def split: if_splits)
    then have "ae_error e = 0" "\<forall>x\<in>set (ae_topics e). fst x = 0"
      by (auto simp: per_topic_codes filter_empty_conv)
    then show ?thesis using ev Some by blast
  qed
qed

end
