(* ===== verification/Kafka_Metrics.thy ===== *)
theory Kafka_Metrics
  imports Json_Api Cpp_Strings
begin

text \<open>
  \<open>src/include/kafka/addons/KafkaMetrics.h\<close>: looking up values in the statistics of librdkafka by
  a path of keys, in which the wildcard stands for any member. RapidJSON is a record of
  functions. The lemmas say that a lookup finds exactly the values a path selects, defined
  as a relation, and what the integer lookup misses.
\<close>

section \<open>The lookups\<close>

text \<open>The accessors of a value; the members in their order, names as long as they are.\<close>

record 'v rapidjson =
  rj_ParseInsitu :: "string \<Rightarrow> 'v option"
  rj_IsObject :: "'v \<Rightarrow> bool"
  rj_members :: "'v \<Rightarrow> (string \<times> 'v) list"
  rj_FindMember :: "'v \<Rightarrow> string \<Rightarrow> 'v option"
  rj_IsInt :: "'v \<Rightarrow> bool"
  rj_GetInt :: "'v \<Rightarrow> int"
  rj_IsString :: "'v \<Rightarrow> bool"
  rj_GetString :: "'v \<Rightarrow> string"

definition WILDCARD :: string where "WILDCARD = ''*''"

definition new_KafkaMetrics :: "'v rapidjson \<Rightarrow> string \<Rightarrow> 'v res" where
  "new_KafkaMetrics rj jsonMetrics =
     (case rj_ParseInsitu rj (c_str jsonMetrics) of None \<Rightarrow> Inl (Throw Runtime_error) | Some d \<Rightarrow> Inr d)"

text \<open>\<open>is_t\<close> and \<open>val\<close> are the type test and the value of the template's type. With no key left
  the iterator is at its end.\<close>

primrec getResults ::
  "'v rapidjson \<Rightarrow> ('v \<Rightarrow> bool) \<Rightarrow> ('v \<Rightarrow> 'a) \<Rightarrow> string list \<Rightarrow> string list \<Rightarrow> 'v \<Rightarrow> (string list \<times> 'a) list res" where
  "getResults rj is_t val [] keysForWildcards v =
     (if \<not> rj_IsObject rj v then Inr [] else Inl (Undefined Index_out_of_bounds))"
| "getResults rj is_t val (key # keys) keysForWildcards v =
     (if \<not> rj_IsObject rj v then Inr []
      else if key = WILDCARD then
        bindr (mapM (\<lambda>(name, sub). getResults rj is_t val keys (keysForWildcards @ [c_str name]) sub) (rj_members rj v))
          (\<lambda>rs. Inr (concat rs))
      else case rj_FindMember rj v (c_str key) of
        None \<Rightarrow> Inr []
      | Some sub \<Rightarrow>
          if keys \<noteq> [] then getResults rj is_t val keys keysForWildcards sub
          else Inr (if is_t sub then [(keysForWildcards, val sub)] else []))"

text \<open>\<open>FindMember\<close> asserts that the document is an object.\<close>

definition metrics_get ::
  "'v rapidjson \<Rightarrow> ('v \<Rightarrow> bool) \<Rightarrow> ('v \<Rightarrow> 'a) \<Rightarrow> 'v \<Rightarrow> string list \<Rightarrow> (string list \<times> 'a) list res" where
  "metrics_get rj is_t val doc keys =
     (if keys = [] then Inl (Throw Invalid_argument)
      else if hd keys = WILDCARD then Inl (Throw Invalid_argument)
      else if last keys = WILDCARD then Inl (Throw Invalid_argument)
      else if \<not> rj_IsObject rj doc then Inl Abort
      else case rj_FindMember rj doc (c_str (hd keys)) of
        None \<Rightarrow> Inr []
      | Some v \<Rightarrow>
          if tl keys = [] then Inr (if is_t v then [([], val v)] else [])
          else getResults rj is_t val (tl keys) [] v)"

definition getInt :: "'v rapidjson \<Rightarrow> 'v \<Rightarrow> string list \<Rightarrow> (string list \<times> int) list res" where
  "getInt rj = metrics_get rj (rj_IsInt rj) (rj_GetInt rj)"

definition getString :: "'v rapidjson \<Rightarrow> 'v \<Rightarrow> string list \<Rightarrow> (string list \<times> string) list res" where
  "getString rj = metrics_get rj (rj_IsString rj) (\<lambda>v. c_str (rj_GetString rj v))"

definition keys_toString :: "string list \<Rightarrow> string" where
  "keys_toString keys =
     fold (\<lambda>key ret. ret @ (if ret = [] then [] else '', '') @ [CHR 0x22] @ key @ [CHR 0x22]) keys []"

text \<open>\<open>text\<close> prints a value, with quotation marks where it is a string.\<close>

definition results_toString :: "('a \<Rightarrow> string) \<Rightarrow> (string list \<times> 'a) list \<Rightarrow> string" where
  "results_toString show_value results =
     fst (fold (\<lambda>(keys, v) (oss, isTheFirstOne).
       (oss @ (if isTheFirstOne then [] else '', '') @
          (if keys_toString keys = [] then [] else ''['' @ keys_toString keys @ '']:'') @ show_value v, False))
       results ([], True))"

section \<open>What a path selects\<close>

inductive selects :: "'v rapidjson \<Rightarrow> 'v \<Rightarrow> string list \<Rightarrow> string list \<Rightarrow> 'v \<Rightarrow> bool" for rj where
  sel_end: "selects rj v [] [] v"
| sel_member: "rj_IsObject rj v \<Longrightarrow> key \<noteq> WILDCARD \<Longrightarrow> rj_FindMember rj v (c_str key) = Some u \<Longrightarrow>
    selects rj u keys ws r \<Longrightarrow> selects rj v (key # keys) ws r"
| sel_any: "rj_IsObject rj v \<Longrightarrow> (name, u) \<in> set (rj_members rj v) \<Longrightarrow>
    selects rj u keys ws r \<Longrightarrow> selects rj v (WILDCARD # keys) (c_str name # ws) r"

inductive_simps selects_Nil: "selects rj v [] ws r"
inductive_simps selects_Cons: "selects rj v (key # keys) ws r"

lemma getResults_selects:
  assumes "keys \<noteq> []" and "last keys \<noteq> WILDCARD"
  shows "\<exists>rs. getResults rj is_t val keys kw v = Inr rs \<and>
    (\<forall>ws x. (ws, x) \<in> set rs \<longleftrightarrow> (\<exists>us r. ws = kw @ us \<and> selects rj v keys us r \<and> is_t r \<and> x = val r))"
  using assms
proof (induction keys arbitrary: kw v)
  case (Cons key keys)
  show ?case
  proof (cases "rj_IsObject rj v")
    case False
    then show ?thesis by (simp add: selects_Cons)
  next
    case obj: True
    show ?thesis
    proof (cases "key = WILDCARD")
      case True
      then have k: "keys \<noteq> []" "last keys \<noteq> WILDCARD" using Cons.prems by (auto split: if_splits)
      have "\<forall>m. \<exists>rs. getResults rj is_t val keys (kw @ [c_str (fst m)]) (snd m) = Inr rs \<and>
        (\<forall>ws x. (ws, x) \<in> set rs \<longleftrightarrow>
          (\<exists>us r. ws = (kw @ [c_str (fst m)]) @ us \<and> selects rj (snd m) keys us r \<and> is_t r \<and> x = val r))"
        using Cons.IH [OF k] by blast
      then obtain F where F: "\<And>m. getResults rj is_t val keys (kw @ [c_str (fst m)]) (snd m) = Inr (F m)"
        "\<And>m ws x. (ws, x) \<in> set (F m) \<longleftrightarrow>
          (\<exists>us r. ws = (kw @ [c_str (fst m)]) @ us \<and> selects rj (snd m) keys us r \<and> is_t r \<and> x = val r)"
        by metis
      have "mapM (\<lambda>(name, sub). getResults rj is_t val keys (kw @ [c_str name]) sub) (rj_members rj v) =
        Inr (map F (rj_members rj v))"
        using F(1) by (intro mapM_Inr) auto
      then have "getResults rj is_t val (key # keys) kw v = Inr (concat (map F (rj_members rj v)))"
        using obj True by simp
      moreover have "(ws, x) \<in> set (concat (map F (rj_members rj v))) \<longleftrightarrow>
        (\<exists>us r. ws = kw @ us \<and> selects rj v (key # keys) us r \<and> is_t r \<and> x = val r)" for ws x
      proof -
        have sel: "selects rj v (key # keys) us r \<longleftrightarrow>
          (\<exists>m\<in>set (rj_members rj v). \<exists>us'. us = c_str (fst m) # us' \<and> selects rj (snd m) keys us' r)" for us r
          using obj True by (simp add: selects_Cons Bex_def split_paired_Ex) blast
        have "(ws, x) \<in> set (concat (map F (rj_members rj v))) \<longleftrightarrow>
          (\<exists>m\<in>set (rj_members rj v). (ws, x) \<in> set (F m))" by simp
        also have "\<dots> \<longleftrightarrow> (\<exists>us r. ws = kw @ us \<and> selects rj v (key # keys) us r \<and> is_t r \<and> x = val r)"
          unfolding F(2) sel by (simp add: Bex_def split_paired_Ex) blast
        finally show ?thesis .
      qed
      ultimately show ?thesis by blast
    next
      case False
      show ?thesis
      proof (cases "rj_FindMember rj v (c_str key)")
        case None
        then show ?thesis using obj False by (simp add: selects_Cons)
      next
        case (Some u)
        show ?thesis
        proof (cases "keys = []")
          case True
          then show ?thesis using obj False Some by (auto simp: selects_Cons selects_Nil)
        next
          case k: False
          then have "last keys \<noteq> WILDCARD" using Cons.prems by auto
          from Cons.IH [OF k this, of kw u] show ?thesis
            using obj False Some k by (simp add: selects_Cons)
        qed
      qed
    qed
  qed
qed simp

text \<open>A lookup in an object, by keys with no wildcard at either end, returns and finds exactly
  the values of the asked type that the keys select, each with the names the wildcards stood
  for.\<close>

theorem metrics_get_exact:
  assumes "rj_IsObject rj doc" and "keys \<noteq> []" and "hd keys \<noteq> WILDCARD" and "last keys \<noteq> WILDCARD"
  shows "\<exists>rs. metrics_get rj is_t val doc keys = Inr rs \<and>
    (\<forall>ws x. (ws, x) \<in> set rs \<longleftrightarrow> (\<exists>r. selects rj doc keys ws r \<and> is_t r \<and> x = val r))"
proof -
  obtain key rest where keys: "keys = key # rest" using assms(2) by (cases keys) auto
  then have "metrics_get rj is_t val doc keys =
    (case rj_FindMember rj doc (c_str key) of None \<Rightarrow> Inr []
     | Some v \<Rightarrow> if rest = [] then Inr (if is_t v then [([], val v)] else []) else getResults rj is_t val rest [] v)"
    using assms by (simp add: metrics_get_def split: option.split)
  also have "\<dots> = getResults rj is_t val keys [] doc"
    using assms keys by (auto split: option.split)
  finally show ?thesis
    using getResults_selects [OF assms(2,4), of rj is_t val "[]" doc] by simp
qed

section \<open>An instance\<close>

text \<open>\<open>IsInt\<close> holds of the integers of 32 bits.\<close>

fun ref_members :: "jvalue \<Rightarrow> (string \<times> jvalue) list" where
  "ref_members (JObject ms) = ms"
| "ref_members _ = []"

definition ref_rapidjson :: "jvalue rapidjson" where
  "ref_rapidjson =
     \<lparr>rj_ParseInsitu = (\<lambda>s. if s = ''{}'' then Some (JObject []) else None),
      rj_IsObject = (\<lambda>v. jvalue_type v = objectValue), rj_members = ref_members,
      rj_FindMember = (\<lambda>v. map_of (ref_members v)),
      rj_IsInt = (\<lambda>v. case v of JInt i \<Rightarrow> - (2 ^ 31) \<le> i \<and> i < 2 ^ 31 | _ \<Rightarrow> False),
      rj_GetInt = (\<lambda>v. case v of JInt i \<Rightarrow> i | _ \<Rightarrow> 0),
      rj_IsString = (\<lambda>v. jvalue_type v = stringValue),
      rj_GetString = (\<lambda>v. case v of JString s \<Rightarrow> s | _ \<Rightarrow> [])\<rparr>"

definition sample_statistics :: jvalue where
  "sample_statistics = JObject [(''ts'', JInt 5016483227792), (''brokers'',
     JObject [(''b1'', JObject [(''tx'', JInt 7)]), (''b2'', JObject [(''tx'', JInt 2147483648)])])]"

text \<open>The results are 64-bit numbers but the type test is \<open>IsInt\<close>: a counter that has grown past 31
  bits, or the time stamp in microseconds, is silently left out.\<close>

lemma getInt_misses_large:
  "getInt ref_rapidjson sample_statistics [''ts''] = Inr []"
  "getInt ref_rapidjson sample_statistics [''brokers'', ''*'', ''tx''] = Inr [([''b1''], 7)]"
  by (simp_all add: getInt_def metrics_get_def ref_rapidjson_def sample_statistics_def WILDCARD_def c_str_def)

end
