(* ===== verification/Kafka_Recoverable.thy ===== *)
theory Kafka_Recoverable
  imports Kafka_Sync
begin

text \<open>
  \<open>src/include/kafka/addons/KafkaRecoverableProducer.h\<close>: a producer whose own thread polls for
  events and puts a new producer in the place of one that met a fatal error. The thread and
  the callers, who exclude each other by a mutex, are interleaved steps. The lemmas say that a new
  producer has all settings of the old one, and exactly when a call that holds the mutex waits
  for ever for the thread that waits for the mutex.
\<close>

section \<open>The object\<close>

text \<open>The callbacks \<open>KafkaClient\<close> keeps, next to the producer; \<open>None\<close> is the default one. The
  error callback is the lambda of this class, with the caller's callback once there is one.\<close>

record ('k, 'u, 'l, 's, 'e) wrapped_producer =
  wp_producer :: "('k, 'u) KafkaProducer"
  wp_logger :: "'l option"
  wp_statsCb :: "'s option"
  wp_errorCb :: "'e option option"

text \<open>The settings, from which a producer is made, are the first members.\<close>

record ('l, 's, 'e) recover_settings =
  rp_properties :: Properties
  rp_logger :: "'l option"
  rp_logLevel :: "int option"
  rp_statsCb :: "'s option"
  rp_errorCb :: "'e option option"

record ('k, 'u, 'l, 's, 'e) KafkaRecoverableProducer = "('l, 's, 'e) recover_settings" +
  rp_fatalError :: "Error option"
  rp_running :: bool
  rp_producer :: "('k, 'u, 'l, 's, 'e) wrapped_producer"
  rp_reported :: "('e \<times> Error) list"

definition wp_setLogger :: "'l \<Rightarrow> ('k, 'u, 'l, 's, 'e) wrapped_producer \<Rightarrow> ('k, 'u, 'l, 's, 'e) wrapped_producer" where
  "wp_setLogger logger w = w\<lparr>wp_logger := Some logger\<rparr>"

definition wp_setStatsCallback :: "'s \<Rightarrow> ('k, 'u, 'l, 's, 'e) wrapped_producer \<Rightarrow> ('k, 'u, 'l, 's, 'e) wrapped_producer" where
  "wp_setStatsCallback cb w = w\<lparr>wp_statsCb := Some cb\<rparr>"

definition wp_setErrorCallback ::
  "'e option \<Rightarrow> ('k, 'u, 'l, 's, 'e) wrapped_producer \<Rightarrow> ('k, 'u, 'l, 's, 'e) wrapped_producer" where
  "wp_setErrorCallback cb w = w\<lparr>wp_errorCb := Some cb\<rparr>"

definition wp_setLogLevel ::
  "('k \<Rightarrow> int \<Rightarrow> 'k) \<Rightarrow> int \<Rightarrow> ('k, 'u, 'l, 's, 'e) wrapped_producer \<Rightarrow> ('k, 'u, 'l, 's, 'e) wrapped_producer" where
  "wp_setLogLevel set_log_level n w = w\<lparr>wp_producer := setLogLevel set_log_level n (wp_producer w)\<rparr>"

text \<open>What the class is built over: construction of a client, librdkafka, its log level, the
  texts of exceptions.\<close>

record ('c, 'k, 'g) recover_env =
  re_conf :: "('c, 'k) rdkafka_conf"
  re_rd :: "'k rdkafka"
  re_tx :: "('k, 'g) rdkafka_transactions"
  re_set_log_level :: "'k \<Rightarrow> int \<Rightarrow> 'k"
  re_what :: "exn \<Rightarrow> string"

definition apply_setting :: "('x \<Rightarrow> 'w \<Rightarrow> 'w) \<Rightarrow> 'x option \<Rightarrow> 'w \<Rightarrow> 'w" where
  "apply_setting f x w = (case x of None \<Rightarrow> w | Some x \<Rightarrow> f x w)"

definition createProducer ::
  "('c, 'k, 'g) recover_env \<Rightarrow> string \<Rightarrow> ('l, 's, 'e, 'z) recover_settings_scheme \<Rightarrow>
   ('k, 'u, 'l, 's, 'e) wrapped_producer res" where
  "createProducer env random r =
     bindr (new_KafkaProducer (re_conf env) (re_what env) random (rp_properties r) False True) (\<lambda>p.
       Inr (apply_setting wp_setErrorCallback (rp_errorCb r)
             (apply_setting wp_setStatsCallback (rp_statsCb r)
               (apply_setting (wp_setLogLevel (re_set_log_level env)) (rp_logLevel r)
                 (apply_setting wp_setLogger (rp_logger r)
                   \<lparr>wp_producer = p, wp_logger = None, wp_statsCb = None, wp_errorCb = None\<rparr>)))))"

text \<open>\<open>KafkaClient::onError\<close> with the lambda.\<close>

definition on_error :: "Error \<Rightarrow> ('k, 'u, 'l, 's, 'e) KafkaRecoverableProducer \<Rightarrow> ('k, 'u, 'l, 's, 'e) KafkaRecoverableProducer" where
  "on_error e r =
     (case wp_errorCb (rp_producer r) of
        None \<Rightarrow> r
      | Some cb \<Rightarrow>
          r\<lparr>rp_reported := rp_reported r @ (case cb of None \<Rightarrow> [] | Some u \<Rightarrow> [(u, e)]),
            rp_fatalError := (if Error_isFatal e then Some (Error_copy e) else rp_fatalError r)\<rparr>)"

definition new_KafkaRecoverableProducer ::
  "('c, 'k, 'g) recover_env \<Rightarrow> string \<Rightarrow> Properties \<Rightarrow> ('k, 'u, 'l, 's, 'e) KafkaRecoverableProducer res" where
  "new_KafkaRecoverableProducer env random props =
     (let settings = \<lparr>rp_properties = props, rp_logger = None, rp_logLevel = None, rp_statsCb = None, rp_errorCb = Some None\<rparr>
      in bindr (createProducer env random settings) (\<lambda>w.
           Inr (recover_settings.extend settings
             \<lparr>rp_fatalError = None, rp_running = True, rp_producer = w, rp_reported = []\<rparr>)))"

text \<open>An operation of the producer inside.\<close>

definition inner ::
  "(('k, 'u) KafkaProducer \<Rightarrow> ('x \<times> ('k, 'u) KafkaProducer) res) \<Rightarrow> ('k, 'u, 'l, 's, 'e) KafkaRecoverableProducer \<Rightarrow>
   ('x \<times> ('k, 'u, 'l, 's, 'e) KafkaRecoverableProducer) res" where
  "inner f r =
     bindr (f (wp_producer (rp_producer r))) (\<lambda>(x, p).
       Inr (x, r\<lparr>rp_producer := (rp_producer r)\<lparr>wp_producer := p\<rparr>\<rparr>))"

definition unit_result :: "'a res \<Rightarrow> (unit \<times> 'a) res" where
  "unit_result x = bindr x (\<lambda>a. Inr ((), a))"

section \<open>The callers\<close>

definition recover_setLogger :: "'l \<Rightarrow> ('k, 'u, 'l, 's, 'e) KafkaRecoverableProducer \<Rightarrow> ('k, 'u, 'l, 's, 'e) KafkaRecoverableProducer" where
  "recover_setLogger l r = r\<lparr>rp_logger := Some l, rp_producer := wp_setLogger l (rp_producer r)\<rparr>"

definition recover_setLogLevel ::
  "('k \<Rightarrow> int \<Rightarrow> 'k) \<Rightarrow> int \<Rightarrow> ('k, 'u, 'l, 's, 'e) KafkaRecoverableProducer \<Rightarrow> ('k, 'u, 'l, 's, 'e) KafkaRecoverableProducer" where
  "recover_setLogLevel set_log_level n r =
     r\<lparr>rp_logLevel := Some n, rp_producer := wp_setLogLevel set_log_level n (rp_producer r)\<rparr>"

definition recover_setStatsCallback :: "'s \<Rightarrow> ('k, 'u, 'l, 's, 'e) KafkaRecoverableProducer \<Rightarrow> ('k, 'u, 'l, 's, 'e) KafkaRecoverableProducer" where
  "recover_setStatsCallback cb r = r\<lparr>rp_statsCb := Some cb, rp_producer := wp_setStatsCallback cb (rp_producer r)\<rparr>"

definition recover_setErrorCallback :: "'e \<Rightarrow> ('k, 'u, 'l, 's, 'e) KafkaRecoverableProducer \<Rightarrow> ('k, 'u, 'l, 's, 'e) KafkaRecoverableProducer" where
  "recover_setErrorCallback cb r =
     r\<lparr>rp_errorCb := Some (Some cb), rp_producer := wp_setErrorCallback (Some cb) (rp_producer r)\<rparr>"

text \<open>A flush serves error events, too.\<close>

definition recover_flush ::
  "'k rdkafka \<Rightarrow> int \<Rightarrow> Error list \<Rightarrow> ('k, 'u, 'l, 's, 'e) KafkaRecoverableProducer \<Rightarrow> (Error \<times> ('k, 'u, 'l, 's, 'e) KafkaRecoverableProducer) res" where
  "recover_flush rd timeout errs r = bindr (inner (flush rd timeout) r) (\<lambda>(result, r). Inr (result, fold on_error errs r))"

definition recover_purge :: "'k rdkafka \<Rightarrow> ('k, 'u, 'l, 's, 'e) KafkaRecoverableProducer \<Rightarrow> (Error \<times> ('k, 'u, 'l, 's, 'e) KafkaRecoverableProducer) res" where
  "recover_purge rd = inner (purge rd)"

definition recover_send ::
  "'k rdkafka \<Rightarrow> mem \<Rightarrow> ConstBuffer ProducerRecord \<Rightarrow> 'u \<Rightarrow> SendOption \<Rightarrow> ActionWhileQueueIsFull \<Rightarrow>
   ('k, 'u, 'l, 's, 'e) KafkaRecoverableProducer \<Rightarrow> (unit res \<times> ('k, 'u, 'l, 's, 'e) KafkaRecoverableProducer) res" where
  "recover_send rd M rec cb option action = inner (send rd M rec cb option action)"

definition recover_send_noexcept ::
  "'k rdkafka \<Rightarrow> mem \<Rightarrow> ConstBuffer ProducerRecord \<Rightarrow> 'u \<Rightarrow> SendOption \<Rightarrow> ActionWhileQueueIsFull \<Rightarrow>
   ('k, 'u, 'l, 's, 'e) KafkaRecoverableProducer \<Rightarrow> (Error option res \<times> ('k, 'u, 'l, 's, 'e) KafkaRecoverableProducer) res" where
  "recover_send_noexcept rd M rec cb option action = inner (send_noexcept rd M rec cb option action)"

datatype 'g transaction =
    T_init int
  | T_begin
  | T_commit int
  | T_abort int
  | T_send_offsets TopicPartitionOffsets 'g int

definition recover_transaction ::
  "('k, 'g) rdkafka_transactions \<Rightarrow> 'g transaction \<Rightarrow> ('k, 'u, 'l, 's, 'e) KafkaRecoverableProducer \<Rightarrow> (unit res \<times> ('k, 'u, 'l, 's, 'e) KafkaRecoverableProducer) res" where
  "recover_transaction tx t =
     inner (case t of
       T_init timeout \<Rightarrow> initTransactions tx timeout
     | T_begin \<Rightarrow> beginTransaction tx
     | T_commit timeout \<Rightarrow> commitTransaction tx timeout
     | T_abort timeout \<Rightarrow> abortTransaction tx timeout
     | T_send_offsets tpos g timeout \<Rightarrow> sendOffsetsToTransaction tx tpos g timeout)"

text \<open>The calls that take the mutex and give it back; \<open>U_other\<close> stands for the getters and
  \<open>fetchBrokerMetadata\<close>, which leave everything as it is.\<close>

datatype ('l, 's, 'e, 'u, 'g) user_call =
    U_setLogger 'l
  | U_setLogLevel int
  | U_setStatsCallback 's
  | U_setErrorCallback 'e
  | U_flush int "Error list"
  | U_purge
  | U_send mem "ConstBuffer ProducerRecord" 'u SendOption ActionWhileQueueIsFull
  | U_send_noexcept mem "ConstBuffer ProducerRecord" 'u SendOption ActionWhileQueueIsFull
  | U_transaction "'g transaction"
  | U_other

definition user_step ::
  "('c, 'k, 'g) recover_env \<Rightarrow> ('l, 's, 'e, 'u, 'g) user_call \<Rightarrow> ('k, 'u, 'l, 's, 'e) KafkaRecoverableProducer \<Rightarrow> ('k, 'u, 'l, 's, 'e) KafkaRecoverableProducer res" where
  "user_step env call r =
     (case call of
        U_setLogger l \<Rightarrow> Inr (recover_setLogger l r)
      | U_setLogLevel n \<Rightarrow> Inr (recover_setLogLevel (re_set_log_level env) n r)
      | U_setStatsCallback cb \<Rightarrow> Inr (recover_setStatsCallback cb r)
      | U_setErrorCallback cb \<Rightarrow> Inr (recover_setErrorCallback cb r)
      | U_flush timeout errs \<Rightarrow> bindr (recover_flush (re_rd env) timeout errs r) (\<lambda>(_, r). Inr r)
      | U_purge \<Rightarrow> bindr (recover_purge (re_rd env) r) (\<lambda>(_, r). Inr r)
      | U_send M rec cb option action \<Rightarrow>
          bindr (recover_send (re_rd env) M rec cb option action r) (\<lambda>(_, r). Inr r)
      | U_send_noexcept M rec cb option action \<Rightarrow>
          bindr (recover_send_noexcept (re_rd env) M rec cb option action r) (\<lambda>(_, r). Inr r)
      | U_transaction t \<Rightarrow> bindr (recover_transaction (re_tx env) t r) (\<lambda>(_, r). Inr r)
      | U_other \<Rightarrow> Inr r)"

section \<open>The polling thread\<close>

text \<open>One poll, with the error events it serves.\<close>

definition poll_once ::
  "('c, 'k, 'g) recover_env \<Rightarrow> Error list \<Rightarrow> ('k, 'u, 'l, 's, 'e) KafkaRecoverableProducer \<Rightarrow>
   ('k, 'u, 'l, 's, 'e) KafkaRecoverableProducer res" where
  "poll_once env errs r =
     bindr (inner (\<lambda>p. unit_result (pollCallbacks (re_rd env) 1 p)) r) (\<lambda>(_, r). Inr (fold on_error errs r))"

text \<open>The new producer replaces the old one, which is destroyed, already closed.\<close>

definition recover ::
  "('c, 'k, 'g) recover_env \<Rightarrow> string \<Rightarrow> ('k, 'u, 'l, 's, 'e) KafkaRecoverableProducer \<Rightarrow>
   ('k, 'u, 'l, 's, 'e) KafkaRecoverableProducer res" where
  "recover env random r =
     bindr (inner (purge (re_rd env)) r) (\<lambda>(_, r).
     bindr (inner (\<lambda>p. unit_result (close (re_rd env) InfiniteTimeout p)) r) (\<lambda>(_, r).
     let r = r\<lparr>rp_fatalError := None\<rparr>
     in bindr (createProducer env random r) (\<lambda>w. Inr (r\<lparr>rp_producer := w\<rparr>))))"

datatype poll_pc = Looping | Polled | Recovering | Ended

text \<open>Who holds the mutex between steps: nobody, a caller of \<open>close\<close> that joins the thread, a caller
  of \<open>syncSend\<close> that waits for the delivery.\<close>

datatype 'u holder = Free | Closing int | Sending 'u

record ('k, 'u, 'l, 's, 'e) rstate =
  rs_object :: "('k, 'u, 'l, 's, 'e) KafkaRecoverableProducer"
  rs_poll :: poll_pc
  rs_mutex :: "'u holder"

text \<open>A step that fails, such as a \<open>createProducer\<close> that throws out of the thread, ends the process.\<close>

inductive rstep ::
  "('c, 'k, 'g) recover_env \<Rightarrow> ('k, 'u, 'l, 's, 'e) rstate \<Rightarrow> ('k, 'u, 'l, 's, 'e) rstate \<Rightarrow> bool" for env where
  r_poll: "rs_poll s = Looping \<Longrightarrow> rp_running (rs_object s) \<Longrightarrow> poll_once env errs (rs_object s) = Inr r \<Longrightarrow>
    rstep env s (s\<lparr>rs_object := r, rs_poll := Polled\<rparr>)"
| r_exit: "rs_poll s = Looping \<Longrightarrow> \<not> rp_running (rs_object s) \<Longrightarrow> rstep env s (s\<lparr>rs_poll := Ended\<rparr>)"
| r_go_on: "rs_poll s = Polled \<Longrightarrow> rp_fatalError (rs_object s) = None \<Longrightarrow> rstep env s (s\<lparr>rs_poll := Looping\<rparr>)"
| r_fatal: "rs_poll s = Polled \<Longrightarrow> rp_fatalError (rs_object s) \<noteq> None \<Longrightarrow> rstep env s (s\<lparr>rs_poll := Recovering\<rparr>)"
| r_stop: "rs_poll s = Recovering \<Longrightarrow> rs_mutex s = Free \<Longrightarrow> \<not> rp_running (rs_object s) \<Longrightarrow>
    rstep env s (s\<lparr>rs_poll := Ended\<rparr>)"
| r_recover: "rs_poll s = Recovering \<Longrightarrow> rs_mutex s = Free \<Longrightarrow> rp_running (rs_object s) \<Longrightarrow>
    recover env random (rs_object s) = Inr r \<Longrightarrow> rstep env s (s\<lparr>rs_object := r, rs_poll := Looping\<rparr>)"
| r_call: "rs_mutex s = Free \<Longrightarrow> user_step env call (rs_object s) = Inr r \<Longrightarrow> rstep env s (s\<lparr>rs_object := r\<rparr>)"
| r_send_sync: "rs_mutex s = Free \<Longrightarrow>
    recover_send (re_rd env) M rec cb NoCopyRecordValue Block (rs_object s) = Inr (result, r) \<Longrightarrow>
    rstep env s (s\<lparr>rs_object := r, rs_mutex := (if result = Inr () then Sending cb else Free)\<rparr>)"
| r_sent: "rs_mutex s = Sending cb \<Longrightarrow> delivery_result cb (wp_producer (rp_producer (rs_object s))) \<noteq> None \<Longrightarrow>
    rstep env s (s\<lparr>rs_mutex := Free\<rparr>)"
| r_close: "rs_mutex s = Free \<Longrightarrow>
    rstep env s (s\<lparr>rs_object := (rs_object s)\<lparr>rp_running := False\<rparr>, rs_mutex := Closing timeout\<rparr>)"
| r_closed: "rs_mutex s = Closing timeout \<Longrightarrow> rs_poll s = Ended \<Longrightarrow>
    inner (\<lambda>p. unit_result (close (re_rd env) timeout p)) (rs_object s) = Inr (x, r) \<Longrightarrow>
    rstep env s (s\<lparr>rs_object := r, rs_mutex := Free\<rparr>)"


section \<open>Settings\<close>

definition clamp_level :: "int \<Rightarrow> int" where
  "clamp_level n = (if n < Emerg then Emerg else if n > Debug then Debug else n)"

text \<open>The producer inside has every setting the caller made.\<close>

definition has_settings :: "('k, 'u, 'l, 's, 'e) KafkaRecoverableProducer \<Rightarrow> bool" where
  "has_settings r =
     (wp_logger (rp_producer r) = rp_logger r \<and> wp_statsCb (rp_producer r) = rp_statsCb r \<and>
      wp_errorCb (rp_producer r) = rp_errorCb r \<and>
      (\<forall>n. rp_logLevel r = Some n \<longrightarrow> kc_logLevel (wp_producer (rp_producer r)) = clamp_level n))"

text \<open>No operation of the producer changes its log level.\<close>

named_theorems level_rules \<open>operations that keep the log level\<close>

lemma level_doLog [level_rules]: "kc_logLevel (doLog n msg c) = kc_logLevel c"
  by (simp add: doLog_def)

lemma level_deliveryCallback: "deliveryCallback m p = Inr p' \<Longrightarrow> kc_logLevel p' = kc_logLevel p"
  by (auto simp: deliveryCallback_def call_opaque_def delete_opaque_def bindr_eq_Inr split: option.splits)

lemma level_reports: "foldM deliveryCallback ms p = Inr p' \<Longrightarrow> kc_logLevel p' = kc_logLevel p"
  by (erule foldM_invariant [where I = "\<lambda>q. kc_logLevel q = kc_logLevel p"]) (auto dest: level_deliveryCallback)

lemma level_pollCallbacks: "pollCallbacks rd t p = Inr p' \<Longrightarrow> kc_logLevel p' = kc_logLevel p"
  by (auto simp: pollCallbacks_def bindr_eq_Inr case_prod_unfold Let_def dest: level_reports)

lemma level_flush: "flush rd t p = Inr (e, p') \<Longrightarrow> kc_logLevel p' = kc_logLevel p"
  by (auto simp: flush_def bindr_eq_Inr case_prod_unfold Let_def dest: level_reports)

lemma level_purge: "purge rd p = Inr (e, p') \<Longrightarrow> kc_logLevel p' = kc_logLevel p"
  by (auto simp: purge_def bindr_eq_Inr case_prod_unfold Let_def)

lemma level_send_end: "send_end e ptr p = Inr (x, p') \<Longrightarrow> kc_logLevel p' = kc_logLevel p"
  by (cases "throw_if_with_error e") (auto simp: send_end_def delete_opaque_def bindr_eq_Inr split: option.splits)

lemma level_send: "send rd M rec cb option action p = Inr (x, p') \<Longrightarrow> kc_logLevel p' = kc_logLevel p"
  by (auto simp: send_def send_begin_def send_call_def bindr_eq_Inr case_prod_unfold Let_def dest!: level_send_end)

lemma level_send_noexcept:
  "send_noexcept rd M rec cb option action p = Inr (x, p') \<Longrightarrow> kc_logLevel p' = kc_logLevel p"
  by (auto simp: send_noexcept_def bindr_eq_Inr case_prod_unfold dest: level_send)

lemma level_close: "close rd t p = Inr p' \<Longrightarrow> kc_logLevel p' = kc_logLevel p"
  by (auto simp: close_def bindr_eq_Inr stopBackgroundPollingIfNecessary_def level_doLog
      dest!: level_flush level_purge level_pollCallbacks split: if_splits)

lemma inner_settings:
  assumes "inner f r = Inr (x, r')" and "has_settings r"
    and "\<And>p x p'. f p = Inr (x, p') \<Longrightarrow> kc_logLevel p' = kc_logLevel p"
  shows "has_settings r'"
  using assms by (auto simp: inner_def has_settings_def bindr_eq_Inr dest: assms(3))

lemma on_error_settings: "has_settings (fold on_error errs r) = has_settings r"
  by (induction errs arbitrary: r) (auto simp: on_error_def has_settings_def split: option.split)

lemma createProducer_settings:
  assumes "createProducer env random r = Inr w"
  shows "has_settings (r\<lparr>rp_producer := w\<rparr>)"
  using assms by (auto simp: createProducer_def bindr_eq_Inr has_settings_def apply_setting_def wp_setLogger_def
      wp_setStatsCallback_def wp_setErrorCallback_def wp_setLogLevel_def setLogLevel_def clamp_level_def Let_def
      split: option.split)

lemma new_settings: "new_KafkaRecoverableProducer env random props = Inr r \<Longrightarrow> has_settings r"
  by (auto simp: new_KafkaRecoverableProducer_def createProducer_def bindr_eq_Inr has_settings_def apply_setting_def
      wp_setErrorCallback_def recover_settings.defs)

lemma level_transaction: "transaction_call f p = Inr (x, p') \<Longrightarrow> kc_logLevel p' = kc_logLevel p"
  by (auto simp: transaction_call_def bindr_eq_Inr case_prod_unfold Let_def)

lemma recover_call_settings:
  assumes "has_settings r"
  shows "recover_flush rd timeout errs r = Inr (e, r') \<Longrightarrow> has_settings r'"
    and "recover_purge rd r = Inr (e, r') \<Longrightarrow> has_settings r'"
    and "recover_send rd M rec cb option action r = Inr (x, r') \<Longrightarrow> has_settings r'"
    and "recover_send_noexcept rd M rec cb option action r = Inr (y, r') \<Longrightarrow> has_settings r'"
    and "recover_transaction tx t r = Inr (x, r') \<Longrightarrow> has_settings r'"
proof -
  show "recover_flush rd timeout errs r = Inr (e, r') \<Longrightarrow> has_settings r'"
    using assms by (auto simp: recover_flush_def bindr_eq_Inr on_error_settings elim!: inner_settings dest: level_flush)
  show "recover_purge rd r = Inr (e, r') \<Longrightarrow> has_settings r'"
    using assms unfolding recover_purge_def by (rule inner_settings [rotated]) (auto dest: level_purge)
  show "recover_send rd M rec cb option action r = Inr (x, r') \<Longrightarrow> has_settings r'"
    using assms unfolding recover_send_def by (rule inner_settings [rotated]) (auto dest: level_send)
  show "recover_send_noexcept rd M rec cb option action r = Inr (y, r') \<Longrightarrow> has_settings r'"
    using assms unfolding recover_send_noexcept_def by (rule inner_settings [rotated]) (auto dest: level_send_noexcept)
  show "recover_transaction tx t r = Inr (x, r') \<Longrightarrow> has_settings r'"
    using assms unfolding recover_transaction_def
    by (rule inner_settings [rotated]) (auto simp: initTransactions_def beginTransaction_def commitTransaction_def
      abortTransaction_def sendOffsetsToTransaction_def split: transaction.splits dest: level_transaction)
qed

lemma setter_settings:
  assumes "has_settings r"
  shows "has_settings (recover_setLogger l r)" and "has_settings (recover_setLogLevel f n r)"
    and "has_settings (recover_setStatsCallback cb r)" and "has_settings (recover_setErrorCallback cb' r)"
  using assms by (simp_all add: has_settings_def recover_setLogger_def recover_setLogLevel_def
      recover_setStatsCallback_def recover_setErrorCallback_def wp_setLogger_def wp_setStatsCallback_def
      wp_setErrorCallback_def wp_setLogLevel_def setLogLevel_def clamp_level_def Let_def)

lemma user_step_settings: "user_step env call r = Inr r' \<Longrightarrow> has_settings r \<Longrightarrow> has_settings r'"
  by (cases call) (auto simp: user_step_def bindr_eq_Inr setter_settings dest: recover_call_settings)

lemma poll_settings:
  assumes "poll_once env errs r = Inr r'" and "has_settings r"
  shows "has_settings r'"
proof -
  obtain x r1 where i: "inner (\<lambda>p. unit_result (pollCallbacks (re_rd env) 1 p)) r = Inr (x, r1)"
    and r': "r' = fold on_error errs r1"
    using assms(1) by (auto simp: poll_once_def bindr_eq_Inr)
  have "has_settings r1"
    by (rule inner_settings [OF i assms(2)]) (auto simp: unit_result_def bindr_eq_Inr intro: level_pollCallbacks)
  then show ?thesis by (simp add: r' on_error_settings)
qed

lemma recover_settings: "recover env random r = Inr r' \<Longrightarrow> has_settings r'"
  by (auto simp: recover_def Let_def bindr_eq_Inr dest: createProducer_settings)

lemma rstep_settings: "rstep env s s' \<Longrightarrow> has_settings (rs_object s) \<Longrightarrow> has_settings (rs_object s')"
proof (induction rule: rstep.induct)
  case (r_close s timeout)
  then show ?case by (simp add: has_settings_def)
qed (auto simp: unit_result_def bindr_eq_Inr dest: poll_settings recover_settings user_step_settings
    recover_call_settings(3) elim!: inner_settings dest: level_close)

text \<open>However the callers and the polling thread interleave, and however often the producer is
  replaced, the one inside has the logger, the log level and the callbacks set last.\<close>

theorem recoverable_keeps_settings:
  assumes "new_KafkaRecoverableProducer env random props = Inr r"
    and "(rstep env)\<^sup>*\<^sup>* \<lparr>rs_object = r, rs_poll = Looping, rs_mutex = Free\<rparr> s"
  shows "has_settings (rs_object s)"
  using assms(2)
  by (induction rule: rtranclp_induct) (use new_settings [OF assms(1)] in \<open>auto dest: rstep_settings\<close>)

section \<open>Waiting for each other\<close>

text \<open>The thread asks for the mutex, or will do so before it looks at \<open>_running\<close> again.\<close>

definition wants_mutex :: "('k, 'u, 'l, 's, 'e) rstate \<Rightarrow> bool" where
  "wants_mutex s = (rs_poll s = Recovering \<or> rs_poll s = Polled \<and> rp_fatalError (rs_object s) \<noteq> None)"

text \<open>A caller holds the mutex until the thread has done something for it.\<close>

definition needs_thread :: "('k, 'u, 'l, 's, 'e) rstate \<Rightarrow> bool" where
  "needs_thread s =
     (case rs_mutex s of Free \<Rightarrow> False | Closing _ \<Rightarrow> True
      | Sending cb \<Rightarrow> delivery_result cb (wp_producer (rp_producer (rs_object s))) = None)"

lemma blocked_step:
  assumes "rstep env s s'" and "wants_mutex s" and "needs_thread s"
  shows "rs_mutex s' = rs_mutex s \<and> wants_mutex s' \<and> needs_thread s'"
  using assms by (cases rule: rstep.cases) (auto simp: wants_mutex_def needs_thread_def split: holder.splits)

text \<open>Then neither gets anywhere: the call never returns.\<close>

theorem recover_deadlock:
  assumes "(rstep env)\<^sup>*\<^sup>* s s'" and "wants_mutex s" and "needs_thread s"
  shows "rs_mutex s' = rs_mutex s \<and> rs_poll s' \<noteq> Ended"
proof -
  have "rs_mutex s' = rs_mutex s \<and> wants_mutex s' \<and> needs_thread s'"
    using assms by (induction rule: rtranclp_induct) (auto dest: blocked_step)
  then show ?thesis by (auto simp: wants_mutex_def)
qed

text \<open>It is enough that the last poll before \<open>close\<close> reported a fatal error.\<close>

lemma fatal_error_then_close:
  assumes "rs_poll s = Looping" and "rs_mutex s = Free" and "rp_running (rs_object s)"
    and "poll_once env errs (rs_object s) = Inr r" and "rp_fatalError r \<noteq> None"
  shows "\<exists>s'. (rstep env)\<^sup>*\<^sup>* s s' \<and> rs_mutex s' = Closing timeout \<and> wants_mutex s' \<and> needs_thread s'"
proof -
  let ?s = "s\<lparr>rs_object := r, rs_poll := Polled\<rparr>"
  have "rstep env s ?s" by (rule r_poll [OF assms(1,3,4)])
  moreover have "rstep env ?s (?s\<lparr>rs_object := (rs_object ?s)\<lparr>rp_running := False\<rparr>, rs_mutex := Closing timeout\<rparr>)"
    by (rule r_close) (simp add: assms(2))
  ultimately show ?thesis
    by (intro exI [of _ "?s\<lparr>rs_object := (rs_object ?s)\<lparr>rp_running := False\<rparr>, rs_mutex := Closing timeout\<rparr>"])
      (use assms(5) in \<open>auto simp: wants_mutex_def needs_thread_def\<close>)
qed

text \<open>In every other case the thread that is being joined ends.\<close>

theorem close_joins_iff:
  assumes "rs_mutex s = Closing timeout" and "\<not> rp_running (rs_object s)"
  shows "(\<exists>s'. (rstep env)\<^sup>*\<^sup>* s s' \<and> rs_mutex s' = Closing timeout \<and> rs_poll s' = Ended) \<longleftrightarrow> \<not> wants_mutex s"
proof
  assume "\<exists>s'. (rstep env)\<^sup>*\<^sup>* s s' \<and> rs_mutex s' = Closing timeout \<and> rs_poll s' = Ended"
  then show "\<not> wants_mutex s" using recover_deadlock assms(1) by (fastforce simp: needs_thread_def)
next
  assume w: "\<not> wants_mutex s"
  have exit: "rstep env s (s\<lparr>rs_poll := Ended\<rparr>)" if "rs_poll s = Looping" "\<not> rp_running (rs_object s)" for s
    by (rule r_exit [OF that])
  show "\<exists>s'. (rstep env)\<^sup>*\<^sup>* s s' \<and> rs_mutex s' = Closing timeout \<and> rs_poll s' = Ended"
  proof (cases "rs_poll s")
    case Looping
    then show ?thesis using exit [OF _ assms(2)] assms(1)
      by (intro exI [of _ "s\<lparr>rs_poll := Ended\<rparr>"]) auto
  next
    case Polled
    then have "rstep env s (s\<lparr>rs_poll := Looping\<rparr>)" using w by (auto simp: wants_mutex_def intro: r_go_on)
    moreover have "rstep env (s\<lparr>rs_poll := Looping\<rparr>) (s\<lparr>rs_poll := Looping\<rparr>\<lparr>rs_poll := Ended\<rparr>)"
      using assms(2) by (intro exit) simp_all
    ultimately show ?thesis using assms(1)
      by (intro exI [of _ "s\<lparr>rs_poll := Looping\<rparr>\<lparr>rs_poll := Ended\<rparr>"]) auto
  next
    case Recovering
    then show ?thesis using w by (simp add: wants_mutex_def)
  next
    case Ended
    then show ?thesis using assms(1) by blast
  qed
qed

end
