(* ===== verification/Daemon_Exit.thy ===== *)
theory Daemon_Exit
  imports Worker_Life Startup
begin

text \<open>
  The end of \<open>main\<close> in \<open>src/mdt_dialout_collector.cc\<close>: it joins the workers in the order they were
  started, the ZeroMQ poller and the signal watcher, while these threads, the streams inside the
  workers and the signals that arrive go on. \<open>dstep\<close> is one step of one of them, over
  \<open>sstep\<close> of Worker_Life. The property says how the daemon ends after a signal that
  finds every server registered; the lemmas say when it never does.
\<close>

section \<open>State\<close>

datatype watcher_pc = Reading | In_shutdown | Gone

text \<open>\<open>dr_exited\<close> is set when a reload of the label map calls \<open>exit\<close>. \<open>dr_signals\<close> are the bytes the handler will have written to the pipe, in order; the thread
  \<open>c\<close> of the service is the watcher's call of \<open>initiate_shutdown\<close>. \<open>dr_joined\<close> counts the threads
  \<open>main\<close> has joined.\<close>

record 'w daemon_run =
  dr_service :: "'w running_service"
  dr_signals :: "nat list"
  dr_watcher :: watcher_pc
  dr_ctx_down :: bool
  dr_poller :: bool
  dr_joined :: nat
  dr_exited :: bool

definition running :: "'w daemon_run \<Rightarrow> bool" where
  "running s = (sv_abort (dr_service s) = None \<and> \<not> dr_exited s)"

definition shutdown_call :: "nat \<Rightarrow> 'w daemon_run \<Rightarrow> caller option" where
  "shutdown_call c s = callers (sv_proc (dr_service s)) c"

text \<open>\<open>main\<close> has returned \<open>EXIT_SUCCESS\<close> when the workers and the two other threads are joined.\<close>

definition returned :: "nat list \<Rightarrow> 'w daemon_run \<Rightarrow> bool" where
  "returned ws s = (dr_joined s = length ws + 2)"

section \<open>Steps\<close>

text \<open>The watcher calls \<open>initiate_shutdown\<close> only for a signal other than SIGUSR1, and shuts the
  ZeroMQ context down after it; a \<open>read\<close> that does not give one byte ends it at once. The
  poller ends when its context is shut down (Startup shows that it does, after the messages it
  received before).
  \<open>join\<close> waits for the end of its thread.\<close>

inductive dstep ::
  "(nat \<Rightarrow> 'r \<Rightarrow> 'w \<Rightarrow> 'w res) \<Rightarrow> (nat \<Rightarrow> int) \<Rightarrow> (nat \<Rightarrow> 'w) \<Rightarrow> nat \<Rightarrow> nat list \<Rightarrow>
   'w daemon_run \<Rightarrow> 'w daemon_run \<Rightarrow> bool" for H m w0 c ws where
  serves: "running s \<Longrightarrow> sstep H m w0 (dr_service s) v \<Longrightarrow>
    callers (sv_proc v) c = callers (sv_proc (dr_service s)) c \<or> dr_watcher s = In_shutdown \<Longrightarrow>
    dstep H m w0 c ws s (s\<lparr>dr_service := v\<rparr>)"
| reloads: "running s \<Longrightarrow> dr_watcher s = Reading \<Longrightarrow> dr_signals s = SIGUSR1 # sigs \<Longrightarrow>
    dstep H m w0 c ws s (s\<lparr>dr_signals := sigs\<rparr>)"
| reload_exits: "running s \<Longrightarrow> dr_watcher s = Reading \<Longrightarrow> dr_signals s = SIGUSR1 # sigs \<Longrightarrow>
    dstep H m w0 c ws s (s\<lparr>dr_signals := sigs, dr_exited := True\<rparr>)"
| signalled: "running s \<Longrightarrow> dr_watcher s = Reading \<Longrightarrow> dr_signals s = sig # sigs \<Longrightarrow> sig \<noteq> SIGUSR1 \<Longrightarrow>
    dstep H m w0 c ws s (s\<lparr>dr_signals := sigs, dr_watcher := In_shutdown\<rparr>)"
| read_fails: "running s \<Longrightarrow> dr_watcher s = Reading \<Longrightarrow> dstep H m w0 c ws s (s\<lparr>dr_watcher := Gone\<rparr>)"
| shut_down: "running s \<Longrightarrow> dr_watcher s = In_shutdown \<Longrightarrow> shutdown_call c s = Some Returned \<Longrightarrow>
    dstep H m w0 c ws s (s\<lparr>dr_watcher := Gone, dr_ctx_down := True\<rparr>)"
| poller_ends: "running s \<Longrightarrow> dr_poller s \<Longrightarrow> dr_ctx_down s \<Longrightarrow> dstep H m w0 c ws s (s\<lparr>dr_poller := False\<rparr>)"
| join_worker: "running s \<Longrightarrow> dr_joined s < length ws \<Longrightarrow>
    in_phase Destroyed (ws ! dr_joined s) (sv_proc (dr_service s)) \<Longrightarrow>
    dstep H m w0 c ws s (s\<lparr>dr_joined := dr_joined s + 1\<rparr>)"
| join_poller: "running s \<Longrightarrow> dr_joined s = length ws \<Longrightarrow> \<not> dr_poller s \<Longrightarrow>
    dstep H m w0 c ws s (s\<lparr>dr_joined := dr_joined s + 1\<rparr>)"
| join_watcher: "running s \<Longrightarrow> dr_joined s = length ws + 1 \<Longrightarrow> dr_watcher s = Gone \<Longrightarrow>
    dstep H m w0 c ws s (s\<lparr>dr_joined := dr_joined s + 1\<rparr>)"

inductive_cases dstepE: "dstep H m w0 c ws s s'"

text \<open>What main has when it comes to the joins.\<close>

definition starting_daemon :: "nat \<Rightarrow> nat list \<Rightarrow> 'w daemon_run \<Rightarrow> bool" where
  "starting_daemon c ws s =
     (starting_service (dr_service s) \<and> set ws = dom (workers (sv_proc (dr_service s))) \<and>
      dom (callers (sv_proc (dr_service s))) = {c} \<and> dr_watcher s = Reading \<and> \<not> dr_ctx_down s \<and>
      dr_poller s \<and> dr_joined s = 0 \<and> \<not> dr_exited s)"

section \<open>Projection\<close>

lemma dsteps_service: "(dstep H m w0 c ws)\<^sup>*\<^sup>* s s' \<Longrightarrow> (sstep H m w0)\<^sup>*\<^sup>* (dr_service s) (dr_service s')"
  by (induction rule: rtranclp_induct) (auto elim!: dstepE intro: rtranclp.rtrancl_into_rtrancl)

section \<open>After a signal\<close>

text \<open>The watcher is past its loop on the way that shuts the context down.\<close>

definition leaving :: "'w daemon_run \<Rightarrow> bool" where
  "leaving s = (dr_watcher s = In_shutdown \<or> dr_watcher s = Gone \<and> dr_ctx_down s)"

lemma leaving_step: "dstep H m w0 c ws s s' \<Longrightarrow> leaving s \<Longrightarrow> leaving s'"
  by (induction rule: dstep.induct) (auto simp: leaving_def)

lemma leaving_steps: "(dstep H m w0 c ws)\<^sup>*\<^sup>* s s' \<Longrightarrow> leaving s \<Longrightarrow> leaving s'"
  by (induction rule: rtranclp_induct) (auto dest: leaving_step)

lemma joined_le: "(dstep H m w0 c ws)\<^sup>*\<^sup>* s s' \<Longrightarrow> dr_joined s \<le> length ws + 2 \<Longrightarrow> dr_joined s' \<le> length ws + 2"
  by (induction rule: rtranclp_induct) (auto elim!: dstepE)

definition exit_work :: "nat list \<Rightarrow> 'w daemon_run \<Rightarrow> nat" where
  "exit_work ws s = service_work (dr_service s) + (if dr_watcher s = In_shutdown then 1 else 0) +
     (if dr_poller s then 1 else 0) + (length ws + 2 - dr_joined s)"

lemma exit_work_step:
  assumes "dstep H m w0 c ws s s'" and "leaving s" and "all_shut (sv_proc (dr_service s))"
    and "loops_ok m (dr_service s)" and "\<forall>i. m i \<le> INT_MAX"
  shows "all_shut (sv_proc (dr_service s')) \<and> loops_ok m (dr_service s') \<and> exit_work ws s' < exit_work ws s"
  using assms
proof (induction rule: dstep.induct)
  case (serves s v)
  then show ?case
    using all_shut_work [OF serves(2)] loops_ok_step [OF serves(2)] by (auto simp: exit_work_def)
qed (auto simp: leaving_def exit_work_def)

lemma exit_run:
  assumes "(dstep H m w0 c ws ^^ n) s s'" and "leaving s" and "all_shut (sv_proc (dr_service s))"
    and "loops_ok m (dr_service s)" and "\<forall>i. m i \<le> INT_MAX"
  shows "leaving s' \<and> all_shut (sv_proc (dr_service s')) \<and> loops_ok m (dr_service s') \<and>
    exit_work ws s' + n \<le> exit_work ws s"
  using assms
proof (induction n arbitrary: s')
  case (Suc n)
  then obtain t where t: "(dstep H m w0 c ws ^^ n) s t" "dstep H m w0 c ws t s'" by auto
  then show ?case
    using Suc.IH [OF t(1) Suc.prems(2-5)] leaving_step [OF t(2)] exit_work_step [OF t(2)] Suc.prems(5) by fastforce
qed simp

text \<open>Once all shutdowns have returned nothing more is called.\<close>

lemma all_shut_callers:
  assumes "sstep H m w0 v v'" and "all_shut (sv_proc v)"
  shows "callers (sv_proc v') = callers (sv_proc v)"
  using assms
proof (induction rule: sstep.induct)
  case (thread s p)
  then show ?case by (elim pstepE) (auto simp: set_worker_def all_shut_def)
qed simp_all

text \<open>While \<open>main\<close> has not returned there is a step.\<close>

lemma exit_progress:
  assumes "running s" and "leaving s" and "all_shut (sv_proc (dr_service s))" and "loops_ok m (dr_service s)"
    and "\<forall>i. m i \<le> INT_MAX" and "set ws = dom (workers (sv_proc (dr_service s)))"
    and "shutdown_call c s = Some Returned" and "dr_joined s \<le> length ws + 2"
    and "\<forall>t. \<not> dstep H m w0 c ws s t"
  shows "returned ws s \<and> (\<forall>i w. workers (sv_proc (dr_service s)) i = Some w \<longrightarrow> wk_phase w = Destroyed)"
proof -
  have d: "wk_phase w = Destroyed" if k: "workers (sv_proc (dr_service s)) i = Some w" for i w
  proof (rule ccontr)
    assume "wk_phase w \<noteq> Destroyed"
    then obtain v where v: "sstep H m w0 (dr_service s) v"
      using all_shut_progress [OF assms(3,4) _ assms(5) k] assms(1) by (auto simp: running_def)
    then have "dstep H m w0 c ws s (s\<lparr>dr_service := v\<rparr>)"
      using all_shut_callers [OF v assms(3)] assms(1) by (intro serves) simp_all
    then show False using assms(9) by blast
  qed
  have w: "dr_watcher s = Gone" "dr_ctx_down s"
    using assms(2,9) shut_down [OF assms(1) _ assms(7), of H m w0 ws] by (auto simp: leaving_def)
  then have p: "\<not> dr_poller s" using assms(9) poller_ends [OF assms(1)] by blast
  have "\<not> dr_joined s < length ws"
  proof
    assume l: "dr_joined s < length ws"
    then have "ws ! dr_joined s \<in> dom (workers (sv_proc (dr_service s)))" using assms(6) nth_mem by blast
    then have "in_phase Destroyed (ws ! dr_joined s) (sv_proc (dr_service s))"
      using d by (auto simp: in_phase_def)
    then show False using join_worker [OF assms(1) l] assms(9) by blast
  qed
  moreover have "dr_joined s \<noteq> length ws" "dr_joined s \<noteq> length ws + 1"
    using assms(9) join_poller [OF assms(1) _ p] join_watcher [OF assms(1) _ w(1)] by blast+
  ultimately show ?thesis using d assms(8) by (auto simp: returned_def)
qed

section \<open>The call of \<open>initiate_shutdown\<close>\<close>

text \<open>How many steps of its own the watcher's call still has to take: the snapshot of the
  registry, one \<open>Shutdown\<close> for each server in it, the return.\<close>

definition call_work :: "nat \<Rightarrow> nat list \<Rightarrow> 'w daemon_run \<Rightarrow> nat" where
  "call_work c ws s = (case shutdown_call c s of
      Some Waiting \<Rightarrow> length ws + 2
    | Some (Shutting is) \<Rightarrow> length is + 1
    | _ \<Rightarrow> 0)"

text \<open>The state of the call before and after a step of the daemon.\<close>

definition call_ok :: "nat \<Rightarrow> nat list \<Rightarrow> 'w daemon_run \<Rightarrow> bool" where
  "call_ok c ws s = (proc_ok (sv_proc (dr_service s)) \<and> single_ok c (sv_proc (dr_service s)) \<and>
     set ws = dom (workers (sv_proc (dr_service s))) \<and> dom (callers (sv_proc (dr_service s))) = {c} \<and>
     (dr_watcher s = In_shutdown \<or> shutdown_call c s = Some Returned))"

lemma callers_dom: "pstep p p' \<Longrightarrow> dom (callers p') = dom (callers p)"
  by (induction rule: pstep.induct) (auto simp: set_worker_def split: if_splits)

lemma pstep_call:
  assumes "pstep p p'" and "callers p' c \<noteq> callers p c"
  shows "callers p c = Some Waiting \<and> callers p' c = Some (Shutting (g_active_servers p)) \<or>
    (\<exists>i is. callers p c = Some (Shutting (i # is)) \<and> callers p' c = Some (Shutting is)) \<or>
    callers p c = Some (Shutting []) \<and> callers p' c = Some Returned"
  using assms by (induction rule: pstep.induct) (auto simp: set_worker_def split: if_splits)

lemma dstep_proc:
  "dstep H m w0 c ws s s' \<Longrightarrow> sv_proc (dr_service s') = sv_proc (dr_service s) \<or>
     pstep (sv_proc (dr_service s)) (sv_proc (dr_service s'))"
  by (elim dstepE) (auto dest: sstep_proc)

lemma registered_le:
  assumes "call_ok c ws s"
  shows "length (g_active_servers (sv_proc (dr_service s))) \<le> length ws"
proof -
  let ?g = "g_active_servers (sv_proc (dr_service s))"
  have "distinct ?g" "set ?g \<subseteq> set ws" using assms by (auto simp: call_ok_def proc_ok_def)
  then show ?thesis by (metis List.finite_set card_length card_mono distinct_card le_trans)
qed

lemma call_ok_step:
  assumes "dstep H m w0 c ws s s'" and "call_ok c ws s"
  shows "call_ok c ws s' \<and> call_work c ws s' \<le> call_work c ws s"
proof -
  let ?p = "sv_proc (dr_service s)" and ?q = "sv_proc (dr_service s')"
  have p: "?q = ?p \<or> pstep ?p ?q" by (rule dstep_proc [OF assms(1)])
  have c: "callers ?q c = callers ?p c \<or>
      callers ?p c = Some Waiting \<and> callers ?q c = Some (Shutting (g_active_servers ?p)) \<or>
      (\<exists>i is. callers ?p c = Some (Shutting (i # is)) \<and> callers ?q c = Some (Shutting is)) \<or>
      callers ?p c = Some (Shutting []) \<and> callers ?q c = Some Returned"
    using p pstep_call by metis
  have "proc_ok ?q \<and> single_ok c ?q \<and> set ws = dom (workers ?q) \<and> dom (callers ?q) = {c}"
    using p
  proof
    assume "?q = ?p"
    then show ?thesis using assms(2) by (simp add: call_ok_def)
  next
    assume q: "pstep ?p ?q"
    then show ?thesis
      using assms(2) proc_ok_step [OF q] single_ok_step [OF q] pstep_dom [OF q] callers_dom [OF q]
      by (simp add: call_ok_def)
  qed
  moreover have "dr_watcher s' = In_shutdown \<or> shutdown_call c s' = Some Returned"
    using assms c by (elim dstepE) (auto simp: call_ok_def shutdown_call_def)
  ultimately show ?thesis
    using c registered_le [OF assms(2)] by (auto simp: call_ok_def call_work_def shutdown_call_def)
qed

lemma call_ok_steps:
  "(dstep H m w0 c ws)\<^sup>*\<^sup>* s s' \<Longrightarrow> call_ok c ws s \<Longrightarrow> call_ok c ws s' \<and> call_work c ws s' \<le> call_work c ws s"
  by (induction rule: rtranclp_induct) (auto dest: call_ok_step)

text \<open>Nothing can block the call: while it has not returned, its next step is possible.\<close>

lemma call_progress:
  assumes "call_ok c ws s" and "running s" and "shutdown_call c s \<noteq> Some Returned"
  shows "\<exists>t. dstep H m w0 c ws s t \<and> call_work c ws t < call_work c ws s"
proof -
  let ?v = "dr_service s" and ?p = "sv_proc (dr_service s)"
  have w: "dr_watcher s = In_shutdown" using assms(1,3) by (simp add: call_ok_def)
  have step: ?thesis if "pstep ?p p" "\<forall>i. in_phase Registered i ?p \<longrightarrow> in_phase Registered i p"
    "call_work c ws (s\<lparr>dr_service := ?v\<lparr>sv_proc := p\<rparr>\<rparr>) < call_work c ws s" for p
  proof -
    have "dstep H m w0 c ws s (s\<lparr>dr_service := ?v\<lparr>sv_proc := p\<rparr>\<rparr>)"
      by (rule serves [OF assms(2) sstep.thread [OF _ that(1)]]) (use that(2) assms(2) w in \<open>auto simp: running_def\<close>)
    then show ?thesis using that(3) by blast
  qed
  note work = call_work_def shutdown_call_def
  have "callers ?p c \<noteq> None" using assms(1) by (auto simp: call_ok_def)
  then consider "callers ?p c = Some Waiting" | i "is" where "callers ?p c = Some (Shutting (i # is))"
    | "callers ?p c = Some (Shutting [])"
    using assms(3) by (auto simp: shutdown_call_def) (metis caller.exhaust neq_Nil_conv)
  then show ?thesis
  proof cases
    case 1
    show ?thesis
      by (rule step [OF snapshot [OF 1]]) (use 1 registered_le [OF assms(1)] in \<open>simp_all add: in_phase_def work\<close>)
  next
    case (2 i "is")
    then obtain w where i: "workers ?p i = Some w" "wk_phase w = Registered"
      using assms(1) by (auto simp: call_ok_def single_ok_def)
    have "wk_phase w \<noteq> Destroyed" using i(2) by simp
    from step [OF shut_one [OF 2 i(1) this]] show ?thesis
      using 2 i by (simp add: in_phase_def set_worker_def work)
  next
    case 3
    show ?thesis by (rule step [OF return [OF 3]]) (use 3 in \<open>simp_all add: in_phase_def work\<close>)
  qed
qed

lemma settles:
  assumes "\<forall>k. (w :: nat \<Rightarrow> nat) (Suc k) \<le> w k"
  shows "\<exists>k. \<forall>j \<ge> k. w j = w k"
proof -
  obtain k where "\<forall>j. w k \<le> w j" using ex_has_least_nat [of "\<lambda>_. True" 0 w] by auto
  moreover have "w j \<le> w k" if "k \<le> j" for j using lift_Suc_antimono_le [of w k j] assms that by blast
  ultimately show ?thesis by (meson le_antisym)
qed

lemma relpowp_run:
  assumes "\<forall>k. R (f k) (f (Suc k))"
  shows "(R ^^ n) (f k) (f (k + n))"
proof (induction n)
  case (Suc n)
  then show ?case using assms by (auto intro: relcomppI)
qed simp

section \<open>Before a shutdown\<close>

definition unshut :: "process \<Rightarrow> bool" where
  "unshut p = (\<forall>i w. workers p i = Some w \<longrightarrow> wk_phase w \<in> {Constructed, Built, Registered} \<and>
     srv_cq (wk_srv w) (wk_vendor w) \<noteq> Some False)"

lemma unshut_step:
  assumes "pstep p p'" and "unshut p" and "\<forall>x y. callers p x = Some y \<longrightarrow> y = Waiting"
  shows "unshut p'"
  using assms
  by (induction rule: pstep.induct)
    (fastforce simp: unshut_def set_worker_def started_def Let_def split: if_splits)+

lemma waiting_before: "pstep p p' \<Longrightarrow> callers p' c = Some Waiting \<Longrightarrow> callers p c = Some Waiting"
  by (induction rule: pstep.induct) (auto simp: set_worker_def split: if_splits)

lemma callers_doms: "pstep\<^sup>*\<^sup>* p p' \<Longrightarrow> dom (callers p') = dom (callers p)"
  by (induction rule: rtranclp_induct) (simp_all add: callers_dom)

lemma waiting_unshut:
  assumes "pstep\<^sup>*\<^sup>* p p'" and "starting p" and "dom (callers p) = {c}" and "callers p' c = Some Waiting"
  shows "unshut p'"
  using assms(1,4)
proof (induction rule: rtranclp_induct)
  case base
  then show ?case using assms(2) by (auto simp: unshut_def starting_def new_Srv_def)
next
  case (step q p')
  have w: "callers q c = Some Waiting" by (rule waiting_before [OF step(2,4)])
  have "dom (callers q) = {c}" using callers_doms [OF step(1)] assms(3) by simp
  then have "\<forall>x y. callers q x = Some y \<longrightarrow> y = Waiting" using w by (metis domI option.inject singletonD)
  then show ?case using unshut_step [OF step(2) step(3) [OF w]] by simp
qed

lemma starting_proc: "starting_daemon c ws s \<Longrightarrow> starting (sv_proc (dr_service s))"
  by (simp add: starting_daemon_def starting_service_def)

text \<open>Until \<open>initiate_shutdown\<close> is called \<open>main\<close> is at its first join.\<close>

lemma waiting_joins_none:
  assumes "(dstep H m w0 c ws)\<^sup>*\<^sup>* s s'" and "starting_daemon c ws s" and "ws \<noteq> []"
    and "shutdown_call c s' = Some Waiting"
  shows "dr_joined s' = 0"
  using assms(1,4)
proof (induction rule: rtranclp_induct)
  case base
  then show ?case using assms(2) by (simp add: starting_daemon_def)
next
  case (step t s')
  have p: "pstep\<^sup>*\<^sup>* (sv_proc (dr_service s)) (sv_proc (dr_service t))"
    by (rule ssteps_proc [OF dsteps_service [OF step(1)]])
  have "sv_proc (dr_service s') = sv_proc (dr_service t) \<or> pstep (sv_proc (dr_service t)) (sv_proc (dr_service s'))"
    using step(2) by (elim dstepE) (auto dest: sstep_proc)
  then have w: "shutdown_call c t = Some Waiting" using step(4) by (auto simp: shutdown_call_def dest: waiting_before)
  have "dom (callers (sv_proc (dr_service s))) = {c}" using assms(2) by (simp add: starting_daemon_def)
  then have "unshut (sv_proc (dr_service t))"
    using waiting_unshut [OF p starting_proc [OF assms(2)]] w by (simp add: shutdown_call_def)
  then have "\<not> in_phase Destroyed i (sv_proc (dr_service t))" for i
    by (fastforce simp: unshut_def in_phase_def split: option.splits)
  then show ?case using step(2) step(3) [OF w] assms(3) by (elim dstepE) auto
qed

text \<open>The handlers are installed without \<open>SA_RESTART\<close>, so a signal that is delivered to the watcher
  thread interrupts its \<open>read\<close>; the watcher takes this for the end of the pipe and
  returns. No signal stops the daemon then.\<close>

theorem lost_watcher:
  assumes "starting_daemon c ws s0" and "ws \<noteq> []" and "(dstep H m w0 c ws)\<^sup>*\<^sup>* s0 s"
    and "dr_watcher s = Gone" and "shutdown_call c s = Some Waiting" and "(dstep H m w0 c ws)\<^sup>*\<^sup>* s s'"
  shows "\<not> returned ws s'"
proof -
  have "dr_watcher s' = Gone \<and> shutdown_call c s' = Some Waiting"
    using assms(6)
    by (induction rule: rtranclp_induct) (use assms(4,5) in \<open>auto elim!: dstepE simp: shutdown_call_def\<close>)
  moreover have "(dstep H m w0 c ws)\<^sup>*\<^sup>* s0 s'" using assms(3,6) by simp
  ultimately show ?thesis using waiting_joins_none [OF _ assms(1,2)] by (fastforce simp: returned_def)
qed

section \<open>A small daemon\<close>

lemma sstep_running: "sstep H m w0 v v' \<Longrightarrow> sv_abort v = None"
  by (induction rule: sstep.induct) simp_all

text \<open>Runs of the service are runs of the daemon.\<close>

lemma lift_waiting:
  assumes "(sstep H m w0)\<^sup>*\<^sup>* v v'" and "callers (sv_proc v') c = Some Waiting" and "\<not> dr_exited s"
  shows "(dstep H m w0 c ws)\<^sup>*\<^sup>* (s\<lparr>dr_service := v\<rparr>) (s\<lparr>dr_service := v'\<rparr>)"
  using assms(1,2)
proof (induction rule: rtranclp_induct)
  case (step t u)
  have w: "callers (sv_proc t) c = Some Waiting"
    using sstep_proc [OF step(2)] step(4) waiting_before by metis
  have "dstep H m w0 c ws (s\<lparr>dr_service := t\<rparr>) (s\<lparr>dr_service := t\<rparr>\<lparr>dr_service := u\<rparr>)"
    by (rule serves) (use w step(2,4) assms(3) sstep_running [OF step(2)] in \<open>simp_all add: running_def\<close>)
  then show ?case using step(3) [OF w] by simp
qed simp

lemma lift_shutdown:
  assumes "(sstep H m w0)\<^sup>*\<^sup>* v v'" and "dr_watcher s = In_shutdown" and "\<not> dr_exited s"
  shows "(dstep H m w0 c ws)\<^sup>*\<^sup>* (s\<lparr>dr_service := v\<rparr>) (s\<lparr>dr_service := v'\<rparr>)"
  using assms(1)
proof (induction rule: rtranclp_induct)
  case (step t u)
  have "dstep H m w0 c ws (s\<lparr>dr_service := t\<rparr>) (s\<lparr>dr_service := t\<rparr>\<lparr>dr_service := u\<rparr>)"
    by (rule serves) (use assms(2,3) step(2) sstep_running [OF step(2)] in \<open>simp_all add: running_def\<close>)
  then show ?case using step(3) by simp
qed simp

definition SIGTERM :: nat where "SIGTERM = 15"

definition small_daemon :: "nat list \<Rightarrow> watcher_pc \<Rightarrow> nat running_service \<Rightarrow> nat daemon_run" where
  "small_daemon sigs w v = \<lparr>dr_service = v, dr_signals = sigs, dr_watcher = w, dr_ctx_down = False,
     dr_poller = True, dr_joined = 0, dr_exited = False\<rparr>"

lemma small_daemon_starting:
  "starting_daemon 7 [0] (small_daemon [SIGTERM] Reading (demo Constructed new_Srv [] Waiting Map.empty))"
  using demo_starting by (auto simp: starting_daemon_def small_daemon_def demo_def)

abbreviation small_step :: "nat daemon_run \<Rightarrow> nat daemon_run \<Rightarrow> bool" where
  "small_step \<equiv> dstep (\<lambda>i. sample_handler) (\<lambda>i. 5) (\<lambda>i. 0) 7 [0]"

lemma small_daemon_signalled:
  "small_step\<^sup>*\<^sup>* (small_daemon [SIGTERM] Reading (demo Constructed new_Srv [] Waiting Map.empty))
     (small_daemon [] In_shutdown (demo Registered demo_up [0] Waiting demo_loop))"
proof -
  let ?v = "demo Registered demo_up [0] Waiting demo_loop"
  have "small_step\<^sup>*\<^sup>* (small_daemon [SIGTERM] Reading (demo Constructed new_Srv [] Waiting Map.empty))
      (small_daemon [SIGTERM] Reading ?v)"
    using lift_waiting [OF demo_to_loop, where c = 7 and ws = "[0]" and s = "small_daemon [SIGTERM] Reading ?v"]
    by (simp add: small_daemon_def demo_def)
  moreover have "small_step (small_daemon [SIGTERM] Reading ?v)
      ((small_daemon [SIGTERM] Reading ?v)\<lparr>dr_signals := [], dr_watcher := In_shutdown\<rparr>)"
    by (rule signalled [where sig = SIGTERM]) (simp_all add: running_def small_daemon_def demo_def SIGTERM_def SIGUSR1_def)
  ultimately show ?thesis by (simp add: small_daemon_def)
qed

lemma small_daemon_shut:
  "small_step\<^sup>*\<^sup>* (small_daemon [] In_shutdown (demo Registered demo_up [0] Waiting demo_loop))
     (small_daemon [] In_shutdown (demo Registered (Srv_Shutdown demo_up) [0] Returned demo_loop))"
  using lift_shutdown [OF demo_shutdown [of demo_loop], where c = 7 and ws = "[0]" and
    s = "small_daemon [] In_shutdown (demo Registered demo_up [0] Waiting demo_loop)"]
  by (simp add: small_daemon_def)

section \<open>Properties\<close>

text \<open>After the shutdown has returned.\<close>

lemma exits_after_shutdown:
  assumes "starting_daemon c ws s0" and "\<forall>i. m i \<le> INT_MAX" and "(dstep H m w0 c ws)\<^sup>*\<^sup>* s0 s"
    and "dr_watcher s = In_shutdown" and "shutdown_call c s = Some Waiting"
    and "\<forall>i w. workers (sv_proc (dr_service s)) i = Some w \<longrightarrow> wk_phase w = Registered"
    and "(dstep H m w0 c ws)\<^sup>*\<^sup>* s s'" and "shutdown_call c s' = Some Returned"
    and "(dstep H m w0 c ws ^^ n) s' s''"
  shows "n \<le> length ws + 5 + (\<Sum>i\<in>set ws. 5 + 4 * open_streams (dr_service s') i) \<and>
    ((\<forall>t. \<not> dstep H m w0 c ws s'' t) \<longrightarrow> \<not> running s'' \<or> returned ws s'' \<and>
       (\<forall>i w. workers (sv_proc (dr_service s'')) i = Some w \<longrightarrow> wk_phase w = Destroyed))"
proof -
  note start = assms(1) [unfolded starting_daemon_def]
  have fin: "finite (dom (workers (sv_proc (dr_service s0))))" using start by (metis List.finite_set)
  have r': "(dstep H m w0 c ws)\<^sup>*\<^sup>* s0 s'" using assms(3,7) by simp
  have r'': "(dstep H m w0 c ws)\<^sup>*\<^sup>* s0 s''" using r' relpowp_imp_rtranclp [OF assms(9)] by simp
  have ok: "loops_ok m (dr_service s')"
    using loops_ok_steps [OF dsteps_service [OF r']] loops_ok_init start assms(2) by blast
  have shut: "all_shut (sv_proc (dr_service s'))"
    by (rule shutdown_leaves_all_shut [OF starting_proc [OF assms(1)] fin _ ssteps_proc [OF dsteps_service [OF assms(3)]]
          _ assms(6) ssteps_proc [OF dsteps_service [OF assms(7)]]])
      (use start assms(5,8) in \<open>auto simp: shutdown_call_def\<close>)
  have "leaving s'" using leaving_steps [OF assms(7)] assms(4) by (simp add: leaving_def)
  from exit_run [OF assms(9) this shut ok assms(2)]
  have e: "leaving s''" "all_shut (sv_proc (dr_service s''))" "loops_ok m (dr_service s'')"
    "exit_work ws s'' + n \<le> exit_work ws s'" by simp_all
  have doms: "set ws = dom (workers (sv_proc (dr_service s')))" "set ws = dom (workers (sv_proc (dr_service s'')))"
    using start psteps_dom ssteps_proc dsteps_service r' r'' by metis+
  have "exit_work ws s' \<le> length ws + 5 + (\<Sum>i\<in>set ws. 5 + 4 * open_streams (dr_service s') i)"
    using service_work_le [of "dr_service s'"] unfolding doms(1) exit_work_def by auto
  moreover have call: "shutdown_call c s'' = Some Returned"
  proof -
    have "dom (callers (sv_proc (dr_service s''))) = {c}"
      using callers_doms [OF ssteps_proc [OF dsteps_service [OF r'']]] start by simp
    then show ?thesis using e(2) by (auto simp: shutdown_call_def all_shut_def)
  qed
  moreover have "dr_joined s'' \<le> length ws + 2" using joined_le [OF r''] start by simp
  ultimately show ?thesis using exit_progress [OF _ e(1-3) assms(2) doms(2)] e(4) by fastforce
qed

text \<open>C10. Suppose a terminating signal has been read while every server is registered, so that the
  watcher is about to call \<open>initiate_shutdown\<close>. From there on, whatever the workers, their
  streams, gRPC, the clients and further signals do: (1) nothing blocks the call: until it has
  returned the watcher's own next step is possible, and it takes at most one for every worker and
  two more; (2) once it has returned the whole process takes only boundedly many further steps;
  (3) when no step is left \<open>main\<close> has joined every thread and returned and every server is
  destroyed, unless an exception that left a worker or the reload of a malformed label file has
  ended the process before; (4) a run that goes on for ever is one on which the watcher, which
  always could, from some point on never runs again. So under a fair scheduler the daemon
  exits. (With a server that registers too late it does not: \<open>late_server_never_stops\<close>.)\<close>

theorem daemon_exits:
  assumes "starting_daemon c ws s0" and "\<forall>i. m i \<le> INT_MAX" and "(dstep H m w0 c ws)\<^sup>*\<^sup>* s0 s"
    and "dr_watcher s = In_shutdown" and "shutdown_call c s = Some Waiting"
    and "\<forall>i w. workers (sv_proc (dr_service s)) i = Some w \<longrightarrow> wk_phase w = Registered"
    and "(dstep H m w0 c ws)\<^sup>*\<^sup>* s s'"
  shows "call_work c ws s' \<le> length ws + 2 \<and>
    (running s' \<and> shutdown_call c s' \<noteq> Some Returned \<longrightarrow>
       (\<exists>t. dstep H m w0 c ws s' t \<and> call_work c ws t < call_work c ws s')) \<and>
    (shutdown_call c s' = Some Returned \<longrightarrow>
       (\<forall>n s''. (dstep H m w0 c ws ^^ n) s' s'' \<longrightarrow>
          n \<le> length ws + 5 + (\<Sum>i\<in>set ws. 5 + 4 * open_streams (dr_service s') i))) \<and>
    ((\<forall>t. \<not> dstep H m w0 c ws s' t) \<longrightarrow> \<not> running s' \<or> returned ws s' \<and>
       (\<forall>i w. workers (sv_proc (dr_service s')) i = Some w \<longrightarrow> wk_phase w = Destroyed)) \<and>
    (\<forall>f. f 0 = s' \<and> (\<forall>k. dstep H m w0 c ws (f k) (f (Suc k))) \<longrightarrow>
       (\<exists>k. \<forall>j \<ge> k. shutdown_call c (f j) \<noteq> Some Returned \<and> call_work c ws (f j) = call_work c ws (f k)))"
proof -
  note start = assms(1) [unfolded starting_daemon_def]
  note after = exits_after_shutdown [OF assms(1-6)]
  have "call_ok c ws s"
    using single_ok_steps [OF ssteps_proc [OF dsteps_service [OF assms(3)]] starting_proc [OF assms(1)]] start
      psteps_dom [OF ssteps_proc [OF dsteps_service [OF assms(3)]]] assms(4)
      callers_doms [OF ssteps_proc [OF dsteps_service [OF assms(3)]]]
    by (simp add: call_ok_def)
  from call_ok_steps [OF assms(7) this]
  have ok: "call_ok c ws s'" and le: "call_work c ws s' \<le> length ws + 2"
    using assms(5) by (simp_all add: call_work_def)
  have stuck: "\<not> running s' \<or> returned ws s' \<and>
      (\<forall>i w. workers (sv_proc (dr_service s')) i = Some w \<longrightarrow> wk_phase w = Destroyed)"
    if "\<forall>t. \<not> dstep H m w0 c ws s' t"
    using call_progress [OF ok] after [OF assms(7), of 0 s'] that by fastforce
  have starved: "\<exists>k. \<forall>j \<ge> k. shutdown_call c (f j) \<noteq> Some Returned \<and> call_work c ws (f j) = call_work c ws (f k)"
    if f: "f 0 = s'" "\<forall>k. dstep H m w0 c ws (f k) (f (Suc k))" for f
  proof -
    have runs: "(dstep H m w0 c ws ^^ n) (f k) (f (k + n))" for n k
      by (rule relpowp_run [where f = f]) (rule f(2))
    have run: "(dstep H m w0 c ws)\<^sup>*\<^sup>* s' (f k)" for k
      using relpowp_imp_rtranclp [OF runs [of k 0]] f(1) by simp
    have "\<forall>k. call_work c ws (f (Suc k)) \<le> call_work c ws (f k)"
      using call_ok_step call_ok_steps [OF run ok] f(2) by blast
    from settles [OF this] obtain k where k: "\<forall>j \<ge> k. call_work c ws (f j) = call_work c ws (f k)" by blast
    moreover have "shutdown_call c (f j) \<noteq> Some Returned" for j
    proof
      assume r: "shutdown_call c (f j) = Some Returned"
      have "(dstep H m w0 c ws)\<^sup>*\<^sup>* s (f j)" using assms(7) run [of j] by simp
      from after [OF this r runs [of "Suc (length ws + 5 + (\<Sum>i\<in>set ws. 5 + 4 * open_streams (dr_service (f j)) i))" j]]
      show False by simp
    qed
    ultimately show ?thesis by blast
  qed
  have bound: "n \<le> length ws + 5 + (\<Sum>i\<in>set ws. 5 + 4 * open_streams (dr_service s') i)"
    if "shutdown_call c s' = Some Returned" "(dstep H m w0 c ws ^^ n) s' s''" for n s''
    using after [OF assms(7) that] by simp
  show ?thesis
    using le call_progress [OF ok] bound stuck starved by (intro conjI allI impI) auto
qed

lemma daemon_exits_witness:
  "(\<exists>s. small_step\<^sup>*\<^sup>* (small_daemon [SIGTERM] Reading (demo Constructed new_Srv [] Waiting Map.empty)) s \<and>
      dr_watcher s = In_shutdown \<and> call_work 7 [0] s \<le> 3 \<and>
      (\<exists>t. small_step s t \<and> call_work 7 [0] t < call_work 7 [0] s)) \<and>
   (\<exists>s'. small_step\<^sup>*\<^sup>* (small_daemon [SIGTERM] Reading (demo Constructed new_Srv [] Waiting Map.empty)) s' \<and>
     (\<forall>n s''. (small_step ^^ n) s' s'' \<longrightarrow> n \<le> 15))"
proof -
  let ?s = "small_daemon [] In_shutdown (demo Registered demo_up [0] Waiting demo_loop)"
    and ?t = "small_daemon [] In_shutdown (demo Registered (Srv_Shutdown demo_up) [0] Returned demo_loop)"
  have h: "\<forall>i::nat. (5::int) \<le> INT_MAX" "dr_watcher ?s = In_shutdown" "shutdown_call 7 ?s = Some Waiting"
    "\<forall>i w. workers (sv_proc (dr_service ?s)) i = Some w \<longrightarrow> wk_phase w = Registered"
    "running ?s" "shutdown_call 7 ?t = Some Returned"
    by (simp_all add: small_daemon_def shutdown_call_def demo_def INT_MAX_def running_def split: if_splits)
  note exits = daemon_exits [OF small_daemon_starting h(1) small_daemon_signalled h(2-4)]
  have "call_work 7 [0] ?s \<le> 3" "\<exists>t. small_step ?s t \<and> call_work 7 [0] t < call_work 7 [0] ?s"
    using exits [OF rtranclp.rtrancl_refl] h(3,5) by simp_all
  moreover have "n \<le> 15" if "(small_step ^^ n) ?t s''" for n s''
  proof -
    have "open_streams (dr_service ?t) 0 = 1"
      by (simp add: open_streams_def small_daemon_def demo_def start_loop_def Spawn_def fsm_init_def)
    then show ?thesis using exits [OF small_daemon_shut] h(6) that by fastforce
  qed
  ultimately show ?thesis
    using small_daemon_signalled h(2) rtranclp_trans [OF small_daemon_signalled small_daemon_shut] by blast
qed

end
