(* ===== verification/Spec2Isabelle.thy ===== *)
theory Spec2Isabelle
  imports Peer_Parser Cisco_Decode Gnmi_Decode Huawei_Decode Data_Wrapper Kafka_Delivery
    Kafka_Wiring Kafka_Sync Zmq_Delivery Cfg_Handler Logs_Handler Stream_Fsm Core Server_Lifecycle Csv_Text
    Csv_Table Label_Reload Startup Bridge Worker_Life Commit_Queue Kafka_Autocommit Kafka_Admin
    Kafka_Metrics Kafka_Recoverable Daemon_Exit
begin

text \<open>
  Verification of mdt-dialout-collector, a gRPC dial-out telemetry collector in C++17.

  \<^bold>\<open>The program.\<close> A daemon (\<open>src/mdt_dialout_collector.cc\<close>) or a host process through the C
  interface of \<open>src/bridge\<close> loads a configuration (\<open>src/utils\<close>), starts up to five worker threads
  per vendor (Cisco, Juniper, Nokia, Huawei), and each worker runs a gRPC server with a
  completion queue (\<open>src/core\<close>). Every call of a device is a stream object that moves through the
  states Create, Read, Finishing; every message read is decoded to JSON
  (\<open>src/dataManipulation\<close>), wrapped in an envelope with peer, sequence number and label, and sent
  to Kafka, or wrapped as it is (\<open>src/dataWrapper\<close>) and pushed as a pointer through a ZeroMQ
  socket (\<open>src/dataDelivery\<close>). Labels come from a CSV or pre-tag map file, read with
  \<open>src/include/csv/rapidcsv.h\<close> and reloaded on SIGUSR1; other signals shut the servers down.

  \<^bold>\<open>Theories.\<close> Data and operations keep the names of the code; the manifest gives the lines.

  \<^item> Prelude, Cpp_Strings: failures as values (\<open>'a res = error + 'a\<close>: exceptions, exit, abort,
    undefined behaviour), loops that can fail, maps, vectors, \<open>std::string\<close>, \<open>stoi\<close>.
  \<^item> Peer_Parser: \<open>utils/peer_parser.cc\<close>. Total, recovers address and port of IPv4 and
    IPv6 peers, and a non-empty result re-assembles to the input.
  \<^item> Json_Api, Data_Manipulation: JsonCpp as a locale of laws over a record of operations, with a
    reference implementation; \<open>BuildEnvelope\<close>, \<open>MetaData\<close>, \<open>AppendLabelMap\<close>. The exact members
    of an envelope, when building one throws, equivalence with the older pipeline up to the types of
    numbers that its second reader may change.
  \<^item> Cisco_Decode, Gnmi_Decode, Huawei_Decode: the decoders, on records of the protobuf messages.
    What each message publishes and what is kept of every field.
  \<^item> Data_Wrapper, Kafka_Delivery, Zmq_Delivery: the back ends. ZeroMQ payloads live in an explicit
    heap; pushes and polls refine a queue and neither leak nor free twice.
  \<^item> Kafka_Error, Kafka_Types, Kafka_Properties, Kafka_Client, Kafka_Producer: the producer side of the
    client library under \<open>include/kafka\<close>, class by class: errors, buffers, records and their
    metadata, properties, validation and construction, \<open>send\<close>, delivery reports, \<open>flush\<close>,
    \<open>purge\<close>, \<open>close\<close>. Kafka_Async interleaves sender, polling thread and librdkafka, whose
    contract is the locale \<open>rdkafka\<close>: no callback object is used after it is freed, and closing
    runs the callback of every accepted record once. Kafka_Metadata and Kafka_Sync: broker metadata,
    the conversions of topic lists, \<open>syncSend\<close> and transactions.
  \<^item> Kafka_Act, Kafka_Consumer, Kafka_Autocommit, Kafka_Admin: the rest of the client library, which the
    program does not call. Steps on the client object that can fail, with rules for the fields a
    step leaves alone; the consumer from its constructor to \<open>close\<close>, with rebalancing, seeking,
    polling (with the rebalance events a poll serves) and commits; the admin client. A consumer is never assigned and subscribed at once; the
    locale \<open>commit_log\<close> carries what automatic commits ask for; what a failed commit and an
    event without a message do to them. Deadlines are numbers of polls that fit before them.
  \<^item> Kafka_Recoverable: the add-on that replaces its producer after a fatal error, with its thread and
    its callers as interleaved steps (\<open>rstep\<close>). A new producer has the settings of the old one;
    exactly when \<open>close\<close> and the thread wait for each other. Kafka_Metrics: looking up statistics
    by paths with wildcards, against the relation of what a path selects.
  \<^item> Commit_Queue: the add-on for handlers that finish out of order. Its binary heap provides the
    locale \<open>priority_queue\<close>; what the queue offers is the end of the acknowledged prefix.
  \<^item> Cfg_Handler, Logs_Handler: the five lookups, with a locale \<open>param_loader\<close> for the contract
    of a key loader; of the main section, which files are accepted and what every parameter then
    is; the logger registry.
  \<^item> Stream_Fsm: \<open>Proceed\<close>, \<open>Spawn\<close> and \<open>RunFsm\<close> once for the four vendors, against any
    completion queue that keeps gRPC's rules. No event for a deleted stream, one armed acceptor,
    the reply limit, draining after shutdown, the 32-bit reply counter.
  \<^item> Core: the contexts, \<open>VendorPlumbing\<close>, \<open>deliver_payload\<close>, the four \<open>HandleMessage\<close>
    and \<open>FsmCtrl\<close>, composed with the state machine: what a whole run publishes, or offers to the
    ZeroMQ socket and leaves in its queue.
  \<^item> Kafka_Wiring: the collector's producer over the client library, from \<open>VendorPlumbing\<close> through a
    run to the destructor, with other threads between any two steps of a send.
  \<^item> Server_Lifecycle: \<open>Bind\<close>, the registry of servers, \<open>Shutdown\<close> and
    \<open>initiate_shutdown\<close>, with workers and shutdown callers as interleaved steps (\<open>pstep\<close>).
    A single shutdown is safe and reaches every registered server; what a server that registers
    later, or a second shutdown, can do.
  \<^item> Worker_Life: the streams of every worker inside the life cycle of its server (\<open>sstep\<close>), which
    projects to \<open>pstep\<close>. No stream outlives the \<open>FsmCtrl\<close> it belongs to, and after a
    shutdown the whole process ends within a bound.
  \<^item> Csv, Csv_Text: the document class, its table operations, and reading and writing text.
    The 64 KiB read loop is one pass; what is written is read back. Csv_Table: what the table
    operations read back after writing cells, rows and columns, and insertion against removal.
    Positions are \<open>size_t\<close> sums; the theorems are for tables whose rows have one width, lemmas
    show what short rows do.
  \<^item> Label_Map: the two loaders and the reload, over Csv_Text, with the vector that every row reuses;
    what a reload leaves for every address; a locale \<open>label_loader\<close> for what the rest relies on
    (two fields per entry); delimiters at their widths.
  \<^item> Label_Reload: the single writes of a reload, the lock and the handlers of all workers as
    interleaved steps. Every message is labelled from the complete map of a finished reload.
  \<^item> Startup: \<open>main\<close> from the options to running threads, the signal watcher, the poller thread.
    What holds when the daemon runs; reloading is idempotent; the poller prints what it received
    before its context was shut down, and ends.
  \<^item> Daemon_Exit: the joins at the end of \<open>main\<close> beside the watcher, the poller, the workers and
    their streams (\<open>dstep\<close>, over \<open>sstep\<close>). When a terminating signal finds every server
    registered, nothing blocks the shutdown call, and after it the daemon exits within a bound, so
    under a fair scheduler it exits; a server that registers later, or a watcher whose \<open>read\<close>
    was interrupted, keeps it from that.
  \<^item> Bridge: \<open>InitOptions\<close>, \<open>FreeOptions\<close>, start and stop. Options are released whole, a
    start is bounded and starts the workers the daemon would.
  \<^item> This theory: from a running daemon to the objects its handlers need: what alone can keep them
    from being built, and when its Kafka workers start, for any librdkafka.

  \<^bold>\<open>Parameters.\<close> JsonCpp (\<open>json_api\<close>), RapidJSON, protobuf parsing and printing, librdkafka
  (\<open>rdkafka_conf\<close>, \<open>rdkafka\<close>, \<open>rdkafka_consumer\<close>, \<open>rdkafka_admin\<close>, records of functions),
  the ZeroMQ socket, gRPC's delivery of events, libconfig's parse of a file, the file system, the clock, allocation and thread creation are arguments. Documented
  behaviour they are used with is a hypothesis or locale assumption, and each is interpreted or
  has a witness.

  \<^bold>\<open>Termination and bounds.\<close> Loops are structural or have a measure. \<open>RunFsm\<close> consumes a
  list of events, and after shutdown at most two per outstanding operation remain; the poller
  thread is a \<open>partial_function\<close> proved to return when a receive reports that its context is
  shut down, which may be with messages still queued. Positions in a CSV table are 64-bit. Sequence
  numbers are \<open>64 word\<close>, ports \<open>16 word\<close>, reply counters 32-bit with overflow as undefined
  behaviour, pre-tag delimiters \<open>32 word\<close>. The line-break counters of the CSV reader are
  unbounded, which is right for files of fewer than \<open>2 ^ 31\<close> lines.

  \<^bold>\<open>Not modelled.\<close> Log messages (but a logger that is missing is a null pointer where the code
  does not check), of the vendored Kafka client the header of property names, gRPC's socket
  mutator header, the UTF-16 branches of the CSV reader (not compiled), its floating-point and long
  converters (never used), failures of \<open>BuildAndStart\<close>, the five second drain deadline, the
  demonstration \<open>pmtelemetryd.c\<close>, tests and packaging.
\<close>

section \<open>From the configuration to the handlers\<close>

text \<open>C14. What a worker of a running daemon finds. For every vendor with a worker, the only two
  things that can keep the plumbing of its streams from being built are the constructor of the
  Kafka client and the connection to the ZeroMQ socket, whatever they are, and then it is exactly
  what they threw, with the delivery method that needs them: no lookup in the configuration and
  no conversion of a value throws. When the plumbing is built, so is the context of the streams,
  with a reply limit between 0 and 1000 and with the producer or the socket of its delivery
  method in place, so the first message meets no null pointer.\<close>

theorem running_daemon_serves:
  assumes "run_daemon H path g = Inr (Running d)" and "v \<in> set vendors"
    and "vk_socket v \<in> set (daemon_workers d)"
  shows "\<exists>kd uri method.
    new_KafkaDelivery (kafka_delivery_cfg_parameters (g_cfg (d_globals d))) = Inr kd \<and>
    zmq_delivery_cfg_parameters (g_cfg (d_globals d)) ''zmq_uri'' = Some uri \<and>
    main_cfg_parameters (g_cfg (d_globals d)) ''data_delivery_method'' = Some method \<and>
    (case new_VendorPlumbing new_producer connect (g_cfg (d_globals d)) of
       Inl e \<Rightarrow> (method = ''kafka'' \<and> new_producer (kd_properties kd) = Inl e) \<or>
                (method = ''zmq'' \<and> connect uri = Inl e)
     | Inr pl \<Rightarrow> \<exists>ctx. vendor_context (vk_replies v) (g_cfg (d_globals d)) pl = Inr ctx \<and>
         0 \<le> cx_max_replies ctx \<and> cx_max_replies ctx \<le> 1000 \<and>
         (case cx_delivery ctx of
            Kafka \<Rightarrow> method = ''kafka'' \<and> (\<exists>p. vp_kafka_producer pl = Some p \<and> new_producer (kd_properties kd) = Inr p)
          | Zmq \<Rightarrow> method = ''zmq'' \<and> (\<exists>q. vp_zmq_sock pl = Some q \<and> connect uri = Inr q)))"
proof -
  let ?c = "g_cfg (d_globals d)"
  note l = load_configurationD [OF run_daemonD(1) [OF assms(1)]]
  obtain kd where kd: "new_KafkaDelivery (kafka_delivery_cfg_parameters ?c) = Inr kd"
    using new_KafkaDelivery_total [OF lookup_kafka_keys [OF l(4)]] by metis
  obtain m where m: "main_cfg_parameters ?c ''data_delivery_method'' = Some m" "m = ''kafka'' \<or> m = ''zmq''"
    using lookup_main_contract(6) [OF l(2)] by blast
  obtain w where w: "main_cfg_parameters ?c ''writer_id'' = Some w"
    using lookup_main_writer [OF l(2)] by blast
  obtain u where u: "zmq_delivery_cfg_parameters ?c ''zmq_uri'' = Some u"
    using lookup_zmq_uri [OF l(5)] by blast
  obtain csv ptm where dm: "data_manipulation_cfg_parameters ?c ''enable_label_encode_as_map'' = Some csv"
    "data_manipulation_cfg_parameters ?c ''enable_label_encode_as_map_ptm'' = Some ptm"
    using lookup_data_manipulation_contract [OF l(3)] by blast
  obtain rs k where k: "main_cfg_parameters ?c (vk_replies v) = Some rs" "stoi rs = Inr k" "0 \<le> k" "k \<le> 1000"
    using worker_replies [OF assms(1-3)] by blast
  note d = new_VendorPlumbing_def vendor_context_def
  show ?thesis
    using m(2)
  proof
    assume "m = ''kafka''"
    then show ?thesis using kd m(1) w u dm k by (cases "new_producer (kd_properties kd)") (simp_all add: d)
  next
    assume "m = ''zmq''"
    then show ?thesis using kd m(1) w u dm k by (cases "connect u") (simp_all add: d)
  qed
qed

theorem running_daemon_serves_witness:
  "\<exists>d kd ctx pl. run_daemon sample_host ''f'' boot = Inr (Running d) \<and>
     new_KafkaDelivery (kafka_delivery_cfg_parameters (g_cfg (d_globals d))) = Inr kd \<and>
     new_VendorPlumbing (\<lambda>props. Inr props) (\<lambda>_. Inr ()) (g_cfg (d_globals d)) = Inr pl \<and>
     vp_kafka_producer pl = Some (kd_properties kd) \<and>
     vendor_context ''replies_cisco'' (g_cfg (d_globals d)) pl = Inr ctx \<and> cx_max_replies ctx \<le> 1000"
proof -
  obtain d where d: "run_daemon sample_host ''f'' boot = Inr (Running d)"
    "d_cisco d = [''socket_cisco'', ''socket_cisco'']" using sample_running by blast
  note l = load_configurationD [OF run_daemonD(1) [OF d(1)]]
  have k: "main_cfg_parameters (g_cfg (d_globals d)) ''data_delivery_method'' = Some ''kafka''"
    using l(2) sample_host_main by auto
  have v: "hd vendors \<in> set vendors" "vk_socket (hd vendors) \<in> set (daemon_workers d)"
    "vk_replies (hd vendors) = ''replies_cisco''"
    using d(2) by (simp_all add: vendors_def daemon_workers_def)
  show ?thesis
    using d(1) k v(3) running_daemon_serves [OF d(1) v(1,2), of "\<lambda>props. Inr props" "\<lambda>_. Inr ()"]
    by (cases "new_VendorPlumbing (\<lambda>props. Inr props) (\<lambda>_. Inr ()) (g_cfg (d_globals d))")
      (auto split: DeliveryMethod.splits, (metis DeliveryMethod.exhaust)+)
qed

lemma kafka_plumbing_outcome:
  assumes "run_daemon H path g = Inr (Running d)"
    and "main_cfg_parameters (g_cfg (d_globals d)) ''data_delivery_method'' = Some ''kafka''"
  shows "\<exists>kd plumbing. new_KafkaDelivery (kafka_delivery_cfg_parameters (g_cfg (d_globals d))) = Inr kd \<and>
    new_VendorPlumbing new_producer connect (g_cfg (d_globals d)) =
      bindr (new_producer (kd_properties kd)) (\<lambda>p. Inr (plumbing p)) \<and>
    (\<forall>p. vp_kafka_producer (plumbing p) = Some p)"
proof -
  let ?c = "g_cfg (d_globals d)"
  note l = load_configurationD [OF run_daemonD(1) [OF assms(1)]]
  obtain kd where kd: "new_KafkaDelivery (kafka_delivery_cfg_parameters ?c) = Inr kd"
    using new_KafkaDelivery_total [OF lookup_kafka_keys [OF l(4)]] by metis
  obtain w where w: "main_cfg_parameters ?c ''writer_id'' = Some w"
    using lookup_main_writer [OF l(2)] by blast
  obtain u where u: "zmq_delivery_cfg_parameters ?c ''zmq_uri'' = Some u"
    using lookup_zmq_uri [OF l(5)] by blast
  obtain csv ptm where dm: "data_manipulation_cfg_parameters ?c ''enable_label_encode_as_map'' = Some csv"
    "data_manipulation_cfg_parameters ?c ''enable_label_encode_as_map_ptm'' = Some ptm"
    using lookup_data_manipulation_contract [OF l(3)] by blast
  let ?pl = "\<lambda>p. \<lparr>vp_data_manipulation = new_DataManipulation, vp_data_wrapper = new_DataWrapper,
            vp_kafka_delivery = kd, vp_zmq_uri = u, vp_kafka_producer = Some p, vp_zmq_sock = None,
            vp_delivery = Kafka, vp_label_encode = (csv = ''true'' \<or> ptm = ''true''), vp_writer_id = w\<rparr>"
  have "new_VendorPlumbing new_producer connect ?c = bindr (new_producer (kd_properties kd)) (\<lambda>p. Inr (?pl p))"
    by (cases "new_producer (kd_properties kd)") (simp_all add: new_VendorPlumbing_def kd assms(2) w u dm)
  then show ?thesis using kd by (intro exI [of _ kd] exI [of _ ?pl]) simp
qed

text \<open>\<open>start\<close> ended with a KafkaException that carries this librdkafka code.\<close>

definition throws_code :: "'r res \<Rightarrow> int \<Rightarrow> bool" where
  "throws_code start code \<longleftrightarrow> (\<exists>e. start = Inl (Throw (Kafka_exception e)) \<and> Error_value e = code)"

text \<open>C15. When the workers of a running Kafka daemon start, for any librdkafka: the plumbing is
  built if and only if the log level of the configuration, which the loader takes as any text,
  reads as a number from 0 to 7, \<open>rd_kafka_new\<close> reports no error for the properties of the
  worker and returns a handle, and librdkafka takes at least one of the brokers. A bad log level
  and no broker throw a KafkaException with the code for an invalid argument, a failure of
  \<open>rd_kafka_new\<close> one with its code; nothing in the worker's thread catches it.\<close>

theorem running_kafka_worker_starts:
  assumes "run_daemon H path g = Inr (Running d)"
    and "main_cfg_parameters (g_cfg (d_globals d)) ''data_delivery_method'' = Some ''kafka''"
    and "new_VendorPlumbing (worker_producer rc what random) connect (g_cfg (d_globals d)) = start"
  shows "\<exists>kd. new_KafkaDelivery (kafka_delivery_cfg_parameters (g_cfg (d_globals d))) = Inr kd \<and>
    (if \<nexists>n. log_level_ok (kd_log_level kd) n then throws_code start RD_KAFKA_RESP_ERR_INVALID_ARG
     else case producer_handle rc (kd_properties kd) of (handle, code) \<Rightarrow>
       if code \<noteq> 0 then throws_code start code
       else case handle of
         None \<Rightarrow> start = Inl (Undefined Null_dereference)
       | Some rk \<Rightarrow>
           if fst (rd_brokers_add rc rk (c_str (kd_bootstrap_servers kd))) = 0
           then throws_code start RD_KAFKA_RESP_ERR_INVALID_ARG
           else \<exists>pl. start = Inr pl \<and> vp_kafka_producer pl \<noteq> None)"
proof -
  let ?np = "worker_producer rc what random"
  let ?c = "g_cfg (d_globals d)"
  obtain kd plumbing where kd: "new_KafkaDelivery (kafka_delivery_cfg_parameters ?c) = Inr kd"
    and pl: "start = bindr (?np (kd_properties kd)) (\<lambda>p. Inr (plumbing p))"
      "\<And>p. vp_kafka_producer (plumbing p) = Some p"
    using kafka_plumbing_outcome [OF assms(1,2), of ?np connect] assms(3) by blast
  show ?thesis
  proof (cases "\<exists>n. log_level_ok (kd_log_level kd) n")
    case True
    then obtain n where n: "log_level_ok (kd_log_level kd) n" by blast
    show ?thesis
      using new_producer_outcome(2) [OF kd n, of rc what random] kd True
      by (auto simp: pl throws_code_def split: prod.split option.split)
  next
    case False
    then obtain e where "?np (kd_properties kd) = Inl (Throw (Kafka_exception e))"
      "Error_value e = RD_KAFKA_RESP_ERR_INVALID_ARG"
      using new_producer_outcome(1) [OF kd False, of rc what random] by blast
    then show ?thesis using kd False by (auto simp: pl throws_code_def)
  qed
qed

theorem running_kafka_worker_starts_witness:
  "\<exists>d kd start. run_daemon sample_host ''f'' boot = Inr (Running d) \<and>
     new_KafkaDelivery (kafka_delivery_cfg_parameters (g_cfg (d_globals d))) = Inr kd \<and>
     new_VendorPlumbing ref_producer (\<lambda>_. Inr ()) (g_cfg (d_globals d)) = start \<and>
     (if \<nexists>n. log_level_ok (kd_log_level kd) n then throws_code start RD_KAFKA_RESP_ERR_INVALID_ARG
      else \<exists>pl. start = Inr pl \<and> vp_kafka_producer pl \<noteq> None)"
proof -
  obtain d where d: "run_daemon sample_host ''f'' boot = Inr (Running d)" using sample_running by blast
  note l = load_configurationD [OF run_daemonD(1) [OF d]]
  have k: "main_cfg_parameters (g_cfg (d_globals d)) ''data_delivery_method'' = Some ''kafka''"
    using l(2) sample_host_main by auto
  from running_kafka_worker_starts [OF d k refl, where rc = ref_conf and what = "\<lambda>_. []" and random = "''r''"
      and connect = "\<lambda>_. Inr ()"]
  show ?thesis using d by (auto simp: producer_handle_def ref_conf_def split: if_splits)
qed

end
